(* ===== verification/Prelude.thy ===== *)
theory Prelude
  imports Main "HOL-Library.Word" "HOL-Library.Sublist" "HOL-Library.Monad_Syntax"
begin

text \<open>
  Shared vocabulary of the development: the result type of fallible Rust code, the
  fragment of Rust's \<open>str\<close> and \<open>Vec\<close> interfaces that the components call, integer
  parsing, and the generic lemmas the component proofs rest on.

  A Rust \<open>String\<close> is a \<^typ>\<open>string\<close> (a list of bytes). The whitespace that \<open>str::trim\<close>
  removes is the ASCII part of Unicode's White\_Space (tab, line feed, vertical tab, form
  feed, carriage return, space): strings with non-ASCII spaces at their ends are outside the
  model. Case mapping is Rust's \<open>to_ascii_lowercase\<close>, which is byte-wise. An unsigned
  integer of fixed width is a \<^typ>\<open>nat\<close> with its bound written where the code checks it, or
  a word where the code computes with bits.
\<close>

section \<open>Results\<close>

type_synonym ('e, 'a) result = "'e + 'a"

abbreviation Ok :: "'a \<Rightarrow> ('e, 'a) result" where
  "Ok \<equiv> Inr"

abbreviation Err :: "'e \<Rightarrow> ('e, 'a) result" where
  "Err \<equiv> Inl"

definition and_then :: "('e, 'a) result \<Rightarrow> ('a \<Rightarrow> ('e, 'b) result) \<Rightarrow> ('e, 'b) result" where
  "and_then r f = (case r of Inl e \<Rightarrow> Inl e | Inr x \<Rightarrow> f x)"

definition is_ok :: "('e, 'a) result \<Rightarrow> bool" where
  "is_ok r = (case r of Inl _ \<Rightarrow> False | Inr _ \<Rightarrow> True)"

definition ok_option :: "('e, 'a) result \<Rightarrow> 'a option" where
  "ok_option r = (case r of Inl _ \<Rightarrow> None | Inr x \<Rightarrow> Some x)"

text \<open>A Rust \<open>for\<close> loop whose body may return an error: the first error ends it.\<close>

fun fold_result :: "('a \<Rightarrow> 's \<Rightarrow> ('e, 's) result) \<Rightarrow> 'a list \<Rightarrow> 's \<Rightarrow> ('e, 's) result" where
  "fold_result f [] s = Inr s"
| "fold_result f (x # xs) s = (case f x s of Inl e \<Rightarrow> Inl e | Inr s' \<Rightarrow> fold_result f xs s')"

section \<open>Lists as \<open>Vec\<close>\<close>

text \<open>\<open>if !v.contains(x) { v.push(x) }\<close>, for a comparison \<open>eq\<close> (paths compare by component).\<close>

definition push_unique :: "('a \<Rightarrow> 'a \<Rightarrow> bool) \<Rightarrow> 'a \<Rightarrow> 'a list \<Rightarrow> 'a list" where
  "push_unique eq x xs = (if list_ex (eq x) xs then xs else xs @ [x])"

definition is_none_or_empty :: "string option \<Rightarrow> bool" where
  "is_none_or_empty s = (case s of None \<Rightarrow> True | Some t \<Rightarrow> t = [])"

section \<open>Strings as \<open>str\<close>\<close>

definition is_ascii_ws :: "char \<Rightarrow> bool" where
  "is_ascii_ws c = (let n = (of_char c :: nat) in n = 32 \<or> 9 \<le> n \<and> n \<le> 13)"

definition is_ascii_digit :: "char \<Rightarrow> bool" where
  "is_ascii_digit c = (let n = (of_char c :: nat) in 48 \<le> n \<and> n \<le> 57)"

definition ascii_lower :: "char \<Rightarrow> char" where
  "ascii_lower c = (let n = (of_char c :: nat) in if 65 \<le> n \<and> n \<le> 90 then char_of (n + 32) else c)"

definition to_ascii_lowercase :: "string \<Rightarrow> string" where
  "to_ascii_lowercase s = map ascii_lower s"

definition eq_ignore_ascii_case :: "string \<Rightarrow> string \<Rightarrow> bool" where
  "eq_ignore_ascii_case s t = (to_ascii_lowercase s = to_ascii_lowercase t)"

definition trim_start_matches :: "(char \<Rightarrow> bool) \<Rightarrow> string \<Rightarrow> string" where
  "trim_start_matches P s = dropWhile P s"

definition trim_end_matches :: "(char \<Rightarrow> bool) \<Rightarrow> string \<Rightarrow> string" where
  "trim_end_matches P s = rev (dropWhile P (rev s))"

definition trim :: "string \<Rightarrow> string" where
  "trim s = trim_end_matches is_ascii_ws (trim_start_matches is_ascii_ws s)"

definition starts_with :: "string \<Rightarrow> string \<Rightarrow> bool" where
  "starts_with s p = prefix p s"

definition ends_with :: "string \<Rightarrow> string \<Rightarrow> bool" where
  "ends_with s p = suffix p s"

definition strip_prefix :: "string \<Rightarrow> string \<Rightarrow> string option" where
  "strip_prefix p s = (if prefix p s then Some (drop (length p) s) else None)"

definition strip_suffix :: "string \<Rightarrow> string \<Rightarrow> string option" where
  "strip_suffix p s = (if suffix p s then Some (take (length s - length p) s) else None)"

text \<open>\<open>s.split(c)\<close>: never empty, the empty string splits into one empty piece.\<close>

fun split_on :: "(char \<Rightarrow> bool) \<Rightarrow> string \<Rightarrow> string list" where
  "split_on P [] = [[]]"
| "split_on P (c # cs) =
     (if P c then [] # split_on P cs
      else (case split_on P cs of [] \<Rightarrow> [[c]] | p # ps \<Rightarrow> (c # p) # ps))"

text \<open>\<open>s.split_whitespace()\<close>: the non-empty pieces.\<close>

definition split_whitespace :: "string \<Rightarrow> string list" where
  "split_whitespace s = filter (\<lambda>p. p \<noteq> []) (split_on is_ascii_ws s)"

text \<open>\<open>s.rsplit_once(c)\<close>: split at the last occurrence.\<close>

definition rsplit_once :: "char \<Rightarrow> string \<Rightarrow> (string \<times> string) option" where
  "rsplit_once c s =
     (if c \<in> set s
      then Some (rev (tl (dropWhile (\<lambda>x. x \<noteq> c) (rev s))), rev (takeWhile (\<lambda>x. x \<noteq> c) (rev s)))
      else None)"

text \<open>\<open>s.find(pat)\<close> for a string pattern, as the text behind and before its first occurrence, and
  \<open>s.contains(pat)\<close>.\<close>

fun after_first :: "string \<Rightarrow> string \<Rightarrow> string option" where
  "after_first pat [] = (if pat = [] then Some [] else None)"
| "after_first pat (c # cs) =
     (if prefix pat (c # cs) then Some (drop (length pat) (c # cs)) else after_first pat cs)"

fun before_first :: "string \<Rightarrow> string \<Rightarrow> string option" where
  "before_first pat [] = (if pat = [] then Some [] else None)"
| "before_first pat (c # cs) =
     (if prefix pat (c # cs) then Some [] else map_option (Cons c) (before_first pat cs))"

definition contains_str :: "string \<Rightarrow> string \<Rightarrow> bool" where
  "contains_str s pat = (after_first pat s \<noteq> None)"

section \<open>Parsing unsigned integers\<close>

definition digit_val :: "char \<Rightarrow> nat" where
  "digit_val c = of_char c - 48"

definition digits_val :: "string \<Rightarrow> nat" where
  "digits_val s = foldl (\<lambda>n c. 10 * n + digit_val c) 0 s"

text \<open>\<open>s.parse::<uN>()\<close>: an optional plus sign, then one or more digits, below \<open>2 ^ N\<close>.\<close>

definition parse_uint :: "nat \<Rightarrow> string \<Rightarrow> nat option" where
  "parse_uint w s =
     (let d = (case s of [] \<Rightarrow> [] | c # cs \<Rightarrow> if c = CHR ''+'' then cs else s)
      in if d \<noteq> [] \<and> list_all is_ascii_digit d \<and> digits_val d < 2 ^ w
         then Some (digits_val d) else None)"

abbreviation parse_u64 :: "string \<Rightarrow> nat option" where
  "parse_u64 \<equiv> parse_uint 64"

section \<open>Printing\<close>

definition digit_char :: "nat \<Rightarrow> char" where
  "digit_char d = char_of (48 + d)"

text \<open>\<open>n.to_string()\<close>.\<close>

fun show_nat :: "nat \<Rightarrow> string" where
  "show_nat n =
     (if n < 10 then [digit_char n] else show_nat (n div 10) @ [digit_char (n mod 10)])"

declare show_nat.simps [simp del]

text \<open>\<open>v.join(sep)\<close>.\<close>

fun join_with :: "string \<Rightarrow> string list \<Rightarrow> string" where
  "join_with sep [] = []"
| "join_with sep [s] = s"
| "join_with sep (s # t # ts) = s @ sep @ join_with sep (t # ts)"

text \<open>The \<open>{:?}\<close> form of a string or path: quoted, with \<open>escape_debug\<close> on the ASCII
  characters that need it.\<close>

definition hex_digit :: "nat \<Rightarrow> char" where
  "hex_digit d = (if d < 10 then char_of (48 + d) else char_of (87 + d))"

definition escape_debug :: "char \<Rightarrow> string" where
  "escape_debug c =
     (let n = (of_char c :: nat)
      in if n = 0 then [CHR 0x5C, CHR ''0'']
         else if n = 9 then [CHR 0x5C, CHR ''t'']
         else if n = 10 then [CHR 0x5C, CHR ''n'']
         else if n = 13 then [CHR 0x5C, CHR ''r'']
         else if n = 34 \<or> n = 92 then [CHR 0x5C, c]
         else if n < 32 \<or> n = 127
         then [CHR 0x5C, CHR ''u'', CHR ''{''] @
              (if n < 16 then [hex_digit n] else [hex_digit (n div 16), hex_digit (n mod 16)]) @
              [CHR ''}'']
         else [c])"

definition debug_str :: "string \<Rightarrow> string" where
  "debug_str s = [CHR 0x22] @ concat (map escape_debug s) @ [CHR 0x22]"

section \<open>Lemmas on results and loops\<close>

lemma and_then_simps [simp]:
  "and_then (Inl e) f = Inl e" "and_then (Inr x) f = f x"
  by (simp_all add: and_then_def)

lemma and_then_Inr [simp]: "and_then r f = Inr y \<longleftrightarrow> (\<exists>x. r = Inr x \<and> f x = Inr y)"
  by (cases r) (simp_all add: and_then_def)

lemma and_then_Inl: "and_then r f = Inl e \<longleftrightarrow> r = Inl e \<or> (\<exists>x. r = Inr x \<and> f x = Inl e)"
  by (cases r) (simp_all add: and_then_def)

lemma is_ok_simps [simp]: "is_ok (Inl e) = False" "is_ok (Inr x) = True"
  by (simp_all add: is_ok_def)

lemma is_ok_iff: "is_ok r \<longleftrightarrow> (\<exists>x. r = Inr x)"
  by (cases r) simp_all

text \<open>The loop rule: an invariant every successful body keeps holds at the end of the loop.\<close>

lemma fold_result_inv:
  assumes "fold_result f xs s = Inr s'" and "P s"
    and "\<And>x s s'. x \<in> set xs \<Longrightarrow> P s \<Longrightarrow> f x s = Inr s' \<Longrightarrow> P s'"
  shows "P s'"
  using assms
proof (induction xs arbitrary: s)
  case Nil
  then show ?case by simp
next
  case (Cons x xs)
  then obtain t where t: "f x s = Inr t" "fold_result f xs t = Inr s'"
    by (auto split: sum.splits)
  have "P t" using Cons.prems(2,3) t(1) by auto
  with t(2) Cons.prems(3) show ?case by (intro Cons.IH) auto
qed

text \<open>A check-only loop succeeds exactly when every body does.\<close>

definition check_all :: "('a \<Rightarrow> ('e, unit) result) \<Rightarrow> 'a list \<Rightarrow> ('e, unit) result" where
  "check_all f xs = fold_result (\<lambda>x _. f x) xs ()"

lemma check_all_simps [simp]:
  "check_all f [] = Inr ()"
  "check_all f (x # xs) = and_then (f x) (\<lambda>_. check_all f xs)"
  by (simp_all add: check_all_def and_then_def split: sum.splits)

lemma check_all_ok: "check_all f xs = Inr () \<longleftrightarrow> (\<forall>x \<in> set xs. f x = Inr ())"
  by (induction xs) auto

lemma check_all_err: "check_all f xs = Inl e \<Longrightarrow> \<exists>x \<in> set xs. f x = Inl e"
  by (induction xs) (auto simp: and_then_Inl)

lemma unit_result_cases: "(r :: ('e, unit) result) = Inr () \<or> (\<exists>e. r = Inl e)"
  by (cases r) auto

section \<open>Lemmas on strings\<close>

lemma split_on_nonempty [simp]: "split_on P s \<noteq> []"
  by (induction s) (auto split: list.splits)

lemma split_on_append_sep:
  "P c \<Longrightarrow> split_on P (s @ c # t) = split_on P s @ split_on P t"
  by (induction s) (auto split: list.splits)

lemma split_on_no_sep: "list_all (\<lambda>c. \<not> P c) s \<Longrightarrow> split_on P s = [s]"
  by (induction s) auto

lemma split_on_pieces: "p \<in> set (split_on P s) \<Longrightarrow> list_all (\<lambda>c. \<not> P c) p"
proof (induction s arbitrary: p)
  case Nil
  then show ?case by simp
next
  case (Cons c s)
  then show ?case by (cases "split_on P s") (auto split: if_splits)
qed

lemma starts_with_refl [simp]: "starts_with s s"
  by (simp add: starts_with_def)

lemma strip_prefix_Some: "strip_prefix p s = Some r \<longleftrightarrow> s = p @ r"
  by (auto simp: strip_prefix_def prefix_def)

lemma strip_suffix_Some: "strip_suffix p s = Some r \<longleftrightarrow> s = r @ p"
  by (auto simp: strip_suffix_def suffix_def)

lemma to_ascii_lowercase_append [simp]:
  "to_ascii_lowercase (s @ t) = to_ascii_lowercase s @ to_ascii_lowercase t"
  by (simp add: to_ascii_lowercase_def)

lemma ascii_lower_idem [simp]: "ascii_lower (ascii_lower c) = ascii_lower c"
proof (cases "65 \<le> (of_char c :: nat) \<and> (of_char c :: nat) \<le> 90")
  case True
  then have "of_char (char_of (of_char c + 32 :: nat)) = (of_char c + 32 :: nat)"
    by simp
  with True show ?thesis by (simp add: ascii_lower_def Let_def)
next
  case False
  then show ?thesis by (auto simp: ascii_lower_def Let_def)
qed

lemma to_ascii_lowercase_idem [simp]:
  "to_ascii_lowercase (to_ascii_lowercase s) = to_ascii_lowercase s"
  by (simp add: to_ascii_lowercase_def)

lemma parse_uint_bound: "parse_uint w s = Some n \<Longrightarrow> n < 2 ^ w"
  by (auto simp: parse_uint_def Let_def split: if_splits)

lemma trim_end_matches_idem [simp]:
  "trim_end_matches P (trim_end_matches P s) = trim_end_matches P s"
  by (simp add: trim_end_matches_def)

lemma trim_end_start_commute:
  "trim_end_matches P (trim_start_matches P s) = trim_start_matches P (trim_end_matches P s)"
proof (cases "list_all P s")
  case True
  then have e: "dropWhile P s = []" "dropWhile P (rev s) = []" by (simp_all add: list_all_iff)
  show ?thesis
    by (simp only: trim_end_matches_def trim_start_matches_def e rev.simps dropWhile.simps)
next
  case False
  then obtain xs y zs where s: "s = xs @ y # zs" "list_all P xs" "\<not> P y"
    using split_list_first_prop [of s "\<lambda>x. \<not> P x"] by (auto simp: list_all_iff)
  then obtain us v ws where t: "y # zs = us @ v # ws" "list_all P ws" "\<not> P v"
    using split_list_last_prop [of "y # zs" "\<lambda>x. \<not> P x"] by (auto simp: list_all_iff)
  have s2: "s = xs @ us @ v # ws" using s t by simp
  have w: "dropWhile P (rev ws @ v # xs) = v # xs" for xs
    using t dropWhile_append2 [of "rev ws" P "v # xs"] by (auto simp: list_all_iff)
  have y: "dropWhile P (us @ [v]) = us @ [v]"
    using s t by (cases us) auto
  have 1: "dropWhile P s = us @ v # ws"
    using s t by (cases us) (auto simp: dropWhile_append2 list_all_iff)
  have 2: "rev (dropWhile P (rev (us @ v # ws))) = us @ [v]"
    by (simp add: w)
  have 3: "rev (dropWhile P (rev s)) = xs @ us @ [v]"
    by (simp add: s2 w)
  have 4: "dropWhile P (xs @ us @ [v]) = us @ [v]"
    using s y dropWhile_append2 [of xs P "us @ [v]"] by (simp add: list_all_iff)
  show ?thesis by (simp only: trim_end_matches_def trim_start_matches_def 1 2 3 4)
qed

lemma trim_idem [simp]: "trim (trim s) = trim s"
  by (simp add: trim_def trim_end_start_commute [symmetric])
     (simp add: trim_start_matches_def trim_end_start_commute trim_end_matches_def)

section \<open>Lemmas on printing\<close>

lemma digit_char_digit: "d < 10 \<Longrightarrow> is_ascii_digit (digit_char d) \<and> digit_val (digit_char d) = d"
  by (simp add: is_ascii_digit_def digit_char_def digit_val_def)

lemma digits_val_snoc: "digits_val (s @ [c]) = 10 * digits_val s + digit_val c"
  by (simp add: digits_val_def)

lemma show_nat_digits: "show_nat n \<noteq> [] \<and> list_all is_ascii_digit (show_nat n) \<and> digits_val (show_nat n) = n"
proof (induction n rule: show_nat.induct)
  case (1 n)
  show ?case
  proof (cases "n < 10")
    case True
    then show ?thesis by (simp add: show_nat.simps [of n] digit_char_digit digits_val_def)
  next
    case False
    with 1 show ?thesis
      by (simp add: show_nat.simps [of n] digit_char_digit digits_val_snoc)
  qed
qed

text \<open>Printing an unsigned integer and parsing it gives it back.\<close>

lemma parse_uint_digits:
  assumes "s \<noteq> []" and "list_all is_ascii_digit s"
  shows "parse_uint w s = (if digits_val s < 2 ^ w then Some (digits_val s) else None)"
proof -
  have "\<not> is_ascii_digit (CHR ''+'')" by (simp add: is_ascii_digit_def)
  then have "hd s \<noteq> CHR ''+''" using assms by (cases s) auto
  then show ?thesis using assms by (cases s) (auto simp: parse_uint_def Let_def)
qed

lemma parse_show_nat: "n < 2 ^ w \<Longrightarrow> parse_uint w (show_nat n) = Some n"
  using show_nat_digits [of n] by (simp add: parse_uint_digits)

section \<open>Lemmas on joining\<close>

lemma join_with_Cons: "xs \<noteq> [] \<Longrightarrow> join_with sep (x # xs) = x @ sep @ join_with sep xs"
  by (cases xs) simp_all

lemma join_with_append:
  "xs \<noteq> [] \<Longrightarrow> ys \<noteq> [] \<Longrightarrow> join_with sep (xs @ ys) = join_with sep xs @ sep @ join_with sep ys"
proof (induction xs)
  case (Cons x xs)
  then show ?case by (cases "xs = []") (simp_all add: join_with_Cons)
qed simp

lemma join_with_split_on: "join_with [c] (split_on (\<lambda>x. x = c) s) = s"
proof (induction s)
  case (Cons d s)
  obtain p ps where ps: "split_on (\<lambda>x. x = c) s = p # ps" by (cases "split_on (\<lambda>x. x = c) s") auto
  with Cons show ?case by (cases ps) auto
qed simp

text \<open>The labels of a host name: a domain and its subdomains share their last labels.\<close>

definition labels :: "string \<Rightarrow> string list" where
  "labels s = split_on (\<lambda>c. c = CHR ''.'') s"

lemma strict_subdomain_labels:
  "ends_with host (CHR ''.'' # base) \<longleftrightarrow> strict_suffix (labels base) (labels host)"
proof
  assume "ends_with host (CHR ''.'' # base)"
  then obtain s where "host = s @ CHR ''.'' # base" by (auto simp: ends_with_def suffix_def)
  then show "strict_suffix (labels base) (labels host)"
    by (auto simp: labels_def split_on_append_sep strict_suffix_def suffix_def)
next
  assume "strict_suffix (labels base) (labels host)"
  then obtain xs where xs: "labels host = xs @ labels base" "xs \<noteq> []"
    by (auto simp: strict_suffix_def suffix_def)
  have "host = join_with ''.'' (labels host)" by (simp add: labels_def join_with_split_on)
  also have "\<dots> = join_with ''.'' xs @ CHR ''.'' # base"
    using xs by (simp add: join_with_append labels_def join_with_split_on)
  finally show "ends_with host (CHR ''.'' # base)" by (auto simp: ends_with_def suffix_def)
qed

lemma subdomain_labels:
  "host = base \<or> ends_with host (CHR ''.'' # base) \<longleftrightarrow> suffix (labels base) (labels host)"
proof -
  have "labels host = labels base \<longleftrightarrow> host = base"
    by (metis join_with_split_on labels_def)
  then show ?thesis unfolding strict_subdomain_labels by (auto simp: strict_suffix_def)
qed

section \<open>Lemmas on searches\<close>

lemma find_SomeD: "find P xs = Some x \<Longrightarrow> x \<in> set xs \<and> P x"
  by (induction xs) (auto split: if_splits)

lemma find_not_None: "(find P xs \<noteq> None) \<longleftrightarrow> (\<exists>x \<in> set xs. P x)"
  by (induction xs) auto

lemma after_first_Some: "after_first pat s = Some t \<Longrightarrow> \<exists>r. s = r @ pat @ t"
proof (induction s)
  case (Cons c s)
  show ?case
  proof (cases "prefix pat (c # s)")
    case True
    with Cons.prems show ?thesis by (auto simp: prefix_def intro: exI [of _ "[]"])
  next
    case False
    with Cons obtain r where "s = r @ pat @ t" by auto
    then have "c # s = (c # r) @ pat @ t" by simp
    then show ?thesis by blast
  qed
qed (simp split: if_splits)

lemma after_first_exists: "after_first pat (r @ pat @ t) \<noteq> None"
proof (induction r)
  case Nil
  have "prefix pat (pat @ t)" by simp
  then show ?case by (cases "pat @ t") auto
qed (auto split: if_splits)

lemma contains_str_sublist: "contains_str s pat \<longleftrightarrow> sublist pat s"
  unfolding contains_str_def sublist_def
  by (meson after_first_Some after_first_exists not_Some_eq)

section \<open>Lemmas on unique pushes\<close>

lemma set_push_unique: "set (push_unique eq x xs) \<subseteq> insert x (set xs)"
  by (auto simp: push_unique_def)

lemma push_unique_mono: "set xs \<subseteq> set (push_unique eq x xs)"
  by (auto simp: push_unique_def)

lemma push_unique_covers:
  "(\<And>y. eq y y) \<Longrightarrow> \<exists>y \<in> set (push_unique eq x xs). eq x y"
  by (auto simp: push_unique_def list_ex_iff)

lemma fold_push_unique_set:
  "set ys \<subseteq> set (fold (push_unique eq) xs ys) \<and> set (fold (push_unique eq) xs ys) \<subseteq> set xs \<union> set ys"
proof (induction xs arbitrary: ys)
  case (Cons x xs)
  have "set ys \<subseteq> set (push_unique eq x ys)" "set (push_unique eq x ys) \<subseteq> insert x (set ys)"
    by (rule push_unique_mono set_push_unique)+
  with Cons.IH [of "push_unique eq x ys"] show ?case by auto
qed simp

lemma fold_push_unique_covers:
  assumes "\<And>y. eq y y" and "x \<in> set xs"
  shows "\<exists>y \<in> set (fold (push_unique eq) xs ys). eq x y"
  using assms(2)
proof (induction xs arbitrary: ys)
  case (Cons z zs)
  show ?case
  proof (cases "x = z")
    case True
    obtain y where "y \<in> set (push_unique eq z ys)" "eq z y"
      using push_unique_covers [of eq z ys] assms(1) by blast
    then show ?thesis
      using True fold_push_unique_set [of "push_unique eq z ys" eq zs] by auto
  qed (use Cons in auto)
qed simp

lemma fold_push_unique_all:
  assumes "list_all P ys" and "\<And>x. x \<in> set xs \<Longrightarrow> P (f x)"
  shows "list_all P (fold (\<lambda>x. push_unique eq (f x)) xs ys)"
  using assms
proof (induction xs arbitrary: ys)
  case (Cons x xs)
  have "list_all P (push_unique eq (f x) ys)"
    using Cons.prems set_push_unique [of eq "f x" ys] by (auto simp: list_all_iff)
  then show ?case using Cons by simp
qed simp

lemma set_fold_insert: "set (fold (push_unique (=)) xs ys) = set xs \<union> set ys"
proof (induction xs arbitrary: ys)
  case (Cons x xs)
  then show ?case by (auto simp: push_unique_def list_ex_iff)
qed simp

section \<open>Reachable states and inductive invariants\<close>

text \<open>
  The stateful components are step relations. \<open>reach\<close> is their common notion of a reachable
  state, and \<open>inductive_invariant\<close> the interface through which a component's safety
  properties go: what holds initially and is kept by every step holds in every reachable state.
\<close>

inductive reach :: "('s \<Rightarrow> bool) \<Rightarrow> ('s \<Rightarrow> 's \<Rightarrow> bool) \<Rightarrow> 's \<Rightarrow> bool" for init step where
  reach_init: "init s \<Longrightarrow> reach init step s"
| reach_step: "reach init step s \<Longrightarrow> step s t \<Longrightarrow> reach init step t"

locale inductive_invariant =
  fixes init :: "'s \<Rightarrow> bool" and step :: "'s \<Rightarrow> 's \<Rightarrow> bool" and inv :: "'s \<Rightarrow> bool"
  assumes inv_init: "init s \<Longrightarrow> inv s"
    and inv_step: "inv s \<Longrightarrow> step s t \<Longrightarrow> inv t"
begin

lemma inv_reach: "reach init step s \<Longrightarrow> inv s"
  by (induction rule: reach.induct) (auto intro: inv_init inv_step)

lemma inv_path: "inv s \<Longrightarrow> step\<^sup>*\<^sup>* s t \<Longrightarrow> inv t"
  by (rotate_tac 1, induction rule: rtranclp.induct) (auto intro: inv_step)

end

end
