(* ===== verification/Fsm.thy ===== *)
theory Fsm
  imports Prelude
begin

text \<open>
  The execution state machine, \<open>src/src/policy_ir/fsm.rs\<close>: the states of a sandboxed run, the
  transition table with its process-extinction guard, the history log and the fail-closed
  operations. The clock reading that \<open>Instant::now()\<close> returns is an argument of the
  operations that log it.

  The lemmas show that the table refines a linear life cycle of phases (no run reaches a live
  child before its policy is compiled, its contract sealed and its isolation configured), that
  every active state can fail closed in one step, that a failure stays recorded, and that the
  completed states are absorbing and guarded by the extinction audit.
\<close>

section \<open>States\<close>

datatype ExecutionState =
    Uninitialized | PolicyCompiled | PreflightPassed | IsolationConfigured | ChildSpawned
  | Running | SignalReceived | Terminating | CleanedUp | Completed | EmergencyCleanup | Failed
  | Intent | ContractSealed | Prepare | Spawn | Enforce | Observe | Terminate | Cleanup
  | Verify | Attest | Verdict | FailClosed | Terminal

definition CANONICAL_STATES :: "ExecutionState list" where
  "CANONICAL_STATES =
     [Uninitialized, PolicyCompiled, PreflightPassed, IsolationConfigured, ChildSpawned,
      Running, SignalReceived, Terminating, CleanedUp, Completed, EmergencyCleanup, Failed]"

definition is_canonical :: "ExecutionState \<Rightarrow> bool" where
  "is_canonical s =
     (case s of
        Uninitialized \<Rightarrow> True | PolicyCompiled \<Rightarrow> True | PreflightPassed \<Rightarrow> True
      | IsolationConfigured \<Rightarrow> True | ChildSpawned \<Rightarrow> True | Running \<Rightarrow> True
      | SignalReceived \<Rightarrow> True | Terminating \<Rightarrow> True | CleanedUp \<Rightarrow> True
      | Completed \<Rightarrow> True | EmergencyCleanup \<Rightarrow> True | Failed \<Rightarrow> True | _ \<Rightarrow> False)"

fun to_canonical :: "ExecutionState \<Rightarrow> ExecutionState" where
  "to_canonical Uninitialized = Uninitialized"
| "to_canonical Intent = Uninitialized"
| "to_canonical PolicyCompiled = PolicyCompiled"
| "to_canonical PreflightPassed = PreflightPassed"
| "to_canonical ContractSealed = PreflightPassed"
| "to_canonical IsolationConfigured = IsolationConfigured"
| "to_canonical Prepare = IsolationConfigured"
| "to_canonical Enforce = IsolationConfigured"
| "to_canonical ChildSpawned = ChildSpawned"
| "to_canonical Spawn = ChildSpawned"
| "to_canonical Running = Running"
| "to_canonical Observe = Running"
| "to_canonical SignalReceived = SignalReceived"
| "to_canonical Terminating = Terminating"
| "to_canonical Terminate = Terminating"
| "to_canonical CleanedUp = CleanedUp"
| "to_canonical Cleanup = CleanedUp"
| "to_canonical Verify = CleanedUp"
| "to_canonical Attest = CleanedUp"
| "to_canonical Verdict = CleanedUp"
| "to_canonical Completed = Completed"
| "to_canonical Terminal = Completed"
| "to_canonical EmergencyCleanup = EmergencyCleanup"
| "to_canonical Failed = Failed"
| "to_canonical FailClosed = Failed"

definition is_terminal_state :: "ExecutionState \<Rightarrow> bool" where
  "is_terminal_state s = (s \<in> {Completed, Terminal, Failed, FailClosed})"

definition is_active_state :: "ExecutionState \<Rightarrow> bool" where
  "is_active_state s = (\<not> is_terminal_state s)"

fun as_str :: "ExecutionState \<Rightarrow> string" where
  "as_str Uninitialized = ''Uninitialized''"
| "as_str PolicyCompiled = ''PolicyCompiled''"
| "as_str PreflightPassed = ''PreflightPassed''"
| "as_str IsolationConfigured = ''IsolationConfigured''"
| "as_str ChildSpawned = ''ChildSpawned''"
| "as_str Running = ''Running''"
| "as_str SignalReceived = ''SignalReceived''"
| "as_str Terminating = ''Terminating''"
| "as_str CleanedUp = ''CleanedUp''"
| "as_str Completed = ''Completed''"
| "as_str EmergencyCleanup = ''EmergencyCleanup''"
| "as_str Failed = ''Failed''"
| "as_str Intent = ''Intent''"
| "as_str ContractSealed = ''ContractSealed''"
| "as_str Prepare = ''Prepare''"
| "as_str Spawn = ''Spawn''"
| "as_str Enforce = ''Enforce''"
| "as_str Observe = ''Observe''"
| "as_str Terminate = ''Terminate''"
| "as_str Cleanup = ''Cleanup''"
| "as_str Verify = ''Verify''"
| "as_str Attest = ''Attest''"
| "as_str Verdict = ''Verdict''"
| "as_str FailClosed = ''FailClosed''"
| "as_str Terminal = ''Terminal''"

datatype StateTransitionError =
    InvalidTransition ExecutionState ExecutionState string
  | FailClosedError ExecutionState string

definition transition_exit_code :: "StateTransitionError \<Rightarrow> int" where
  "transition_exit_code e = 125"

section \<open>The machine\<close>

record ExecutionStateMachine =
  current_state :: ExecutionState
  history :: "(ExecutionState \<times> nat) list"
  surviving_descendants :: "nat option"

definition from_state :: "ExecutionState \<Rightarrow> nat \<Rightarrow> ExecutionStateMachine" where
  "from_state s now = \<lparr>current_state = s, history = [(s, now)], surviving_descendants = None\<rparr>"

definition new_machine :: "nat \<Rightarrow> ExecutionStateMachine" where
  "new_machine now =
     \<lparr>current_state = Intent, history = [(Intent, now)], surviving_descendants = None\<rparr>"

definition new_canonical :: "nat \<Rightarrow> ExecutionStateMachine" where
  "new_canonical now =
     \<lparr>current_state = Uninitialized, history = [(Uninitialized, now)],
      surviving_descendants = None\<rparr>"

definition record_extinction_result :: "nat \<Rightarrow> ExecutionStateMachine \<Rightarrow> ExecutionStateMachine" where
  "record_extinction_result n m = m\<lparr>surviving_descendants := Some n\<rparr>"

definition canonical_state :: "ExecutionStateMachine \<Rightarrow> ExecutionState" where
  "canonical_state m = to_canonical (current_state m)"

definition is_terminal :: "ExecutionStateMachine \<Rightarrow> bool" where
  "is_terminal m = is_terminal_state (current_state m)"

definition failure_state :: "ExecutionState \<Rightarrow> bool" where
  "failure_state s = (s \<in> {FailClosed, EmergencyCleanup, Failed})"

definition is_fail_closed :: "ExecutionStateMachine \<Rightarrow> bool" where
  "is_fail_closed m =
     (failure_state (current_state m) \<or> list_ex (\<lambda>(s, _). failure_state s) (history m))"

definition canonical_marker :: "ExecutionState \<Rightarrow> bool" where
  "canonical_marker s =
     (s \<in> {Uninitialized, PreflightPassed, IsolationConfigured, ChildSpawned, Running,
           SignalReceived, Terminating, CleanedUp, Completed, Failed})"

definition legacy_marker :: "ExecutionState \<Rightarrow> bool" where
  "legacy_marker s =
     (s \<in> {Intent, ContractSealed, Prepare, Spawn, Enforce, Observe, Terminate, Cleanup,
           Verify, Attest, Verdict, FailClosed, Terminal})"

definition is_canonical_mode :: "ExecutionStateMachine \<Rightarrow> bool" where
  "is_canonical_mode m =
     (if canonical_marker (current_state m) then True
      else if legacy_marker (current_state m) then False
      else list_ex (\<lambda>(s, _). canonical_marker s) (history m) \<and>
           \<not> list_ex (\<lambda>(s, _). legacy_marker s) (history m))"

section \<open>The transition table\<close>

definition canonical_pipeline :: "(ExecutionState \<times> ExecutionState) list" where
  "canonical_pipeline =
     [(Uninitialized, PolicyCompiled), (PolicyCompiled, PreflightPassed),
      (PreflightPassed, IsolationConfigured), (IsolationConfigured, ChildSpawned),
      (ChildSpawned, Running), (Running, Terminating), (Running, SignalReceived),
      (SignalReceived, Terminating), (Terminating, CleanedUp), (CleanedUp, Completed)]"

definition legacy_pipeline :: "(ExecutionState \<times> ExecutionState) list" where
  "legacy_pipeline =
     [(Intent, PolicyCompiled), (PolicyCompiled, ContractSealed), (ContractSealed, Prepare),
      (Prepare, Spawn), (Spawn, Enforce), (Enforce, Observe), (Observe, Terminate),
      (Terminate, Cleanup), (Cleanup, Verify), (Verify, Attest), (Attest, Verdict),
      (Verdict, Terminal)]"

definition interop_bridges :: "(ExecutionState \<times> ExecutionState) list" where
  "interop_bridges =
     [(Uninitialized, Intent), (Intent, Uninitialized), (PreflightPassed, Prepare),
      (ContractSealed, IsolationConfigured),
      (IsolationConfigured, Spawn), (Prepare, ChildSpawned), (ChildSpawned, Observe),
      (Spawn, Running), (Enforce, Running),
      (Observe, SignalReceived), (Observe, Terminating), (Running, Terminate),
      (SignalReceived, Terminate),
      (Terminate, CleanedUp), (Terminating, Cleanup), (CleanedUp, Verify),
      (Cleanup, CleanedUp), (CleanedUp, Terminal), (Verdict, Completed),
      (Completed, Terminal), (Terminal, Completed)]"

definition failing_states :: "ExecutionState list" where
  "failing_states =
     [Uninitialized, PolicyCompiled, PreflightPassed, IsolationConfigured, ChildSpawned,
      Running, SignalReceived, Terminating, CleanedUp,
      Intent, ContractSealed, Prepare, Spawn, Enforce, Observe, Terminate, Cleanup,
      Verify, Attest, Verdict]"

definition fail_transitions :: "(ExecutionState \<times> ExecutionState) list" where
  "fail_transitions =
     concat (map (\<lambda>s. [(s, FailClosed), (s, Failed), (s, EmergencyCleanup)]) failing_states)"

definition recovery_transitions :: "(ExecutionState \<times> ExecutionState) list" where
  "recovery_transitions =
     [(FailClosed, FailClosed), (Failed, Failed), (FailClosed, Failed), (Failed, FailClosed),
      (FailClosed, EmergencyCleanup), (Failed, EmergencyCleanup),
      (EmergencyCleanup, EmergencyCleanup), (EmergencyCleanup, FailClosed),
      (EmergencyCleanup, Failed), (EmergencyCleanup, Terminal)]"

definition valid_transition :: "ExecutionState \<Rightarrow> ExecutionState \<Rightarrow> bool" where
  "valid_transition s t =
     ((s, t) \<in> set (canonical_pipeline @ legacy_pipeline @ interop_bridges @
                     fail_transitions @ recovery_transitions))"

section \<open>Operations\<close>

definition survivors_block :: "ExecutionStateMachine \<Rightarrow> ExecutionState \<Rightarrow> bool" where
  "survivors_block m next =
     ((next = Terminal \<or> next = Completed) \<and>
      (case surviving_descendants m of None \<Rightarrow> 0 | Some n \<Rightarrow> n) > 0)"

definition transition ::
  "ExecutionState \<Rightarrow> nat \<Rightarrow> ExecutionStateMachine \<Rightarrow>
   (StateTransitionError, ExecutionStateMachine) result" where
  "transition next now m =
     (if survivors_block m next
      then Err (InvalidTransition (current_state m) next
             ''terminal state forbidden: live descendant processes detected'')
      else if \<not> valid_transition (current_state m) next
      then Err (InvalidTransition (current_state m) next
             ''transition disallowed by execution state machine transition table'')
      else Ok (m\<lparr>current_state := next, history := history m @ [(next, now)]\<rparr>))"

text \<open>The fail-closed operations always return an error value; the machine they leave behind
  is the first component.\<close>

definition fail_closed_to ::
  "ExecutionState \<Rightarrow> string \<Rightarrow> nat \<Rightarrow> ExecutionStateMachine \<Rightarrow>
   ExecutionStateMachine \<times> StateTransitionError" where
  "fail_closed_to target err now m =
     (case transition target now m of
        Inl e \<Rightarrow> (m, e)
      | Inr m' \<Rightarrow> (m', FailClosedError (current_state m) err))"

definition fail_closed ::
  "string \<Rightarrow> nat \<Rightarrow> ExecutionStateMachine \<Rightarrow> ExecutionStateMachine \<times> StateTransitionError" where
  "fail_closed err now m =
     (let target = (if is_canonical_mode m then Failed else FailClosed)
      in case transition target now m of
           Inl e \<Rightarrow> (m, e)
         | Inr m' \<Rightarrow> (m', FailClosedError (current_state m) err))"

definition fail_closed_canonical ::
  "string \<Rightarrow> nat \<Rightarrow> ExecutionStateMachine \<Rightarrow> ExecutionStateMachine \<times> StateTransitionError" where
  "fail_closed_canonical = fail_closed_to Failed"

definition fail_closed_emergency ::
  "string \<Rightarrow> nat \<Rightarrow> ExecutionStateMachine \<Rightarrow> ExecutionStateMachine \<times> StateTransitionError" where
  "fail_closed_emergency = fail_closed_to EmergencyCleanup"

text \<open>A whole run: the transitions a caller asks for, in order, stopping at the first refusal.\<close>

fun run_transitions ::
  "ExecutionState list \<Rightarrow> nat \<Rightarrow> ExecutionStateMachine \<Rightarrow>
   (StateTransitionError, ExecutionStateMachine) result" where
  "run_transitions [] now m = Ok m"
| "run_transitions (s # ss) now m =
     (case transition s now m of Inl e \<Rightarrow> Err e | Inr m' \<Rightarrow> run_transitions ss (Suc now) m')"

text \<open>The step relation of the machine under all its mutating operations, errors included.\<close>

inductive fsm_step :: "ExecutionStateMachine \<Rightarrow> ExecutionStateMachine \<Rightarrow> bool" where
  step_transition: "transition s now m = Inr m' \<Longrightarrow> fsm_step m m'"
| step_refused: "transition s now m = Inl e \<Longrightarrow> fsm_step m m"
| step_record: "fsm_step m (record_extinction_result n m)"
| step_fail_closed: "fail_closed err now m = (m', e) \<Longrightarrow> fsm_step m m'"
| step_fail_closed_to: "fail_closed_to t err now m = (m', e) \<Longrightarrow> fsm_step m m'"

definition fsm_init :: "ExecutionStateMachine \<Rightarrow> bool" where
  "fsm_init m = (\<exists>now. m = new_machine now \<or> m = new_canonical now)"

section \<open>The abstract life cycle\<close>

text \<open>
  What the machine promises, independently of the two vocabularies of states: a run moves
  through the phases in order, one at a time; it may fail from any phase but the last; after a
  failure it can only stay failed or be closed.
\<close>

datatype phase =
  Pending | Compiled | Sealed | Isolated | Spawned | Live | Stopping | Swept | Done | Broken

fun phase_of :: "ExecutionState \<Rightarrow> phase" where
  "phase_of Uninitialized = Pending" | "phase_of Intent = Pending"
| "phase_of PolicyCompiled = Compiled"
| "phase_of PreflightPassed = Sealed" | "phase_of ContractSealed = Sealed"
| "phase_of IsolationConfigured = Isolated" | "phase_of Prepare = Isolated"
| "phase_of ChildSpawned = Spawned" | "phase_of Spawn = Spawned" | "phase_of Enforce = Spawned"
| "phase_of Running = Live" | "phase_of Observe = Live" | "phase_of SignalReceived = Live"
| "phase_of Terminating = Stopping" | "phase_of Terminate = Stopping"
| "phase_of CleanedUp = Swept" | "phase_of Cleanup = Swept" | "phase_of Verify = Swept"
| "phase_of Attest = Swept" | "phase_of Verdict = Swept"
| "phase_of Completed = Done" | "phase_of Terminal = Done"
| "phase_of EmergencyCleanup = Broken" | "phase_of Failed = Broken" | "phase_of FailClosed = Broken"

fun phase_index :: "phase \<Rightarrow> nat" where
  "phase_index Pending = 0" | "phase_index Compiled = 1" | "phase_index Sealed = 2"
| "phase_index Isolated = 3" | "phase_index Spawned = 4" | "phase_index Live = 5"
| "phase_index Stopping = 6" | "phase_index Swept = 7" | "phase_index Done = 8"
| "phase_index Broken = 9"

definition phase_step :: "phase \<Rightarrow> phase \<Rightarrow> bool" where
  "phase_step p q =
     (if p = Broken then q = Broken \<or> q = Done
      else if q = Broken then p \<noteq> Done
      else phase_index q = phase_index p \<or> phase_index q = Suc (phase_index p))"

section \<open>Lemmas on the table\<close>

lemmas table_defs = valid_transition_def canonical_pipeline_def legacy_pipeline_def
  interop_bridges_def fail_transitions_def failing_states_def recovery_transitions_def

lemma to_canonical_retract: "to_canonical s = s \<longleftrightarrow> is_canonical s"
  by (cases s) (simp_all add: is_canonical_def)

lemma to_canonical_terminal: "is_terminal_state (to_canonical s) = is_terminal_state s"
  by (cases s) (simp_all add: is_terminal_state_def)

lemma as_str_inj: "as_str s = as_str t \<Longrightarrow> s = t"
  by (cases s; cases t) simp_all

lemma valid_transition_phase: "valid_transition s t \<Longrightarrow> phase_step (phase_of s) (phase_of t)"
  by (auto simp: table_defs phase_step_def)

lemma valid_transition_fail:
  "valid_transition s Failed \<longleftrightarrow> s \<noteq> Completed \<and> s \<noteq> Terminal"
  "valid_transition s FailClosed \<longleftrightarrow> s \<noteq> Completed \<and> s \<noteq> Terminal"
  "valid_transition s EmergencyCleanup \<longleftrightarrow> s \<noteq> Completed \<and> s \<noteq> Terminal"
  by (cases s; simp add: table_defs)+

lemma failure_state_phase: "failure_state s \<longleftrightarrow> phase_of s = Broken"
  by (cases s) (simp_all add: failure_state_def)

lemma done_phase: "phase_of s = Done \<longleftrightarrow> s = Completed \<or> s = Terminal"
  by (cases s) simp_all

section \<open>Lemmas on the operations\<close>

lemma transition_Inr:
  "transition s now m = Inr m' \<longleftrightarrow>
     \<not> survivors_block m s \<and> valid_transition (current_state m) s \<and>
     m' = m\<lparr>current_state := s, history := history m @ [(s, now)]\<rparr>"
  by (auto simp: transition_def)

lemma fail_closed_eq:
  "fail_closed err now m =
     fail_closed_to (if is_canonical_mode m then Failed else FailClosed) err now m"
  by (simp add: fail_closed_def fail_closed_to_def Let_def)

lemma fail_closed_to_cases:
  assumes "fail_closed_to t err now m = (m', e)"
  obtains "m' = m" | "transition t now m = Inr m'"
  using assms by (auto simp: fail_closed_to_def split: sum.splits)

text \<open>Every step is an extinction record, a table transition, or nothing.\<close>

lemma fsm_step_cases:
  assumes "fsm_step m m'"
  obtains "m' = m"
    | n where "m' = record_extinction_result n m"
    | s now where "transition s now m = Inr m'"
  using assms
  by (cases rule: fsm_step.cases) (auto simp: fail_closed_eq elim: fail_closed_to_cases)

text \<open>The history is a path of the table that ends in the current state.\<close>

definition history_wf :: "ExecutionStateMachine \<Rightarrow> bool" where
  "history_wf m =
     (history m \<noteq> [] \<and> fst (last (history m)) = current_state m \<and>
      fst (hd (history m)) \<in> {Intent, Uninitialized} \<and>
      successively (\<lambda>x y. valid_transition (fst x) (fst y)) (history m))"

definition staged :: "(ExecutionState \<times> nat) list \<Rightarrow> bool" where
  "staged h =
     (\<forall>pre s post. h = pre @ s # post \<longrightarrow> phase_index (phase_of (fst s)) < 8 \<longrightarrow>
        (\<forall>k < phase_index (phase_of (fst s)). \<exists>x \<in> set pre. phase_index (phase_of (fst x)) = k))"

lemma staged_snoc:
  assumes "staged h" and "h \<noteq> []" and "valid_transition (fst (last h)) (fst s)"
  shows "staged (h @ [s])"
  unfolding staged_def
proof (intro allI impI)
  fix pre x post k
  assume split: "h @ [s] = pre @ x # post" and lt: "phase_index (phase_of (fst x)) < 8"
    and k: "k < phase_index (phase_of (fst x))"
  show "\<exists>y \<in> set pre. phase_index (phase_of (fst y)) = k"
  proof (cases post rule: rev_cases)
    case Nil
    with split have ps: "pre = h" "x = s" by auto
    obtain init l where h: "h = init @ [l]" using assms(2) by (cases h rule: rev_cases) auto
    have "phase_step (phase_of (fst l)) (phase_of (fst s))"
      using assms(3) h by (auto intro: valid_transition_phase)
    with lt ps have "phase_index (phase_of (fst l)) < 8"
      and "k < phase_index (phase_of (fst l)) \<or> k = phase_index (phase_of (fst l))"
      using k by (auto simp: phase_step_def split: if_splits)
    moreover have "\<And>j. j < phase_index (phase_of (fst l)) \<Longrightarrow>
        \<exists>y \<in> set init. phase_index (phase_of (fst y)) = j"
      using assms(1) h calculation(1) unfolding staged_def by blast
    ultimately show ?thesis using ps h by auto
  next
    case (snoc post' z)
    with split have "h = pre @ x # post'" by simp
    with assms(1) lt k show ?thesis unfolding staged_def by blast
  qed
qed

definition staged_machine :: "ExecutionStateMachine \<Rightarrow> bool" where
  "staged_machine m = (history_wf m \<and> staged (history m))"

lemma init_staged: "fsm_init m \<Longrightarrow> staged_machine m"
  by (auto simp: fsm_init_def new_machine_def new_canonical_def staged_machine_def
      history_wf_def staged_def Cons_eq_append_conv)

lemma transition_staged:
  assumes "staged_machine m" and "transition s now m = Inr m'"
  shows "staged_machine m'"
proof -
  have wf: "history_wf m" "staged (history m)" using assms(1) by (auto simp: staged_machine_def)
  have t: "valid_transition (fst (last (history m))) s"
    and m': "history m' = history m @ [(s, now)]" "current_state m' = s"
    using assms(2) wf(1) by (auto simp: transition_Inr history_wf_def)
  have "history_wf m'"
    using wf(1) t m' by (auto simp: history_wf_def successively_append_iff)
  moreover have "staged (history m')"
    using staged_snoc [OF wf(2)] t m' wf(1) by (auto simp: history_wf_def)
  ultimately show ?thesis by (simp add: staged_machine_def)
qed

lemma record_staged: "staged_machine m \<Longrightarrow> staged_machine (record_extinction_result n m)"
  by (simp add: staged_machine_def history_wf_def record_extinction_result_def)

interpretation fsm_staged: inductive_invariant fsm_init fsm_step staged_machine
  by unfold_locales
    (auto intro: init_staged transition_staged record_staged elim!: fsm_step_cases)

text \<open>A failure stays visible, whatever the caller does next.\<close>

definition failed_machine :: "ExecutionStateMachine \<Rightarrow> bool" where
  "failed_machine m = (history_wf m \<and> is_fail_closed m)"

lemma failed_machine_iff:
  "failed_machine m \<longleftrightarrow> history_wf m \<and> (\<exists>x \<in> set (history m). failure_state (fst x))"
proof (cases "history_wf m")
  case True
  then have "last (history m) \<in> set (history m)" "fst (last (history m)) = current_state m"
    by (simp_all add: history_wf_def)
  moreover have "(\<lambda>(s, _). failure_state s) = (\<lambda>x :: ExecutionState \<times> nat. failure_state (fst x))"
    by auto
  ultimately show ?thesis
    using True unfolding failed_machine_def is_fail_closed_def list_ex_iff by metis
next
  case False
  then show ?thesis by (simp add: failed_machine_def)
qed

lemma transition_wf: "history_wf m \<Longrightarrow> transition s now m = Inr m' \<Longrightarrow> history_wf m'"
  by (auto simp: transition_Inr history_wf_def successively_append_iff)

lemma record_wf: "history_wf (record_extinction_result n m) = history_wf m"
  by (simp add: history_wf_def record_extinction_result_def)

lemma transition_failed: "failed_machine m \<Longrightarrow> transition s now m = Inr m' \<Longrightarrow> failed_machine m'"
  using transition_wf [of m s now m'] by (auto simp: failed_machine_iff transition_Inr)

lemma record_failed: "failed_machine (record_extinction_result n m) = failed_machine m"
  by (simp add: failed_machine_iff record_wf) (simp add: record_extinction_result_def)

interpretation fsm_failed: inductive_invariant failed_machine fsm_step failed_machine
  by unfold_locales (auto simp: record_failed intro: transition_failed elim!: fsm_step_cases)

text \<open>After a failure only failure, emergency cleanup and the closed states are left.\<close>

definition after_failure :: "ExecutionState \<Rightarrow> bool" where
  "after_failure s \<longleftrightarrow> phase_of s = Broken \<or> phase_of s = Done"

lemma after_failure_states:
  "after_failure s \<longleftrightarrow> s \<in> {FailClosed, Failed, EmergencyCleanup, Terminal, Completed}"
  by (cases s) (simp_all add: after_failure_def)

lemma after_failure_closed: "after_failure s \<Longrightarrow> valid_transition s t \<Longrightarrow> after_failure t"
  by (drule valid_transition_phase) (cases "phase_of t"; auto simp: after_failure_def phase_step_def)

lemma after_failure_last:
  "successively (\<lambda>x y. valid_transition (fst x) (fst y)) h \<Longrightarrow> x \<in> set h \<Longrightarrow> after_failure (fst x) \<Longrightarrow>
     after_failure (fst (last h))"
proof (induction h rule: rev_induct)
  case (snoc y h)
  then show ?case by (cases "h = []") (auto simp: successively_append_iff intro: after_failure_closed)
qed simp

lemma failed_machine_state: "failed_machine m \<Longrightarrow> after_failure (current_state m)"
  by (auto simp: failed_machine_iff history_wf_def failure_state_phase after_failure_def
      dest!: after_failure_last)

lemma after_failure_path:
  assumes "failed_machine m" and "fsm_step\<^sup>*\<^sup>* m m'"
  shows "after_failure (current_state m') \<and>
    (\<exists>later. history m' = history m @ later \<and> (\<forall>x \<in> set later. after_failure (fst x)))"
  using assms(2)
proof (induction rule: rtranclp_induct)
  case base
  then show ?case using failed_machine_state [OF assms(1)] by simp
next
  case (step y z)
  then obtain later where l: "history y = history m @ later" "\<forall>x \<in> set later. after_failure (fst x)"
    by blast
  from step(2) show ?case
  proof (cases rule: fsm_step_cases)
    case (3 s now)
    then have "after_failure s" "current_state z = s" "history z = history m @ later @ [(s, now)]"
      using step.IH l(1) by (auto simp: transition_Inr intro: after_failure_closed)
    then show ?thesis using l(2) by (intro conjI exI [of _ "later @ [(s, now)]"]) auto
  qed (use step.IH in \<open>auto simp: record_extinction_result_def\<close>)
qed

text \<open>The completed states are absorbing.\<close>

definition done_machine :: "ExecutionStateMachine \<Rightarrow> bool" where
  "done_machine m = (current_state m = Completed \<or> current_state m = Terminal)"

lemma done_step: "phase_step Done q \<Longrightarrow> q = Done"
  by (cases q) (simp_all add: phase_step_def)

lemma transition_done: "done_machine m \<Longrightarrow> transition s now m = Inr m' \<Longrightarrow> done_machine m'"
  by (auto simp: done_machine_def transition_Inr done_phase [symmetric]
      dest!: valid_transition_phase dest: done_step)

lemma record_done: "done_machine (record_extinction_result n m) = done_machine m"
  by (simp add: done_machine_def record_extinction_result_def)

interpretation fsm_done: inductive_invariant done_machine fsm_step done_machine
  by unfold_locales (auto simp: record_done intro: transition_done elim!: fsm_step_cases)

text \<open>Runs are paths of the step relation.\<close>

lemma run_transitions_steps: "run_transitions ss now m = Inr m' \<Longrightarrow> fsm_step\<^sup>*\<^sup>* m m'"
proof (induction ss arbitrary: now m)
  case Nil
  then show ?case by simp
next
  case (Cons s ss)
  then obtain t where t: "transition s now m = Inr t" "run_transitions ss (Suc now) t = Inr m'"
    by (auto split: sum.splits)
  then have "fsm_step m t" by (auto intro: fsm_step.intros)
  with Cons.IH [OF t(2)] show ?case by (rule converse_rtranclp_into_rtranclp [rotated])
qed

lemma reach_steps: "reach init step m \<Longrightarrow> step\<^sup>*\<^sup>* m m' \<Longrightarrow> reach init step m'"
  by (rotate_tac 1, induction rule: rtranclp.induct) (auto intro: reach_step)

lemma run_transitions_reach:
  "fsm_init m \<Longrightarrow> run_transitions ss now m = Inr m' \<Longrightarrow> reach fsm_init fsm_step m'"
  by (blast intro: reach_steps run_transitions_steps reach_init)

lemmas run_simps = run_transitions.simps transition_def table_defs survivors_block_def
  new_machine_def new_canonical_def

text \<open>Two runs the witnesses below evaluate: the canonical pipeline up to a live child, and a
  fail-closed run that is closed through emergency cleanup.\<close>

definition live_history :: "(ExecutionState \<times> nat) list" where
  "live_history =
     [(Uninitialized, 0), (PolicyCompiled, 1), (PreflightPassed, 2), (IsolationConfigured, 3),
      (ChildSpawned, 4), (Running, 5)]"

lemma live_run:
  "run_transitions [PolicyCompiled, PreflightPassed, IsolationConfigured, ChildSpawned, Running] 1
     (new_canonical 0) =
   Inr \<lparr>current_state = Running, history = live_history, surviving_descendants = None\<rparr>"
  by (simp add: run_simps live_history_def)

lemma live_reach:
  "reach fsm_init fsm_step
     \<lparr>current_state = Running, history = live_history, surviving_descendants = None\<rparr>"
  by (rule run_transitions_reach [OF _ live_run]) (auto simp: fsm_init_def)

section \<open>Properties\<close>

text \<open>
  Property C15 (staging). In every machine reachable from \<open>new\<close> or \<open>new_canonical\<close> through any
  sequence of the machine's operations, a history entry with a live child (running, observed
  or signalled) is preceded by the compilation of the policy, the sealing of the contract, the
  configuration of the isolation and the spawn of the child.
\<close>

theorem fsm_live_child_is_staged:
  assumes "reach fsm_init fsm_step m"
    and "history m = pre @ (s, now) # post"
    and "s \<in> {Running, Observe, SignalReceived}"
  shows "PolicyCompiled \<in> fst ` set pre \<and>
    fst ` set pre \<inter> {PreflightPassed, ContractSealed} \<noteq> {} \<and>
    fst ` set pre \<inter> {IsolationConfigured, Prepare} \<noteq> {} \<and>
    fst ` set pre \<inter> {ChildSpawned, Spawn, Enforce} \<noteq> {}"
proof (intro conjI)
  have "staged (history m)"
    using fsm_staged.inv_reach [OF assms(1)] by (simp add: staged_machine_def)
  moreover have "phase_index (phase_of s) = 5" using assms(3) by auto
  ultimately have below: "\<exists>x \<in> set pre. phase_index (phase_of (fst x)) = k" if "k < 5" for k
    using assms(2) that unfolding staged_def by fastforce
  have inv: "phase_index (phase_of t) = 1 \<Longrightarrow> t = PolicyCompiled"
    "phase_index (phase_of t) = 2 \<Longrightarrow> t \<in> {PreflightPassed, ContractSealed}"
    "phase_index (phase_of t) = 3 \<Longrightarrow> t \<in> {IsolationConfigured, Prepare}"
    "phase_index (phase_of t) = 4 \<Longrightarrow> t \<in> {ChildSpawned, Spawn, Enforce}" for t
    by (cases t; simp)+
  show "PolicyCompiled \<in> fst ` set pre" using below [of 1] inv(1) by force
  show "fst ` set pre \<inter> {PreflightPassed, ContractSealed} \<noteq> {}"
    using below [of 2] inv(2) by force
  show "fst ` set pre \<inter> {IsolationConfigured, Prepare} \<noteq> {}"
    using below [of 3] inv(3) by force
  show "fst ` set pre \<inter> {ChildSpawned, Spawn, Enforce} \<noteq> {}"
    using below [of 4] inv(4) by force
qed

theorem fsm_live_child_is_staged_witness:
  "PolicyCompiled \<in> fst ` set (butlast live_history)"
  using fsm_live_child_is_staged [OF live_reach, of "butlast live_history" Running 5 "[]"]
  by (simp add: live_history_def)

text \<open>
  Property C16 (refinement). The history of every reachable machine, read through \<open>phase_of\<close>,
  is a run of the abstract life cycle: it starts in \<open>Pending\<close>, takes only abstract steps, and
  ends in the phase of the current state.
\<close>

theorem fsm_refines_phases:
  assumes "reach fsm_init fsm_step m"
  shows "successively phase_step (map (phase_of \<circ> fst) (history m)) \<and>
    phase_of (fst (hd (history m))) = Pending \<and>
    phase_of (fst (last (history m))) = phase_of (current_state m)"
proof (intro conjI)
  have wf: "history_wf m"
    using fsm_staged.inv_reach [OF assms] by (simp add: staged_machine_def)
  then have "successively (\<lambda>x y. valid_transition (fst x) (fst y)) (history m)"
    by (simp add: history_wf_def)
  then show "successively phase_step (map (phase_of \<circ> fst) (history m))"
    unfolding successively_map
    by (rule successively_mono) (auto intro: valid_transition_phase)
  show "phase_of (fst (hd (history m))) = Pending"
    and "phase_of (fst (last (history m))) = phase_of (current_state m)"
    using wf by (auto simp: history_wf_def)
qed

theorem fsm_refines_phases_witness:
  "successively phase_step (map (phase_of \<circ> fst) live_history)"
  using fsm_refines_phases [OF live_reach] by simp

text \<open>
  Fail closed. \<open>fail_closed\<close> always succeeds outside the completed states: the
  machine moves to its terminal failure state, logs it, is reported as failed closed, and the
  error carries the state it failed in. In a completed state it changes nothing and reports an
  invalid transition. Either way the exit code is 125.
\<close>

theorem fsm_fail_closed_total:
  "fail_closed err now m =
     (let t = (if is_canonical_mode m then Failed else FailClosed)
      in if current_state m \<in> {Completed, Terminal}
         then (m, InvalidTransition (current_state m) t
                ''transition disallowed by execution state machine transition table'')
         else (m\<lparr>current_state := t, history := history m @ [(t, now)]\<rparr>,
               FailClosedError (current_state m) err)) \<and>
   (current_state m \<notin> {Completed, Terminal} \<longrightarrow>
     is_fail_closed (fst (fail_closed err now m)) \<and> is_terminal (fst (fail_closed err now m))) \<and>
   transition_exit_code (snd (fail_closed err now m)) = 125"
proof -
  have nb: "\<not> survivors_block m Failed" "\<not> survivors_block m FailClosed"
    by (simp_all add: survivors_block_def)
  have eq: "fail_closed err now m =
     (let t = (if is_canonical_mode m then Failed else FailClosed)
      in if current_state m \<in> {Completed, Terminal}
         then (m, InvalidTransition (current_state m) t
                ''transition disallowed by execution state machine transition table'')
         else (m\<lparr>current_state := t, history := history m @ [(t, now)]\<rparr>,
               FailClosedError (current_state m) err))"
    using nb by (auto simp: fail_closed_def Let_def transition_def valid_transition_fail)
  show ?thesis
    by (simp add: eq Let_def transition_exit_code_def is_fail_closed_def failure_state_def
        is_terminal_def is_terminal_state_def)
qed

theorem fsm_fail_closed_total_witness:
  "is_fail_closed (fst (fail_closed ''lost'' 7 (new_machine 0)))"
proof -
  have "current_state (new_machine 0) \<notin> {Completed, Terminal}" by (simp add: new_machine_def)
  with fsm_fail_closed_total [of "''lost''" 7 "new_machine 0"] show ?thesis by blast
qed

text \<open>
  Property C17 (a failure is final). Once a machine has failed closed, it and every machine that
  any later sequence of operations leads to reports \<open>is_fail_closed\<close> and is in a failure
  state, in emergency cleanup, or closed (\<open>Terminal\<close> or \<open>Completed\<close>); the history only grows,
  and by such states alone. A failed run is never resumed.
\<close>

theorem fsm_failure_is_sticky:
  assumes "reach fsm_init fsm_step m" and "is_fail_closed m" and "fsm_step\<^sup>*\<^sup>* m m'"
  shows "is_fail_closed m' \<and>
    current_state m' \<in> {FailClosed, Failed, EmergencyCleanup, Terminal, Completed} \<and>
    (\<exists>later. history m' = history m @ later \<and>
       fst ` set later \<subseteq> {FailClosed, Failed, EmergencyCleanup, Terminal, Completed})"
proof -
  have "failed_machine m"
    using fsm_staged.inv_reach [OF assms(1)] assms(2)
    by (simp add: failed_machine_def staged_machine_def)
  from fsm_failed.inv_path [OF this assms(3)] after_failure_path [OF this assms(3)] show ?thesis
    by (auto simp: failed_machine_def after_failure_states)
qed

theorem fsm_failure_is_sticky_witness:
  "is_fail_closed
     (the (ok_option (run_transitions [FailClosed, EmergencyCleanup, Terminal, Completed] 1
            (new_machine 0))))"
proof -
  let ?m = "\<lparr>current_state = FailClosed, history = [(Intent, 0), (FailClosed, 1)],
             surviving_descendants = None\<rparr>"
  have run: "run_transitions [FailClosed] 1 (new_machine 0) = Inr ?m"
    by (simp add: run_simps)
  have r: "reach fsm_init fsm_step ?m"
    by (rule run_transitions_reach [OF _ run]) (auto simp: fsm_init_def)
  have f: "is_fail_closed ?m" by (simp add: is_fail_closed_def failure_state_def)
  obtain m' where m': "run_transitions [EmergencyCleanup, Terminal, Completed] 2 ?m = Inr m'"
    by (simp add: run_simps)
  have "run_transitions [FailClosed, EmergencyCleanup, Terminal, Completed] 1 (new_machine 0)
      = Inr m'"
    using m' by (simp add: run_simps numeral_2_eq_2)
  moreover have "is_fail_closed m'"
    using fsm_failure_is_sticky [OF r f run_transitions_steps [OF m']] by (rule conjunct1)
  ultimately show ?thesis by (simp add: ok_option_def)
qed

text \<open>
  Extinction guard. A machine whose audit recorded live descendants refuses both
  completed states and is left unchanged, and a machine that does enter a completed state has
  no recorded survivor; from then on no operation leaves the completed states.
\<close>

theorem fsm_completion_is_guarded:
  assumes "s = Completed \<or> s = Terminal"
  shows "(0 < n \<longrightarrow> transition s now (record_extinction_result n m) =
           Inl (InvalidTransition (current_state m) s
                 ''terminal state forbidden: live descendant processes detected'')) \<and>
    (transition s now m = Inr m' \<longrightarrow>
       (surviving_descendants m' = None \<or> surviving_descendants m' = Some 0) \<and>
       (fsm_step\<^sup>*\<^sup>* m' m'' \<longrightarrow> current_state m'' = Completed \<or> current_state m'' = Terminal))"
proof (intro conjI impI)
  show "transition s now (record_extinction_result n m) =
          Inl (InvalidTransition (current_state m) s
                 ''terminal state forbidden: live descendant processes detected'')" if "0 < n"
    using assms that by (auto simp: transition_def survivors_block_def record_extinction_result_def)
  show "surviving_descendants m' = None \<or> surviving_descendants m' = Some 0"
    if "transition s now m = Inr m'"
    using assms that by (auto simp: transition_Inr survivors_block_def split: option.splits)
  assume "transition s now m = Inr m'" and steps: "fsm_step\<^sup>*\<^sup>* m' m''"
  then have "done_machine m'" using assms by (auto simp: transition_Inr done_machine_def)
  from fsm_done.inv_path [OF this steps]
  show "current_state m'' = Completed \<or> current_state m'' = Terminal"
    by (simp add: done_machine_def)
qed

theorem fsm_completion_is_guarded_witness:
  "transition Completed 9 (record_extinction_result 3 (from_state CleanedUp 0)) =
     Inl (InvalidTransition CleanedUp Completed
           ''terminal state forbidden: live descendant processes detected'')"
  using fsm_completion_is_guarded [of Completed 3 9 "from_state CleanedUp 0"]
  by (simp add: from_state_def)

text \<open>
  Completion after failure and without an audit. The table refuses the direct
  step from emergency cleanup to \<open>Completed\<close>, but a run that failed closed still reaches
  \<open>Completed\<close> through \<open>Terminal\<close>; and the whole canonical pipeline ends in \<open>Completed\<close>
  although no extinction audit was ever recorded.
\<close>

theorem fsm_completed_without_success:
  "\<not> is_ok (run_transitions [FailClosed, EmergencyCleanup, Completed] 1 (new_machine 0)) \<and>
   (\<exists>m. run_transitions [FailClosed, EmergencyCleanup, Terminal, Completed] 1 (new_machine 0) = Inr m
        \<and> current_state m = Completed \<and> is_fail_closed m) \<and>
   (\<exists>m. run_transitions
          [PolicyCompiled, PreflightPassed, IsolationConfigured, ChildSpawned, Running,
           Terminating, CleanedUp, Completed] 1 (new_canonical 0) = Inr m
        \<and> current_state m = Completed \<and> surviving_descendants m = None)"
  by (simp add: run_simps is_fail_closed_def failure_state_def)

end
