(* ===== verification/Paths.thy ===== *)
theory Paths
  imports Prelude
begin

text \<open>
  The fragment of Rust's \<open>std::path\<close> (Unix flavour) that the policy code calls, and the
  code's own \<open>lexical_normalize\<close> (\<open>src/src/policy/types.rs\<close>).

  A \<open>Path\<close> is its string; two paths are equal when their component lists are, and
  \<open>starts_with\<close> compares components, as in Rust. \<open>push\<close>, \<open>parent\<close> and \<open>pop\<close> work on the
  string, as in Rust, and the lemmas give their effect on components. The lemmas show that
  containment is a preorder (the \<open>containment\<close> interface the policy components use), that
  \<open>pop\<close> drops the last component, and that \<open>lexical_normalize\<close> computes the reference
  resolution of every rooted path.
\<close>

section \<open>Components\<close>

type_synonym path = string

datatype component = RootDir | CurDir | ParentDir | Normal string

definition is_sep :: "char \<Rightarrow> bool" where
  "is_sep c = (c = CHR ''/'')"

definition has_root :: "path \<Rightarrow> bool" where
  "has_root p = (case p of [] \<Rightarrow> False | c # _ \<Rightarrow> is_sep c)"

abbreviation is_absolute :: "path \<Rightarrow> bool" where
  "is_absolute \<equiv> has_root"

definition piece_comp :: "string \<Rightarrow> component list" where
  "piece_comp s =
     (if s = [] \<or> s = ''.'' then [] else if s = ''..'' then [ParentDir] else [Normal s])"

definition tail_comps :: "path \<Rightarrow> component list" where
  "tail_comps p = concat (map piece_comp (split_on is_sep p))"

text \<open>A leading dot of a relative path is the only one that is a component.\<close>

definition lead_comps :: "path \<Rightarrow> component list" where
  "lead_comps p =
     (if has_root p then [RootDir]
      else if hd (split_on is_sep p) = ''.'' then [CurDir] else [])"

definition components :: "path \<Rightarrow> component list" where
  "components p = lead_comps p @ tail_comps p"

fun as_os_str :: "component \<Rightarrow> string" where
  "as_os_str RootDir = ''/''"
| "as_os_str CurDir = ''.''"
| "as_os_str ParentDir = ''..''"
| "as_os_str (Normal s) = s"

definition path_eq :: "path \<Rightarrow> path \<Rightarrow> bool" where
  "path_eq p q = (components p = components q)"

definition path_starts_with :: "path \<Rightarrow> path \<Rightarrow> bool" where
  "path_starts_with p q = prefix (components q) (components p)"

section \<open>Building and taking apart\<close>

definition path_push :: "path \<Rightarrow> path \<Rightarrow> path" where
  "path_push b c =
     (if is_absolute c then c
      else if b = [] \<or> is_sep (last b) then b @ c
      else b @ CHR ''/'' # c)"

abbreviation path_join :: "path \<Rightarrow> path \<Rightarrow> path" where
  "path_join \<equiv> path_push"

fun join_pieces :: "string list \<Rightarrow> path" where
  "join_pieces [] = []"
| "join_pieces [p] = p"
| "join_pieces (p # q # qs) = p @ CHR ''/'' # join_pieces (q # qs)"

definition drop_trailing :: "string list \<Rightarrow> string list" where
  "drop_trailing ps = rev (dropWhile (\<lambda>s. s = [] \<or> s = ''.'') (rev ps))"

definition path_parent :: "path \<Rightarrow> path option" where
  "path_parent p =
     (case p of
        [] \<Rightarrow> None
      | c # cs \<Rightarrow>
          if is_sep c
          then (let ps = drop_trailing (split_on is_sep cs)
                in if ps = [] then None
                   else Some (CHR ''/'' # join_pieces (drop_trailing (butlast ps))))
          else (let qs = drop_trailing (tl (split_on is_sep p))
                in if qs = [] then Some []
                   else Some (join_pieces
                         (hd (split_on is_sep p) # drop_trailing (butlast qs)))))"

text \<open>\<open>PathBuf::pop\<close> returns whether it removed anything; the path is left alone if not.\<close>

definition path_pop :: "path \<Rightarrow> path \<times> bool" where
  "path_pop p = (case path_parent p of None \<Rightarrow> (p, False) | Some q \<Rightarrow> (q, True))"

definition file_name :: "path \<Rightarrow> string option" where
  "file_name p =
     (if components p = [] then None
      else (case last (components p) of Normal s \<Rightarrow> Some s | _ \<Rightarrow> None))"

section \<open>Lexical normalization\<close>

definition normalize_step :: "bool \<Rightarrow> path \<Rightarrow> component \<Rightarrow> path" where
  "normalize_step root acc c =
     (case c of
        CurDir \<Rightarrow> acc
      | ParentDir \<Rightarrow>
          (let (acc', popped) = path_pop acc
           in if popped then acc' else if root then acc else path_push acc ''..'')
      | RootDir \<Rightarrow> path_push acc ''/''
      | Normal s \<Rightarrow> path_push acc s)"

definition lexical_normalize :: "path \<Rightarrow> path" where
  "lexical_normalize p = foldl (normalize_step (has_root p)) [] (components p)"

text \<open>The reference: what a rooted path denotes, as the stack of names below the root.\<close>

fun resolve_stack :: "string list \<Rightarrow> component list \<Rightarrow> string list" where
  "resolve_stack st [] = st"
| "resolve_stack st (Normal s # cs) = resolve_stack (st @ [s]) cs"
| "resolve_stack st (ParentDir # cs) = resolve_stack (butlast st) cs"
| "resolve_stack st (CurDir # cs) = resolve_stack st cs"
| "resolve_stack st (RootDir # cs) = resolve_stack st cs"

section \<open>Containment\<close>

text \<open>
  The interface of the containment tests: a reflexive, transitive relation. What the policy
  code does with it is to ask whether a path lies under one of a list of roots; the closure
  properties of that question are proved once.
\<close>

locale containment =
  fixes under :: "'a \<Rightarrow> 'a \<Rightarrow> bool"
  assumes under_refl: "under p p"
    and under_trans: "under p q \<Longrightarrow> under q r \<Longrightarrow> under p r"
begin

lemma list_ex_under_mono: "list_ex (under p) roots \<Longrightarrow> under q p \<Longrightarrow> list_ex (under q) roots"
  by (auto simp: list_ex_iff intro: under_trans)

lemma list_ex_under_self: "p \<in> set roots \<Longrightarrow> list_ex (under p) roots"
  by (auto simp: list_ex_iff intro: under_refl)

lemma list_ex_under_trans:
  "list_ex (under p) roots \<Longrightarrow> (\<And>r. r \<in> set roots \<Longrightarrow> list_ex (under r) tops) \<Longrightarrow>
   list_ex (under p) tops"
  by (auto simp: list_ex_iff intro: under_trans)

end

section \<open>Lemmas on components\<close>

lemma is_sep_slash [simp]: "is_sep (CHR ''/'')"
  by (simp add: is_sep_def)

lemma has_root_simps [simp]: "\<not> has_root []" "has_root (c # cs) = is_sep c"
  by (simp_all add: has_root_def)

lemma has_root_append [simp]: "b \<noteq> [] \<Longrightarrow> has_root (b @ c) = has_root b"
  by (cases b) simp_all

lemma tail_comps_simps [simp]:
  "tail_comps [] = []"
  "is_sep c \<Longrightarrow> tail_comps (c # cs) = tail_comps cs"
  by (simp_all add: tail_comps_def piece_comp_def)

lemma tail_comps_append_sep: "is_sep c \<Longrightarrow> tail_comps (s @ c # t) = tail_comps s @ tail_comps t"
  by (simp add: tail_comps_def split_on_append_sep)

lemma components_Nil [simp]: "components [] = []"
  by (simp add: components_def lead_comps_def)

lemma components_root: "components ''/'' = [RootDir]"
  by (simp add: components_def lead_comps_def)

lemma components_abs: "is_sep c \<Longrightarrow> components (c # cs) = RootDir # tail_comps cs"
  by (simp add: components_def lead_comps_def)

lemma tail_comps_no_root: "RootDir \<notin> set (tail_comps p)" "CurDir \<notin> set (tail_comps p)"
  by (auto simp: tail_comps_def piece_comp_def split: if_splits)

lemma split_on_hd_append_sep:
  "P c \<Longrightarrow> hd (split_on P (s @ c # t)) = hd (split_on P s)"
  by (simp add: split_on_append_sep hd_append)

lemma lead_comps_append_sep: "b \<noteq> [] \<Longrightarrow> is_sep c \<Longrightarrow> lead_comps (b @ c # t) = lead_comps b"
  by (simp add: lead_comps_def split_on_hd_append_sep)

lemma lead_comps_end_sep: "b \<noteq> [] \<Longrightarrow> is_sep (last b) \<Longrightarrow> lead_comps (b @ t) = lead_comps b"
proof -
  assume "b \<noteq> []" "is_sep (last b)"
  then obtain ys y where b: "b = ys @ [y]" "is_sep y" by (cases b rule: rev_cases) auto
  then show ?thesis
    using lead_comps_append_sep [of ys y t] lead_comps_append_sep [of ys y "[]"]
    by (cases "ys = []") (simp_all add: lead_comps_def)
qed

lemma tail_comps_end_sep: "b \<noteq> [] \<Longrightarrow> is_sep (last b) \<Longrightarrow> tail_comps (b @ t) = tail_comps b @ tail_comps t"
  by (cases b rule: rev_cases) (auto simp: tail_comps_append_sep)

lemma components_push:
  assumes "b \<noteq> []" and "\<not> is_absolute c"
  shows "components (path_push b c) = components b @ tail_comps c"
  using assms
  by (simp add: path_push_def components_def lead_comps_append_sep lead_comps_end_sep
      tail_comps_append_sep tail_comps_end_sep)

lemma components_push_Nil: "components (path_push [] c) = components c"
  by (simp add: path_push_def)

lemma components_eq_Nil [simp]: "components p = [] \<longleftrightarrow> p = []"
proof
  assume p: "components p = []"
  show "p = []"
  proof (rule ccontr)
    assume "p \<noteq> []"
    then obtain c cs where cs: "p = c # cs" by (cases p) auto
    with p have "\<not> is_sep c" by (auto simp: components_def lead_comps_def split: if_splits)
    with cs obtain q qs where q: "split_on is_sep p = (c # q) # qs"
      by (cases "split_on is_sep cs") auto
    with p show False
      by (auto simp: components_def lead_comps_def tail_comps_def piece_comp_def
          split: if_splits)
  qed
qed simp

section \<open>Lemmas on parents\<close>

lemma drop_trailing_snoc [simp]:
  "drop_trailing [] = []"
  "drop_trailing (ps @ [x]) = (if x = [] \<or> x = ''.'' then drop_trailing ps else ps @ [x])"
  by (simp_all add: drop_trailing_def)

lemma drop_trailing_comps [simp]:
  "concat (map piece_comp (drop_trailing ps)) = concat (map piece_comp ps)"
  by (induction ps rule: rev_induct) (auto simp: piece_comp_def)

lemma drop_trailing_nonempty:
  assumes "drop_trailing ps \<noteq> []"
  shows "\<exists>c. piece_comp (last (drop_trailing ps)) = [c]"
  using assms by (induction ps rule: rev_induct) (auto simp: piece_comp_def split: if_splits)

lemma drop_trailing_empty: "drop_trailing ps = [] \<longleftrightarrow> concat (map piece_comp ps) = []"
  by (induction ps rule: rev_induct) (simp_all add: piece_comp_def)

lemma set_drop_trailing: "set (drop_trailing ps) \<subseteq> set ps"
  by (induction ps rule: rev_induct) auto

lemma split_on_join_pieces:
  "ps \<noteq> [] \<Longrightarrow> \<forall>q \<in> set ps. list_all (\<lambda>c. \<not> is_sep c) q \<Longrightarrow> split_on is_sep (join_pieces ps) = ps"
  by (induction ps rule: join_pieces.induct) (auto simp: split_on_append_sep split_on_no_sep)

lemma tail_comps_join_pieces:
  "\<forall>q \<in> set ps. list_all (\<lambda>c. \<not> is_sep c) q \<Longrightarrow>
   tail_comps (join_pieces ps) = concat (map piece_comp ps)"
  by (cases "ps = []") (simp_all add: tail_comps_def split_on_join_pieces piece_comp_def)

lemma concat_butlast_drop_trailing:
  "drop_trailing ps \<noteq> [] \<Longrightarrow>
   concat (map piece_comp (butlast (drop_trailing ps))) = butlast (concat (map piece_comp ps))"
proof -
  assume ne: "drop_trailing ps \<noteq> []"
  then obtain c where c: "piece_comp (last (drop_trailing ps)) = [c]"
    using drop_trailing_nonempty by blast
  have "concat (map piece_comp ps) = concat (map piece_comp (butlast (drop_trailing ps) @ [last (drop_trailing ps)]))"
    using ne by simp
  then show ?thesis using c by (simp add: butlast_append)
qed

lemma set_split_pieces:
  "set qs \<subseteq> set (split_on is_sep p) \<Longrightarrow> \<forall>q \<in> set qs. list_all (\<lambda>c. \<not> is_sep c) q"
  by (auto dest: split_on_pieces)

lemma path_parent_abs:
  assumes "is_sep c"
  shows "path_parent (c # cs) = None \<longleftrightarrow> components (c # cs) = [RootDir]"
    and "path_parent (c # cs) = Some q \<Longrightarrow> components q = butlast (components (c # cs))"
proof -
  let ?ps = "drop_trailing (split_on is_sep cs)"
  have None_iff: "?ps = [] \<longleftrightarrow> tail_comps cs = []"
    unfolding tail_comps_def by (rule drop_trailing_empty)
  then show "path_parent (c # cs) = None \<longleftrightarrow> components (c # cs) = [RootDir]"
    using assms by (auto simp: path_parent_def components_abs Let_def)
  assume "path_parent (c # cs) = Some q"
  with assms have ne: "?ps \<noteq> []" and q: "q = CHR ''/'' # join_pieces (drop_trailing (butlast ?ps))"
    by (auto simp: path_parent_def Let_def split: if_splits)
  have "set (drop_trailing (butlast ?ps)) \<subseteq> set (split_on is_sep cs)"
    using set_drop_trailing [of "butlast ?ps"] set_drop_trailing [of "split_on is_sep cs"]
    by (meson in_set_butlastD subset_iff)
  from tail_comps_join_pieces [OF set_split_pieces [OF this]]
  have "tail_comps (join_pieces (drop_trailing (butlast ?ps))) = butlast (tail_comps cs)"
    using concat_butlast_drop_trailing [OF ne] unfolding tail_comps_def by simp
  then show "components q = butlast (components (c # cs))"
    using ne None_iff assms by (simp add: q components_abs)
qed

definition head_comp :: "string \<Rightarrow> component list" where
  "head_comp h = (if h = ''.'' then [CurDir] else piece_comp h)"

lemma components_rel:
  assumes "\<not> has_root p" and "split_on is_sep p = h # t"
  shows "components p = head_comp h @ concat (map piece_comp t)"
  using assms by (simp add: components_def lead_comps_def tail_comps_def head_comp_def piece_comp_def)

lemma components_join_rel:
  assumes "\<forall>x \<in> set (h # r). list_all (\<lambda>c. \<not> is_sep c) x" and "h \<noteq> []"
  shows "components (join_pieces (h # r)) = head_comp h @ concat (map piece_comp r)"
proof (rule components_rel)
  show "split_on is_sep (join_pieces (h # r)) = h # r"
    using assms(1) by (intro split_on_join_pieces) simp_all
  show "\<not> has_root (join_pieces (h # r))"
    using assms by (cases h; cases r) auto
qed

lemma path_parent_rel:
  assumes "\<not> is_sep c"
  shows "path_parent (c # cs) \<noteq> None"
    and "path_parent (c # cs) = Some q \<Longrightarrow> components q = butlast (components (c # cs))"
proof -
  obtain h t where spl: "split_on is_sep (c # cs) = (c # h) # t"
    using assms by (cases "split_on is_sep cs") auto
  let ?qs = "drop_trailing t"
  show "path_parent (c # cs) \<noteq> None"
    using assms by (simp add: path_parent_def Let_def)
  have comps: "components (c # cs) = head_comp (c # h) @ concat (map piece_comp t)"
    by (rule components_rel) (simp_all add: assms spl del: split_on.simps)
  have one: "\<exists>x. head_comp (c # h) = [x]" by (simp add: head_comp_def piece_comp_def)
  assume q: "path_parent (c # cs) = Some q"
  show "components q = butlast (components (c # cs))"
  proof (cases "?qs = []")
    case True
    with q assms spl have "q = []" by (simp add: path_parent_def Let_def del: split_on.simps)
    with one comps True show ?thesis by (auto simp: drop_trailing_empty)
  next
    case False
    with q assms spl have qq: "q = join_pieces ((c # h) # drop_trailing (butlast ?qs))"
      by (simp add: path_parent_def Let_def del: split_on.simps)
    have "set (drop_trailing (butlast ?qs)) \<subseteq> set t"
      using set_drop_trailing [of "butlast ?qs"] set_drop_trailing [of t]
      by (meson in_set_butlastD subset_iff)
    then have "set ((c # h) # drop_trailing (butlast ?qs)) \<subseteq> set (split_on is_sep (c # cs))"
      unfolding spl by auto
    from components_join_rel [OF set_split_pieces [OF this]] qq
    have "components q = head_comp (c # h) @ concat (map piece_comp (butlast ?qs))" by simp
    with concat_butlast_drop_trailing [OF False] comps False show ?thesis
      by (simp add: butlast_append drop_trailing_empty del: concat_eq_Nil_conv)
  qed
qed

lemma path_parent_None: "path_parent p = None \<longleftrightarrow> components p = [] \<or> components p = [RootDir]"
proof (cases p)
  case Nil
  then show ?thesis by (simp add: path_parent_def)
next
  case (Cons c cs)
  then show ?thesis
  proof (cases "is_sep c")
    case True
    then show ?thesis using path_parent_abs(1) [of c cs] Cons by auto
  next
    case False
    then have "components p \<noteq> [RootDir]"
      using Cons tail_comps_no_root(1) [of p]
      by (auto simp: components_def lead_comps_def split: if_splits)
    then show ?thesis using path_parent_rel(1) [OF False] Cons by auto
  qed
qed

lemma path_parent_Some: "path_parent p = Some q \<Longrightarrow> components q = butlast (components p)"
proof (cases p)
  case Nil
  then show "path_parent p = Some q \<Longrightarrow> ?thesis" by (simp add: path_parent_def)
next
  case (Cons c cs)
  then show "path_parent p = Some q \<Longrightarrow> ?thesis"
    using path_parent_abs(2) path_parent_rel(2) by (cases "is_sep c") auto
qed

text \<open>The effect of \<open>pop\<close> on components.\<close>

definition pop_comps :: "component list \<Rightarrow> component list" where
  "pop_comps cs = (if cs = [RootDir] then cs else butlast cs)"

lemma path_pop_comps:
  "components (fst (path_pop p)) = pop_comps (components p)"
  "snd (path_pop p) \<longleftrightarrow> components p \<noteq> [] \<and> components p \<noteq> [RootDir]"
  using path_parent_None [of p] path_parent_Some [of p]
  by (auto simp: path_pop_def pop_comps_def split: option.splits)

lemma path_pop_decreases: "snd (path_pop p) \<Longrightarrow> length (components (fst (path_pop p))) < length (components p)"
  by (simp add: path_pop_comps pop_comps_def)

section \<open>Lemmas on normalization\<close>

text \<open>A component that \<open>components\<close> can produce: pushing it appends it.\<close>

definition valid_name :: "string \<Rightarrow> bool" where
  "valid_name s = (s \<noteq> [] \<and> s \<noteq> ''.'' \<and> s \<noteq> ''..'' \<and> list_all (\<lambda>c. \<not> is_sep c) s)"

lemma tail_comps_normal: "Normal s \<in> set (tail_comps p) \<Longrightarrow> valid_name s"
  by (auto simp: tail_comps_def piece_comp_def valid_name_def split: if_splits dest: split_on_pieces)

lemma components_normal: "Normal s \<in> set (components p) \<Longrightarrow> valid_name s"
  by (auto simp: components_def lead_comps_def split: if_splits dest: tail_comps_normal)

lemma components_structure:
  "components p = lead_comps p @ tail_comps p \<and> lead_comps p \<in> {[], [RootDir], [CurDir]} \<and>
   set (tail_comps p) \<subseteq> {ParentDir} \<union> range Normal"
proof -
  have "set (tail_comps p) \<subseteq> {ParentDir} \<union> range Normal"
    by (auto simp: tail_comps_def piece_comp_def split: if_splits)
  then show ?thesis by (simp add: components_def lead_comps_def)
qed

lemma tail_comps_valid_name: "valid_name s \<Longrightarrow> tail_comps s = [Normal s]"
  by (simp add: valid_name_def tail_comps_def split_on_no_sep piece_comp_def)

lemma components_valid_name: "valid_name s \<Longrightarrow> components s = [Normal s]"
  by (simp add: components_def tail_comps_valid_name)
     (auto simp: valid_name_def lead_comps_def split_on_no_sep has_root_def split: list.splits)

lemma valid_name_rel: "valid_name s \<Longrightarrow> \<not> has_root s"
  by (auto simp: valid_name_def has_root_def split: list.splits)

lemma components_push_name:
  "valid_name s \<Longrightarrow> components (path_push b s) = components b @ [Normal s]"
  by (cases "b = []")
     (simp_all add: components_push components_push_Nil valid_name_rel tail_comps_valid_name
       components_valid_name)

lemma components_of_root_names:
  "components (foldl path_push ''/'' ns) = RootDir # map Normal ns"
  if "\<forall>n \<in> set ns. valid_name n"
  using that
  by (induction ns rule: rev_induct) (simp_all add: components_root components_push_name)

lemma lexical_normalize_fold:
  assumes "components acc = RootDir # map Normal st" and "\<forall>n \<in> set st. valid_name n"
    and "set cs \<subseteq> {ParentDir} \<union> range Normal" and "\<forall>s. Normal s \<in> set cs \<longrightarrow> valid_name s"
  shows "components (foldl (normalize_step True) acc cs) = RootDir # map Normal (resolve_stack st cs)"
  using assms
proof (induction cs arbitrary: acc st)
  case Nil
  then show ?case by simp
next
  case (Cons c cs)
  show ?case
  proof (cases c)
    case (Normal s)
    then have v: "valid_name s" using Cons.prems(4) by simp
    have "components (foldl (normalize_step True) (path_push acc s) cs) =
        RootDir # map Normal (resolve_stack (st @ [s]) cs)"
      using Cons.prems v by (intro Cons.IH) (auto simp: components_push_name)
    moreover have "normalize_step True acc (Normal s) = path_push acc s"
      by (simp add: normalize_step_def)
    ultimately show ?thesis by (simp add: Normal)
  next
    case ParentDir
    have "components (foldl (normalize_step True) (fst (path_pop acc)) cs) =
        RootDir # map Normal (resolve_stack (butlast st) cs)"
      using Cons.prems
      by (intro Cons.IH) (auto simp: path_pop_comps pop_comps_def map_butlast dest: in_set_butlastD)
    moreover have "normalize_step True acc ParentDir = fst (path_pop acc)"
      by (auto simp: normalize_step_def path_pop_def split: option.splits)
    ultimately show ?thesis by (simp add: ParentDir)
  qed (use Cons.prems in auto)
qed

lemma lexical_normalize_rooted_comps:
  assumes "has_root p"
  shows "components (lexical_normalize p) = RootDir # map Normal (resolve_stack [] (components p))"
proof -
  have c: "components p = RootDir # tail_comps p" using assms
    by (simp add: components_def lead_comps_def)
  have "normalize_step True [] RootDir = ''/''" by (simp add: normalize_step_def path_push_def)
  then have "lexical_normalize p = foldl (normalize_step True) ''/'' (tail_comps p)"
    using assms by (simp add: lexical_normalize_def c)
  moreover have "components (foldl (normalize_step True) ''/'' (tail_comps p)) =
      RootDir # map Normal (resolve_stack [] (tail_comps p))"
    using components_structure [of p] tail_comps_normal
    by (intro lexical_normalize_fold) (auto simp: components_root)
  ultimately show ?thesis by (simp add: c)
qed

lemma resolve_stack_names:
  "set (resolve_stack st cs) \<subseteq> set st \<union> {s. Normal s \<in> set cs}"
  by (induction st cs rule: resolve_stack.induct) (auto dest: in_set_butlastD)

lemma resolve_stack_map_Normal: "resolve_stack st (map Normal ns) = st @ ns"
  by (induction ns arbitrary: st) simp_all

lemma has_root_iff: "has_root p \<longleftrightarrow> (\<exists>cs. components p = RootDir # cs)"
  using tail_comps_no_root(1) [of p]
  by (cases "tail_comps p") (auto simp: components_def lead_comps_def)

lemma lexical_normalize_rooted:
  "has_root p \<Longrightarrow> has_root (lexical_normalize p)"
  by (simp add: has_root_iff lexical_normalize_rooted_comps)

text \<open>Paths without parent components: appending to a rooted base.\<close>

lemma resolve_stack_append:
  "resolve_stack st (cs @ ds) = resolve_stack (resolve_stack st cs) ds"
  by (induction st cs rule: resolve_stack.induct) simp_all

lemma resolve_stack_no_parent:
  "ParentDir \<notin> set cs \<Longrightarrow> resolve_stack st cs = st @ [s. Normal s \<leftarrow> cs]"
  by (induction st cs rule: resolve_stack.induct) auto

section \<open>Containment of paths\<close>

lemma path_starts_with_refl [simp]: "path_starts_with p p"
  by (simp add: path_starts_with_def)

lemma path_starts_with_trans:
  "path_starts_with p q \<Longrightarrow> path_starts_with q r \<Longrightarrow> path_starts_with p r"
  unfolding path_starts_with_def by (rule prefix_order.trans)

lemma path_eq_refl [simp]: "path_eq p p"
  by (simp add: path_eq_def)

lemma path_eq_starts_with: "path_eq p q \<Longrightarrow> path_starts_with p q"
  by (simp add: path_eq_def path_starts_with_def)

lemma path_starts_with_antisym:
  "path_starts_with p q \<Longrightarrow> path_starts_with q p \<Longrightarrow> path_eq p q"
  unfolding path_starts_with_def path_eq_def by (rule prefix_order.antisym)

lemma path_starts_with_push_name:
  "valid_name s \<Longrightarrow> path_starts_with (path_push b s) b"
  by (simp add: path_starts_with_def components_push_name)

interpretation path_containment: containment path_starts_with
  by unfold_locales (auto intro: path_starts_with_trans)

text \<open>The idiom \<open>p == r || p.starts_with(r)\<close> of the code is just containment.\<close>

definition eq_or_under :: "path \<Rightarrow> path \<Rightarrow> bool" where
  "eq_or_under p r = (path_eq p r \<or> path_starts_with p r)"

lemma eq_or_under_iff [simp]: "eq_or_under p r \<longleftrightarrow> path_starts_with p r"
  by (auto simp: eq_or_under_def path_eq_starts_with)

section \<open>Properties\<close>

text \<open>
  Normalization of rooted paths. For every rooted path, \<open>lexical_normalize\<close>
  yields exactly the rooted path of the names that the reference resolution leaves: no dot
  and no parent component remains, a parent of the root is the root, and normalizing again
  changes nothing.
\<close>

theorem lexical_normalize_resolves:
  assumes "has_root p"
  shows "components (lexical_normalize p) = RootDir # map Normal (resolve_stack [] (components p)) \<and>
    path_eq (lexical_normalize (lexical_normalize p)) (lexical_normalize p)"
  using assms
  by (simp add: path_eq_def lexical_normalize_rooted_comps lexical_normalize_rooted
      resolve_stack_map_Normal)

theorem lexical_normalize_resolves_witness:
  "has_root ''/a/../../b/./c'' \<and>
   components (lexical_normalize ''/a/../../b/./c'') = [RootDir, Normal ''b'', Normal ''c'']"
proof -
  have h: "has_root ''/a/../../b/./c''" by simp
  have "resolve_stack [] (components ''/a/../../b/./c'') = [''b'', ''c'']" by code_simp
  with lexical_normalize_resolves [OF h] h show ?thesis by simp
qed

text \<open>
  Relative paths lose parent components. \<open>lexical_normalize\<close> does not collapse a
  relative path correctly: the second of two leading parent components pops the first, so
  \<open>../../x\<close> becomes \<open>x\<close>, which lies under a different root.
\<close>

theorem lexical_normalize_relative_escape:
  "lexical_normalize ''../x'' = ''../x'' \<and>
   lexical_normalize ''../../x'' = ''x'' \<and>
   path_starts_with (lexical_normalize ''../../x/secret'') ''x''"
  by code_simp

text \<open>
  \<open>PathBuf::pop\<close> removes exactly the last component, reports failure only on
  the empty path and on the root, and so strictly decreases the number of components whenever
  it succeeds, which bounds the ancestor searches of the compiler.
\<close>

theorem path_pop_removes_last:
  "components (fst (path_pop p)) =
     (if components p = [] \<or> components p = [RootDir] then components p
      else butlast (components p)) \<and>
   (snd (path_pop p) \<longleftrightarrow> components p \<noteq> [] \<and> components p \<noteq> [RootDir])"
  by (auto simp: path_pop_comps pop_comps_def)

end
