(* ===== verification/Request.thy ===== *)
theory Request
  imports Paths "HOL-Library.List_Lexorder" "HOL-Library.Char_ord"
begin

text \<open>
  The request pipeline of \<open>src/src/policy_ir/mod.rs\<close>: a requested policy is normalized,
  checked against root escalation and validated for structural containment. A \<open>BTreeSet\<close>
  of strings is the sorted list of its elements, ordered byte-wise as in Rust.

  The lemmas show the invariants the code documents for a compiled policy, that the
  pipeline rejects exactly the requests that break one of them, and that its error messages
  name the offending rule.
\<close>

section \<open>Data\<close>

datatype SecurityLevel = Strict | Standard | Permissive

fun security_level_label :: "SecurityLevel \<Rightarrow> string" where
  "security_level_label Strict = ''STRICT''"
| "security_level_label Standard = ''STANDARD''"
| "security_level_label Permissive = ''PERMISSIVE''"

record RequestedPolicy =
  req_level :: SecurityLevel
  req_allow_read :: "string list"
  req_allow_write :: "string list"

record CompiledPolicy =
  level :: SecurityLevel
  comp_allow_read :: "string list"
  comp_allow_write :: "string list"

section \<open>Operations\<close>

definition normalize_one :: "string \<Rightarrow> string option" where
  "normalize_one p =
     (let t = trim p
      in if t = [] then None
         else (let u = trim_end_matches (\<lambda>c. c = CHR ''/'') t
               in Some (if u = [] then ''/'' else u)))"

fun normalize_into :: "string list \<Rightarrow> string list \<Rightarrow> string list" where
  "normalize_into seen [] = seen"
| "normalize_into seen (p # ps) =
     (case normalize_one p of
        None \<Rightarrow> normalize_into seen ps
      | Some t \<Rightarrow> normalize_into (insort_insert t seen) ps)"

definition normalize_paths :: "string list \<Rightarrow> string list" where
  "normalize_paths ps = normalize_into [] ps"

definition under_root :: "string \<Rightarrow> string \<Rightarrow> bool" where
  "under_root p root =
     (if root = ''/'' then starts_with p ''/''
      else p = root \<or> starts_with p (root @ ''/''))"

definition validate :: "CompiledPolicy \<Rightarrow> (string, unit) result" where
  "validate c =
     check_all (\<lambda>w. if list_ex (under_root w) (comp_allow_read c) then Ok ()
                    else Err (''policy_ir: allow_write '' @ [CHR 0x27] @ w @ [CHR 0x27] @
                              '' is not under any allow_read root''))
       (comp_allow_write c)"

definition err_root_write :: string where
  "err_root_write =
     ''policy_ir: allow_write contains filesystem root '' @ [CHR 0x22] @ ''/'' @ [CHR 0x22]"

definition err_root_read :: string where
  "err_root_read =
     ''policy_ir: allow_read contains filesystem root '' @ [CHR 0x22] @ ''/'' @ [CHR 0x22] @
     '' without PERMISSIVE level''"

definition compile_request :: "RequestedPolicy \<Rightarrow> (string, CompiledPolicy) result" where
  "compile_request req =
     (let r = normalize_paths (req_allow_read req);
          w = normalize_paths (req_allow_write req)
      in if list_ex (\<lambda>p. p = ''/'') w then Err err_root_write
         else if req_level req \<noteq> Permissive \<and> list_ex (\<lambda>p. p = ''/'') r then Err err_root_read
         else (let c = \<lparr>level = req_level req, comp_allow_read = r, comp_allow_write = w\<rparr>
               in and_then (validate c) (\<lambda>_. Ok c)))"

section \<open>Lemmas\<close>

lemma starts_with_slash: "starts_with p ''/'' \<longleftrightarrow> (\<exists>q. p = CHR ''/'' # q)"
  by (auto simp: starts_with_def prefix_def)

lemma under_root_refl: "under_root p p"
  by (auto simp: under_root_def)

lemma under_root_trans:
  assumes "under_root p q" and "under_root q r"
  shows "under_root p r"
proof (cases "q = r \<or> r = ''/'' \<or> q = ''/''")
  case True
  have "r = []" if "prefix (r @ ''/'') ''/''" using that by (cases r) auto
  with True assms show ?thesis
    by (auto simp: under_root_def starts_with_slash) (auto simp: starts_with_def prefix_def split: if_splits)
next
  case False
  with assms have q: "prefix (r @ ''/'') q" and p: "p = q \<or> prefix (q @ ''/'') p"
    by (auto simp: under_root_def starts_with_def)
  then have "prefix (r @ ''/'') p"
    by (meson prefix_append prefix_order.trans)
  then show ?thesis using False by (simp add: under_root_def starts_with_def)
qed

interpretation root_containment: containment under_root
  by unfold_locales (auto intro: under_root_refl under_root_trans)

lemma normalize_into_inv:
  assumes "sorted seen" and "distinct seen"
  shows "sorted (normalize_into seen ps) \<and> distinct (normalize_into seen ps) \<and>
    set (normalize_into seen ps) = set seen \<union> {t. \<exists>p \<in> set ps. normalize_one p = Some t}"
  using assms
  by (induction ps arbitrary: seen)
     (auto simp: sorted_insort_insert distinct_insort_insert set_insort_insert split: option.splits)

lemmas normalize_paths_inv =
  normalize_into_inv [of "[]", simplified, folded normalize_paths_def]

lemma normalize_one_shape:
  assumes "normalize_one p = Some t"
  shows "t \<noteq> [] \<and> (t = ''/'' \<or> last t \<noteq> CHR ''/'')"
proof -
  let ?u = "trim_end_matches (\<lambda>c. c = CHR ''/'') (trim p)"
  have "?u \<noteq> [] \<Longrightarrow> last ?u \<noteq> CHR ''/''"
    using hd_dropWhile [of "\<lambda>c. c = CHR ''/''" "rev (trim p)"]
    by (simp add: trim_end_matches_def last_rev)
  with assms show ?thesis by (auto simp: normalize_one_def Let_def split: if_splits)
qed

lemma validate_ok:
  "validate c = Inr () \<longleftrightarrow>
     (\<forall>w \<in> set (comp_allow_write c). list_ex (under_root w) (comp_allow_read c))"
  by (simp add: validate_def check_all_ok)

lemma compile_request_Inr:
  "compile_request req = Inr c \<longleftrightarrow>
     c = \<lparr>level = req_level req, comp_allow_read = normalize_paths (req_allow_read req),
          comp_allow_write = normalize_paths (req_allow_write req)\<rparr> \<and>
     ''/'' \<notin> set (comp_allow_write c) \<and>
     (''/'' \<in> set (comp_allow_read c) \<longrightarrow> level c = Permissive) \<and>
     (\<forall>w \<in> set (comp_allow_write c). list_ex (under_root w) (comp_allow_read c))"
  by (auto simp: compile_request_def Let_def list_ex_iff validate_ok)

section \<open>Properties\<close>

text \<open>
  Compiled requests are well-formed. A compiled request keeps the level, its two
  lists are strictly sorted, free of empty entries and of trailing slashes, the filesystem root
  is never writable and readable only at the permissive level, every write root lies under a
  read root, and hence so does every path under a write root.
\<close>

theorem compile_request_wf:
  assumes "compile_request req = Inr c"
  shows "level c = req_level req \<and>
    sorted (comp_allow_read c) \<and> distinct (comp_allow_read c) \<and>
    sorted (comp_allow_write c) \<and> distinct (comp_allow_write c) \<and>
    (\<forall>p \<in> set (comp_allow_read c) \<union> set (comp_allow_write c). p \<noteq> [] \<and> (p = ''/'' \<or> last p \<noteq> CHR ''/'')) \<and>
    ''/'' \<notin> set (comp_allow_write c) \<and>
    (''/'' \<in> set (comp_allow_read c) \<longrightarrow> level c = Permissive) \<and>
    (\<forall>p. list_ex (under_root p) (comp_allow_write c) \<longrightarrow> list_ex (under_root p) (comp_allow_read c))"
proof -
  have c: "level c = req_level req"
    "comp_allow_read c = normalize_paths (req_allow_read req)"
    "comp_allow_write c = normalize_paths (req_allow_write req)"
    "''/'' \<notin> set (comp_allow_write c)" "''/'' \<in> set (comp_allow_read c) \<longrightarrow> level c = Permissive"
    "\<forall>w \<in> set (comp_allow_write c). list_ex (under_root w) (comp_allow_read c)"
    using assms unfolding compile_request_Inr by auto
  have "\<forall>p \<in> set (normalize_paths ps). p \<noteq> [] \<and> (p = ''/'' \<or> last p \<noteq> CHR ''/'')" for ps
    using normalize_paths_inv [of ps] normalize_one_shape by auto
  moreover have "list_ex (under_root p) (comp_allow_read c)"
    if "list_ex (under_root p) (comp_allow_write c)" for p
    using root_containment.list_ex_under_trans [OF that] c(6) by blast
  ultimately show ?thesis using c normalize_paths_inv by auto
qed

text \<open>
  Rejection is exact: a request is rejected precisely when its normalized form
  makes the root writable, makes the root readable below the permissive level, or contains a
  write root that is under no read root; the checks report in that order.
\<close>

theorem compile_request_rejects:
  "compile_request req =
     (let r = normalize_paths (req_allow_read req); w = normalize_paths (req_allow_write req)
      in if ''/'' \<in> set w then Inl err_root_write
         else if ''/'' \<in> set r \<and> req_level req \<noteq> Permissive then Inl err_root_read
         else (case find (\<lambda>p. \<not> list_ex (under_root p) r) w of
                 Some p \<Rightarrow> Inl (''policy_ir: allow_write '' @ [CHR 0x27] @ p @ [CHR 0x27] @
                               '' is not under any allow_read root'')
               | None \<Rightarrow> Inr \<lparr>level = req_level req, comp_allow_read = r, comp_allow_write = w\<rparr>))"
proof -
  have "check_all (\<lambda>w. if list_ex (under_root w) r then Inr () else Inl (f w)) ws =
      (case find (\<lambda>p. \<not> list_ex (under_root p) r) ws of Some p \<Rightarrow> Inl (f p) | None \<Rightarrow> Inr ())"
    for r ws and f :: "string \<Rightarrow> string"
    by (induction ws) auto
  then show ?thesis
    by (auto simp: compile_request_def validate_def Let_def list_ex_iff split: option.splits)
qed

definition sample_request :: RequestedPolicy where
  "sample_request =
     \<lparr>req_level = Standard, req_allow_read = [''/proj'', ''/tmp/'', '' ''],
      req_allow_write = [''/proj/out'']\<rparr>"

lemma sample_request_compiles:
  "compile_request sample_request =
     Inr \<lparr>level = Standard, comp_allow_read = [''/proj'', ''/tmp''],
          comp_allow_write = [''/proj/out'']\<rparr>"
  by code_simp

theorem compile_request_wf_witness:
  "''/'' \<notin> set (comp_allow_write \<lparr>level = Standard, comp_allow_read = [''/proj'', ''/tmp''],
          comp_allow_write = [''/proj/out'']\<rparr>)"
  using compile_request_wf [OF sample_request_compiles] by blast

end
