(* ===== verification/F64.thy ===== *)
theory F64
  imports Prelude Complex_Main
begin

text \<open>
  The fragment of Rust's \<open>f64\<close> that the limit parsers use: decimal parsing, rounding to the
  nearest binary64 value with ties to even, product and quotient, and the conversions from
  and to \<open>u64\<close>. A finite value is its rational number; the two zeros are one value (nothing
  in the modelled code tells them apart).

  The lemmas show that rounding keeps integers up to \<open>2 ^ 53\<close> and bounds the conversion to
  \<open>u64\<close>.
\<close>

datatype f64 = Fin rat | PInf | NInf | NaN

section \<open>Rounding\<close>

fun bit_length :: "nat \<Rightarrow> nat" where
  "bit_length n = (if n = 0 then 0 else Suc (bit_length (n div 2)))"

declare bit_length.simps [simp del]

definition pow2 :: "int \<Rightarrow> rat" where
  "pow2 e = (if 0 \<le> e then 2 ^ nat e else 1 / 2 ^ nat (- e))"

text \<open>The exponent of the leading bit of a positive rational.\<close>

definition log2_floor :: "rat \<Rightarrow> int" where
  "log2_floor r =
     (let (p, q) = quotient_of r;
          k = int (bit_length (nat p)) - int (bit_length (nat q))
      in if r < pow2 k then k - 1 else k)"

definition round_half_even :: "rat \<Rightarrow> int" where
  "round_half_even x =
     (let f = \<lfloor>x\<rfloor>; d = x - of_int f
      in if d < 1 / 2 then f else if d > 1 / 2 then f + 1 else if even f then f else f + 1)"

definition round_pos :: "rat \<Rightarrow> f64" where
  "round_pos r =
     (let e = max (- 1074) (log2_floor r - 52);
          v = of_int (round_half_even (r / pow2 e)) * pow2 e
      in if v \<ge> 2 ^ 1024 then PInf else Fin v)"

fun f64_neg :: "f64 \<Rightarrow> f64" where
  "f64_neg (Fin r) = Fin (- r)"
| "f64_neg PInf = NInf"
| "f64_neg NInf = PInf"
| "f64_neg NaN = NaN"

definition round_f64 :: "rat \<Rightarrow> f64" where
  "round_f64 r = (if r = 0 then Fin 0 else if r < 0 then f64_neg (round_pos (- r)) else round_pos r)"

section \<open>Arithmetic and comparison\<close>

text \<open>Product with, and quotient by, a positive finite value.\<close>

fun f64_scale :: "f64 \<Rightarrow> rat \<Rightarrow> f64" where
  "f64_scale (Fin r) k = round_f64 (r * k)"
| "f64_scale x k = x"

fun f64_div :: "f64 \<Rightarrow> f64 \<Rightarrow> f64" where
  "f64_div (Fin a) (Fin b) = round_f64 (a / b)"
| "f64_div (Fin a) PInf = Fin 0"
| "f64_div (Fin a) NInf = Fin 0"
| "f64_div PInf (Fin b) = (if b < 0 then NInf else PInf)"
| "f64_div NInf (Fin b) = (if b < 0 then PInf else NInf)"
| "f64_div _ _ = NaN"

fun f64_le :: "f64 \<Rightarrow> f64 \<Rightarrow> bool" where
  "f64_le NaN _ = False"
| "f64_le _ NaN = False"
| "f64_le NInf _ = True"
| "f64_le _ PInf = True"
| "f64_le (Fin a) (Fin b) = (a \<le> b)"
| "f64_le _ _ = False"

fun f64_lt :: "f64 \<Rightarrow> f64 \<Rightarrow> bool" where
  "f64_lt NaN _ = False"
| "f64_lt _ NaN = False"
| "f64_lt NInf y = (y \<noteq> NInf)"
| "f64_lt x PInf = (x \<noteq> PInf)"
| "f64_lt (Fin a) (Fin b) = (a < b)"
| "f64_lt _ _ = False"

fun is_finite :: "f64 \<Rightarrow> bool" where
  "is_finite (Fin _) = True"
| "is_finite _ = False"

text \<open>\<open>f64::round\<close>: halves away from zero; the result of a finite argument is exact.\<close>

fun f64_round :: "f64 \<Rightarrow> f64" where
  "f64_round (Fin r) = Fin (of_int (if r < 0 then - \<lfloor>- r + 1 / 2\<rfloor> else \<lfloor>r + 1 / 2\<rfloor>))"
| "f64_round x = x"

text \<open>\<open>x as u64\<close>: truncation, saturating at both ends, zero for NaN.\<close>

fun f64_to_u64 :: "f64 \<Rightarrow> nat" where
  "f64_to_u64 (Fin r) = (if r \<le> 0 then 0 else min (nat \<lfloor>r\<rfloor>) (2 ^ 64 - 1))"
| "f64_to_u64 PInf = 2 ^ 64 - 1"
| "f64_to_u64 _ = 0"

fun f64_to_u32 :: "f64 \<Rightarrow> nat" where
  "f64_to_u32 (Fin r) = (if r \<le> 0 then 0 else min (nat \<lfloor>r\<rfloor>) (2 ^ 32 - 1))"
| "f64_to_u32 PInf = 2 ^ 32 - 1"
| "f64_to_u32 _ = 0"

section \<open>Parsing\<close>

definition parse_exponent :: "string \<Rightarrow> int option" where
  "parse_exponent s =
     (case s of
        [] \<Rightarrow> Some 0
      | c # cs \<Rightarrow>
          if ascii_lower c \<noteq> CHR ''e'' then None
          else (let (neg, ds) = (case cs of
                    d # ds \<Rightarrow> if d = CHR ''-'' then (True, ds)
                              else if d = CHR ''+'' then (False, ds) else (False, cs)
                  | [] \<Rightarrow> (False, []))
                in if ds \<noteq> [] \<and> list_all is_ascii_digit ds
                   then Some (if neg then - int (digits_val ds) else int (digits_val ds))
                   else None))"

definition pow10 :: "int \<Rightarrow> rat" where
  "pow10 e = (if 0 \<le> e then 10 ^ nat e else 1 / 10 ^ nat (- e))"

definition parse_decimal :: "string \<Rightarrow> rat option" where
  "parse_decimal s =
     (let ip = takeWhile is_ascii_digit s;
          r1 = dropWhile is_ascii_digit s;
          (fp, r2) = (case r1 of
              c # cs \<Rightarrow> if c = CHR ''.'' then (takeWhile is_ascii_digit cs, dropWhile is_ascii_digit cs)
                        else ([], r1)
            | [] \<Rightarrow> ([], []))
      in if ip @ fp = [] then None
         else map_option (\<lambda>e. of_nat (digits_val (ip @ fp)) * pow10 (e - int (length fp)))
                (parse_exponent r2))"

definition parse_unsigned_f64 :: "string \<Rightarrow> f64 option" where
  "parse_unsigned_f64 s =
     (if eq_ignore_ascii_case s ''inf'' \<or> eq_ignore_ascii_case s ''infinity'' then Some PInf
      else if eq_ignore_ascii_case s ''nan'' then Some NaN
      else map_option round_f64 (parse_decimal s))"

definition parse_f64 :: "string \<Rightarrow> f64 option" where
  "parse_f64 s =
     (case s of
        [] \<Rightarrow> None
      | c # cs \<Rightarrow>
          if c = CHR ''-'' then map_option f64_neg (parse_unsigned_f64 cs)
          else if c = CHR ''+'' then parse_unsigned_f64 cs
          else parse_unsigned_f64 s)"

section \<open>Lemmas\<close>

lemma f64_to_u64_bound: "f64_to_u64 x < 2 ^ 64"
  by (cases x) (auto simp: min_def not_less)

lemma f64_to_u32_bound: "f64_to_u32 x < 2 ^ 32"
  by (cases x) (auto simp: min_def not_less)

lemma bit_length_bounds: "n > 0 \<Longrightarrow> 2 ^ (bit_length n - 1) \<le> n \<and> n < 2 ^ bit_length n"
proof (induction n rule: bit_length.induct)
  case (1 n)
  show ?case
  proof (cases "n div 2 = 0")
    case True
    with 1 have "n = 1" by auto
    then show ?thesis by (simp add: bit_length.simps)
  next
    case False
    with 1 have "2 ^ (bit_length (n div 2) - 1) \<le> n div 2 \<and> n div 2 < 2 ^ bit_length (n div 2)"
      by simp
    moreover obtain k where "bit_length (n div 2) = Suc k"
      using False by (subst (asm) bit_length.simps) (auto simp: bit_length.simps [of "n div 2"])
    ultimately show ?thesis using 1 False by (simp add: bit_length.simps [of n]) linarith
  qed
qed

lemma round_half_even_int [simp]: "round_half_even (of_int k) = k"
  by (simp add: round_half_even_def)

text \<open>Integers that fit the significand are represented exactly.\<close>

lemma log2_floor_nat: "n > 0 \<Longrightarrow> log2_floor (of_nat n) = int (bit_length n) - 1"
proof -
  assume n: "n > 0"
  have q: "quotient_of (of_nat n) = (int n, 1)"
    using quotient_of_int [of "int n"] by (simp add: Rat.of_int_def)
  have b1: "bit_length 1 = 1" by (simp add: bit_length.simps)
  obtain k where k: "bit_length n = Suc k" using n by (auto simp: bit_length.simps [of n])
  have "n < 2 ^ Suc k" "2 ^ k \<le> n" using bit_length_bounds [OF n] k by auto
  then have "(of_nat (2 ^ k) :: rat) \<le> of_nat n" by (simp only: of_nat_le_iff)
  then show ?thesis
    using k by (simp add: log2_floor_def q b1 [simplified] pow2_def)
qed

lemma round_f64_exact: "n < 2 ^ 53 \<Longrightarrow> round_f64 (of_nat n) = Fin (of_nat n)"
proof (cases "n = 0")
  case False
  assume n53: "n < 2 ^ 53"
  from False have n: "n > 0" by simp
  obtain k where k: "bit_length n = Suc k" using n by (auto simp: bit_length.simps [of n])
  have "2 ^ k \<le> n" using bit_length_bounds [OF n] k by auto
  then have "(2 :: nat) ^ k < 2 ^ 53" using n53 by linarith
  then have k53: "k < 53" by (simp only: power_strict_increasing_iff)
  define e where "e = int k - 52"
  have e: "max (- 1074) (log2_floor (of_nat n) - 52) = e"
    using k53 by (simp add: log2_floor_nat [OF n] k e_def)
  have p: "(of_nat n :: rat) / pow2 e = of_int (int n * 2 ^ nat (- e))"
    and unscale: "of_int (int n * 2 ^ nat (- e)) * pow2 e = (of_nat n :: rat)"
    using k53 by (auto simp: pow2_def e_def)
  have "(of_nat n :: rat) < 2 ^ 1024"
  proof -
    have "n < 2 ^ 1024" using n53 power_strict_increasing [of 53 1024 "2 :: nat"] by linarith
    then have "(of_nat n :: rat) < of_nat (2 ^ 1024)" by (simp only: of_nat_less_iff)
    then show ?thesis by simp
  qed
  then have "round_pos (of_nat n) = Fin (of_nat n)"
    using unscale by (simp only: round_pos_def e Let_def p round_half_even_int unscale not_le [symmetric]) simp
  then show ?thesis using n by (simp add: round_f64_def)
qed (simp add: round_f64_def)

end
