(* ===== verification/LimitMerge.thy ===== *)
theory LimitMerge
  imports F64 "HOL-Library.Multiset"
begin

text \<open>
  Resource limits of \<open>src/src/policy/types.rs\<close>: byte quantities, cgroup values, CPU quotas,
  and the strictest-wins merges of \<open>CgroupConfig\<close>, \<open>IoRateLimit\<close> and \<open>ResourceLimits\<close>.
  \<open>format_bytes\<close> is output only and not modelled.

  The lemmas show what the byte parser returns on every branch, that no result leaves \<open>u64\<close>,
  that each textual merge computes the minimum of the limits its arguments denote (a value that
  denotes no limit never wins), and that merging layers of limits does not depend on their order.
\<close>

section \<open>Byte quantities\<close>

datatype UnitStandard = IecBinary | SiDecimal

datatype ParseBytesError =
    EmptyInput
  | InvalidNumber string
  | UnknownUnit string
  | Overflow

definition KIB :: nat where "KIB = 1024"
definition MIB :: nat where "MIB = 1024 * 1024"
definition GIB :: nat where "GIB = 1024 * 1024 * 1024"
definition TIB :: nat where "TIB = 1024 * 1024 * 1024 * 1024"
definition KB :: nat where "KB = 1000"
definition MB :: nat where "MB = 1000 * 1000"
definition GB :: nat where "GB = 1000 * 1000 * 1000"
definition TB :: nat where "TB = 1000 * 1000 * 1000 * 1000"

fun by_standard :: "UnitStandard \<Rightarrow> nat \<Rightarrow> nat \<Rightarrow> nat" where
  "by_standard IecBinary iec si = iec"
| "by_standard SiDecimal iec si = si"

text \<open>The chain of suffix tests: the number part and the multiplier of the first match.\<close>

definition unit_suffixes :: "UnitStandard \<Rightarrow> (string \<times> nat) list" where
  "unit_suffixes std =
     [(''tib'', TIB), (''gib'', GIB), (''mib'', MIB), (''kib'', KIB),
      (''tb'', by_standard std TIB TB), (''gb'', by_standard std GIB GB),
      (''mb'', by_standard std MIB MB), (''kb'', by_standard std KIB KB),
      (''t'', by_standard std TIB TB), (''g'', by_standard std GIB GB),
      (''m'', by_standard std MIB MB), (''k'', by_standard std KIB KB),
      (''b'', 1)]"

fun first_suffix :: "(string \<times> nat) list \<Rightarrow> string \<Rightarrow> (string \<times> nat) option" where
  "first_suffix [] s = None"
| "first_suffix ((suf, mul) # us) s =
     (case strip_suffix suf s of Some n \<Rightarrow> Some (n, mul) | None \<Rightarrow> first_suffix us s)"

definition checked_mul :: "nat \<Rightarrow> nat \<Rightarrow> nat option" where
  "checked_mul a b = (if a * b < 2 ^ 64 then Some (a * b) else None)"

definition scale_fraction :: "string \<Rightarrow> nat \<Rightarrow> (ParseBytesError, nat) result" where
  "scale_fraction trimmed mul =
     (case parse_f64 trimmed of
        None \<Rightarrow> Err (InvalidNumber trimmed)
      | Some v \<Rightarrow>
          if \<not> is_finite v \<or> f64_lt v (Fin 0) then Err (InvalidNumber trimmed)
          else (let bytes = f64_round (f64_scale v (of_nat mul))
                in if f64_lt (Fin (2 ^ 64)) bytes then Err Overflow
                   else Ok (f64_to_u64 bytes)))"

definition scale_integer :: "string \<Rightarrow> nat \<Rightarrow> (ParseBytesError, nat) result" where
  "scale_integer trimmed mul =
     (case parse_u64 trimmed of
        None \<Rightarrow>
          if starts_with trimmed ''-'' \<or> \<not> list_all is_ascii_digit trimmed
          then Err (InvalidNumber trimmed) else Err Overflow
      | Some v \<Rightarrow>
          (case checked_mul v mul of None \<Rightarrow> Err Overflow | Some n \<Rightarrow> Ok n))"

definition parse_bytes_with_standard ::
  "string \<Rightarrow> UnitStandard \<Rightarrow> (ParseBytesError, nat) result" where
  "parse_bytes_with_standard input std =
     (let s = trim input
      in if s = [] then Err EmptyInput
         else (case parse_u64 s of
                 Some raw \<Rightarrow> Ok raw
               | None \<Rightarrow>
                   (case first_suffix (unit_suffixes std) (to_ascii_lowercase s) of
                      None \<Rightarrow>
                        if list_all is_ascii_digit s then Err Overflow else Err (UnknownUnit s)
                    | Some (number_str, mul) \<Rightarrow>
                        (let trimmed = trim number_str
                         in if trimmed = [] then Err (InvalidNumber trimmed)
                            else if CHR ''.'' \<in> set trimmed then scale_fraction trimmed mul
                            else scale_integer trimmed mul))))"

definition parse_bytes :: "string \<Rightarrow> (ParseBytesError, nat) result" where
  "parse_bytes input = parse_bytes_with_standard input SiDecimal"

definition parse_cgroup_memory :: "string \<Rightarrow> (ParseBytesError, nat option) result" where
  "parse_cgroup_memory input =
     (let s = trim input
      in if s = [] \<or> eq_ignore_ascii_case s ''max'' \<or> s = ''-1'' then Ok None
         else and_then (parse_bytes_with_standard s IecBinary) (\<lambda>n. Ok (Some n)))"

definition parse_bytes_value :: "string \<Rightarrow> nat option" where
  "parse_bytes_value input = (case parse_cgroup_memory input of Inl _ \<Rightarrow> None | Inr v \<Rightarrow> v)"

definition parse_byte_size :: "string \<Rightarrow> nat option" where
  "parse_byte_size v = ok_option (parse_bytes v)"

definition parse_memory_bytes :: "string \<Rightarrow> string option" where
  "parse_memory_bytes input =
     (case parse_cgroup_memory input of
        Inl _ \<Rightarrow> None
      | Inr None \<Rightarrow> Some ''max''
      | Inr (Some bytes) \<Rightarrow> Some (show_nat bytes))"

section \<open>CPU quotas\<close>

definition parse_cpu_ratio :: "string \<Rightarrow> f64 option" where
  "parse_cpu_ratio input =
     (let s = trim input
      in if s = [] \<or> eq_ignore_ascii_case s ''max'' \<or> starts_with s ''max '' then None
         else (case strip_suffix ''%'' s of
                 Some pct_str \<Rightarrow>
                   map_option (\<lambda>pct. f64_div pct (Fin 100)) (parse_f64 (trim pct_str))
               | None \<Rightarrow>
                   if CHR '' '' \<in> set s
                   then (case split_whitespace s of
                           quota_s # period_s # _ \<Rightarrow>
                             if eq_ignore_ascii_case quota_s ''max'' then None
                             else (case (parse_f64 quota_s, parse_f64 period_s) of
                                     (Some quota, Some period) \<Rightarrow>
                                       if f64_lt (Fin 0) period then Some (f64_div quota period)
                                       else None
                                   | _ \<Rightarrow> None)
                         | _ \<Rightarrow> None)
                   else (case parse_f64 s of
                           Some num \<Rightarrow>
                             if f64_lt (Fin 1000) num then Some (f64_div num (Fin 100000))
                             else Some (f64_div num (Fin 100))
                         | None \<Rightarrow> None)))"

definition parse_cpu_max :: "string \<Rightarrow> string option" where
  "parse_cpu_max input =
     (let s = trim input
      in if s = [] \<or> eq_ignore_ascii_case s ''max'' then Some ''max 100000''
         else if ends_with s ''%''
         then (case parse_f64 (trim (trim_end_matches (\<lambda>c. c = CHR ''%'') s)) of
                 None \<Rightarrow> None
               | Some pct \<Rightarrow>
                   (let quota = f64_to_u64 (f64_scale (f64_div pct (Fin 100)) 100000)
                    in Some (show_nat quota @ '' '' @ show_nat 100000)))
         else if CHR '' '' \<in> set s then Some s
         else map_option (\<lambda>quota. show_nat quota @ '' 100000'') (parse_u64 s))"

section \<open>Strictest-wins merges\<close>

definition strictest :: "nat option \<Rightarrow> nat option \<Rightarrow> nat option" where
  "strictest left right =
     (case (left, right) of
        (Some l, Some r) \<Rightarrow> Some (min l r)
      | (Some v, None) \<Rightarrow> Some v
      | (None, Some v) \<Rightarrow> Some v
      | (None, None) \<Rightarrow> None)"

definition strictest_memory_str :: "string option \<Rightarrow> string option \<Rightarrow> string option" where
  "strictest_memory_str left right =
     (case (left, right) of
        (Some l, Some r) \<Rightarrow>
          (case (parse_bytes_value (trim l), parse_bytes_value (trim r)) of
             (Some lb, Some rb) \<Rightarrow> if lb \<le> rb then Some l else Some r
           | (Some _, None) \<Rightarrow> Some l
           | (None, Some _) \<Rightarrow> Some r
           | (None, None) \<Rightarrow>
               if eq_ignore_ascii_case (trim l) ''max'' \<or> eq_ignore_ascii_case (trim r) ''max''
               then Some ''max'' else Some l)
      | (Some l, None) \<Rightarrow> Some l
      | (None, Some r) \<Rightarrow> Some r
      | (None, None) \<Rightarrow> None)"

definition pids_of :: "string \<Rightarrow> nat option" where
  "pids_of t = (if eq_ignore_ascii_case t ''max'' then None else parse_u64 t)"

definition strictest_pids_str :: "string option \<Rightarrow> string option \<Rightarrow> string option" where
  "strictest_pids_str left right =
     (case (left, right) of
        (Some l, Some r) \<Rightarrow>
          (case (pids_of (trim l), pids_of (trim r)) of
             (Some lp, Some rp) \<Rightarrow> if lp \<le> rp then Some l else Some r
           | (Some _, None) \<Rightarrow> Some l
           | (None, Some _) \<Rightarrow> Some r
           | (None, None) \<Rightarrow>
               if eq_ignore_ascii_case (trim l) ''max'' \<or> eq_ignore_ascii_case (trim r) ''max''
               then Some ''max'' else Some l)
      | (Some l, None) \<Rightarrow> Some l
      | (None, Some r) \<Rightarrow> Some r
      | (None, None) \<Rightarrow> None)"

definition strictest_cpu_max :: "string option \<Rightarrow> string option \<Rightarrow> string option" where
  "strictest_cpu_max left right =
     (case (left, right) of
        (Some l, Some r) \<Rightarrow>
          (case (parse_cpu_ratio (trim l), parse_cpu_ratio (trim r)) of
             (Some lr, Some rr) \<Rightarrow> if f64_le lr rr then Some l else Some r
           | (Some _, None) \<Rightarrow> Some l
           | (None, Some _) \<Rightarrow> Some r
           | (None, None) \<Rightarrow>
               if starts_with (trim l) ''max'' \<or> starts_with (trim r) ''max''
               then Some ''max 100000'' else Some l)
      | (Some l, None) \<Rightarrow> Some l
      | (None, Some r) \<Rightarrow> Some r
      | (None, None) \<Rightarrow> None)"

record CgroupConfig =
  memory_max :: "string option"
  pids_max :: "string option"
  swap_max :: "string option"
  cg_cpu_max :: "string option"

definition cgroup_merge_strictest :: "CgroupConfig \<Rightarrow> CgroupConfig \<Rightarrow> CgroupConfig" where
  "cgroup_merge_strictest self other =
     \<lparr>memory_max = strictest_memory_str (memory_max self) (memory_max other),
      pids_max = strictest_pids_str (pids_max self) (pids_max other),
      swap_max = strictest_memory_str (swap_max self) (swap_max other),
      cg_cpu_max = strictest_cpu_max (cg_cpu_max self) (cg_cpu_max other)\<rparr>"

record IoRateLimit =
  max_iops :: "nat option"
  max_bandwidth :: "nat option"

definition io_merge_strictest :: "IoRateLimit \<Rightarrow> IoRateLimit \<Rightarrow> IoRateLimit" where
  "io_merge_strictest self other =
     \<lparr>max_iops = strictest (max_iops self) (max_iops other),
      max_bandwidth = strictest (max_bandwidth self) (max_bandwidth other)\<rparr>"

record ResourceLimits =
  cpu_seconds :: "nat option"
  address_space_bytes :: "nat option"
  processes :: "nat option"
  open_files :: "nat option"
  file_size_bytes :: "nat option"
  io_rate :: "IoRateLimit option"

definition no_limits :: ResourceLimits where
  "no_limits = \<lparr>cpu_seconds = None, address_space_bytes = None, processes = None,
                open_files = None, file_size_bytes = None, io_rate = None\<rparr>"

definition merge_io_rate :: "IoRateLimit option \<Rightarrow> IoRateLimit option \<Rightarrow> IoRateLimit option" where
  "merge_io_rate self other =
     (case (self, other) of
        (Some existing, Some incoming) \<Rightarrow> Some (io_merge_strictest existing incoming)
      | (None, Some incoming) \<Rightarrow> Some incoming
      | _ \<Rightarrow> self)"

definition limits_merge_strictest :: "ResourceLimits \<Rightarrow> ResourceLimits \<Rightarrow> ResourceLimits" where
  "limits_merge_strictest self other =
     \<lparr>cpu_seconds = strictest (cpu_seconds self) (cpu_seconds other),
      address_space_bytes = strictest (address_space_bytes self) (address_space_bytes other),
      processes = strictest (processes self) (processes other),
      open_files = strictest (open_files self) (open_files other),
      file_size_bytes = strictest (file_size_bytes self) (file_size_bytes other),
      io_rate = merge_io_rate (io_rate self) (io_rate other)\<rparr>"

section \<open>Merging layers\<close>

text \<open>
  The interface of a strictest-wins merge: a commutative, associative, idempotent operation
  with the unlimited value as its neutral element. Layers may then be merged in any order, and
  merging one of them again changes nothing.
\<close>

locale strictest_merge =
  fixes merge :: "'a \<Rightarrow> 'a \<Rightarrow> 'a" and unlimited :: 'a
  assumes merge_commute: "merge x y = merge y x"
    and merge_assoc: "merge (merge x y) z = merge x (merge y z)"
    and merge_idem: "merge x x = x"
    and merge_unlimited: "merge unlimited x = x"
begin

lemma merge_right: "merge (merge x y) z = merge (merge x z) y"
  by (metis merge_assoc merge_commute)

lemma foldl_merge_out: "foldl merge (merge z x) xs = merge (foldl merge z xs) x"
  by (induction xs arbitrary: z) (simp_all add: merge_right)

lemma layers_order: "mset xs = mset ys \<Longrightarrow> foldl merge z xs = foldl merge z ys"
proof (induction xs arbitrary: ys z)
  case Nil
  then show ?case by simp
next
  case (Cons x xs)
  then have "x \<in> set ys" by (metis list.set_intros(1) mset_eq_setD)
  then obtain as bs where ys: "ys = as @ x # bs" by (auto dest: split_list)
  with Cons.prems have "mset xs = mset (as @ bs)" by simp
  then have "foldl merge (merge z x) xs = foldl merge (merge z x) (as @ bs)" by (rule Cons.IH)
  then show ?case by (simp add: ys foldl_merge_out)
qed

lemma layers_absorb: "x \<in> set xs \<Longrightarrow> merge (foldl merge z xs) x = foldl merge z xs"
proof -
  assume "x \<in> set xs"
  then obtain as bs where "xs = as @ x # bs" by (auto dest: split_list)
  then show ?thesis by (simp add: foldl_merge_out merge_assoc merge_idem)
qed

end

lemma strictest_simps [simp]:
  "strictest None r = r" "strictest l None = l" "strictest (Some m) (Some n) = Some (min m n)"
  by (auto simp: strictest_def split: option.splits)

interpretation u64_merge: strictest_merge strictest None
proof
  fix x y z :: "nat option"
  show "strictest x y = strictest y x" by (cases x; cases y) simp_all
  show "strictest (strictest x y) z = strictest x (strictest y z)"
    by (cases x; cases y; cases z) simp_all
  show "strictest x x = x" by (cases x) simp_all
qed simp

interpretation io_merge: strictest_merge merge_io_rate None
proof
  fix x y z :: "IoRateLimit option"
  show "merge_io_rate x y = merge_io_rate y x"
    using u64_merge.merge_commute
    by (cases x; cases y) (auto simp: merge_io_rate_def io_merge_strictest_def)
  show "merge_io_rate (merge_io_rate x y) z = merge_io_rate x (merge_io_rate y z)"
    by (cases x; cases y; cases z)
       (simp_all add: merge_io_rate_def io_merge_strictest_def u64_merge.merge_assoc)
  show "merge_io_rate x x = x"
    by (cases x) (simp_all add: merge_io_rate_def io_merge_strictest_def u64_merge.merge_idem)
  show "merge_io_rate None x = x" by (cases x) (simp_all add: merge_io_rate_def)
qed

interpretation limits_merge: strictest_merge limits_merge_strictest no_limits
proof
  fix x y z :: ResourceLimits
  show "limits_merge_strictest x y = limits_merge_strictest y x"
    unfolding limits_merge_strictest_def
    by (simp add: u64_merge.merge_commute [of "cpu_seconds x"]
        u64_merge.merge_commute [of "address_space_bytes x"]
        u64_merge.merge_commute [of "processes x"] u64_merge.merge_commute [of "open_files x"]
        u64_merge.merge_commute [of "file_size_bytes x"] io_merge.merge_commute [of "io_rate x"])
  show "limits_merge_strictest (limits_merge_strictest x y) z =
        limits_merge_strictest x (limits_merge_strictest y z)"
    by (simp add: limits_merge_strictest_def u64_merge.merge_assoc io_merge.merge_assoc)
  show "limits_merge_strictest x x = x"
    by (simp add: limits_merge_strictest_def u64_merge.merge_idem io_merge.merge_idem)
  show "limits_merge_strictest no_limits x = x"
    by (simp add: limits_merge_strictest_def no_limits_def io_merge.merge_unlimited)
qed

section \<open>What a limit text denotes\<close>

definition mem_limit :: "string option \<Rightarrow> nat option" where
  "mem_limit s = Option.bind s parse_bytes_value"

definition pids_limit :: "string option \<Rightarrow> nat option" where
  "pids_limit s = Option.bind s (\<lambda>t. pids_of (trim t))"

definition cpu_limit :: "string option \<Rightarrow> f64 option" where
  "cpu_limit s = Option.bind s parse_cpu_ratio"

definition strictest_ratio :: "f64 option \<Rightarrow> f64 option \<Rightarrow> f64 option" where
  "strictest_ratio l r =
     (case (l, r) of
        (Some x, Some y) \<Rightarrow> Some (if f64_le x y then x else y)
      | (None, _) \<Rightarrow> r
      | (_, None) \<Rightarrow> l)"

lemma parse_bytes_value_trim [simp]: "parse_bytes_value (trim s) = parse_bytes_value s"
  by (simp add: parse_bytes_value_def parse_cgroup_memory_def)

lemma parse_cpu_ratio_trim [simp]: "parse_cpu_ratio (trim s) = parse_cpu_ratio s"
  by (simp add: parse_cpu_ratio_def)

lemma max_denotes_nothing:
  "parse_bytes_value ''max'' = None" "pids_of (trim ''max'') = None"
  "parse_cpu_ratio ''max 100000'' = None" "parse_cgroup_memory ''max'' = Ok None"
  by code_simp+

lemma mem_limit_strictest:
  "mem_limit (strictest_memory_str l r) = strictest (mem_limit l) (mem_limit r)"
  by (auto simp: mem_limit_def strictest_memory_str_def max_denotes_nothing min_def
      split: option.splits)

lemma pids_limit_strictest:
  "pids_limit (strictest_pids_str l r) = strictest (pids_limit l) (pids_limit r)"
  by (auto simp: pids_limit_def strictest_pids_str_def max_denotes_nothing min_def
      split: option.splits)

lemma cpu_limit_strictest:
  "cpu_limit (strictest_cpu_max l r) = strictest_ratio (cpu_limit l) (cpu_limit r)"
  by (auto simp: cpu_limit_def strictest_cpu_max_def strictest_ratio_def max_denotes_nothing
      split: option.splits)

section \<open>Lemmas on the byte parser\<close>

lemma scale_bounds:
  "scale_fraction s mul = Ok n \<Longrightarrow> n < 2 ^ 64" "scale_integer s mul = Ok n \<Longrightarrow> n < 2 ^ 64"
  using f64_to_u64_bound
  by (auto simp: scale_fraction_def scale_integer_def checked_mul_def Let_def
      split: option.splits if_splits)

lemma parse_bytes_with_standard_bound:
  "parse_bytes_with_standard s std = Ok n \<Longrightarrow> n < 2 ^ 64"
  unfolding parse_bytes_with_standard_def Let_def
  by (auto split: option.splits if_splits dest: scale_bounds parse_uint_bound simp del: power_numeral)

definition is_lower_letter :: "char \<Rightarrow> bool" where
  "is_lower_letter c = (97 \<le> (of_char c :: nat) \<and> (of_char c :: nat) \<le> 122)"

lemma suffix_after_nonletter:
  assumes "x \<noteq> []" and "\<not> is_lower_letter (last x)" and "list_all is_lower_letter u"
  shows "suffix u (x @ v) \<longleftrightarrow> suffix u v"
proof
  assume "suffix u (x @ v)"
  then consider "suffix u v" | x' where "u = x' @ v" "suffix x' x"
    using suffix_append by blast
  then show "suffix u v"
  proof cases
    case 2
    have "x' = []"
    proof (rule ccontr)
      assume "x' \<noteq> []"
      with 2 have "last x' = last x" and "last x' \<in> set u" by (auto simp: suffix_def)
      then show False using assms by (auto simp: list_all_iff)
    qed
    with 2 show ?thesis by simp
  qed
qed (simp add: suffix_appendI)

lemma first_suffix_after_nonletter:
  assumes "x \<noteq> []" and "\<not> is_lower_letter (last x)"
    and "list_all (\<lambda>(u, _). list_all is_lower_letter u) us"
  shows "first_suffix us (x @ v) = map_option (\<lambda>(n, mul). (x @ n, mul)) (first_suffix us v)"
  using assms(3)
proof (induction us)
  case (Cons p us)
  obtain u mul where p: "p = (u, mul)" by (cases p)
  have "strip_suffix u (x @ v) = map_option (\<lambda>n. x @ n) (strip_suffix u v)"
  proof (cases "suffix u v")
    case True
    then obtain y where "v = y @ u" by (auto simp: suffix_def)
    then show ?thesis by (simp add: strip_suffix_def suffix_appendI)
  next
    case False
    moreover have "list_all is_lower_letter u" using Cons.prems p by simp
    ultimately show ?thesis
      using suffix_after_nonletter [OF assms(1,2)] by (simp add: strip_suffix_def)
  qed
  with Cons p show ?case by (simp split: option.splits)
qed simp

lemma unit_suffixes_letters: "list_all (\<lambda>(u, _). list_all is_lower_letter u) (unit_suffixes std)"
  by (simp add: unit_suffixes_def is_lower_letter_def)

lemma unit_suffixes_first:
  "(u, mul) \<in> set (unit_suffixes std) \<Longrightarrow> first_suffix (unit_suffixes std) u = Some ([], mul)"
  by (simp add: unit_suffixes_def)
     (elim disjE conjE; simp add: strip_suffix_def suffix_def; blast?)

lemma not_letter:
  "is_ascii_digit c \<Longrightarrow> \<not> is_lower_letter c \<and> \<not> is_ascii_ws c \<and> ascii_lower c = c"
  "is_ascii_ws c \<Longrightarrow> \<not> is_lower_letter c \<and> ascii_lower c = c"
  by (auto simp: is_ascii_digit_def is_lower_letter_def is_ascii_ws_def ascii_lower_def Let_def)

lemma lower_fixed: "list_all (\<lambda>c. ascii_lower c = c) s \<Longrightarrow> to_ascii_lowercase s = s"
  by (simp add: to_ascii_lowercase_def list_all_iff map_idI)

lemma trim_end_ws: "list_all P w \<Longrightarrow> s \<noteq> [] \<Longrightarrow> \<not> P (last s) \<Longrightarrow> trim_end_matches P (s @ w) = s"
  using dropWhile_append2 [of "rev w" P "rev s"]
  by (cases s rule: rev_cases) (auto simp: trim_end_matches_def list_all_iff)

lemma trim_fixed: "s \<noteq> [] \<Longrightarrow> \<not> is_ascii_ws (hd s) \<Longrightarrow> \<not> is_ascii_ws (last s) \<Longrightarrow> trim s = s"
  using trim_end_ws [of is_ascii_ws "[]" s]
  by (cases s) (auto simp: trim_def trim_start_matches_def)

lemma trim_digits_ws:
  assumes "ds \<noteq> []" and "list_all is_ascii_digit ds" and "list_all is_ascii_ws w"
  shows "trim (ds @ w) = ds"
proof -
  have ends: "\<not> is_ascii_ws (hd ds)" "\<not> is_ascii_ws (last ds)"
    using assms by (auto simp: list_all_iff not_letter(1))
  then have "trim_start_matches is_ascii_ws (ds @ w) = ds @ w"
    using assms(1) by (cases ds) (simp_all add: trim_start_matches_def)
  then show ?thesis using trim_end_ws assms ends by (simp add: trim_def)
qed

text \<open>A byte quantity: digits, optional blanks, a unit in any letter case.\<close>

definition quantity :: "UnitStandard \<Rightarrow> string \<Rightarrow> string \<Rightarrow> string \<Rightarrow> nat \<Rightarrow> bool" where
  "quantity std ds w u mul \<longleftrightarrow>
     ds \<noteq> [] \<and> list_all is_ascii_digit ds \<and> list_all is_ascii_ws w \<and>
     (to_ascii_lowercase u, mul) \<in> set (unit_suffixes std)"

lemma unit_letters:
  assumes "(to_ascii_lowercase u, mul) \<in> set (unit_suffixes std)"
  shows "u \<noteq> [] \<and> \<not> is_ascii_ws (last u) \<and> \<not> is_ascii_digit (last u)"
proof -
  have ne: "to_ascii_lowercase u \<noteq> []" and l: "list_all is_lower_letter (to_ascii_lowercase u)"
    using assms unit_suffixes_letters [of std] by (auto simp: unit_suffixes_def is_lower_letter_def)
  then have u: "u \<noteq> []" by (auto simp: to_ascii_lowercase_def)
  then have "is_lower_letter (ascii_lower (last u))"
    using l by (simp add: to_ascii_lowercase_def list_all_iff)
  with u show ?thesis using not_letter by metis
qed

lemma parse_uint_nondigit: "s \<noteq> [] \<Longrightarrow> \<not> is_ascii_digit (last s) \<Longrightarrow> parse_uint w s = None"
  by (cases s) (auto simp: parse_uint_def Let_def list_all_iff split: if_splits)

lemma parse_bytes_quantity:
  assumes "quantity std ds w u mul"
  shows "parse_bytes_with_standard (ds @ w @ u) std =
           (if digits_val ds < 2 ^ 64 \<and> digits_val ds * mul < 2 ^ 64
            then Ok (digits_val ds * mul) else Err Overflow)"
proof -
  let ?s = "ds @ w @ u"
  from assms have d: "ds \<noteq> []" "list_all is_ascii_digit ds" and w: "list_all is_ascii_ws w"
    and u: "(to_ascii_lowercase u, mul) \<in> set (unit_suffixes std)"
    by (simp_all add: quantity_def)
  note ul = unit_letters [OF u]
  have "\<not> is_ascii_ws (hd ds)" using d by (cases ds) (auto simp: not_letter(1))
  then have tr: "trim ?s = ?s" using d ul by (intro trim_fixed) auto
  have np: "parse_u64 ?s = None" using ul by (intro parse_uint_nondigit) auto
  have low: "to_ascii_lowercase ?s = (ds @ w) @ to_ascii_lowercase u"
    using d w by (simp add: lower_fixed not_letter list.pred_mono_strong)
  have "\<not> is_lower_letter (last (ds @ w))"
    using d w by (auto simp: list_all_iff not_letter last_append)
  then have fs: "first_suffix (unit_suffixes std) (to_ascii_lowercase ?s) = Some (ds @ w, mul)"
    using first_suffix_after_nonletter [OF _ _ unit_suffixes_letters, of "ds @ w"]
      unit_suffixes_first [OF u] d unfolding low by simp
  have dot: "CHR ''.'' \<notin> set ds" using d by (auto simp: list_all_iff is_ascii_digit_def)
  have neg: "\<not> starts_with ds ''-''"
    using d by (cases ds) (auto simp: starts_with_def is_ascii_digit_def)
  show ?thesis
    using d np fs dot neg trim_digits_ws [OF d w]
    by (simp add: parse_bytes_with_standard_def tr scale_integer_def parse_uint_digits
        checked_mul_def)
qed

lemma parse_memory_bytes_stable:
  assumes "parse_memory_bytes s = Some t"
  shows "parse_cgroup_memory t = parse_cgroup_memory s"
proof (cases "parse_cgroup_memory s")
  case (Inr v)
  show ?thesis
  proof (cases v)
    case None
    with assms Inr have "t = ''max''" by (simp add: parse_memory_bytes_def)
    with Inr None show ?thesis by (simp add: max_denotes_nothing)
  next
    case (Some n)
    with Inr have n: "n < 2 ^ 64"
      by (auto simp: parse_cgroup_memory_def Let_def split: if_splits
          dest: parse_bytes_with_standard_bound)
    have t: "t = show_nat n" using assms Inr Some by (simp add: parse_memory_bytes_def)
    note sd = show_nat_digits [of n]
    have tr: "trim t = t" using trim_digits_ws [of t "[]"] sd by (simp add: t)
    have "hd t \<noteq> CHR ''m'' \<and> hd t \<noteq> CHR ''M'' \<and> hd t \<noteq> CHR ''-''"
      using sd by (cases t) (auto simp: t is_ascii_digit_def)
    then have "\<not> eq_ignore_ascii_case t ''max''" and "t \<noteq> ''-1''" and "t \<noteq> []"
      using sd lower_fixed [of t] not_letter(1)
      by (auto simp: eq_ignore_ascii_case_def t list_all_iff to_ascii_lowercase_def ascii_lower_def)
    then show ?thesis
      using Inr Some tr parse_show_nat [OF n]
      by (simp add: parse_cgroup_memory_def parse_bytes_with_standard_def t)
  qed
qed (use assms in \<open>simp add: parse_memory_bytes_def\<close>)

section \<open>Properties\<close>

text \<open>
  Byte quantities. Digits followed by optional blanks and a unit in any letter
  case parse to the number times the multiplier of that unit under the chosen standard, and
  to an overflow error exactly when the number or the product leaves \<open>u64\<close>; no input at all
  parses to a value outside \<open>u64\<close>; and the canonical text \<open>parse_memory_bytes\<close> writes to a
  cgroup file means the same limit as the text it was computed from.
\<close>

theorem byte_quantities_parse:
  assumes "quantity std ds w u mul" and "parse_bytes_with_standard s std' = Ok n"
    and "parse_memory_bytes r = Some t"
  shows "parse_bytes_with_standard (ds @ w @ u) std =
           (if digits_val ds < 2 ^ 64 \<and> digits_val ds * mul < 2 ^ 64
            then Ok (digits_val ds * mul) else Err Overflow) \<and>
         n < 2 ^ 64 \<and> parse_cgroup_memory t = parse_cgroup_memory r"
  using parse_bytes_quantity [OF assms(1)] parse_bytes_with_standard_bound [OF assms(2)]
    parse_memory_bytes_stable [OF assms(3)] by blast

theorem byte_quantities_parse_witness:
  "parse_bytes_with_standard ''512 MiB'' IecBinary = Ok 536870912 \<and>
   parse_cgroup_memory ''1048576'' = parse_cgroup_memory '' 1m''"
proof -
  have low: "to_ascii_lowercase ''MiB'' = ''mib''" by code_simp
  have q: "quantity IecBinary ''512'' '' '' ''MiB'' MIB"
    by (simp add: quantity_def unit_suffixes_def is_ascii_digit_def is_ascii_ws_def low)
  have b: "parse_bytes_with_standard ''7'' SiDecimal = Ok 7"
    by (simp add: parse_bytes_with_standard_def trim_def trim_end_matches_def
        trim_start_matches_def is_ascii_ws_def parse_uint_def is_ascii_digit_def digits_val_def
        digit_val_def)
  have tr: "trim '' 1m'' = ''1m''" "\<not> eq_ignore_ascii_case ''1m'' ''max''" by code_simp+
  have "quantity IecBinary ''1'' [] ''m'' MIB"
    by (simp add: quantity_def unit_suffixes_def is_ascii_digit_def to_ascii_lowercase_def
        ascii_lower_def)
  from parse_bytes_quantity [OF this] have v: "parse_cgroup_memory '' 1m'' = Ok (Some 1048576)"
    by (simp add: parse_cgroup_memory_def tr digits_val_def digit_val_def MIB_def)
  have m: "parse_memory_bytes '' 1m'' = Some ''1048576''"
    by (simp add: parse_memory_bytes_def v show_nat.simps digit_char_def char_of_def bit_0)
  show ?thesis
    using byte_quantities_parse [OF q b m] by (simp add: digits_val_def digit_val_def MIB_def)
qed

text \<open>
  Cgroup merges take the minimum. Reading a cgroup value as the limit it
  denotes, where \<open>max\<close>, an absent value and an unreadable one denote none, merging two
  configurations gives for memory, swap and process counts the smaller of the two limits,
  and the only one present when the other is absent; for the CPU quota the same holds by the
  \<open>f64\<close> comparison of the ratios.
\<close>

theorem cgroup_merge_is_minimum:
  "let c = cgroup_merge_strictest a b
   in mem_limit (memory_max c) = strictest (mem_limit (memory_max a)) (mem_limit (memory_max b)) \<and>
      mem_limit (swap_max c) = strictest (mem_limit (swap_max a)) (mem_limit (swap_max b)) \<and>
      pids_limit (pids_max c) = strictest (pids_limit (pids_max a)) (pids_limit (pids_max b)) \<and>
      cpu_limit (cg_cpu_max c) =
        strictest_ratio (cpu_limit (cg_cpu_max a)) (cpu_limit (cg_cpu_max b))"
  by (simp add: cgroup_merge_strictest_def mem_limit_strictest pids_limit_strictest
      cpu_limit_strictest)

definition tighter :: "nat option \<Rightarrow> nat option \<Rightarrow> bool" where
  "tighter x y = (case y of None \<Rightarrow> True | Some n \<Rightarrow> (case x of None \<Rightarrow> False | Some m \<Rightarrow> m \<le> n))"

lemma strictest_absorb_tighter: "strictest x y = x \<Longrightarrow> tighter x y"
  by (cases x; cases y) (auto simp: tighter_def min_def split: if_splits)

lemma limits_absorb_tighter:
  assumes "limits_merge_strictest m l = m"
  shows "tighter (cpu_seconds m) (cpu_seconds l)"
    and "tighter (address_space_bytes m) (address_space_bytes l)"
    and "tighter (processes m) (processes l)" and "tighter (open_files m) (open_files l)"
    and "tighter (file_size_bytes m) (file_size_bytes l)"
  using arg_cong [OF assms, of cpu_seconds] arg_cong [OF assms, of address_space_bytes]
    arg_cong [OF assms, of processes] arg_cong [OF assms, of open_files]
    arg_cong [OF assms, of file_size_bytes]
  by (simp_all add: limits_merge_strictest_def strictest_absorb_tighter)

text \<open>
  Limit layers commute. Merging any list of resource-limit layers gives a
  result that does not depend on their order, that merging one of the layers again leaves
  unchanged, and whose ceilings are at most those of each layer: a layer can only tighten.
\<close>

theorem limit_layers_commute:
  assumes "mset ls = mset ls'" and "l \<in> set ls"
  defines "m \<equiv> foldl limits_merge_strictest no_limits ls"
  shows "foldl limits_merge_strictest no_limits ls' = m \<and> limits_merge_strictest m l = m \<and>
    tighter (cpu_seconds m) (cpu_seconds l) \<and>
    tighter (address_space_bytes m) (address_space_bytes l) \<and>
    tighter (processes m) (processes l) \<and> tighter (open_files m) (open_files l) \<and>
    tighter (file_size_bytes m) (file_size_bytes l)"
  using limits_merge.layers_order [OF assms(1)]
    limits_absorb_tighter [OF limits_merge.layers_absorb [OF assms(2)], of no_limits]
    limits_merge.layers_absorb [OF assms(2), of no_limits]
  by (simp add: m_def)

theorem limit_layers_commute_witness:
  "processes (foldl limits_merge_strictest no_limits
     [no_limits\<lparr>processes := Some 64\<rparr>, no_limits\<lparr>processes := Some 8, open_files := Some 3\<rparr>]) = Some 8 \<and>
   foldl limits_merge_strictest no_limits
     [no_limits\<lparr>processes := Some 8, open_files := Some 3\<rparr>, no_limits\<lparr>processes := Some 64\<rparr>] =
   foldl limits_merge_strictest no_limits
     [no_limits\<lparr>processes := Some 64\<rparr>, no_limits\<lparr>processes := Some 8, open_files := Some 3\<rparr>]"
  using limit_layers_commute
    [of "[no_limits\<lparr>processes := Some 64\<rparr>, no_limits\<lparr>processes := Some 8, open_files := Some 3\<rparr>]"
        "[no_limits\<lparr>processes := Some 8, open_files := Some 3\<rparr>, no_limits\<lparr>processes := Some 64\<rparr>]"
        "no_limits\<lparr>processes := Some 64\<rparr>"]
  by (simp add: limits_merge_strictest_def no_limits_def add_mset_commute)

end
