(* ===== verification/PolicyTypes.thy ===== *)
theory PolicyTypes
  imports Paths LimitMerge
begin

text \<open>
  The resolved policy of \<open>src/src/policy/types.rs\<close>: its data, the environment filter, the
  scope questions \<open>in_write_scope\<close> and \<open>in_read_scope\<close> with their symlink-following
  normalization, and the overlap analysis of deny paths. \<open>std::fs::canonicalize\<close> reads the
  machine's filesystem: it is the parameter \<open>canon\<close>, which returns the canonical path of an
  existing file.

  The lemmas show that a deny rule always wins, that the scope of a path is decided by the
  canonical form of its longest existing ancestor, and that the component loop of the overlap
  analysis is path containment.
\<close>

section \<open>Data\<close>

datatype Tier = TierFull | TierFsOnly | TierSeccomp

fun tier_label :: "Tier \<Rightarrow> string" where
  "tier_label TierFull = ''full''"
| "tier_label TierFsOnly = ''fs-only''"
| "tier_label TierSeccomp = ''seccomp''"

datatype SeccompProfile = ProfileDefault | AgentMin

definition seccomp_profile_parse :: "string \<Rightarrow> SeccompProfile option" where
  "seccomp_profile_parse s =
     (if s = ''default'' \<or> s = ''standard'' then Some ProfileDefault
      else if s = ''agent-min'' \<or> s = ''agent_min'' then Some AgentMin
      else None)"

fun seccomp_profile_label :: "SeccompProfile \<Rightarrow> string" where
  "seccomp_profile_label ProfileDefault = ''default''"
| "seccomp_profile_label AgentMin = ''agent-min''"

record NetRule =
  rule_domain :: string
  rule_port :: nat

datatype NetMode =
    NetOff
  | NetAllowlist "string list"
  | NetStrict "NetRule list"
  | NetAsk

fun net_mode_label :: "NetMode \<Rightarrow> string" where
  "net_mode_label NetOff = ''off''"
| "net_mode_label (NetAllowlist domains) = ''allowlist:'' @ join_with '','' domains"
| "net_mode_label (NetStrict rules) =
     ''strict:'' @
     join_with '','' (map (\<lambda>r. rule_domain r @ '':'' @ show_nat (rule_port r)) rules)"
| "net_mode_label NetAsk = ''ask''"

fun uses_relay :: "NetMode \<Rightarrow> bool" where
  "uses_relay (NetAllowlist _) = True"
| "uses_relay (NetStrict _) = True"
| "uses_relay NetAsk = True"
| "uses_relay NetOff = False"

datatype Action =
    FsRead path
  | FsWrite path
  | ProcessExec path "string list"
  | NetConnect string nat

fun action_type :: "Action \<Rightarrow> string" where
  "action_type (FsRead _) = ''fs:read''"
| "action_type (FsWrite _) = ''fs:write''"
| "action_type (ProcessExec _ _) = ''process:exec''"
| "action_type (NetConnect _ _) = ''net:connect''"

fun target_display :: "Action \<Rightarrow> string" where
  "target_display (FsRead p) = p"
| "target_display (FsWrite p) = p"
| "target_display (ProcessExec binary args) =
     (if args = [] then binary else binary @ '' '' @ join_with '' '' args)"
| "target_display (NetConnect domain port) = domain @ '':'' @ show_nat port"

datatype ActionVerdict = Allowed | Denied (verdict_reason: string) (verdict_rule: string)

definition allow :: ActionVerdict where
  "allow = Allowed"

definition deny :: "string \<Rightarrow> string \<Rightarrow> ActionVerdict" where
  "deny reason rule = Denied reason rule"

fun is_allowed :: "ActionVerdict \<Rightarrow> bool" where
  "is_allowed Allowed = True"
| "is_allowed (Denied _ _) = False"

fun is_denied :: "ActionVerdict \<Rightarrow> bool" where
  "is_denied Allowed = False"
| "is_denied (Denied _ _) = True"

fun denial_reason :: "ActionVerdict \<Rightarrow> string option" where
  "denial_reason (Denied reason _) = Some reason"
| "denial_reason Allowed = None"

fun denial_rule :: "ActionVerdict \<Rightarrow> string option" where
  "denial_rule (Denied _ rule) = Some rule"
| "denial_rule Allowed = None"

datatype PolicyError =
    CompilationFailed string
  | LockdownViolation string
  | VerificationFailed string

fun policy_error_exit_code :: "PolicyError \<Rightarrow> int" where
  "policy_error_exit_code (CompilationFailed _) = 125"
| "policy_error_exit_code (VerificationFailed _) = 125"
| "policy_error_exit_code (LockdownViolation _) = 126"

record SeccompNotifyConfig =
  notify_enabled :: bool
  default_action :: "string option"
  allow_syscalls :: "string list"

datatype PolicySourceKind =
    SystemGlobal | UserGlobal | BuiltinProfile | Preset | AgentPreset
  | Repository | RepositoryFragment | LocalOverride | CliExplicit | CliOverride

fun precedence :: "PolicySourceKind \<Rightarrow> nat" where
  "precedence SystemGlobal = 1"
| "precedence UserGlobal = 2"
| "precedence BuiltinProfile = 3"
| "precedence Preset = 3"
| "precedence AgentPreset = 4"
| "precedence Repository = 5"
| "precedence RepositoryFragment = 5"
| "precedence LocalOverride = 6"
| "precedence CliExplicit = 7"
| "precedence CliOverride = 7"

fun source_kind_label :: "PolicySourceKind \<Rightarrow> string" where
  "source_kind_label SystemGlobal = ''system-global''"
| "source_kind_label UserGlobal = ''user-global''"
| "source_kind_label BuiltinProfile = ''builtin-profile''"
| "source_kind_label Preset = ''preset''"
| "source_kind_label AgentPreset = ''agent-preset''"
| "source_kind_label Repository = ''repository''"
| "source_kind_label RepositoryFragment = ''repository-fragment''"
| "source_kind_label LocalOverride = ''local-override''"
| "source_kind_label CliExplicit = ''cli-explicit''"
| "source_kind_label CliOverride = ''cli-override''"

record DenyEntry =
  deny_path :: path
  deny_is_dir :: bool

record PolicyMetadata =
  meta_name :: string
  description :: string
  extends_from :: "string list"
  source_kind :: "PolicySourceKind option"
  immutable :: bool

record EnvironmentPolicy =
  pass_through :: "string list"
  env_deny :: "string list"

record Policy =
  policy_name :: string
  metadata :: PolicyMetadata
  limits :: ResourceLimits
  allow_write :: "path list"
  allow_read :: "path list"
  deny_write :: "path list"
  deny_read :: "path list"
  deny_resolved :: "DenyEntry list"
  environment :: EnvironmentPolicy
  deny_network :: bool
  network_mode :: "string option"
  network_allow :: "string list"
  allow_cidr :: "string list"
  net_quota :: "(string \<times> nat) list"
  net_bind_ports :: "nat list"
  net_connect_ports :: "nat list"
  allow_unix_sockets :: "string list"
  deny_unix_sockets :: "string list"
  seccomp_profile :: SeccompProfile
  seccomp_notify :: "SeccompNotifyConfig option"
  cgroup :: "CgroupConfig option"
  cpu_max :: "string option"
  io_priority :: "string option"
  dev_allow :: "string list option"
  oslog :: bool
  lpac :: bool
  is_immutable :: bool
  system_log :: bool
  auto_deny_secrets :: bool
  secret_proxies :: "string list"
  ro_mounts :: "path list"
  git_guard :: bool
  snapshot :: bool
  read_only_caches :: bool
  shadow :: bool
  tmpfs_tmp :: bool
  warnings :: "string list"

definition default_policy :: Policy where
  "default_policy =
     \<lparr>policy_name = ''default'',
      metadata = \<lparr>meta_name = [], description = [], extends_from = [], source_kind = None,
                  immutable = False\<rparr>,
      limits = no_limits, allow_write = [], allow_read = [], deny_write = [], deny_read = [],
      deny_resolved = [], environment = \<lparr>pass_through = [], env_deny = []\<rparr>,
      deny_network = False, network_mode = None, network_allow = [], allow_cidr = [],
      net_quota = [], net_bind_ports = [], net_connect_ports = [], allow_unix_sockets = [],
      deny_unix_sockets = [], seccomp_profile = ProfileDefault, seccomp_notify = None,
      cgroup = None, cpu_max = None, io_priority = None, dev_allow = None, oslog = False,
      lpac = False, is_immutable = False, system_log = False, auto_deny_secrets = False,
      secret_proxies = [], ro_mounts = [], git_guard = False, snapshot = False,
      read_only_caches = False, shadow = False, tmpfs_tmp = True, warnings = []\<rparr>"

section \<open>Environment filter\<close>

definition env_pattern_matches :: "string \<Rightarrow> string \<Rightarrow> bool" where
  "env_pattern_matches key pattern =
     (case strip_suffix ''*'' pattern of
        None \<Rightarrow> pattern = key
      | Some pre \<Rightarrow> starts_with key pre)"

definition environment_allows :: "EnvironmentPolicy \<Rightarrow> string \<Rightarrow> bool" where
  "environment_allows env key =
     (if list_ex (env_pattern_matches key) (env_deny env) then False
      else list_ex (env_pattern_matches key) (pass_through env))"

section \<open>Hosts\<close>

text \<open>Strip trailing dots, brackets around an IPv6 address, and a trailing port.\<close>

definition strip_domain_port :: "string \<Rightarrow> string" where
  "strip_domain_port str =
     (let s = trim_end_matches (\<lambda>c. c = CHR ''.'') (trim str)
      in case strip_prefix ''['' s of
           Some rest \<Rightarrow>
             if CHR '']'' \<in> set rest then takeWhile (\<lambda>c. c \<noteq> CHR '']'') rest else s
         | None \<Rightarrow>
             (case rsplit_once (CHR '':'') s of
                Some (host_part, port_part) \<Rightarrow>
                  if port_part \<noteq> [] \<and> list_all is_ascii_digit port_part \<and>
                     CHR '':'' \<notin> set host_part
                  then host_part else s
              | None \<Rightarrow> s))"

section \<open>Scopes\<close>

type_synonym canonicalize = "path \<Rightarrow> path option"

function scope_walk :: "canonicalize \<Rightarrow> path \<Rightarrow> path \<Rightarrow> string list \<Rightarrow> path" where
  "scope_walk canon p cursor unresolved =
     (case canon cursor of
        Some c \<Rightarrow> lexical_normalize (foldl path_push c (rev unresolved))
      | None \<Rightarrow>
          (case (file_name cursor, path_parent cursor) of
             (Some name, Some parent) \<Rightarrow>
               if \<not> path_eq parent cursor
               then scope_walk canon p parent (unresolved @ [name])
               else lexical_normalize p
           | _ \<Rightarrow> lexical_normalize p))"
  by pat_completeness auto

termination
  by (relation "measure (\<lambda>(canon, p, cursor, unresolved). length (components cursor))")
     (auto simp: path_eq_def file_name_def dest!: path_parent_Some [OF sym] split: if_splits)

declare scope_walk.simps [simp del]

definition normalize_scope_path :: "canonicalize \<Rightarrow> path \<Rightarrow> path" where
  "normalize_scope_path canon p =
     (if is_absolute p then scope_walk canon p p [] else lexical_normalize p)"

definition in_write_scope :: "canonicalize \<Rightarrow> Policy \<Rightarrow> path \<Rightarrow> bool" where
  "in_write_scope canon pol p =
     (let probed = normalize_scope_path canon p
      in if list_ex (\<lambda>denied. path_starts_with probed (normalize_scope_path canon denied))
              (deny_write pol)
         then False
         else list_ex (\<lambda>root. path_starts_with probed (normalize_scope_path canon root))
                (allow_write pol))"

definition in_read_scope :: "canonicalize \<Rightarrow> Policy \<Rightarrow> path \<Rightarrow> bool" where
  "in_read_scope canon pol p =
     (let probed = normalize_scope_path canon p
      in if list_ex (\<lambda>denied. path_starts_with probed (normalize_scope_path canon denied))
              (deny_read pol)
         then False
         else list_ex (\<lambda>root. path_starts_with probed (normalize_scope_path canon root))
                (allow_read pol @ allow_write pol))"

section \<open>Deny overlap\<close>

record DenyOverlapReport =
  denied_path :: path
  inside_grant :: bool
  conflicting_root :: "path option"

fun component_matches :: "component \<Rightarrow> component \<Rightarrow> bool" where
  "component_matches RootDir RootDir = True"
| "component_matches CurDir CurDir = True"
| "component_matches ParentDir ParentDir = True"
| "component_matches (Normal l) (Normal r) = (l = r)"
| "component_matches _ _ = False"

fun components_inside :: "component list \<Rightarrow> component list \<Rightarrow> bool" where
  "components_inside _ [] = True"
| "components_inside [] (_ # _) = False"
| "components_inside (c # cs) (r # rs) = (if component_matches c r then components_inside cs rs else False)"

definition path_is_inside :: "path \<Rightarrow> path \<Rightarrow> bool" where
  "path_is_inside candidate rt = components_inside (components candidate) (components rt)"

definition analyze_deny_overlap :: "Policy \<Rightarrow> DenyOverlapReport list" where
  "analyze_deny_overlap pol =
     (let granted_roots = allow_write pol @ allow_read pol
      in map (\<lambda>denied.
                let conflicting = find (\<lambda>root. path_is_inside (deny_path denied) root) granted_roots
                in \<lparr>denied_path = deny_path denied,
                    inside_grant = (conflicting \<noteq> None),
                    conflicting_root = conflicting\<rparr>)
           (deny_resolved pol))"

section \<open>Lemmas\<close>

lemma env_pattern_matches_iff:
  "env_pattern_matches key pat \<longleftrightarrow>
     pat = key \<and> (\<forall>pre. pat \<noteq> pre @ ''*'') \<or> (\<exists>pre. pat = pre @ ''*'' \<and> prefix pre key)"
  by (auto simp: env_pattern_matches_def strip_suffix_Some starts_with_def split: option.splits)
     (metis option.distinct(1) strip_suffix_Some)+

lemma component_matches_eq [simp]: "component_matches c d \<longleftrightarrow> c = d"
  by (cases c; cases d) auto

lemma components_inside_prefix [simp]: "components_inside cs rs \<longleftrightarrow> prefix rs cs"
  by (induction cs rs rule: components_inside.induct) auto

lemma path_is_inside_iff [simp]: "path_is_inside p r \<longleftrightarrow> path_starts_with p r"
  by (simp add: path_is_inside_def path_starts_with_def)

lemma file_name_Some: "file_name p = Some n \<longleftrightarrow> (\<exists>cs. components p = cs @ [Normal n])"
  by (cases "components p" rule: rev_cases)
     (auto simp: file_name_def simp del: components_eq_Nil split: component.splits if_splits)

lemma file_name_valid: "file_name p = Some n \<Longrightarrow> valid_name n"
  using components_normal [of n p] by (auto simp: file_name_Some)

lemma components_push_names:
  "\<forall>n \<in> set ns. valid_name n \<Longrightarrow> components (foldl path_push b ns) = components b @ map Normal ns"
  by (induction ns arbitrary: b) (simp_all add: components_push_name)

text \<open>
  \<open>canonicalize\<close> returns an absolute path without dot components, and succeeds on the root
  directory: its documented behaviour on Unix.
\<close>

definition canonical :: "path \<Rightarrow> bool" where
  "canonical c \<longleftrightarrow> has_root c \<and> ParentDir \<notin> set (components c) \<and> CurDir \<notin> set (components c)"

definition canonicalizes :: "canonicalize \<Rightarrow> bool" where
  "canonicalizes canon \<longleftrightarrow>
     (\<forall>p c. canon p = Some c \<longrightarrow> canonical c) \<and>
     (\<forall>p. components p = [RootDir] \<longrightarrow> canon p \<noteq> None)"

lemma canonical_comps:
  assumes "canonical c"
  obtains ns where "components c = RootDir # map Normal ns" "\<forall>n \<in> set ns. valid_name n"
proof -
  from assms have r: "has_root c" and np: "ParentDir \<notin> set (components c)"
    by (simp_all add: canonical_def)
  have lead: "lead_comps c = [RootDir]" using r by (simp add: lead_comps_def)
  have "set (tail_comps c) \<subseteq> range Normal"
    using np components_structure [of c] lead by (auto simp: components_def)
  then obtain ns where ns: "tail_comps c = map Normal ns" by (metis ex_map_conv imageE subsetD)
  with lead have "components c = RootDir # map Normal ns" by (simp add: components_def)
  moreover from this have "\<forall>n \<in> set ns. valid_name n" using components_normal [of _ c] by auto
  ultimately show ?thesis by (rule that)
qed

lemma lexical_normalize_canonical:
  assumes "components p = RootDir # map Normal ns"
  shows "components (lexical_normalize p) = components p"
proof -
  have "has_root p" using assms has_root_iff by auto
  then show ?thesis
    using assms by (simp add: lexical_normalize_rooted_comps resolve_stack_map_Normal)
qed

lemma scope_walk_result:
  assumes "canonicalizes canon" and "components cursor = RootDir # map Normal ns"
    and "\<forall>n \<in> set us. valid_name n"
  shows "\<exists>k q c. k \<le> length ns \<and> components q = RootDir # map Normal (take k ns) \<and>
    canon q = Some c \<and>
    components (scope_walk canon p cursor us) = components c @ map Normal (drop k ns @ rev us)"
  using assms
proof (induction canon p cursor us arbitrary: ns rule: scope_walk.induct)
  case (1 canon p cursor us)
  show ?case
  proof (cases "canon cursor")
    case (Some c)
    with "1.prems" have "canonical c" by (auto simp: canonicalizes_def)
    then obtain ms where ms: "components c = RootDir # map Normal ms" by (rule canonical_comps)
    have "components (foldl path_push c (rev us)) = RootDir # map Normal (ms @ rev us)"
      using "1.prems" ms by (simp add: components_push_names)
    from lexical_normalize_canonical [OF this] this
    have "components (scope_walk canon p cursor us) = components c @ map Normal (rev us)"
      using Some ms by (simp add: scope_walk.simps)
    with Some "1.prems" show ?thesis by (intro exI [of _ "length ns"]) auto
  next
    case None
    have "ns \<noteq> []" using None "1.prems" by (auto simp: canonicalizes_def)
    then obtain ms n where ns: "ns = ms @ [n]" by (cases ns rule: rev_cases) auto
    have cc: "components cursor = (RootDir # map Normal ms) @ [Normal n]" using "1.prems" ns by simp
    have fn: "file_name cursor = Some n" using cc file_name_Some by blast
    obtain q where q: "path_parent cursor = Some q"
      using path_parent_None [of cursor] cc by (cases "path_parent cursor") auto
    have cq: "components q = RootDir # map Normal ms" using path_parent_Some [OF q] cc by simp
    have ne: "\<not> path_eq q cursor" using cq cc by (simp add: path_eq_def)
    have eq: "scope_walk canon p cursor us = scope_walk canon p q (us @ [n])"
      using None fn q ne by (simp add: scope_walk.simps [of canon p cursor us])
    have "\<forall>m \<in> set (us @ [n]). valid_name m" using "1.prems" file_name_valid [OF fn] by auto
    from "1.IH" [OF None refl fn q ne "1.prems"(1) cq this]
    obtain k r c where k: "k \<le> length ms" "components r = RootDir # map Normal (take k ms)"
      "canon r = Some c"
      "components (scope_walk canon p q (us @ [n])) = components c @ map Normal (drop k ms @ rev (us @ [n]))"
      by auto
    then show ?thesis using eq ns by (intro exI [of _ k] exI [of _ r] exI [of _ c]) simp
  qed
qed

lemma environment_allows_iff:
  "environment_allows env key \<longleftrightarrow>
     (\<exists>pat \<in> set (pass_through env). env_pattern_matches key pat) \<and>
     \<not> (\<exists>pat \<in> set (env_deny env). env_pattern_matches key pat)"
  by (auto simp: environment_allows_def list_ex_iff)

lemma overlap_report:
  assumes "r \<in> set (analyze_deny_overlap pol)"
  shows "inside_grant r \<longleftrightarrow>
           (\<exists>g \<in> set (allow_write pol @ allow_read pol). path_starts_with (denied_path r) g)"
    and "conflicting_root r = Some g \<Longrightarrow>
           g \<in> set (allow_write pol @ allow_read pol) \<and> path_starts_with (denied_path r) g"
  using assms
  by (auto simp: analyze_deny_overlap_def Let_def find_not_None simp del: not_None_eq
      dest!: find_SomeD)

section \<open>Properties\<close>

text \<open>
  Scope decisions follow the longest existing ancestor. For an absolute path
  without dot-dot components, the path the scope questions compare is the canonical form of
  one of its ancestors followed by the remaining names, so it contains no dot component; and
  a path in the write (read) scope lies, after this resolution, under one of the granted
  roots and under none of the denied ones. The hypothesis on \<open>canonicalize\<close> is its documented
  contract.
\<close>

theorem scope_follows_canonical_ancestor:
  assumes "canonicalizes canon" and "components p = RootDir # map Normal ns"
  shows "(\<exists>k q c. k \<le> length ns \<and> components q = RootDir # map Normal (take k ns) \<and>
            canon q = Some c \<and>
            components (normalize_scope_path canon p) = components c @ map Normal (drop k ns)) \<and>
         (in_write_scope canon pol p \<longleftrightarrow>
            (\<exists>r \<in> set (allow_write pol).
               path_starts_with (normalize_scope_path canon p) (normalize_scope_path canon r)) \<and>
            (\<forall>d \<in> set (deny_write pol).
               \<not> path_starts_with (normalize_scope_path canon p) (normalize_scope_path canon d))) \<and>
         (in_read_scope canon pol p \<longleftrightarrow>
            (\<exists>r \<in> set (allow_read pol) \<union> set (allow_write pol).
               path_starts_with (normalize_scope_path canon p) (normalize_scope_path canon r)) \<and>
            (\<forall>d \<in> set (deny_read pol).
               \<not> path_starts_with (normalize_scope_path canon p) (normalize_scope_path canon d)))"
proof -
  have "has_root p" using assms(2) has_root_iff by auto
  then have "normalize_scope_path canon p = scope_walk canon p p []"
    by (simp add: normalize_scope_path_def)
  with scope_walk_result [OF assms, of "[]" p] show ?thesis
    by (auto simp: in_write_scope_def in_read_scope_def Let_def list_ex_iff)
qed

definition etc_link :: canonicalize where
  "etc_link p =
     (if path_eq p ''/'' then Some ''/''
      else if path_eq p ''/ws'' then Some ''/ws''
      else if path_eq p ''/ws/link'' then Some ''/etc'' else None)"

lemma etc_link_canonicalizes: "canonicalizes etc_link"
proof -
  have c: "components ''/'' = [RootDir]" "components ''/ws'' = [RootDir, Normal ''ws'']"
    "components ''/etc'' = [RootDir, Normal ''etc'']"
    by code_simp+
  show ?thesis
    by (auto simp: canonicalizes_def etc_link_def canonical_def c path_eq_def split: if_splits)
qed

theorem scope_follows_canonical_ancestor_witness:
  "\<not> in_write_scope etc_link (default_policy\<lparr>allow_write := [''/ws'']\<rparr>) ''/ws/link/passwd''"
proof -
  have p: "components ''/ws/link/passwd'' =
      RootDir # map Normal [''ws'', ''link'', ''passwd'']"
    by code_simp
  have n: "normalize_scope_path etc_link ''/ws/link/passwd'' = ''/etc/passwd''"
    "normalize_scope_path etc_link ''/ws'' = ''/ws''"
    by code_simp+
  have "\<not> path_starts_with ''/etc/passwd'' ''/ws''" by code_simp
  then show ?thesis
    using scope_follows_canonical_ancestor [OF etc_link_canonicalizes p,
        of "default_policy\<lparr>allow_write := [''/ws'']\<rparr>"]
    by (simp add: n)
qed

text \<open>
  A dot-dot after a missing name disables symlink resolution. With \<open>/ws/link\<close> a
  symbolic link to \<open>/etc\<close>, a path below the link is resolved into \<open>/etc\<close>, but the same path
  with a missing name and a dot-dot inserted is normalized lexically only: it stays under
  \<open>/ws\<close> and is in the write scope of a policy that grants \<open>/ws\<close>, although the function's
  comment promises that symlink-parent escapes cannot evade the comparison.
\<close>

theorem scope_dotdot_skips_symlink:
  "canonicalizes etc_link \<and>
   \<not> in_write_scope etc_link (default_policy\<lparr>allow_write := [''/ws'']\<rparr>) ''/ws/link/passwd'' \<and>
   in_write_scope etc_link (default_policy\<lparr>allow_write := [''/ws'']\<rparr>) ''/ws/link/missing/../passwd''"
proof -
  have "normalize_scope_path etc_link ''/ws/link/passwd'' = ''/etc/passwd''"
    "normalize_scope_path etc_link ''/ws/link/missing/../passwd'' = ''/ws/link/passwd''"
    "normalize_scope_path etc_link ''/ws'' = ''/ws''"
    "\<not> path_starts_with ''/etc/passwd'' ''/ws''" "path_starts_with ''/ws/link/passwd'' ''/ws''"
    by code_simp+
  then show ?thesis
    by (simp add: etc_link_canonicalizes in_write_scope_def default_policy_def)
qed

text \<open>
  Deny rules win. An environment variable passes the filter exactly when some
  pass-through pattern (an exact name, or a prefix followed by a star) matches its name and no
  deny pattern does; and the overlap analysis reports, for every resolved deny path in order,
  a conflict exactly when some granted root contains it, naming such a root.
\<close>

theorem deny_rules_win:
  "(environment_allows env key \<longleftrightarrow>
      (\<exists>pat \<in> set (pass_through env).
         pat = key \<and> (\<forall>pre. pat \<noteq> pre @ ''*'') \<or> (\<exists>pre. pat = pre @ ''*'' \<and> prefix pre key)) \<and>
      \<not> (\<exists>pat \<in> set (env_deny env).
         pat = key \<and> (\<forall>pre. pat \<noteq> pre @ ''*'') \<or> (\<exists>pre. pat = pre @ ''*'' \<and> prefix pre key))) \<and>
   map denied_path (analyze_deny_overlap pol) = map deny_path (deny_resolved pol) \<and>
   (\<forall>r \<in> set (analyze_deny_overlap pol).
      (inside_grant r \<longleftrightarrow>
         (\<exists>g \<in> set (allow_write pol @ allow_read pol). path_starts_with (denied_path r) g)) \<and>
      (\<forall>g. conflicting_root r = Some g \<longrightarrow>
         g \<in> set (allow_write pol @ allow_read pol) \<and> path_starts_with (denied_path r) g))"
proof -
  have "map denied_path (analyze_deny_overlap pol) = map deny_path (deny_resolved pol)"
    by (simp add: analyze_deny_overlap_def Let_def)
  then show ?thesis
    using overlap_report [of _ pol] unfolding environment_allows_iff env_pattern_matches_iff
    by blast
qed

theorem deny_rules_win_witness:
  "\<not> environment_allows \<lparr>pass_through = [''AWS_*''], env_deny = [''AWS_SECRET*'']\<rparr> ''AWS_SECRET_KEY''"
  using deny_rules_win [of "\<lparr>pass_through = [''AWS_*''], env_deny = [''AWS_SECRET*'']\<rparr>" "''AWS_SECRET_KEY''"
      default_policy]
  by auto

end
