(* ===== verification/Blake3.thy ===== *)
theory Blake3
  imports Prelude
begin

text \<open>
  The BLAKE3 hash function of \<open>src/src/policy_ir/contract.rs\<close> (module \<open>blake3\<close>), which seals
  the security contracts: the compression function on 32-bit words, the lazily filled chunk
  state, and the incremental hasher with its stack of subtree chaining values. A \<open>Vec\<close> that
  is used as a stack is the list with its top last. Where the code would panic (an overflowing
  counter, a slice out of range, \<open>unwrap\<close> on an empty stack) the operation returns \<open>None\<close>.

  The reference is the tree of the BLAKE3 specification: chunks of 1024 bytes, each hashed block
  by block, combined by parent nodes whose left subtree is the largest complete one. The
  lemmas show that the incremental hasher never panics, that its result does not depend on
  how the input is cut into updates, and that it computes the reference tree hash.
\<close>

unbundle bit_operations_syntax

type_synonym u8 = "8 word"
type_synonym u32 = "32 word"

section \<open>Compression\<close>

definition CHUNK_START :: u32 where "CHUNK_START = 1"
definition CHUNK_END :: u32 where "CHUNK_END = 2"
definition PARENT :: u32 where "PARENT = 4"
definition ROOT :: u32 where "ROOT = 8"

definition IV :: "u32 list" where
  "IV = [0x6A09E667, 0xBB67AE85, 0x3C6EF372, 0xA54FF53A, 0x510E527F, 0x9B05688C, 0x1F83D9AB,
         0x5BE0CD19]"

definition MSG_PERMUTATION :: "nat list" where
  "MSG_PERMUTATION = [2, 6, 3, 10, 7, 0, 4, 13, 1, 11, 12, 5, 9, 14, 15, 8]"

definition mix_g :: "nat \<Rightarrow> nat \<Rightarrow> nat \<Rightarrow> nat \<Rightarrow> u32 \<Rightarrow> u32 \<Rightarrow> u32 list \<Rightarrow> u32 list" where
  "mix_g a b c d mx my s0 =
     (let s1 = s0[a := s0 ! a + s0 ! b + mx];
          s2 = s1[d := word_rotr 16 (s1 ! d XOR s1 ! a)];
          s3 = s2[c := s2 ! c + s2 ! d];
          s4 = s3[b := word_rotr 12 (s3 ! b XOR s3 ! c)];
          s5 = s4[a := s4 ! a + s4 ! b + my];
          s6 = s5[d := word_rotr 8 (s5 ! d XOR s5 ! a)];
          s7 = s6[c := s6 ! c + s6 ! d]
      in s7[b := word_rotr 7 (s7 ! b XOR s7 ! c)])"

definition round_b3 :: "u32 list \<Rightarrow> u32 list \<Rightarrow> u32 list" where
  "round_b3 m s0 =
     (let s1 = mix_g 0 4 8 12 (m ! 0) (m ! 1) s0;
          s2 = mix_g 1 5 9 13 (m ! 2) (m ! 3) s1;
          s3 = mix_g 2 6 10 14 (m ! 4) (m ! 5) s2;
          s4 = mix_g 3 7 11 15 (m ! 6) (m ! 7) s3;
          s5 = mix_g 0 5 10 15 (m ! 8) (m ! 9) s4;
          s6 = mix_g 1 6 11 12 (m ! 10) (m ! 11) s5;
          s7 = mix_g 2 7 8 13 (m ! 12) (m ! 13) s6
      in mix_g 3 4 9 14 (m ! 14) (m ! 15) s7)"

definition permute :: "u32 list \<Rightarrow> u32 list" where
  "permute m = map (\<lambda>i. m ! (MSG_PERMUTATION ! i)) [0..<16]"

fun rounds :: "nat \<Rightarrow> u32 list \<Rightarrow> u32 list \<Rightarrow> u32 list" where
  "rounds 0 m s = s"
| "rounds (Suc n) m s = rounds n (permute m) (round_b3 m s)"

definition compress :: "u32 list \<Rightarrow> u32 list \<Rightarrow> u32 \<Rightarrow> nat \<Rightarrow> u32 \<Rightarrow> u32 list" where
  "compress cv block block_len counter flags =
     (let state = cv @ take 4 IV @
            [of_nat (counter mod 2 ^ 32), of_nat (counter div 2 ^ 32), block_len, flags];
          s = rounds 7 block state
      in map (\<lambda>i. s ! i XOR s ! (i + 8)) [0..<8] @ map (\<lambda>i. s ! (i + 8) XOR cv ! i) [0..<8])"

section \<open>Outputs\<close>

record Output =
  input_cv :: "u32 list"
  block_words :: "u32 list"
  block_len :: u32
  counter :: nat
  out_flags :: u32

definition chaining_value :: "Output \<Rightarrow> u32 list" where
  "chaining_value out =
     take 8 (compress (input_cv out) (block_words out) (block_len out) (counter out) (out_flags out))"

definition to_le_bytes :: "u32 \<Rightarrow> u8 list" where
  "to_le_bytes w = [ucast w, ucast (drop_bit 8 w), ucast (drop_bit 16 w), ucast (drop_bit 24 w)]"

definition from_le_bytes :: "u8 list \<Rightarrow> u32" where
  "from_le_bytes bs =
     ucast (bs ! 0) OR push_bit 8 (ucast (bs ! 1)) OR push_bit 16 (ucast (bs ! 2)) OR
     push_bit 24 (ucast (bs ! 3))"

definition root_output_bytes :: "Output \<Rightarrow> u8 list" where
  "root_output_bytes out =
     concat (map to_le_bytes
       (take 8 (compress (input_cv out) (block_words out) (block_len out) (counter out)
                  (out_flags out OR ROOT))))"

definition parent_output :: "u32 list \<Rightarrow> u32 list \<Rightarrow> u32 list \<Rightarrow> u32 \<Rightarrow> Output" where
  "parent_output left_cv right_cv key flags =
     \<lparr>input_cv = key, block_words = left_cv @ right_cv, block_len = 64, counter = 0,
      out_flags = flags OR PARENT\<rparr>"

section \<open>Chunks\<close>

record ChunkState =
  cs_cv :: "u32 list"
  chunk_counter :: nat
  buf :: "u8 list"
  buf_len :: nat
  blocks_compressed :: nat
  cs_flags :: u32

definition chunk_new :: "u32 list \<Rightarrow> nat \<Rightarrow> u32 \<Rightarrow> ChunkState" where
  "chunk_new key ctr flags =
     \<lparr>cs_cv = key, chunk_counter = ctr, buf = replicate 64 0, buf_len = 0,
      blocks_compressed = 0, cs_flags = flags\<rparr>"

definition chunk_len :: "ChunkState \<Rightarrow> nat" where
  "chunk_len cs = blocks_compressed cs * 64 + buf_len cs"

text \<open>The sixteen little-endian words of a full buffer.\<close>

definition buffer_words :: "u8 list \<Rightarrow> u32 list" where
  "buffer_words b =
     map (\<lambda>i. from_le_bytes [b ! (i * 4), b ! (i * 4 + 1), b ! (i * 4 + 2), b ! (i * 4 + 3)]) [0..<16]"

definition compress_full_buffer :: "ChunkState \<Rightarrow> ChunkState option" where
  "compress_full_buffer cs =
     (let flags = (if blocks_compressed cs = 0 then cs_flags cs OR CHUNK_START else cs_flags cs);
          state = compress (cs_cv cs) (buffer_words (buf cs)) 64 (chunk_counter cs) flags
      in if blocks_compressed cs + 1 \<ge> 256 then None
         else Some (cs\<lparr>cs_cv := take 8 state, blocks_compressed := blocks_compressed cs + 1,
                       buf := replicate 64 0, buf_len := 0\<rparr>))"

definition fill_buffer :: "nat \<Rightarrow> u8 list \<Rightarrow> ChunkState \<Rightarrow> ChunkState" where
  "fill_buffer n input cs =
     cs\<lparr>buf := take (buf_len cs) (buf cs) @ take n input @ drop (buf_len cs + n) (buf cs),
        buf_len := buf_len cs + n\<rparr>"

function chunk_update :: "u8 list \<Rightarrow> ChunkState \<Rightarrow> ChunkState option" where
  "chunk_update input cs =
     (if input = [] then Some cs
      else Option.bind (if buf_len cs = 64 then compress_full_buffer cs else Some cs)
        (\<lambda>cs1. if buf_len cs1 \<ge> 64 then None
               else (let n = min (64 - buf_len cs1) (length input)
                     in chunk_update (drop n input) (fill_buffer n input cs1))))"
  by pat_completeness auto

termination
  by (relation "measure (\<lambda>(input, cs). length input)") auto

declare chunk_update.simps [simp del]

definition output_word :: "ChunkState \<Rightarrow> nat \<Rightarrow> u32" where
  "output_word cs i =
     (let offset = i * 4; b = buf cs
      in if offset + 4 \<le> buf_len cs
         then from_le_bytes [b ! offset, b ! (offset + 1), b ! (offset + 2), b ! (offset + 3)]
         else if offset < buf_len cs
         then (let r = buf_len cs - offset
               in from_le_bytes (take r (drop offset b) @ replicate (4 - r) 0))
         else 0)"

definition chunk_output :: "ChunkState \<Rightarrow> Output" where
  "chunk_output cs =
     (let flags = cs_flags cs OR CHUNK_END
      in \<lparr>input_cv = cs_cv cs, block_words = map (output_word cs) [0..<16],
          block_len = of_nat (buf_len cs), counter = chunk_counter cs,
          out_flags = (if blocks_compressed cs = 0 then flags OR CHUNK_START else flags)\<rparr>)"

section \<open>The incremental hasher\<close>

record Hasher =
  chunk_state :: ChunkState
  hasher_key :: "u32 list"
  cv_stack :: "u32 list list"

definition hasher_new :: Hasher where
  "hasher_new = \<lparr>chunk_state = chunk_new IV 0 0, hasher_key = IV, cv_stack = []\<rparr>"

text \<open>The merge loop of \<open>push_stack\<close>, over the remaining chunk count.\<close>

fun push_stack :: "u32 list \<Rightarrow> nat \<Rightarrow> u32 list \<Rightarrow> u32 list list \<Rightarrow> u32 list list option" where
  "push_stack key total_chunks cv stack =
     (if total_chunks mod 2 \<noteq> 0
      then (if stack = [] then None
            else push_stack key (total_chunks div 2)
                   (chaining_value (parent_output (last stack) cv key 0)) (butlast stack))
      else Some (stack @ [cv]))"

declare push_stack.simps [simp del]

definition finish_chunk :: "Hasher \<Rightarrow> Hasher option" where
  "finish_chunk h =
     (let cs = chunk_state h; chunk_cv = chaining_value (chunk_output cs);
          next_ctr = chunk_counter cs + 1
      in if next_ctr \<ge> 2 ^ 64 then None
         else map_option
                (\<lambda>st. h\<lparr>cv_stack := st, chunk_state := chunk_new (hasher_key h) next_ctr 0\<rparr>)
                (push_stack (hasher_key h) (chunk_counter cs) chunk_cv (cv_stack h)))"

function hasher_update :: "u8 list \<Rightarrow> Hasher \<Rightarrow> Hasher option" where
  "hasher_update input h =
     (if input = [] then Some h
      else Option.bind (if chunk_len (chunk_state h) = 1024 then finish_chunk h else Some h)
        (\<lambda>h1. if chunk_len (chunk_state h1) \<ge> 1024 then None
              else (let n = min (1024 - chunk_len (chunk_state h1)) (length input)
                    in Option.bind (chunk_update (take n input) (chunk_state h1))
                         (\<lambda>cs. hasher_update (drop n input) (h1\<lparr>chunk_state := cs\<rparr>)))))"
  by pat_completeness auto

termination
  by (relation "measure (\<lambda>(input, h). length input)") auto

declare hasher_update.simps [simp del]

definition finalize :: "Hasher \<Rightarrow> u8 list" where
  "finalize h =
     root_output_bytes
       (foldr (\<lambda>left_cv out. parent_output left_cv (chaining_value out) (hasher_key h) 0)
          (cv_stack h) (chunk_output (chunk_state h)))"

definition hash_b3 :: "u8 list \<Rightarrow> u8 list option" where
  "hash_b3 input = map_option finalize (hasher_update input hasher_new)"

definition to_hex :: "u8 list \<Rightarrow> string" where
  "to_hex bs = concat (map (\<lambda>b. [hex_digit (unat b div 16), hex_digit (unat b mod 16)]) bs)"

section \<open>The reference: chunks, blocks and the tree\<close>

text \<open>
  A sequence cut into full pieces of \<open>k\<close> and a remainder that is empty only for the empty
  sequence: the way both buffers of the hasher cut their input.
\<close>

definition pieces :: "nat \<Rightarrow> 'a list \<Rightarrow> 'a list list" where
  "pieces k xs = map (\<lambda>i. take k (drop (i * k) xs)) [0..<(length xs - 1) div k]"

definition rest :: "nat \<Rightarrow> 'a list \<Rightarrow> 'a list" where
  "rest k xs = drop ((length xs - 1) div k * k) xs"

definition block_flags :: "nat \<Rightarrow> u32" where
  "block_flags i = (if i = 0 then CHUNK_START else 0)"

text \<open>A block is padded with zeros and read as sixteen little-endian words.\<close>

definition words_of_block :: "u8 list \<Rightarrow> u32 list" where
  "words_of_block b = buffer_words (b @ replicate (64 - length b) 0)"

fun chain_blocks :: "u32 list \<Rightarrow> nat \<Rightarrow> nat \<Rightarrow> u8 list list \<Rightarrow> u32 list" where
  "chain_blocks cv ctr i [] = cv"
| "chain_blocks cv ctr i (b # bs) =
     chain_blocks (take 8 (compress cv (words_of_block b) 64 ctr (block_flags i))) ctr (Suc i) bs"

definition chunk_node :: "nat \<Rightarrow> u8 list \<Rightarrow> Output" where
  "chunk_node ctr chunk =
     (let bs = pieces 64 chunk; b = rest 64 chunk
      in \<lparr>input_cv = chain_blocks IV ctr 0 bs, block_words = words_of_block b,
          block_len = of_nat (length b), counter = ctr,
          out_flags = CHUNK_END OR block_flags (length bs)\<rparr>)"

text \<open>The largest power of two that is at most \<open>n\<close>.\<close>

fun high_bit :: "nat \<Rightarrow> nat" where
  "high_bit n = (if n < 2 then 1 else 2 * high_bit (n div 2))"

declare high_bit.simps [simp del]

lemma high_bit_bounds: "n > 0 \<Longrightarrow> 0 < high_bit n \<and> high_bit n \<le> n"
proof (induction n rule: high_bit.induct)
  case (1 n)
  then show ?case by (cases "n < 2") (auto simp: high_bit.simps [of n])
qed

function tree_node :: "Output list \<Rightarrow> Output" where
  "tree_node leaves =
     (if length leaves \<le> 1 then hd leaves
      else (let k = high_bit (length leaves - 1)
            in parent_output (chaining_value (tree_node (take k leaves)))
                 (chaining_value (tree_node (drop k leaves))) IV 0))"
  by pat_completeness auto

termination
proof (relation "measure length")
  fix leaves :: "Output list" and k
  assume "\<not> length leaves \<le> 1" and "k = high_bit (length leaves - 1)"
  with high_bit_bounds [of "length leaves - 1"] show "(take k leaves, leaves) \<in> measure length"
    and "(drop k leaves, leaves) \<in> measure length"
    by auto
qed simp

declare tree_node.simps [simp del]

definition leaves_of :: "u8 list list \<Rightarrow> Output list" where
  "leaves_of chunks = map (\<lambda>(i, c). chunk_node i c) (enumerate 0 chunks)"

definition tree_hash :: "u8 list \<Rightarrow> u8 list" where
  "tree_hash input =
     root_output_bytes (tree_node (leaves_of (pieces 1024 input @ [rest 1024 input])))"

section \<open>Lemmas on cutting\<close>

lemma length_concat_same: "\<forall>f \<in> set fs. length f = k \<Longrightarrow> length (concat fs) = length fs * k"
  by (induction fs) auto

lemma pieces_concat:
  assumes "k > 0" and "\<forall>f \<in> set fs. length f = k" and "length r \<le> k" and "r = [] \<longrightarrow> fs = []"
  shows "pieces k (concat fs @ r) = fs \<and> rest k (concat fs @ r) = r"
proof -
  note len = length_concat_same [OF assms(2)]
  have n: "(length (concat fs @ r) - 1) div k = length fs"
  proof (cases "r = []")
    case False
    then have "length (concat fs @ r) - 1 = length fs * k + (length r - 1)"
      by (cases r) (simp_all add: len)
    moreover have "length r - 1 < k" using False assms(1,3) by auto
    ultimately show ?thesis using assms(1) by simp
  qed (use assms in simp)
  have nth: "take k (drop (i * k) (concat fs @ r)) = fs ! i" if "i < length fs" for i
    using that assms(2)
  proof (induction fs arbitrary: i)
    case (Cons f fs)
    then show ?case by (cases i) auto
  qed simp
  have "pieces k (concat fs @ r) = map (\<lambda>i. fs ! i) [0..<length fs]"
    unfolding pieces_def n using nth by simp
  then show ?thesis unfolding rest_def n by (simp add: len map_nth)
qed

lemma pieces_rest_cut:
  assumes "k > 0"
  shows "concat (pieces k xs) @ rest k xs = xs \<and> (\<forall>f \<in> set (pieces k xs). length f = k) \<and>
    length (rest k xs) \<le> k \<and> (rest k xs = [] \<longrightarrow> pieces k xs = [])"
proof -
  let ?n = "(length xs - 1) div k"
  have le: "?n * k \<le> length xs - 1" by simp
  have "concat (map (\<lambda>i. take k (drop (i * k) xs)) [0..<m]) = take (m * k) xs" if "m \<le> ?n" for m
    using that
  proof (induction m)
    case (Suc m)
    then show ?case by (simp add: take_add add.commute [of k])
  qed simp
  then have c: "concat (pieces k xs) = take (?n * k) xs" by (simp add: pieces_def)
  have l: "length (take k (drop (i * k) xs)) = k" if "i < ?n" for i
  proof -
    have "Suc i * k \<le> ?n * k" using that by (simp only: mult_le_mono1 Suc_leI)
    then have "k + i * k \<le> length xs" using le unfolding mult_Suc by linarith
    then show ?thesis by (auto simp: min_def)
  qed
  have "length xs - 1 - ?n * k < k" using assms by (simp add: modulo_nat_def [symmetric])
  then have r: "length (rest k xs) \<le> k" by (simp add: rest_def)
  have e: "rest k xs = [] \<longrightarrow> pieces k xs = []"
  proof (cases "xs = []")
    case False
    then have "0 < length xs" by simp
    then have "?n * k < length xs" using le by linarith
    then show ?thesis by (simp add: rest_def)
  qed (simp add: pieces_def)
  show ?thesis using c l r e by (auto simp: rest_def) (auto simp: pieces_def)
qed

lemma rest_Nil [simp]: "rest k [] = []" "pieces k [] = []"
  by (simp_all add: rest_def pieces_def)

text \<open>Appending while there is room extends the remainder; a full remainder becomes a piece.\<close>

lemma append_room:
  assumes "k > 0" and "length (rest k xs) + length ys \<le> k" and "ys \<noteq> []"
  shows "pieces k (xs @ ys) = pieces k xs \<and> rest k (xs @ ys) = rest k xs @ ys"
  using pieces_concat [of k "pieces k xs" "rest k xs @ ys"] pieces_rest_cut [OF assms(1), of xs] assms
  by (simp add: append_assoc [symmetric] del: append_assoc)

lemma append_full:
  assumes "k > 0" and "length (rest k xs) = k" and "0 < length ys" and "length ys \<le> k"
  shows "pieces k (xs @ ys) = pieces k xs @ [rest k xs] \<and> rest k (xs @ ys) = ys"
  using pieces_concat [of k "pieces k xs @ [rest k xs]" ys] pieces_rest_cut [OF assms(1), of xs] assms
  by auto

section \<open>Lemmas on the chunk state\<close>

text \<open>The state of a chunk after the bytes \<open>xs\<close>.\<close>

definition chunk_at :: "nat \<Rightarrow> u8 list \<Rightarrow> ChunkState" where
  "chunk_at ctr xs =
     \<lparr>cs_cv = chain_blocks IV ctr 0 (pieces 64 xs), chunk_counter = ctr,
      buf = rest 64 xs @ replicate (64 - length (rest 64 xs)) 0,
      buf_len = length (rest 64 xs), blocks_compressed = length (pieces 64 xs), cs_flags = 0\<rparr>"

lemma chunk_at_Nil: "chunk_at ctr [] = chunk_new IV ctr 0"
  by (simp add: chunk_at_def chunk_new_def)

lemma chain_blocks_snoc:
  "chain_blocks cv ctr i (bs @ [b]) =
     take 8 (compress (chain_blocks cv ctr i bs) (words_of_block b) 64 ctr (block_flags (i + length bs)))"
  by (induction bs arbitrary: cv i) simp_all

lemma length_pieces: "length (pieces k xs) = (length xs - 1) div k"
  by (simp add: pieces_def)

lemma length_rest_le: "length (rest 64 xs) \<le> 64" "length (rest 1024 xs) \<le> 1024"
  using pieces_rest_cut [of 64 xs] pieces_rest_cut [of 1024 xs] by simp_all

lemma chunk_len_at: "chunk_len (chunk_at ctr xs) = length xs"
proof -
  have "length (concat (pieces 64 xs)) = length (pieces 64 xs) * 64"
    using pieces_rest_cut [of 64 xs] by (intro length_concat_same) simp
  moreover have "length xs = length (concat (pieces 64 xs)) + length (rest 64 xs)"
    using pieces_rest_cut [of 64 xs] by (metis length_append zero_less_numeral)
  ultimately show ?thesis by (simp add: chunk_len_def chunk_at_def)
qed

lemma fill_room:
  assumes "length (rest 64 xs) + length ys \<le> 64" and "ys \<noteq> []"
  shows "fill_buffer (length ys) (ys @ zs) (chunk_at ctr xs) = chunk_at ctr (xs @ ys)"
  using append_room [OF _ assms] assms
  by (simp add: fill_buffer_def chunk_at_def drop_append [symmetric] diff_diff_add)

lemma compress_full_at:
  assumes "length (rest 64 xs) = 64" and "length xs \<le> 1024"
  shows "compress_full_buffer (chunk_at ctr xs) =
    Some (chunk_new (chain_blocks IV ctr 0 (pieces 64 xs @ [rest 64 xs])) ctr 0
            \<lparr>blocks_compressed := length (pieces 64 xs) + 1\<rparr>)"
proof -
  have "length (pieces 64 xs) \<le> 15" using assms(2) by (simp add: length_pieces)
  then show ?thesis
    using assms(1)
    by (simp add: compress_full_buffer_def chunk_at_def chunk_new_def chain_blocks_snoc
        words_of_block_def block_flags_def Let_def)
qed

lemma fill_after_compress:
  assumes "length (rest 64 xs) = 64" and "0 < length ys" and "length ys \<le> 64"
  shows "fill_buffer (length ys) (ys @ zs)
           (chunk_new (chain_blocks IV ctr 0 (pieces 64 xs @ [rest 64 xs])) ctr 0
              \<lparr>blocks_compressed := length (pieces 64 xs) + 1\<rparr>) = chunk_at ctr (xs @ ys)"
  using append_full [OF _ assms]
  by (simp add: fill_buffer_def chunk_at_def chunk_new_def)

lemma chunk_update_at:
  "length (xs @ input) \<le> 1024 \<Longrightarrow>
   chunk_update input (chunk_at ctr xs) = Some (chunk_at ctr (xs @ input))"
proof (induction "length input" arbitrary: input xs rule: less_induct)
  case less
  show ?case
  proof (cases "input = []")
    case False
    show ?thesis
    proof (cases "length (rest 64 xs) = 64")
      case True
      define n where "n = min 64 (length input)"
      have n: "0 < n" "n \<le> 64" "length (take n input) = n" using False by (auto simp: n_def)
      have split: "input = take n input @ drop n input" by simp
      have "chunk_update input (chunk_at ctr xs) =
          chunk_update (drop n input) (chunk_at ctr (xs @ take n input))"
        using False True compress_full_at [OF True] less.prems
          fill_after_compress [OF True, of "take n input" "drop n input" ctr] n
        by (subst chunk_update.simps) (simp add: chunk_at_def chunk_new_def n_def Let_def)
      also have "\<dots> = Some (chunk_at ctr ((xs @ take n input) @ drop n input))"
        using less n False by (intro less.hyps) auto
      finally show ?thesis by simp
    next
      case room: False
      define n where "n = min (64 - length (rest 64 xs)) (length input)"
      have r: "length (rest 64 xs) < 64" using room length_rest_le(1) [of xs] by simp
      have n: "0 < n" "length (rest 64 xs) + n \<le> 64" "length (take n input) = n"
        using False r by (auto simp: n_def)
      have "chunk_update input (chunk_at ctr xs) =
          chunk_update (drop n input) (chunk_at ctr (xs @ take n input))"
        using False r fill_room [of xs "take n input" "drop n input" ctr] n
        by (subst chunk_update.simps) (simp add: chunk_at_def n_def Let_def)
      also have "\<dots> = Some (chunk_at ctr ((xs @ take n input) @ drop n input))"
        using less n False by (intro less.hyps) auto
      finally show ?thesis by simp
    qed
  qed (simp add: chunk_update.simps)
qed

lemma output_word_at:
  assumes "i < 16"
  shows "output_word (chunk_at ctr xs) i = words_of_block (rest 64 xs) ! i"
proof -
  define r where "r = rest 64 xs"
  define b where "b = r @ replicate (64 - length r) (0 :: u8)"
  have r: "length r \<le> 64" using length_rest_le by (simp add: r_def)
  have w: "words_of_block r ! i =
      from_le_bytes [b ! (i * 4), b ! (i * 4 + 1), b ! (i * 4 + 2), b ! (i * 4 + 3)]"
    using assms by (simp add: words_of_block_def buffer_words_def b_def)
  consider "i * 4 + 4 \<le> length r" | "i * 4 < length r" "length r < i * 4 + 4" | "length r \<le> i * 4"
    by linarith
  then show ?thesis
  proof cases
    case 1
    then show ?thesis using w by (simp add: output_word_def chunk_at_def r_def b_def Let_def)
  next
    case 2
    define m where "m = length r - i * 4"
    have "take m (drop (i * 4) b) @ replicate (4 - m) 0 =
        [b ! (i * 4), b ! (i * 4 + 1), b ! (i * 4 + 2), b ! (i * 4 + 3)]"
    proof (rule nth_equalityI)
      fix j assume "j < length (take m (drop (i * 4) b) @ replicate (4 - m) 0)"
      then have j: "j < 4" using 2 r by (simp add: m_def b_def)
      then have "(take m (drop (i * 4) b) @ replicate (4 - m) 0) ! j = b ! (i * 4 + j)"
        using 2 r assms by (auto simp: nth_append m_def b_def)
      also have "\<dots> = [b ! (i * 4), b ! (i * 4 + 1), b ! (i * 4 + 2), b ! (i * 4 + 3)] ! j"
        using j by (auto simp: less_Suc_eq numeral_eq_Suc)
      finally show "(take m (drop (i * 4) b) @ replicate (4 - m) 0) ! j =
        [b ! (i * 4), b ! (i * 4 + 1), b ! (i * 4 + 2), b ! (i * 4 + 3)] ! j" .
    qed (use 2 r in \<open>simp add: m_def b_def\<close>)
    then show ?thesis
      using 2 w by (simp add: output_word_def chunk_at_def r_def [symmetric] b_def [symmetric] m_def Let_def)
  next
    case 3
    then have "b ! (i * 4 + j) = 0" if "j < 4" for j
      using that assms by (simp add: b_def nth_append)
    from this [of 0] this [of 1] this [of 2] this [of 3] show ?thesis
      using 3 w
      by (simp add: output_word_def chunk_at_def r_def [symmetric] from_le_bytes_def Let_def)
  qed
qed

lemma chunk_output_at: "chunk_output (chunk_at ctr xs) = chunk_node ctr xs"
proof -
  have "map (output_word (chunk_at ctr xs)) [0..<16] = words_of_block (rest 64 xs)"
    by (rule nth_equalityI)
       (simp_all add: output_word_at, simp_all add: words_of_block_def buffer_words_def)
  then show ?thesis
    by (simp add: chunk_output_def chunk_node_def block_flags_def Let_def) (simp add: chunk_at_def)
qed

section \<open>Lemmas on the stack\<close>

text \<open>
  The stack of the hasher holds the chaining values of the complete subtrees of the chunks so
  far, the largest at the bottom: the binary digits of their number.
\<close>

function stack_of :: "Output list \<Rightarrow> u32 list list" where
  "stack_of leaves =
     (if leaves = [] then []
      else (let k = high_bit (length leaves)
            in chaining_value (tree_node (take k leaves)) # stack_of (drop k leaves)))"
  by pat_completeness auto

termination
  by (relation "measure length") (use high_bit_bounds in auto)

declare stack_of.simps [simp del]

lemma stack_of_Nil [simp]: "stack_of [] = []"
  by (simp add: stack_of.simps)

lemma high_bit_double: "n > 0 \<Longrightarrow> high_bit (2 * n) = 2 * high_bit n \<and> high_bit (2 * n + 1) = 2 * high_bit n"
  by (simp add: high_bit.simps [of "2 * n"] high_bit.simps [of "Suc (2 * n)"])

lemma high_bit_one [simp]: "high_bit 1 = 1" "high_bit (Suc 0) = 1"
  by (simp_all add: high_bit.simps)

lemma high_bit_scale: "m > 0 \<Longrightarrow> high_bit (m * 2 ^ j) = high_bit m * 2 ^ j"
proof (induction j)
  case (Suc j)
  then show ?case using high_bit_double [of "m * 2 ^ j"] by (simp add: mult.left_commute)
qed simp

lemma high_bit_power: "high_bit (2 ^ j) = 2 ^ j"
  using high_bit_scale [of 1 j] by simp

lemma high_bit_even_Suc: "even m \<Longrightarrow> m > 0 \<Longrightarrow> high_bit (m + 1) = high_bit m \<and> even (high_bit m)"
  using high_bit_double [of "m div 2"] by auto

lemma tree_node_single [simp]: "tree_node [x] = x"
  by (simp add: tree_node.simps)

lemma tree_node_double:
  assumes "length xs = 2 ^ j" and "length ys = 2 ^ j"
  shows "tree_node (xs @ ys) =
    parent_output (chaining_value (tree_node xs)) (chaining_value (tree_node ys)) IV 0"
proof -
  have hb: "high_bit (2 ^ Suc j - 1) = 2 ^ j"
  proof (induction j)
    case (Suc j)
    have pos: "2 ^ Suc j > (1 :: nat)" by (rule one_less_power) simp_all
    then have "2 ^ Suc (Suc j) - 1 = 2 * (2 ^ Suc j - 1) + (1 :: nat)"
      unfolding power_Suc [of _ "Suc j"] by linarith
    moreover have "2 ^ Suc j - 1 > (0 :: nat)" using pos by linarith
    ultimately show ?case using Suc high_bit_double [of "2 ^ Suc j - 1"] by (simp only: power_Suc)
  qed simp
  have len: "length (xs @ ys) - 1 = 2 ^ Suc j - 1" using assms by simp
  have "(1 :: nat) \<le> 2 ^ j" by simp
  then have "\<not> length (xs @ ys) \<le> 1" unfolding length_append assms by linarith
  then show ?thesis
    using assms by (subst tree_node.simps) (simp only: len hb Let_def if_False, simp)
qed

text \<open>An even number of complete blocks below a new one: the new block is pushed as it is.\<close>

lemma stack_of_even:
  assumes "length xs = m * 2 ^ j" and "even m" and "length ys = 2 ^ j"
  shows "stack_of (xs @ ys) = stack_of xs @ [chaining_value (tree_node ys)]"
  using assms
proof (induction "length xs" arbitrary: xs m rule: less_induct)
  case less
  show ?case
  proof (cases "xs = []")
    case True
    then show ?thesis
      using less.prems by (subst stack_of.simps) (auto simp: high_bit_power)
  next
    case False
    then have m: "m > 0" using less.prems by (cases m) auto
    define k where "k = high_bit (length xs)"
    have k: "0 < k" "k \<le> length xs" using high_bit_bounds [of "length xs"] False by (auto simp: k_def)
    have kk: "k = high_bit m * 2 ^ j" using high_bit_scale [OF m] less.prems by (simp add: k_def)
    have "length (xs @ ys) = (m + 1) * 2 ^ j" using less.prems by simp
    then have k': "high_bit (length (xs @ ys)) = k"
      using high_bit_scale [of "m + 1" j] high_bit_even_Suc [OF less.prems(2) m] kk by simp
    have "length (drop k xs) = (m - high_bit m) * 2 ^ j"
      using less.prems kk by (simp add: diff_mult_distrib)
    moreover have "even (m - high_bit m)" using less.prems high_bit_even_Suc [OF _ m] by simp
    ultimately have "stack_of (drop k xs @ ys) = stack_of (drop k xs) @ [chaining_value (tree_node ys)]"
      using less.hyps [of "drop k xs" "m - high_bit m"] k False less.prems(3) by simp
    then show ?thesis
      using False k k' by (simp add: stack_of.simps [of "xs @ ys"] stack_of.simps [of xs] k_def Let_def)
  qed
qed

lemma push_stack_of:
  assumes "length xs = m * 2 ^ j" and "length ys = 2 ^ j"
  shows "push_stack IV m (chaining_value (tree_node ys)) (stack_of xs) = Some (stack_of (xs @ ys))"
  using assms
proof (induction m arbitrary: xs ys j rule: less_induct)
  case (less m)
  show ?case
  proof (cases "even m")
    case True
    then show ?thesis
      using stack_of_even [OF less.prems(1) True less.prems(2)] by (simp add: push_stack.simps)
  next
    case False
    then have odd: "m mod 2 \<noteq> 0" "m div 2 < m" "m = 2 * (m div 2) + 1" by presburger+
    define us vs where "us = take ((m - 1) * 2 ^ j) xs" and "vs = drop ((m - 1) * 2 ^ j) xs"
    have uv: "xs = us @ vs" by (simp add: us_def vs_def)
    have lu: "length us = (m - 1) * 2 ^ j" "length vs = 2 ^ j"
      using less.prems False by (auto simp: us_def vs_def diff_mult_distrib elim: oddE)
    have st: "stack_of xs = stack_of us @ [chaining_value (tree_node vs)]"
      unfolding uv using False by (intro stack_of_even [OF lu(1) _ lu(2)]) simp
    have "length us = (m div 2) * 2 ^ Suc j" using lu(1) odd(3) by simp
    moreover have "length (vs @ ys) = 2 ^ Suc j" using lu(2) less.prems by simp
    ultimately have "push_stack IV (m div 2) (chaining_value (tree_node (vs @ ys))) (stack_of us) =
        Some (stack_of (us @ vs @ ys))"
      by (rule less.IH [OF odd(2)])
    then show ?thesis
      using odd(1) st tree_node_double [OF lu(2) less.prems(2)]
      by (subst push_stack.simps) (simp add: uv)
  qed
qed

lemma merge_stack:
  "foldr (\<lambda>left_cv out. parent_output left_cv (chaining_value out) IV 0) (stack_of xs) out =
   tree_node (xs @ [out])"
proof (induction "length xs" arbitrary: xs rule: less_induct)
  case less
  show ?case
  proof (cases "xs = []")
    case False
    define k where "k = high_bit (length xs)"
    have k: "0 < k" "k \<le> length xs" using high_bit_bounds [of "length xs"] False by (auto simp: k_def)
    have "foldr (\<lambda>left_cv out. parent_output left_cv (chaining_value out) IV 0) (stack_of (drop k xs)) out =
        tree_node (drop k xs @ [out])"
      using k False by (intro less) simp
    then show ?thesis
      using False k
      by (subst stack_of.simps, subst tree_node.simps) (simp add: k_def [symmetric] Let_def)
  qed simp
qed

section \<open>Lemmas on the hasher\<close>

text \<open>The state of the hasher after the bytes \<open>xs\<close>.\<close>

definition hasher_at :: "u8 list \<Rightarrow> Hasher" where
  "hasher_at xs =
     \<lparr>chunk_state = chunk_at (length (pieces 1024 xs)) (rest 1024 xs), hasher_key = IV,
      cv_stack = stack_of (leaves_of (pieces 1024 xs))\<rparr>"

lemma hasher_at_Nil: "hasher_at [] = hasher_new"
  by (simp add: hasher_at_def hasher_new_def chunk_at_Nil leaves_of_def)

lemma leaves_of_snoc: "leaves_of (cs @ [c]) = leaves_of cs @ [chunk_node (length cs) c]"
  by (simp add: leaves_of_def enumerate_append_eq)

lemma length_leaves_of [simp]: "length (leaves_of cs) = length cs"
  by (simp add: leaves_of_def)

lemma finish_chunk_at:
  assumes "length xs < 2 ^ 64"
  shows "finish_chunk (hasher_at xs) =
    Some \<lparr>chunk_state = chunk_new IV (length (pieces 1024 xs) + 1) 0, hasher_key = IV,
          cv_stack = stack_of (leaves_of (pieces 1024 xs @ [rest 1024 xs]))\<rparr>"
proof -
  let ?n = "length (pieces 1024 xs)"
  have "?n \<le> length xs div 1024" unfolding length_pieces by (rule div_le_mono) simp
  also have "\<dots> \<le> 2 ^ 64 div 1024" using assms by (intro div_le_mono) simp
  finally have n: "?n + 1 < 2 ^ 64" by simp
  have "push_stack IV ?n (chaining_value (chunk_node ?n (rest 1024 xs)))
          (stack_of (leaves_of (pieces 1024 xs))) =
        Some (stack_of (leaves_of (pieces 1024 xs @ [rest 1024 xs])))"
    using push_stack_of [of "leaves_of (pieces 1024 xs)" ?n 0 "[chunk_node ?n (rest 1024 xs)]"]
    by (simp add: leaves_of_snoc)
  moreover have "chunk_counter (chunk_at m ys) = m" for m ys by (simp add: chunk_at_def)
  ultimately show ?thesis using n
    by (simp add: finish_chunk_def hasher_at_def chunk_output_at Let_def)
qed

lemma hasher_update_at:
  "length (xs @ input) < 2 ^ 64 \<Longrightarrow>
   hasher_update input (hasher_at xs) = Some (hasher_at (xs @ input))"
proof (induction "length input" arbitrary: input xs rule: less_induct)
  case less
  show ?case
  proof (cases "input = []")
    case False
    show ?thesis
    proof (cases "length (rest 1024 xs) = 1024")
      case True
      define n where "n = min 1024 (length input)"
      have n: "0 < n" "n \<le> 1024" "length (take n input) = n" using False by (auto simp: n_def)
      have cut: "pieces 1024 (xs @ take n input) = pieces 1024 xs @ [rest 1024 xs] \<and>
          rest 1024 (xs @ take n input) = take n input"
        using True n by (intro append_full) auto
      have cu: "chunk_update (take n input) (chunk_new IV c 0) = Some (chunk_at c (take n input))" for c
        using chunk_update_at [of "[]" "take n input" c] n by (simp add: chunk_at_Nil)
      have cl: "chunk_len (chunk_new IV c 0) = 0" for c by (simp add: chunk_len_def chunk_new_def)
      have "hasher_update input (hasher_at xs) =
          hasher_update (drop n input) (hasher_at (xs @ take n input))"
        using False True finish_chunk_at [of xs] less.prems cu cut
        by (subst hasher_update.simps)
           (simp add: hasher_at_def chunk_len_at cl n_def [symmetric] Let_def)
      also have "\<dots> = Some (hasher_at ((xs @ take n input) @ drop n input))"
        using less n False by (intro less.hyps) auto
      finally show ?thesis by simp
    next
      case room: False
      define n where "n = min (1024 - length (rest 1024 xs)) (length input)"
      have r: "length (rest 1024 xs) < 1024" using room length_rest_le(2) [of xs] by simp
      have n: "0 < n" "length (rest 1024 xs) + n \<le> 1024" "length (take n input) = n"
        using False r by (auto simp: n_def)
      have cut: "pieces 1024 (xs @ take n input) = pieces 1024 xs \<and>
          rest 1024 (xs @ take n input) = rest 1024 xs @ take n input"
        using n False by (intro append_room) auto
      have cu: "chunk_update (take n input) (chunk_at c (rest 1024 xs)) =
          Some (chunk_at c (rest 1024 xs @ take n input))" for c
        using chunk_update_at [of "rest 1024 xs" "take n input" c] n by simp
      have "hasher_update input (hasher_at xs) =
          hasher_update (drop n input) (hasher_at (xs @ take n input))"
        using False r cu cut
        by (subst hasher_update.simps)
           (simp add: hasher_at_def chunk_len_at n_def [symmetric] Let_def)
      also have "\<dots> = Some (hasher_at ((xs @ take n input) @ drop n input))"
        using less n False by (intro less.hyps) auto
      finally show ?thesis by simp
    qed
  qed (simp add: hasher_update.simps)
qed

lemma finalize_at: "finalize (hasher_at xs) = tree_hash xs"
  by (simp add: finalize_def hasher_at_def chunk_output_at merge_stack tree_hash_def leaves_of_snoc)

lemma hash_b3_tree: "length input < 2 ^ 64 \<Longrightarrow> hash_b3 input = Some (tree_hash input)"
  using hasher_update_at [of "[]" input] by (simp add: hash_b3_def hasher_at_Nil finalize_at)

text \<open>Any way of cutting the input into updates gives the state of the whole input.\<close>

fun update_all :: "u8 list list \<Rightarrow> Hasher \<Rightarrow> Hasher option" where
  "update_all [] h = Some h"
| "update_all (x # xs) h = Option.bind (hasher_update x h) (update_all xs)"

lemma update_all_at:
  "length (xs @ concat inputs) < 2 ^ 64 \<Longrightarrow>
   update_all inputs (hasher_at xs) = Some (hasher_at (xs @ concat inputs))"
proof (induction inputs arbitrary: xs)
  case (Cons x inputs)
  then show ?case using hasher_update_at [of xs x] Cons.IH [of "xs @ x"] by simp
qed simp

section \<open>Properties\<close>

text \<open>
  Property C6 (the incremental hasher computes the BLAKE3 tree). For every sequence of
  updates of fewer than \<open>2 ^ 64\<close> bytes in total, the hasher never panics, and the digest it
  finalizes to is that of the one-shot \<open>hash\<close> on the concatenated input, which is the
  reference tree hash: chunks of 1024 bytes compressed block by block with their start, end
  and counter, joined by parent nodes whose left subtree is the largest complete one.
\<close>

theorem blake3_incremental_is_tree_hash:
  assumes "length (concat inputs) < 2 ^ 64"
  shows "map_option finalize (update_all inputs hasher_new) = Some (tree_hash (concat inputs)) \<and>
         hash_b3 (concat inputs) = Some (tree_hash (concat inputs))"
  using update_all_at [of "[]" inputs] hash_b3_tree [OF assms] assms
  by (simp add: hasher_at_Nil finalize_at)

theorem blake3_incremental_is_tree_hash_witness:
  "map_option finalize (update_all [replicate 1000 7, replicate 25 7] hasher_new) =
   hash_b3 (replicate 1025 7)"
proof -
  have "concat [replicate 1000 7, replicate 25 7] = replicate 1025 (7 :: u8)"
    by (simp add: replicate_add [symmetric] del: replicate.simps)
  with blake3_incremental_is_tree_hash [of "[replicate 1000 7, replicate 25 7]"] show ?thesis
    by (simp del: replicate.simps)
qed

end
