(* ===== verification/Contract.thy ===== *)
theory Contract
  imports PolicyTypes Blake3
begin

text \<open>
  The security contract of \<open>src/src/policy_ir/contract.rs\<close>: its data, sealing under two
  digests, verification, the signing configuration and the lowered enforcement metadata. The
  sealed contract is the unsealed payload extended by its two digests, as the two Rust structs
  are field for field.

  JSON serialization (\<open>serde_json\<close>) and SHA-256 (\<open>sha2\<close>) are third-party code: they are the
  fields of \<open>Codec\<close>. BLAKE3 is the repository's own and is the hasher of theory \<open>Blake3\<close>; a
  Rust slice has fewer than \<open>2 ^ 63\<close> bytes, for which that hasher always returns.

  The lemmas show that sealing produces a contract that verifies, that a contract which
  verifies under the digests of another has the same payload up to the detached signature
  unless both hash functions collide, and that the signing operations keep a contract sealed.
\<close>

section \<open>Data\<close>

record DebugPortConfig =
  isolate_devtools :: bool
  isolate_node_inspect :: bool
  isolate_debugpy :: bool
  debug_allowed_ports :: "nat list"

definition default_debug_ports :: DebugPortConfig where
  "default_debug_ports =
     \<lparr>isolate_devtools = False, isolate_node_inspect = True, isolate_debugpy = True,
      debug_allowed_ports = []\<rparr>"

text \<open>A \<open>Duration\<close> is its number of nanoseconds.\<close>

record ProductionContract =
  installation_policy :: Policy
  prod_net :: NetMode
  prod_timeout :: "nat option"
  prod_tier :: "Tier option"
  prod_backend :: string
  prod_observe_seccomp :: bool
  prod_debug_ports :: "DebugPortConfig option"

record CryptoContract =
  minisign_enabled :: bool
  cosign_enabled :: bool
  signature :: "string option"
  public_key :: "string option"

definition crypto_new :: CryptoContract where
  "crypto_new = \<lparr>minisign_enabled = False, cosign_enabled = False, signature = None, public_key = None\<rparr>"

definition crypto_with_minisign :: "bool \<Rightarrow> CryptoContract \<Rightarrow> CryptoContract" where
  "crypto_with_minisign enabled c = c\<lparr>minisign_enabled := enabled\<rparr>"

definition crypto_with_signature :: "string \<Rightarrow> CryptoContract \<Rightarrow> CryptoContract" where
  "crypto_with_signature s c = c\<lparr>signature := Some s\<rparr>"

definition crypto_with_public_key :: "string \<Rightarrow> CryptoContract \<Rightarrow> CryptoContract" where
  "crypto_with_public_key k c = c\<lparr>public_key := Some k\<rparr>"

record AgentIdentity =
  agent_name :: string
  agent_preset :: string
  agent_version :: string
  invoked_binary :: path
  invoked_args :: "string list"

record FilesystemContract =
  workspace_root :: path
  fs_allow_read :: "path list"
  fs_allow_write :: "path list"
  fs_allow_execute :: "path list"
  mask_paths :: "path list"
  cow_overlay :: bool
  execution_root_ro :: bool
  fs_shadow :: bool

datatype NetworkMode = ModeOff | ModeAllowlist | ModeStrict | ModeAsk | ModeDirect

record NetworkContract =
  net_mode :: NetworkMode
  allowed_domains :: "string list"
  allowed_ports :: "nat list"
  block_cloud_metadata :: bool
  block_loopback_daemons :: bool

record ResourceContract =
  max_pids :: nat
  max_memory_bytes :: nat
  max_cpu_percent :: nat
  max_wall_time_ms :: nat
  max_stdout_bytes :: nat
  max_file_size_bytes :: nat

record EnvironmentContract =
  pass_through_vars :: "string list"
  explicit_vars :: "(string \<times> string) list"
  redacted_patterns :: "string list"
  inject_session_nonce :: bool

record AttestationContract =
  generate_audit_jsonl :: bool
  sign_minisign :: bool
  sign_cosign_slsa :: bool
  evidence_level_minimum :: string

record UnsealedSecurityContract =
  production :: "ProductionContract option"
  contract_version :: nat
  contract_id :: string
  session_nonce :: string
  agent_identity :: AgentIdentity
  filesystem :: FilesystemContract
  network :: NetworkContract
  resources :: ResourceContract
  environment_contract :: EnvironmentContract
  attestation :: AttestationContract
  crypto :: CryptoContract

record SecurityContract = UnsealedSecurityContract +
  contract_digest_blake3 :: string
  sealed_contract_hash :: string

record LoweredEnforcementMetadata =
  landlock_abi :: nat
  read_paths :: "path list"
  write_paths :: "path list"
  lowered_mask_paths :: "path list"
  network_connect_ports :: "nat list"
  lowered_seccomp_profile :: string
  observe_seccomp :: bool

section \<open>Digests\<close>

text \<open>\<open>to_json\<close> is \<open>serde_json::to_value\<close> followed by \<open>to_vec\<close>, with its error text.\<close>

record Codec =
  to_json :: "UnsealedSecurityContract \<Rightarrow> (string, u8 list) result"
  sha256 :: "u8 list \<Rightarrow> u8 list"

definition digest_b3 :: "u8 list \<Rightarrow> u8 list" where
  "digest_b3 bytes = (case hash_b3 bytes of Some d \<Rightarrow> d | None \<Rightarrow> [])"

definition strip_signature :: "UnsealedSecurityContract \<Rightarrow> UnsealedSecurityContract" where
  "strip_signature u = u\<lparr>crypto := (crypto u)\<lparr>signature := None\<rparr>\<rparr>"

definition compute_digest :: "Codec \<Rightarrow> UnsealedSecurityContract \<Rightarrow> (string, string) result" where
  "compute_digest codec u =
     and_then (to_json codec (strip_signature u)) (\<lambda>bytes. Ok (to_hex (digest_b3 bytes)))"

definition compute_sha256_digest ::
  "Codec \<Rightarrow> UnsealedSecurityContract \<Rightarrow> (string, string) result" where
  "compute_sha256_digest codec u =
     and_then (to_json codec (strip_signature u)) (\<lambda>bytes. Ok (to_hex (sha256 codec bytes)))"

definition seal :: "Codec \<Rightarrow> UnsealedSecurityContract \<Rightarrow> (string, SecurityContract) result" where
  "seal codec u =
     and_then (compute_digest codec u)
       (\<lambda>digest. and_then (compute_sha256_digest codec u)
          (\<lambda>sha. Ok (UnsealedSecurityContract.extend u (SecurityContract.fields digest sha))))"

definition unsealed :: "SecurityContract \<Rightarrow> UnsealedSecurityContract" where
  "unsealed c = UnsealedSecurityContract.truncate c"

section \<open>Verification\<close>

definition verify_digest :: "Codec \<Rightarrow> SecurityContract \<Rightarrow> bool" where
  "verify_digest codec c =
     (case compute_digest codec (unsealed c) of
        Inl _ \<Rightarrow> False
      | Inr expected \<Rightarrow> expected = contract_digest_blake3 c)"

definition verify_sha256 :: "Codec \<Rightarrow> SecurityContract \<Rightarrow> bool" where
  "verify_sha256 codec c =
     (case compute_sha256_digest codec (unsealed c) of
        Inl _ \<Rightarrow> False
      | Inr expected \<Rightarrow> sealed_contract_hash c \<noteq> [] \<and> expected = sealed_contract_hash c)"

definition unwrap_or_default :: "(string, string) result \<Rightarrow> string" where
  "unwrap_or_default r = (case r of Inl _ \<Rightarrow> [] | Inr s \<Rightarrow> s)"

definition verify_sealed :: "Codec \<Rightarrow> SecurityContract \<Rightarrow> (PolicyError, unit) result" where
  "verify_sealed codec c =
     (if \<not> verify_sha256 codec c
      then Err (VerificationFailed
             (''Contract tamper detected: SHA-256 mismatch (expected: '' @
              unwrap_or_default (compute_sha256_digest codec (unsealed c)) @ '', found: '' @
              sealed_contract_hash c @ '')''))
      else if \<not> verify_digest codec c
      then Err (VerificationFailed
             (''Contract tamper detected: BLAKE3 mismatch (expected: '' @
              unwrap_or_default (compute_digest codec (unsealed c)) @ '', found: '' @
              contract_digest_blake3 c @ '')''))
      else Ok ())"

section \<open>Signing configuration\<close>

text \<open>Recomputing both digests; \<open>expect\<close> panics (\<open>None\<close>) when serialization fails.\<close>

definition reseal :: "Codec \<Rightarrow> SecurityContract \<Rightarrow> SecurityContract option" where
  "reseal codec c =
     (case compute_digest codec (unsealed c) of
        Inl _ \<Rightarrow> None
      | Inr digest \<Rightarrow>
          (let c1 = c\<lparr>contract_digest_blake3 := digest\<rparr>
           in case compute_sha256_digest codec (unsealed c1) of
                Inl _ \<Rightarrow> None
              | Inr sha \<Rightarrow> Some (c1\<lparr>sealed_contract_hash := sha\<rparr>)))"

definition with_crypto :: "Codec \<Rightarrow> CryptoContract \<Rightarrow> SecurityContract \<Rightarrow> SecurityContract option" where
  "with_crypto codec cr c = reseal codec (c\<lparr>crypto := cr\<rparr>)"

definition with_minisign ::
  "Codec \<Rightarrow> bool \<Rightarrow> string option \<Rightarrow> string option \<Rightarrow> SecurityContract \<Rightarrow> SecurityContract option" where
  "with_minisign codec enabled sig pk c =
     reseal codec
       (c\<lparr>crypto := (crypto c)\<lparr>minisign_enabled := enabled, signature := sig, public_key := pk\<rparr>\<rparr>)"

fun seccomp_profile_debug :: "SeccompProfile \<Rightarrow> string" where
  "seccomp_profile_debug ProfileDefault = ''Default''"
| "seccomp_profile_debug AgentMin = ''AgentMin''"

definition lower_enforcement_metadata :: "SecurityContract \<Rightarrow> nat \<Rightarrow> LoweredEnforcementMetadata" where
  "lower_enforcement_metadata c abi =
     \<lparr>landlock_abi = abi,
      read_paths = fs_allow_read (filesystem c),
      write_paths = fs_allow_write (filesystem c),
      lowered_mask_paths = mask_paths (filesystem c),
      network_connect_ports = allowed_ports (network c),
      lowered_seccomp_profile =
        (case production c of
           None \<Rightarrow> ''default''
         | Some p \<Rightarrow> seccomp_profile_debug (seccomp_profile (installation_policy p))),
      observe_seccomp =
        (case production c of None \<Rightarrow> False | Some p \<Rightarrow> prod_observe_seccomp p)\<rparr>"

section \<open>Lemmas\<close>

lemma to_hex_simps: "to_hex [] = []" "to_hex (b # bs) = hex_digit (unat b div 16) # hex_digit (unat b mod 16) # to_hex bs"
  by (simp_all add: to_hex_def)

lemma hex_digit_inj: "m < 16 \<Longrightarrow> n < 16 \<Longrightarrow> hex_digit m = hex_digit n \<Longrightarrow> m = n"
proof -
  assume m: "m < 16" and n: "n < 16" and eq: "hex_digit m = hex_digit n"
  have "(of_char (hex_digit k) :: nat) = (if k < 10 then 48 + k else 87 + k)" if "k < 16" for k
    using that by (simp add: hex_digit_def)
  with m n eq have "(if m < 10 then 48 + m else 87 + m) = (if n < 10 then 48 + n else 87 + n)"
    by metis
  with m n show ?thesis by (auto split: if_splits)
qed

lemma to_hex_inj: "to_hex xs = to_hex ys \<Longrightarrow> xs = ys"
proof (induction xs arbitrary: ys)
  case Nil
  then show ?case by (cases ys) (simp_all add: to_hex_simps)
next
  case (Cons x xs)
  then obtain y zs where ys: "ys = y # zs" by (cases ys) (auto simp: to_hex_simps)
  have b: "unat x < 256" "unat y < 256" using unsigned_less [of x] unsigned_less [of y] by simp_all
  with Cons.prems ys have "unat x div 16 = unat y div 16" "unat x mod 16 = unat y mod 16"
    by (auto simp: to_hex_simps intro!: hex_digit_inj)
  then have "x = y" by (metis div_mult_mod_eq word_unat_eq_iff)
  with Cons ys show ?case by (simp add: to_hex_simps)
qed

lemma unsealed_extend [simp]:
  "unsealed (UnsealedSecurityContract.extend u (SecurityContract.fields d s)) = u"
  "contract_digest_blake3 (UnsealedSecurityContract.extend u (SecurityContract.fields d s)) = d"
  "sealed_contract_hash (UnsealedSecurityContract.extend u (SecurityContract.fields d s)) = s"
  by (simp_all add: unsealed_def UnsealedSecurityContract.defs SecurityContract.defs)

lemma unsealed_update [simp]:
  "unsealed (c\<lparr>contract_digest_blake3 := d\<rparr>) = unsealed c"
  "unsealed (c\<lparr>sealed_contract_hash := s\<rparr>) = unsealed c"
  by (simp_all add: unsealed_def UnsealedSecurityContract.defs)

lemma verify_sealed_ok:
  "verify_sealed codec c = Ok () \<longleftrightarrow>
     (\<exists>bytes. to_json codec (strip_signature (unsealed c)) = Ok bytes \<and>
        sealed_contract_hash c = to_hex (sha256 codec bytes) \<and> sealed_contract_hash c \<noteq> [] \<and>
        contract_digest_blake3 c = to_hex (digest_b3 bytes))"
  by (auto simp: verify_sealed_def verify_sha256_def verify_digest_def compute_digest_def
      compute_sha256_digest_def and_then_def split: sum.splits)

lemma verify_sealed_err:
  "verify_sealed codec c \<noteq> Ok () \<Longrightarrow>
   \<exists>msg. verify_sealed codec c = Err (VerificationFailed msg)"
  by (auto simp: verify_sealed_def split: if_splits)

lemma seal_ok:
  "seal codec u = Ok c \<longleftrightarrow>
     (\<exists>bytes. to_json codec (strip_signature u) = Ok bytes \<and>
        c = UnsealedSecurityContract.extend u
              (SecurityContract.fields (to_hex (digest_b3 bytes)) (to_hex (sha256 codec bytes))))"
  by (auto simp: seal_def compute_digest_def compute_sha256_digest_def)

lemma seal_fields:
  assumes "seal codec u = Ok c"
  shows "production c = production u" "filesystem c = filesystem u" "network c = network u"
    "resources c = resources u" "session_nonce c = session_nonce u" "agent_identity c = agent_identity u"
  using assms by (auto simp: seal_ok UnsealedSecurityContract.defs)

lemma to_hex_nonempty: "bs \<noteq> [] \<Longrightarrow> to_hex bs \<noteq> []"
  by (cases bs) (simp_all add: to_hex_simps)

lemma seal_verifies:
  assumes "\<And>b. sha256 codec b \<noteq> []" and "seal codec u = Ok c"
  shows "unsealed c = u \<and> verify_sealed codec c = Ok ()"
  using assms by (auto simp: seal_ok verify_sealed_ok to_hex_nonempty)

lemma reseal_verifies:
  assumes "\<And>b. sha256 codec b \<noteq> []" and "reseal codec c = Some c'"
  shows "unsealed c' = unsealed c \<and> verify_sealed codec c' = Ok ()"
  using assms
  by (auto simp: reseal_def verify_sealed_ok compute_digest_def compute_sha256_digest_def
      and_then_def to_hex_nonempty Let_def split: sum.splits)

lemma strip_signature_same:
  "strip_signature v = strip_signature w \<Longrightarrow> w = v\<lparr>crypto := (crypto v)\<lparr>signature := signature (crypto w)\<rparr>\<rparr>"
  by (cases v; cases w; cases "crypto v"; cases "crypto w") (simp add: strip_signature_def)

lemma of_char_inj: "inj (of_char :: char \<Rightarrow> u8)"
proof (rule injI)
  fix c d :: char
  assume "(of_char c :: u8) = of_char d"
  then have "(of_nat (of_char c) :: u8) = of_nat (of_char d)" by (simp add: of_nat_of_char)
  then have "(of_char c :: nat) = of_char d"
    using nat_of_char_less_256 [of c] nat_of_char_less_256 [of d]
    by (simp add: word_of_nat_eq_iff take_bit_nat_eq_self)
  then show "c = d" by simp
qed

section \<open>Properties\<close>

text \<open>
  Sealed contracts verify. Sealing returns a contract with the payload it was
  given, which verifies; configuring signing afterwards keeps the payload but for the signing
  fields and gives a contract that verifies again, with digests that do not depend on the
  detached signature. The hypothesis on SHA-256 is that its digest is not empty.
\<close>

theorem contract_seal_verifies:
  assumes "\<And>b. sha256 codec b \<noteq> []" and "seal codec u = Ok c"
    and "with_minisign codec en sig pk c = Some c'"
    and "with_minisign codec en sig' pk c = Some c''"
  shows "unsealed c = u \<and> verify_sealed codec c = Ok () \<and>
    unsealed c' = u\<lparr>crypto := (crypto u)\<lparr>minisign_enabled := en, signature := sig, public_key := pk\<rparr>\<rparr> \<and>
    verify_sealed codec c' = Ok () \<and>
    contract_digest_blake3 c' = contract_digest_blake3 c'' \<and>
    sealed_contract_hash c' = sealed_contract_hash c''"
proof -
  have upd: "unsealed (d\<lparr>crypto := x\<rparr>) = (unsealed d)\<lparr>crypto := x\<rparr>" "crypto (unsealed d) = crypto d" for d x
    by (simp_all add: unsealed_def UnsealedSecurityContract.defs)
  note s = seal_verifies [OF assms(1,2)]
  note r' = reseal_verifies [OF assms(1) assms(3) [unfolded with_minisign_def] ]
  note r'' = reseal_verifies [OF assms(1) assms(4) [unfolded with_minisign_def] ]
  have "strip_signature (unsealed c') = strip_signature (unsealed c'')"
    using r' r'' by (simp add: upd strip_signature_def)
  with r' r'' have "contract_digest_blake3 c' = contract_digest_blake3 c'' \<and>
      sealed_contract_hash c' = sealed_contract_hash c''"
    by (auto simp: verify_sealed_ok)
  with s r' upd show ?thesis by metis
qed

text \<open>A contract of defaults, and a codec that serializes the contract's identifier and nonce.\<close>

definition sample_contract :: UnsealedSecurityContract where
  "sample_contract =
     \<lparr>production = None, contract_version = 1, contract_id = ''c1'', session_nonce = ''n'',
      agent_identity = \<lparr>agent_name = ''a'', agent_preset = ''default'', agent_version = ''0.6.3'',
        invoked_binary = ''/bin/sh'', invoked_args = []\<rparr>,
      filesystem = \<lparr>workspace_root = ''/ws'', fs_allow_read = [''/ws''], fs_allow_write = [''/ws''],
        fs_allow_execute = [''/usr''], mask_paths = [''/ws/.env''], cow_overlay = False,
        execution_root_ro = False, fs_shadow = False\<rparr>,
      network = \<lparr>net_mode = ModeAllowlist, allowed_domains = [''example.com''], allowed_ports = [443],
        block_cloud_metadata = True, block_loopback_daemons = True\<rparr>,
      resources = \<lparr>max_pids = 1, max_memory_bytes = 1, max_cpu_percent = 1, max_wall_time_ms = 1,
        max_stdout_bytes = 1, max_file_size_bytes = 1\<rparr>,
      environment_contract = \<lparr>pass_through_vars = [], explicit_vars = [], redacted_patterns = [],
        inject_session_nonce = True\<rparr>,
      attestation = \<lparr>generate_audit_jsonl = True, sign_minisign = False, sign_cosign_slsa = False,
        evidence_level_minimum = ''HOST_FACT''\<rparr>,
      crypto = crypto_new\<rparr>"

definition sample_codec :: Codec where
  "sample_codec =
     \<lparr>to_json = (\<lambda>u. Ok (map of_char (contract_id u) @ map of_char (session_nonce u))),
      sha256 = (\<lambda>b. 0 # b)\<rparr>"

theorem contract_seal_verifies_witness:
  "\<exists>c c'. seal sample_codec sample_contract = Ok c \<and>
     with_minisign sample_codec True (Some ''s1'') None c = Some c' \<and>
     verify_sealed sample_codec c' = Ok ()"
proof -
  obtain c where c: "seal sample_codec sample_contract = Ok c"
    by (auto simp: seal_ok sample_codec_def)
  obtain c1 where c1: "with_minisign sample_codec True (Some ''s1'') None c = Some c1"
    by (auto simp: with_minisign_def reseal_def compute_digest_def compute_sha256_digest_def
        sample_codec_def Let_def)
  have "sha256 sample_codec b \<noteq> []" for b by (simp add: sample_codec_def)
  from contract_seal_verifies [OF this c c1 c1] c c1 show ?thesis by blast
qed

text \<open>
  Property C38 (tampering is detected). A contract that carries the digests of a sealed one but
  differs from it anywhere in its payload, the detached signature apart, fails verification with
  the error that exits with code 125; otherwise the serializations of the two payloads without
  their signatures are different byte strings that collide under SHA-256 and under BLAKE3 at
  once. The hypothesis on the serializer is that different payloads have different JSON texts.
\<close>

theorem contract_tampering_detected:
  assumes "\<And>v w b. to_json codec v = Ok b \<Longrightarrow> to_json codec w = Ok b \<Longrightarrow> v = w"
    and "seal codec u = Ok c"
    and "contract_digest_blake3 c' = contract_digest_blake3 c"
    and "sealed_contract_hash c' = sealed_contract_hash c"
    and "unsealed c' \<noteq> u\<lparr>crypto := (crypto u)\<lparr>signature := signature (crypto (unsealed c'))\<rparr>\<rparr>"
  shows "(\<exists>msg. verify_sealed codec c' = Err (VerificationFailed msg) \<and>
            policy_error_exit_code (VerificationFailed msg) = 125) \<or>
         (\<exists>b b'. b \<noteq> b' \<and> to_json codec (u\<lparr>crypto := (crypto u)\<lparr>signature := None\<rparr>\<rparr>) = Ok b \<and>
            to_json codec ((unsealed c')\<lparr>crypto := (crypto (unsealed c'))\<lparr>signature := None\<rparr>\<rparr>) = Ok b' \<and>
            sha256 codec b = sha256 codec b' \<and> digest_b3 b = digest_b3 b')"
proof (cases "verify_sealed codec c' = Ok ()")
  case True
  with assms(2-4) obtain b b' where b: "to_json codec (strip_signature u) = Ok b"
    "to_json codec (strip_signature (unsealed c')) = Ok b'"
    "to_hex (sha256 codec b) = to_hex (sha256 codec b')" "to_hex (digest_b3 b) = to_hex (digest_b3 b')"
    by (auto simp: seal_ok verify_sealed_ok)
  have "strip_signature u \<noteq> strip_signature (unsealed c')" using assms(5) strip_signature_same by metis
  then have "b \<noteq> b'" using assms(1) b(1,2) by metis
  with b show ?thesis by (auto simp: strip_signature_def dest!: to_hex_inj)
next
  case False
  from verify_sealed_err [OF False] show ?thesis by auto
qed

text \<open>
  A codec that knows the contracts that differ from the sample in their nonce only, and writes
  the nonce: different payloads have different texts.
\<close>

definition nonce_codec :: Codec where
  "nonce_codec =
     \<lparr>to_json = (\<lambda>u. if u = sample_contract\<lparr>session_nonce := session_nonce u\<rparr>
                      then Ok (map of_char (session_nonce u)) else Err ''not a sample contract''),
      sha256 = (\<lambda>b. 0 # b)\<rparr>"

lemma nonce_codec_inj:
  assumes "to_json nonce_codec v = Ok b" and "to_json nonce_codec w = Ok b"
  shows "v = w"
proof -
  have "map (of_char :: char \<Rightarrow> u8) (session_nonce v) = map of_char (session_nonce w)"
    using assms by (simp add: nonce_codec_def split: if_splits)
  moreover have "inj (of_char :: char \<Rightarrow> u8)" by (rule of_char_inj)
  ultimately have "session_nonce v = session_nonce w" by (metis inj_map inj_eq)
  moreover have "v = sample_contract\<lparr>session_nonce := session_nonce v\<rparr>"
    "w = sample_contract\<lparr>session_nonce := session_nonce w\<rparr>"
    using assms by (simp_all add: nonce_codec_def split: if_splits)
  ultimately show ?thesis by metis
qed

theorem contract_tampering_detected_witness:
  "\<exists>c msg. seal nonce_codec sample_contract = Ok c \<and>
     verify_sealed nonce_codec (c\<lparr>session_nonce := ''forged''\<rparr>) = Err (VerificationFailed msg)"
proof -
  have same: "sample_contract\<lparr>session_nonce := session_nonce sample_contract\<rparr> = sample_contract"
    "sample_contract\<lparr>session_nonce := ''forged'', crypto := (crypto sample_contract)\<lparr>signature := None\<rparr>\<rparr> =
     sample_contract\<lparr>session_nonce := ''forged''\<rparr>"
    "sample_contract\<lparr>crypto := (crypto sample_contract)\<lparr>signature := None\<rparr>\<rparr> = sample_contract"
    "crypto (sample_contract\<lparr>session_nonce := ''forged''\<rparr>) = crypto sample_contract"
    by (simp_all add: sample_contract_def crypto_new_def)
  obtain c where c: "seal nonce_codec sample_contract = Ok c"
    by (auto simp: seal_ok nonce_codec_def strip_signature_def same)
  let ?c' = "c\<lparr>session_nonce := ''forged''\<rparr>"
  have u: "unsealed ?c' = sample_contract\<lparr>session_nonce := ''forged''\<rparr>"
    using c by (auto simp: seal_ok unsealed_def UnsealedSecurityContract.defs)
  have t: "to_json nonce_codec sample_contract = Ok (map of_char ''n'')"
    "to_json nonce_codec (sample_contract\<lparr>session_nonce := ''forged''\<rparr>) = Ok (map of_char ''forged'')"
    using same(1) by (simp_all add: nonce_codec_def) (simp add: sample_contract_def)
  have "unsealed ?c' \<noteq> sample_contract\<lparr>crypto := (crypto sample_contract)\<lparr>signature := signature (crypto (unsealed ?c'))\<rparr>\<rparr>"
    unfolding u by (simp add: sample_contract_def)
  from contract_tampering_detected [OF nonce_codec_inj c _ _ this] c show ?thesis
    by (auto simp: u same t nonce_codec_def simp del: sum.inject)
qed

end
