(* ===== verification/IpAddr.thy ===== *)
theory IpAddr
  imports Prelude
begin

text \<open>
  IP addresses: the parser behind \<open>str::parse::<IpAddr>()\<close> of Rust's standard library, in the
  shape of \<open>core::net::parser\<close> (a cursor that is restored when a sub-parser fails), and the
  address classification of the egress broker, \<open>src/src/sandbox/linux/net_relay.rs\<close>:
  cloud-metadata endpoints, forbidden destinations, NAT64 and IPv4-mapped embeddings, and CIDR
  blocks.

  An IPv4 address is its four octets, an IPv6 address its eight 16-bit groups, both as bounded
  naturals; \<open>octets_v6\<close> is the 16-byte view. The lemmas show that the parser only yields
  well-formed addresses, that every address that identifies a metadata endpoint or
  a private network is refused in each of its embeddings, and that CIDR containment is the
  agreement of the leading bits.
\<close>

unbundle bit_operations_syntax

section \<open>Addresses\<close>

datatype ipv4 = IPv4 nat nat nat nat

datatype ipv6 = IPv6 "nat list"

datatype ip_addr = V4 ipv4 | V6 ipv6

fun octets_v4 :: "ipv4 \<Rightarrow> nat list" where
  "octets_v4 (IPv4 a b c d) = [a, b, c, d]"

fun octets_v6 :: "ipv6 \<Rightarrow> nat list" where
  "octets_v6 (IPv6 gs) = concat (map (\<lambda>g. [g div 256, g mod 256]) gs)"

fun wf_ip :: "ip_addr \<Rightarrow> bool" where
  "wf_ip (V4 (IPv4 a b c d)) = (a < 256 \<and> b < 256 \<and> c < 256 \<and> d < 256)"
| "wf_ip (V6 (IPv6 gs)) = (length gs = 8 \<and> list_all (\<lambda>g. g < 65536) gs)"

definition ipv6_of_octets :: "nat list \<Rightarrow> ipv6" where
  "ipv6_of_octets os = IPv6 (map (\<lambda>i. 256 * os ! (2 * i) + os ! (2 * i + 1)) [0..<8])"

section \<open>The parser\<close>

type_synonym 'a parser = "string \<Rightarrow> ('a \<times> string) option"

definition hex_val :: "char \<Rightarrow> nat option" where
  "hex_val c =
     (let n = of_char c
      in if 48 \<le> n \<and> n \<le> 57 then Some (n - 48)
         else if 97 \<le> n \<and> n \<le> 102 then Some (n - 87)
         else if 65 \<le> n \<and> n \<le> 70 then Some (n - 55)
         else None)"

definition to_digit :: "nat \<Rightarrow> char \<Rightarrow> nat option" where
  "to_digit radix c = (case hex_val c of None \<Rightarrow> None | Some v \<Rightarrow> if v < radix then Some v else None)"

definition read_given_char :: "char \<Rightarrow> unit parser" where
  "read_given_char c s = (case s of [] \<Rightarrow> None | x # xs \<Rightarrow> if x = c then Some ((), xs) else None)"

text \<open>The digit loop of \<open>read_number\<close>: value, number of digits and rest; more than
  \<open>max_digits\<close> digits fail.\<close>

fun read_digits :: "nat \<Rightarrow> nat \<Rightarrow> nat \<Rightarrow> nat \<Rightarrow> (nat \<times> nat) parser" where
  "read_digits radix maxd acc n [] = Some ((acc, n), [])"
| "read_digits radix maxd acc n (c # cs) =
     (case to_digit radix c of
        None \<Rightarrow> Some ((acc, n), c # cs)
      | Some d \<Rightarrow>
          if n + 1 > maxd then None
          else read_digits radix maxd (acc * radix + d) (n + 1) cs)"

definition read_number :: "nat \<Rightarrow> nat \<Rightarrow> bool \<Rightarrow> nat \<Rightarrow> nat parser" where
  "read_number radix maxd allow_zero_prefix bound s =
     (let has_leading_zero = (s \<noteq> [] \<and> hd s = CHR ''0'')
      in case read_digits radix maxd 0 0 s of
           None \<Rightarrow> None
         | Some ((v, n), rest) \<Rightarrow>
             if n = 0 then None
             else if \<not> allow_zero_prefix \<and> has_leading_zero \<and> n > 1 then None
             else if v < bound then Some (v, rest) else None)"

definition read_octet :: "nat parser" where
  "read_octet = read_number 10 3 False 256"

definition read_ipv4 :: "ipv4 parser" where
  "read_ipv4 s = do {
     (a, s) \<leftarrow> read_octet s;
     (_, s) \<leftarrow> read_given_char (CHR ''.'') s;
     (b, s) \<leftarrow> read_octet s;
     (_, s) \<leftarrow> read_given_char (CHR ''.'') s;
     (c, s) \<leftarrow> read_octet s;
     (_, s) \<leftarrow> read_given_char (CHR ''.'') s;
     (d, s) \<leftarrow> read_octet s;
     Some (IPv4 a b c d, s)
   }"

definition read_separated :: "nat \<Rightarrow> 'a parser \<Rightarrow> 'a parser" where
  "read_separated i p s =
     (if i = 0 then p s
      else (case read_given_char (CHR '':'') s of None \<Rightarrow> None | Some (_, s') \<Rightarrow> p s'))"

text \<open>\<open>read_groups\<close> fills the next slot, \<open>left\<close> slots remaining of a limit; it stops at the
  first slot it cannot fill and tells whether an embedded IPv4 address ended it.\<close>

fun read_groups :: "nat \<Rightarrow> nat \<Rightarrow> string \<Rightarrow> nat list \<times> bool \<times> string" where
  "read_groups i 0 s = ([], False, s)"
| "read_groups i (Suc left) s =
     (case (if left > 0 then read_separated i read_ipv4 s else None) of
        Some (IPv4 a b c d, s') \<Rightarrow> ([256 * a + b, 256 * c + d], True, s')
      | None \<Rightarrow>
          (case read_separated i (read_number 16 4 True 65536) s of
             None \<Rightarrow> ([], False, s)
           | Some (g, s') \<Rightarrow>
               (let (gs, v4, s'') = read_groups (Suc i) left s' in (g # gs, v4, s''))))"

definition read_ipv6 :: "ipv6 parser" where
  "read_ipv6 s =
     (let (head, v4, s1) = read_groups 0 8 s
      in if length head = 8 then Some (IPv6 head, s1)
         else if v4 then None
         else (case read_given_char (CHR '':'') s1 of
                 None \<Rightarrow> None
               | Some (_, s2) \<Rightarrow>
                   (case read_given_char (CHR '':'') s2 of
                      None \<Rightarrow> None
                    | Some (_, s3) \<Rightarrow>
                        (let (tail, _, s4) = read_groups 0 (8 - (length head + 1)) s3
                         in Some (IPv6 (head @ replicate (8 - length head - length tail) 0 @ tail),
                                  s4)))))"

definition parse_ip :: "string \<Rightarrow> ip_addr option" where
  "parse_ip s =
     (case (case read_ipv4 s of Some (a, r) \<Rightarrow> Some (V4 a, r)
            | None \<Rightarrow> map_option (\<lambda>(a, r). (V6 a, r)) (read_ipv6 s)) of
        Some (a, []) \<Rightarrow> Some a
      | _ \<Rightarrow> None)"

section \<open>Classification\<close>

fun is_loopback_v4 :: "ipv4 \<Rightarrow> bool" where
  "is_loopback_v4 (IPv4 a b c d) = (a = 127)"

fun is_loopback_v6 :: "ipv6 \<Rightarrow> bool" where
  "is_loopback_v6 (IPv6 gs) = (gs = [0, 0, 0, 0, 0, 0, 0, 1])"

fun is_loopback_ip :: "ip_addr \<Rightarrow> bool" where
  "is_loopback_ip (V4 a) = is_loopback_v4 a"
| "is_loopback_ip (V6 a) = is_loopback_v6 a"

fun metadata_v4 :: "ipv4 \<Rightarrow> bool" where
  "metadata_v4 (IPv4 a b c d) =
     (a = 169 \<and> b = 254 \<and> c = 169 \<and> d = 254 \<or> a = 100 \<and> b = 100 \<and> c = 100 \<and> d = 200)"

definition all_zero :: "nat list \<Rightarrow> bool" where
  "all_zero bs = list_all (\<lambda>b. b = 0) bs"

definition is_v4_mapped :: "nat list \<Rightarrow> bool" where
  "is_v4_mapped os = (all_zero (take 10 os) \<and> os ! 10 = 255 \<and> os ! 11 = 255)"

definition is_v4_compatible :: "nat list \<Rightarrow> bool" where
  "is_v4_compatible os = all_zero (take 12 os)"

definition embedded_v4 :: "nat list \<Rightarrow> ipv4" where
  "embedded_v4 os = IPv4 (os ! 12) (os ! 13) (os ! 14) (os ! 15)"

definition NAT64_WELL_KNOWN_PREFIX :: "nat list" where
  "NAT64_WELL_KNOWN_PREFIX = [0x00, 0x64, 0xff, 0x9b, 0, 0, 0, 0, 0, 0, 0, 0]"

definition NAT64_NETWORK_PREFIX :: "nat list" where
  "NAT64_NETWORK_PREFIX = [0x00, 0x64, 0xff, 0x9b, 0x00, 0x01]"

definition nat64_embedded_ipv4 :: "nat list \<Rightarrow> ipv4 option" where
  "nat64_embedded_ipv4 os =
     (if take 12 os = NAT64_WELL_KNOWN_PREFIX then Some (embedded_v4 os)
      else if take 6 os = NAT64_NETWORK_PREFIX
      then Some (IPv4 (os ! 6) (os ! 7) (os ! 9) (os ! 10))
      else None)"

fun is_cloud_metadata :: "ip_addr \<Rightarrow> bool" where
  "is_cloud_metadata (V4 ip) = metadata_v4 ip"
| "is_cloud_metadata (V6 ip) =
     (let os = octets_v6 ip
      in if is_v4_mapped os \<or> is_v4_compatible os then metadata_v4 (embedded_v4 os)
         else (case nat64_embedded_ipv4 os of Some v4 \<Rightarrow> metadata_v4 v4 | None \<Rightarrow> False))"

fun forbidden_ipv4 :: "ipv4 \<Rightarrow> bool" where
  "forbidden_ipv4 (IPv4 a b c d) =
     ((a = 10 \<or> a = 172 \<and> 16 \<le> b \<and> b \<le> 31 \<or> a = 192 \<and> b = 168)
      \<or> a = 169 \<and> b = 254
      \<or> a = 127
      \<or> a = 100 \<and> 64 \<le> b \<and> b \<le> 127
      \<or> a = 198 \<and> 18 \<le> b \<and> b \<le> 19
      \<or> a = 192 \<and> b = 0 \<and> c = 0
      \<or> (a = 192 \<and> b = 0 \<and> c = 2 \<or> a = 198 \<and> b = 51 \<and> c = 100 \<or> a = 203 \<and> b = 0 \<and> c = 113)
      \<or> a = 192 \<and> b = 88 \<and> c = 99
      \<or> 224 \<le> a
      \<or> a = 0
      \<or> a = 255 \<and> b = 255 \<and> c = 255 \<and> d = 255
      \<or> is_cloud_metadata (V4 (IPv4 a b c d)))"

fun forbidden_destination :: "ip_addr \<Rightarrow> bool" where
  "forbidden_destination (V4 ip) = forbidden_ipv4 ip"
| "forbidden_destination (V6 ip) =
     (let os = octets_v6 ip;
          is_metadata = is_cloud_metadata (V6 ip);
          is_unspecified = all_zero os;
          is_loopback = (all_zero (take 15 os) \<and> os ! 15 = 1);
          is_link_local = (os ! 0 = 0xfe \<and> (os ! 1 AND 0xc0) = 0x80);
          is_unique_local = ((os ! 0 AND 0xfe) = 0xfc);
          is_site_local = (os ! 0 = 0xfe \<and> (os ! 1 AND 0xc0) = 0xc0);
          is_multicast = (os ! 0 = 0xff);
          is_documentation =
            (os ! 0 = 0x20 \<and> os ! 1 = 0x01 \<and> os ! 2 = 0x0d \<and> os ! 3 = 0xb8 \<or>
             os ! 0 = 0x3f \<and> os ! 1 = 0xff \<and> (os ! 2 AND 0xf0) = 0);
          is_reserved_special_use =
            (os ! 0 = 0x20 \<and> os ! 1 = 0x01 \<and> os ! 2 = 0 \<and> (os ! 3 = 0 \<or> os ! 3 = 2) \<or>
             os ! 0 = 0x20 \<and> os ! 1 = 0x02);
          mapped = is_v4_mapped os;
          compatible = (is_v4_compatible os \<and> \<not> is_unspecified \<and> \<not> is_loopback);
          mapped_forbidden = ((mapped \<or> compatible) \<and> forbidden_ipv4 (embedded_v4 os));
          nat64_forbidden =
            (case nat64_embedded_ipv4 os of Some v4 \<Rightarrow> forbidden_ipv4 v4 | None \<Rightarrow> False)
      in is_metadata \<or> is_unspecified \<or> is_loopback \<or> is_link_local \<or> is_unique_local
         \<or> is_site_local \<or> is_multicast \<or> is_documentation \<or> is_reserved_special_use
         \<or> mapped_forbidden \<or> nat64_forbidden)"

section \<open>CIDR blocks\<close>

record IpCidr =
  cidr_network :: ip_addr
  prefix_len :: nat

definition split_once :: "char \<Rightarrow> string \<Rightarrow> (string \<times> string) option" where
  "split_once c s =
     (if c \<in> set s then Some (takeWhile (\<lambda>x. x \<noteq> c) s, tl (dropWhile (\<lambda>x. x \<noteq> c) s)) else None)"

definition strip_brackets :: "string \<Rightarrow> string" where
  "strip_brackets s =
     trim_end_matches (\<lambda>c. c = CHR '']'') (trim_start_matches (\<lambda>c. c = CHR ''['') s)"

datatype cidr_error = InvalidPrefix | InvalidIp | PrefixTooLong nat

definition cidr_prefix :: "ip_addr \<Rightarrow> nat option \<Rightarrow> (cidr_error, nat) result" where
  "cidr_prefix ip p =
     (case (ip, p) of
        (V4 _, Some n) \<Rightarrow> if n > 32 then Err (PrefixTooLong n) else Ok n
      | (V6 _, Some n) \<Rightarrow> if n > 128 then Err (PrefixTooLong n) else Ok n
      | (V4 _, None) \<Rightarrow> Ok 32
      | (V6 _, None) \<Rightarrow> Ok 128)"

definition cidr_parse :: "string \<Rightarrow> (cidr_error, IpCidr) result" where
  "cidr_parse str =
     (let s = trim str
      in and_then
           (case split_once (CHR ''/'') s of
              Some (ip_part, prefix_part) \<Rightarrow>
                (case parse_uint 8 (trim prefix_part) of
                   None \<Rightarrow> Err InvalidPrefix
                 | Some n \<Rightarrow> Ok (trim ip_part, Some n))
            | None \<Rightarrow> Ok (s, None))
           (\<lambda>(ip_str, prefix_opt).
              case parse_ip (strip_brackets ip_str) of
                None \<Rightarrow> Err InvalidIp
              | Some ip \<Rightarrow>
                  and_then (cidr_prefix ip prefix_opt)
                    (\<lambda>n. Ok \<lparr>cidr_network = ip, prefix_len = n\<rparr>)))"

text \<open>\<open>u32::from_be_bytes\<close> and \<open>u128::from_be_bytes\<close>.\<close>

definition be_val :: "nat list \<Rightarrow> nat" where
  "be_val bs = foldl (\<lambda>n b. 256 * n + b) 0 bs"

definition prefix_mask :: "nat \<Rightarrow> 'a::len word" where
  "prefix_mask n =
     (if n = LENGTH('a) then - 1 else NOT (push_bit (LENGTH('a) - n) 1 - 1))"

fun cidr_contains :: "IpCidr \<Rightarrow> ip_addr \<Rightarrow> bool" where
  "cidr_contains c target =
     (case (cidr_network c, target) of
        (V4 net, V4 tgt) \<Rightarrow>
          if prefix_len c = 0 then True
          else (of_nat (be_val (octets_v4 net)) :: 32 word) AND prefix_mask (prefix_len c) =
               of_nat (be_val (octets_v4 tgt)) AND prefix_mask (prefix_len c)
      | (V6 net, V6 tgt) \<Rightarrow>
          if prefix_len c = 0 then True
          else (of_nat (be_val (octets_v6 net)) :: 128 word) AND prefix_mask (prefix_len c) =
               of_nat (be_val (octets_v6 tgt)) AND prefix_mask (prefix_len c)
      | _ \<Rightarrow> False)"

section \<open>Lemmas on the parser\<close>

lemma read_number_bound: "read_number r m z b s = Some (v, rest) \<Longrightarrow> v < b"
  by (auto simp: read_number_def Let_def split: option.splits if_splits)

lemma read_ipv4_wf: "read_ipv4 s = Some (ip, rest) \<Longrightarrow> wf_ip (V4 ip)"
  by (auto simp: read_ipv4_def read_octet_def bind_eq_Some_conv split: prod.splits
      dest: read_number_bound)

lemma read_separated_Some: "read_separated i p s = Some r \<Longrightarrow> \<exists>s'. p s' = Some r"
  by (auto simp: read_separated_def split: if_splits option.splits)

lemma read_groups_wf:
  "read_groups i left s = (gs, v4, rest) \<Longrightarrow> length gs \<le> left \<and> list_all (\<lambda>g. g < 65536) gs"
proof (induction i left s arbitrary: gs v4 rest rule: read_groups.induct)
  case (1 i s)
  then show ?case by simp
next
  case (2 i left s)
  show ?case
  proof (cases "if left > 0 then read_separated i read_ipv4 s else None")
    case (Some r)
    obtain a b c d s' where r: "r = (IPv4 a b c d, s')" by (cases r) (metis ipv4.exhaust)
    from Some r have "left > 0" and "\<exists>t. read_ipv4 t = Some (IPv4 a b c d, s')"
      using read_separated_Some [of i read_ipv4 s r] by (auto split: if_splits)
    then have "left > 0" "a < 256" "b < 256" "c < 256" "d < 256"
      by (auto dest: read_ipv4_wf)
    with 2 Some r show ?thesis by auto
  next
    case None
    show ?thesis
    proof (cases "read_separated i (read_number 16 4 True 65536) s")
      case None2: None
      with 2 None show ?thesis by simp
    next
      case (Some r)
      obtain g s' where r: "r = (g, s')" by (cases r)
      obtain hs w t where rec: "read_groups (Suc i) left s' = (hs, w, t)"
        by (cases "read_groups (Suc i) left s'") auto
      have "g < 65536"
        using read_separated_Some [OF Some] r read_number_bound by blast
      moreover have "length hs \<le> left \<and> list_all (\<lambda>g. g < 65536) hs"
        using "2.IH" [OF None Some r [symmetric] ] rec r by auto
      ultimately show ?thesis using 2 None Some r rec by auto
    qed
  qed
qed

lemma read_ipv6_wf: "read_ipv6 s = Some (ip, rest) \<Longrightarrow> wf_ip (V6 ip)"
proof -
  assume ip: "read_ipv6 s = Some (ip, rest)"
  obtain hd4 v4 s1 where h: "read_groups 0 8 s = (hd4, v4, s1)"
    by (cases "read_groups 0 8 s") auto
  note hw = read_groups_wf [OF h]
  show ?thesis
  proof (cases "length hd4 = 8")
    case True
    with ip h hw show ?thesis by (auto simp: read_ipv6_def)
  next
    case False
    with ip h obtain s3 tl4 w s4 where
      t: "read_groups 0 (8 - (length hd4 + 1)) s3 = (tl4, w, s4)"
      and i: "ip = IPv6 (hd4 @ replicate (8 - length hd4 - length tl4) 0 @ tl4)"
      by (auto simp: read_ipv6_def Let_def split: prod.splits option.splits if_splits)
    from read_groups_wf [OF t] hw False show ?thesis
      by (auto simp: i list_all_iff)
  qed
qed

lemma parse_ip_wf: "parse_ip s = Some ip \<Longrightarrow> wf_ip ip"
  by (auto simp: parse_ip_def split: option.splits list.splits prod.splits
      dest: read_ipv4_wf read_ipv6_wf)

text \<open>Rules that evaluate the parser on a literal by rewriting.\<close>

lemma read_groups_numeral:
  "read_groups i (numeral k) s =
     (case (if pred_numeral k > 0 then read_separated i read_ipv4 s else None) of
        Some (IPv4 a b c d, s') \<Rightarrow> ([256 * a + b, 256 * c + d], True, s')
      | None \<Rightarrow>
          (case read_separated i (read_number 16 4 True 65536) s of
             None \<Rightarrow> ([], False, s)
           | Some (g, s') \<Rightarrow>
               (let (gs, v4, s'') = read_groups (Suc i) (pred_numeral k) s' in (g # gs, v4, s''))))"
  by (simp add: numeral_eq_Suc)

lemma replicate_numeral: "replicate (numeral k) x = x # replicate (pred_numeral k) x"
  by (simp add: numeral_eq_Suc)

lemmas parse_defs = parse_ip_def read_ipv4_def read_octet_def read_number_def to_digit_def
  hex_val_def read_given_char_def read_ipv6_def read_separated_def read_groups_numeral
  replicate_numeral

section \<open>Lemmas on embeddings\<close>

text \<open>The four ways an IPv4 address is carried by an IPv6 address that reaches it.\<close>

definition mapped_v6 :: "ipv4 \<Rightarrow> ipv6" where
  "mapped_v6 v = (case v of IPv4 a b c d \<Rightarrow> IPv6 [0, 0, 0, 0, 0, 65535, 256 * a + b, 256 * c + d])"

definition compatible_v6 :: "ipv4 \<Rightarrow> ipv6" where
  "compatible_v6 v = (case v of IPv4 a b c d \<Rightarrow> IPv6 [0, 0, 0, 0, 0, 0, 256 * a + b, 256 * c + d])"

definition nat64_v6 :: "ipv4 \<Rightarrow> ipv6" where
  "nat64_v6 v =
     (case v of IPv4 a b c d \<Rightarrow> IPv6 [0x64, 0xff9b, 0, 0, 0, 0, 256 * a + b, 256 * c + d])"

text \<open>The RFC 6052 layout under a /48 prefix, with the reserved octet \<open>u\<close> and a suffix.\<close>

definition nat64_48_v6 :: "nat \<Rightarrow> nat \<Rightarrow> nat \<Rightarrow> nat \<Rightarrow> ipv4 \<Rightarrow> ipv6" where
  "nat64_48_v6 u x y z v =
     (case v of IPv4 a b c d \<Rightarrow> IPv6 [0x64, 0xff9b, 1, 256 * a + b, 256 * u + c, 256 * d + x, y, z])"

lemma metadata_forbidden_v4: "metadata_v4 v \<Longrightarrow> forbidden_ipv4 v"
  by (cases v) simp

lemma group_octets [simp]: "b < 256 \<Longrightarrow> (256 * a + b) div 256 = a" "b < 256 \<Longrightarrow> (256 * a + b) mod 256 = (b :: nat)"
  by simp_all

lemma mapped_octets:
  "wf_ip (V4 (IPv4 a b c d)) \<Longrightarrow>
   octets_v6 (mapped_v6 (IPv4 a b c d)) = [0, 0, 0, 0, 0, 0, 0, 0, 0, 0, 255, 255, a, b, c, d]"
  by (simp add: mapped_v6_def)

lemma compatible_octets:
  "wf_ip (V4 (IPv4 a b c d)) \<Longrightarrow>
   octets_v6 (compatible_v6 (IPv4 a b c d)) = [0, 0, 0, 0, 0, 0, 0, 0, 0, 0, 0, 0, a, b, c, d]"
  by (simp add: compatible_v6_def)

lemma nat64_octets:
  "wf_ip (V4 (IPv4 a b c d)) \<Longrightarrow>
   octets_v6 (nat64_v6 (IPv4 a b c d)) = [0, 0x64, 0xff, 0x9b, 0, 0, 0, 0, 0, 0, 0, 0, a, b, c, d]"
  by (simp add: nat64_v6_def)

lemma nat64_48_octets:
  "wf_ip (V4 (IPv4 a b c d)) \<Longrightarrow> u < 256 \<Longrightarrow> x < 256 \<Longrightarrow>
   octets_v6 (nat64_48_v6 u x y z (IPv4 a b c d)) =
     [0, 0x64, 0xff, 0x9b, 0, 1, a, b, u, c, d, x, y div 256, y mod 256, z div 256, z mod 256]"
  by (simp add: nat64_48_v6_def)

lemmas class_defs = is_v4_mapped_def is_v4_compatible_def embedded_v4_def
  nat64_embedded_ipv4_def all_zero_def NAT64_WELL_KNOWN_PREFIX_def NAT64_NETWORK_PREFIX_def

lemmas policy_simps_del = forbidden_ipv4.simps metadata_v4.simps octets_v6.simps

lemma mapped_policy:
  assumes "wf_ip (V4 v)"
  shows "is_cloud_metadata (V6 (mapped_v6 v)) = metadata_v4 v"
    and "forbidden_destination (V6 (mapped_v6 v)) = forbidden_ipv4 v"
  using assms metadata_forbidden_v4 [of v]
  by (cases v; auto simp: mapped_octets class_defs simp del: policy_simps_del)+

lemma compatible_policy:
  assumes "wf_ip (V4 v)"
  shows "is_cloud_metadata (V6 (compatible_v6 v)) = metadata_v4 v"
    and "forbidden_destination (V6 (compatible_v6 v)) = forbidden_ipv4 v"
proof -
  obtain a b c d where v: "v = IPv4 a b c d" by (cases v)
  note os = compatible_octets [OF assms [unfolded v] ]
  show "is_cloud_metadata (V6 (compatible_v6 v)) = metadata_v4 v"
    unfolding v by (simp add: os class_defs del: policy_simps_del)
  have zero: "a = 0 \<Longrightarrow> forbidden_ipv4 v" by (simp add: v)
  show "forbidden_destination (V6 (compatible_v6 v)) = forbidden_ipv4 v"
  proof (cases "a = 0")
    case True
    from zero True show ?thesis
      using os unfolding v True by (auto simp: class_defs simp del: policy_simps_del)
  next
    case False
    then show ?thesis
      using metadata_forbidden_v4 [of v] unfolding v
      by (auto simp: os class_defs simp del: policy_simps_del)
  qed
qed

lemma nat64_policy:
  assumes "wf_ip (V4 v)"
  shows "is_cloud_metadata (V6 (nat64_v6 v)) = metadata_v4 v"
    and "forbidden_destination (V6 (nat64_v6 v)) = forbidden_ipv4 v"
  using assms metadata_forbidden_v4 [of v]
  by (cases v; auto simp: nat64_octets class_defs simp del: policy_simps_del)+

lemma nat64_48_policy:
  assumes "wf_ip (V4 v)" and "u < 256" and "x < 256"
  shows "is_cloud_metadata (V6 (nat64_48_v6 u x y z v)) = metadata_v4 v"
    and "forbidden_destination (V6 (nat64_48_v6 u x y z v)) = forbidden_ipv4 v"
  using assms metadata_forbidden_v4 [of v]
  by (cases v; auto simp: nat64_48_octets class_defs simp del: policy_simps_del)+

lemma metadata_forbidden: "is_cloud_metadata ip \<Longrightarrow> forbidden_destination ip"
  by (cases ip) (auto simp: metadata_forbidden_v4 Let_def simp del: policy_simps_del)

section \<open>Lemmas on CIDR blocks\<close>

lemma prefix_mask_not_mask:
  "n \<le> LENGTH('a) \<Longrightarrow> (prefix_mask n :: 'a::len word) = NOT (mask (LENGTH('a) - n))"
  by (auto simp: prefix_mask_def mask_eq_exp_minus_1 push_bit_eq_mult)

lemma masked_eq_iff:
  fixes v w :: "'a::len word"
  shows "v AND NOT (mask k) = w AND NOT (mask k) \<longleftrightarrow> drop_bit k v = drop_bit k w"
proof
  assume eq: "v AND NOT (mask k) = w AND NOT (mask k)"
  have "drop_bit k x = drop_bit k (x AND NOT (mask k))" for x :: "'a word"
    by (rule bit_word_eqI) (auto simp: bit_simps dest: bit_imp_le_length)
  with eq show "drop_bit k v = drop_bit k w" by metis
next
  assume eq: "drop_bit k v = drop_bit k w"
  have "x AND NOT (mask k) = push_bit k (drop_bit k x)" for x :: "'a word"
    by (rule bit_word_eqI) (auto simp: bit_simps)
  with eq show "v AND NOT (mask k) = w AND NOT (mask k)" by metis
qed

lemma drop_bit_word_eq_iff:
  fixes v w :: "'a::len word"
  shows "drop_bit k v = drop_bit k w \<longleftrightarrow> unat v div 2 ^ k = unat w div 2 ^ k"
  by (metis drop_bit_eq_div unat_drop_bit_eq unsigned_word_eqI)

lemma be_val_snoc: "be_val (bs @ [b]) = 256 * be_val bs + b"
  by (simp add: be_val_def)

lemma be_val_bound: "list_all (\<lambda>b. b < 256) bs \<Longrightarrow> be_val bs < 256 ^ length bs"
  by (induction bs rule: rev_induct) (auto simp: be_val_snoc be_val_def [of "[]"])

lemma octets_v6_bound:
  "wf_ip (V6 v) \<Longrightarrow> length (octets_v6 v) = 16 \<and> list_all (\<lambda>b. b < 256) (octets_v6 v)"
proof (cases v)
  case (IPv6 gs)
  assume "wf_ip (V6 v)"
  then have gs: "length gs = 8" "\<forall>g \<in> set gs. g < 65536" by (auto simp: IPv6 list_all_iff)
  have "length (concat (map (\<lambda>g. [g div 256, g mod 256]) gs)) = 2 * length gs" for gs :: "nat list"
    by (induction gs) simp_all
  then show ?thesis using gs by (auto simp: IPv6 list_all_iff)
qed

lemma cidr_word_eq:
  fixes a b :: nat
  assumes "n \<le> LENGTH('a)" and "a < 2 ^ LENGTH('a)" and "b < 2 ^ LENGTH('a)"
  shows "(of_nat a :: 'a::len word) AND prefix_mask n = of_nat b AND prefix_mask n \<longleftrightarrow>
         a div 2 ^ (LENGTH('a) - n) = b div 2 ^ (LENGTH('a) - n)"
  using assms
  by (simp add: prefix_mask_not_mask masked_eq_iff drop_bit_word_eq_iff unat_of_nat
      take_bit_nat_eq_self)

text \<open>What the leading bits of an address are: its big-endian value without the host part.\<close>

fun same_network :: "nat \<Rightarrow> ip_addr \<Rightarrow> ip_addr \<Rightarrow> bool" where
  "same_network n (V4 x) (V4 y) =
     (be_val (octets_v4 x) div 2 ^ (32 - n) = be_val (octets_v4 y) div 2 ^ (32 - n))"
| "same_network n (V6 x) (V6 y) =
     (be_val (octets_v6 x) div 2 ^ (128 - n) = be_val (octets_v6 y) div 2 ^ (128 - n))"
| "same_network n _ _ = False"

lemma be_val_v4: "wf_ip (V4 x) \<Longrightarrow> be_val (octets_v4 x) < 2 ^ 32"
  using be_val_bound [of "octets_v4 x"] by (cases x) simp

lemma be_val_v6: "wf_ip (V6 x) \<Longrightarrow> be_val (octets_v6 x) < 2 ^ 128"
proof -
  assume "wf_ip (V6 x)"
  note ob = octets_v6_bound [OF this]
  have "be_val (octets_v6 x) < 256 ^ length (octets_v6 x)" using be_val_bound ob by blast
  also have "(256 :: nat) ^ length (octets_v6 x) = 2 ^ 128" using ob by simp
  finally show ?thesis .
qed

definition wf_cidr :: "IpCidr \<Rightarrow> bool" where
  "wf_cidr c = (wf_ip (cidr_network c) \<and>
                (case cidr_network c of V4 _ \<Rightarrow> prefix_len c \<le> 32 | V6 _ \<Rightarrow> prefix_len c \<le> 128))"

lemma cidr_parse_wf: "cidr_parse s = Ok c \<Longrightarrow> wf_cidr c"
  by (auto simp: cidr_parse_def cidr_prefix_def and_then_def wf_cidr_def Let_def
      split: sum.splits option.splits prod.splits ip_addr.splits if_splits dest!: parse_ip_wf)

lemma cidr_contains_network:
  assumes "wf_cidr c" and "wf_ip t"
  shows "cidr_contains c t \<longleftrightarrow> same_network (prefix_len c) (cidr_network c) t"
proof (cases "cidr_network c"; cases t)
  fix x y assume n: "cidr_network c = V4 x" and t: "t = V4 y"
  from assms n t have b: "be_val (octets_v4 x) < 2 ^ 32" "be_val (octets_v4 y) < 2 ^ 32"
    using be_val_v4 by (auto simp: wf_cidr_def simp del: octets_v4.simps)
  from assms n have "prefix_len c \<le> 32" by (simp add: wf_cidr_def)
  with b show ?thesis by (simp add: n t cidr_word_eq del: octets_v4.simps)
next
  fix x y assume n: "cidr_network c = V6 x" and t: "t = V6 y"
  from assms n t have b: "be_val (octets_v6 x) < 2 ^ 128" "be_val (octets_v6 y) < 2 ^ 128"
    using be_val_v6 by (auto simp: wf_cidr_def simp del: octets_v6.simps)
  from assms n have "prefix_len c \<le> 128" by (simp add: wf_cidr_def)
  with b show ?thesis by (simp add: n t cidr_word_eq del: octets_v6.simps)
qed simp_all

section \<open>Properties\<close>

text \<open>
  An embedded IPv4 address is policed as itself. For every IPv4 address, its
  IPv4-mapped, IPv4-compatible, NAT64 well-known-prefix and RFC 6052 /48 IPv6 forms (whatever
  the reserved octet and suffix of the last) are a cloud-metadata endpoint, respectively a
  forbidden destination, exactly when the IPv4 address is; and every address, of either
  family, that is a metadata endpoint is a forbidden destination.
\<close>

theorem embedded_addresses_policed:
  assumes "wf_ip (V4 v)" and "u < 256" and "x < 256"
  shows "(\<forall>e \<in> {mapped_v6 v, compatible_v6 v, nat64_v6 v, nat64_48_v6 u x y z v}.
            is_cloud_metadata (V6 e) = is_cloud_metadata (V4 v) \<and>
            forbidden_destination (V6 e) = forbidden_destination (V4 v)) \<and>
         (is_cloud_metadata ip \<longrightarrow> forbidden_destination ip)"
  using assms metadata_forbidden [of ip]
  by (simp add: mapped_policy compatible_policy nat64_policy nat64_48_policy
      del: policy_simps_del forbidden_destination.simps(2) is_cloud_metadata.simps(2))

theorem embedded_addresses_policed_witness:
  "forbidden_destination (V6 (nat64_48_v6 7 1 2 3 (IPv4 169 254 169 254))) \<and>
   \<not> forbidden_destination (V6 (mapped_v6 (IPv4 8 8 8 8)))"
  using embedded_addresses_policed [of "IPv4 169 254 169 254" 7 1 2 3 "V4 (IPv4 1 2 3 4)"]
    embedded_addresses_policed [of "IPv4 8 8 8 8" 7 1 2 3 "V4 (IPv4 1 2 3 4)"]
  by (simp del: forbidden_destination.simps(2) is_cloud_metadata.simps(2))

text \<open>
  CIDR membership is agreement of the leading bits. A block that
  \<open>IpCidr::parse\<close> accepts has a well-formed network address and a prefix length within its
  family; it contains a well-formed target exactly when both are of one family and the
  first \<open>prefix_len\<close> bits of their addresses agree, so the shifts and masks of
  \<open>IpCidr::contains\<close>, prefix lengths 0 and full width included, compute
  what CIDR notation means.
\<close>

theorem cidr_contains_leading_bits:
  assumes "cidr_parse s = Ok c" and "wf_ip t"
  shows "wf_cidr c \<and> (cidr_contains c t \<longleftrightarrow> same_network (prefix_len c) (cidr_network c) t)"
  using cidr_parse_wf [OF assms(1)] cidr_contains_network [OF _ assms(2)] by blast

theorem cidr_contains_leading_bits_witness:
  "\<exists>c. cidr_parse '' 10.1.0.0/15'' = Ok c \<and>
       cidr_contains c (V4 (IPv4 10 0 255 3)) \<and> \<not> cidr_contains c (V4 (IPv4 10 2 0 0))"
proof -
  have p: "cidr_parse '' 10.1.0.0/15'' = Ok \<lparr>cidr_network = V4 (IPv4 10 1 0 0), prefix_len = 15\<rparr>"
    by code_simp
  show ?thesis
    using p cidr_contains_leading_bits [OF p, of "V4 (IPv4 10 0 255 3)"]
      cidr_contains_leading_bits [OF p, of "V4 (IPv4 10 2 0 0)"]
    by (simp add: be_val_def)
qed

end
