(* ===== verification/Authorize.thy ===== *)
theory Authorize
  imports Contract IpAddr
begin

text \<open>
  The capability gate of \<open>src/src/policy_ir/compiler.rs\<close>: \<open>authorize_action\<close> and the four
  decisions behind it, on reads, writes, executions and connections.

  The lemmas give each decision in terms of what the target denotes: the stack of names a path
  resolves to below the workspace, and the labels of a host name. They show that masks
  and deny rules have absolute precedence, that a relative target never leaves the workspace,
  and that a connection is allowed only to the domains and ports of the contract.
\<close>

section \<open>Paths\<close>

definition resolve_and_check_traversal :: "path \<Rightarrow> path \<Rightarrow> path \<times> bool" where
  "resolve_and_check_traversal ws target =
     (let has_parent_dir = (ParentDir \<in> set (components target));
          ws_norm = lexical_normalize ws
      in if is_absolute target
         then (let norm = lexical_normalize target
               in (norm, has_parent_dir \<and> path_starts_with target ws_norm \<and>
                         \<not> path_starts_with norm ws_norm))
         else (let norm = lexical_normalize (path_join ws target)
               in (norm, has_parent_dir \<and> \<not> path_starts_with norm ws_norm)))"

definition first_under :: "path \<Rightarrow> path list \<Rightarrow> path option" where
  "first_under resolved masks = find (\<lambda>m. eq_or_under resolved (lexical_normalize m)) masks"

definition first_colliding :: "path \<Rightarrow> path \<Rightarrow> path list \<Rightarrow> path option" where
  "first_colliding ws_root resolved masks =
     find (\<lambda>m. let norm = lexical_normalize m
               in eq_or_under resolved norm \<or>
                  path_starts_with norm resolved \<and> \<not> path_eq resolved ws_root) masks"

definition in_roots :: "path \<Rightarrow> path list \<Rightarrow> bool" where
  "in_roots resolved roots = list_ex (\<lambda>r. eq_or_under resolved (lexical_normalize r)) roots"

definition contract_deny_read :: "SecurityContract \<Rightarrow> path list" where
  "contract_deny_read c =
     (case production c of None \<Rightarrow> [] | Some p \<Rightarrow> deny_read (installation_policy p))"

definition contract_deny_write :: "SecurityContract \<Rightarrow> path list" where
  "contract_deny_write c =
     (case production c of None \<Rightarrow> [] | Some p \<Rightarrow> deny_write (installation_policy p))"

definition authorize_fs_read :: "SecurityContract \<Rightarrow> path \<Rightarrow> ActionVerdict" where
  "authorize_fs_read c target =
     (let fs = filesystem c
      in if target = [] then deny ''Read target path is empty'' ''fs_empty_path''
         else (let (resolved, is_traversal) = resolve_and_check_traversal (workspace_root fs) target
               in if is_traversal
                  then deny (''Read target '' @ debug_str target @
                             '' attempts directory traversal escaping workspace '' @
                             debug_str (workspace_root fs)) ''path_traversal''
                  else (case first_under resolved (mask_paths fs) of
                          Some m \<Rightarrow>
                            deny (''Read target '' @ debug_str target @
                                  '' collides with mandatory secret mask '' @ debug_str m)
                              (''secret_mask:'' @ debug_str m)
                        | None \<Rightarrow>
                            (case first_under resolved (contract_deny_read c) of
                               Some d \<Rightarrow>
                                 deny (''Read target '' @ debug_str target @
                                       '' collides with policy deny_read '' @ debug_str d)
                                   (''deny_read:'' @ debug_str d)
                             | None \<Rightarrow>
                                 if in_roots resolved
                                      (fs_allow_read fs @ fs_allow_write fs @ [workspace_root fs])
                                 then allow
                                 else deny (''Read target '' @ debug_str target @
                                            '' is outside allowed read roots'') ''fs_read_scope''))))"

definition authorize_fs_write :: "SecurityContract \<Rightarrow> path \<Rightarrow> ActionVerdict" where
  "authorize_fs_write c target =
     (let fs = filesystem c
      in if target = [] then deny ''Write target path is empty'' ''fs_empty_path''
         else (let (resolved, is_traversal) = resolve_and_check_traversal (workspace_root fs) target
               in if is_traversal
                  then deny (''Write target '' @ debug_str target @
                             '' attempts directory traversal escaping workspace '' @
                             debug_str (workspace_root fs)) ''path_traversal''
                  else (let ws_root = lexical_normalize (workspace_root fs)
                        in case first_colliding ws_root resolved (mask_paths fs) of
                             Some m \<Rightarrow>
                               deny (''Write target '' @ debug_str target @
                                     '' collides with mandatory secret mask '' @ debug_str m)
                                 (''secret_mask:'' @ debug_str m)
                           | None \<Rightarrow>
                               (case first_colliding ws_root resolved (contract_deny_write c) of
                                  Some d \<Rightarrow>
                                    deny (''Write target '' @ debug_str target @
                                          '' collides with policy deny_write '' @ debug_str d)
                                      (''deny_write:'' @ debug_str d)
                                | None \<Rightarrow>
                                    if fs_allow_write fs = []
                                    then deny (''Write target '' @ debug_str target @
                                           '' denied: write access is disabled (allow_write is empty)'')
                                           ''fs_write_empty''
                                    else if in_roots resolved (fs_allow_write fs) then allow
                                    else deny (''Write target '' @ debug_str target @
                                           '' is outside allowed write roots'') ''fs_write_scope''))))"

definition authorize_process_exec :: "SecurityContract \<Rightarrow> path \<Rightarrow> string list \<Rightarrow> ActionVerdict" where
  "authorize_process_exec c binary args =
     (let fs = filesystem c; invoked = invoked_binary (agent_identity c)
      in if binary = [] then deny ''Binary path is empty'' ''exec_empty_path''
         else (let (resolved, is_traversal) = resolve_and_check_traversal (workspace_root fs) binary
               in if is_traversal
                  then deny (''Execution binary '' @ debug_str binary @
                             '' attempts directory traversal outside workspace'') ''path_traversal''
                  else (case first_under resolved (mask_paths fs) of
                          Some m \<Rightarrow>
                            deny (''Execution binary '' @ debug_str binary @
                                  '' collides with secret mask '' @ debug_str m)
                              (''secret_mask:'' @ debug_str m)
                        | None \<Rightarrow>
                            (let norm_invoked = lexical_normalize invoked
                             in if path_eq resolved norm_invoked \<or>
                                   path_eq (lexical_normalize binary) norm_invoked \<or>
                                   path_eq binary invoked
                                then allow
                                else if in_roots resolved (fs_allow_execute fs) then allow
                                else deny (''Execution binary '' @ debug_str binary @
                                       '' is not authorized by allow_execute or invoked_binary'')
                                       ''process_exec_scope''))))"

section \<open>Connections\<close>

definition domain_pattern_matches :: "string \<Rightarrow> string \<Rightarrow> bool" where
  "domain_pattern_matches host raw =
     (let pat = to_ascii_lowercase
                  (trim_end_matches (\<lambda>c. c = CHR ''.'') (strip_domain_port raw))
      in if pat = ''*'' then True
         else (case strip_prefix ''*.'' pat of
                 Some sfx \<Rightarrow> ends_with host (CHR ''.'' # sfx)
               | None \<Rightarrow> host = pat \<or> ends_with host (CHR ''.'' # pat)))"

definition is_domain_in_allowlist :: "string \<Rightarrow> string list \<Rightarrow> bool" where
  "is_domain_in_allowlist host domains = list_ex (domain_pattern_matches host) domains"

fun metadata_target_ip :: "ip_addr \<Rightarrow> bool" where
  "metadata_target_ip (V4 v4) = metadata_v4 v4"
| "metadata_target_ip (V6 v6) =
     (let os = octets_v6 v6
      in if is_v4_mapped os \<or> is_v4_compatible os then metadata_v4 (embedded_v4 os) else False)"

definition is_cloud_metadata_target :: "string \<Rightarrow> bool" where
  "is_cloud_metadata_target host =
     (let clean = strip_brackets host
      in if clean = ''169.254.169.254'' \<or> clean = ''100.100.100.200'' \<or>
            clean = ''169.254.169.253'' \<or> clean = ''instance-data'' \<or>
            clean = ''metadata.google.internal'' \<or> clean = ''metadata.azure.com''
         then True
         else (case parse_ip clean of Some ip \<Rightarrow> metadata_target_ip ip | None \<Rightarrow> False))"

definition is_loopback_target :: "string \<Rightarrow> bool" where
  "is_loopback_target host =
     (let clean = strip_brackets host
      in if clean = ''localhost'' \<or> ends_with clean ''.localhost'' then True
         else (case parse_ip clean of
                 Some ip \<Rightarrow> is_loopback_ip ip
               | None \<Rightarrow> clean = ''127.0.0.1'' \<or> starts_with clean ''127.'' \<or> clean = ''::1''))"

definition show_ports :: "nat list \<Rightarrow> string" where
  "show_ports ps = ''['' @ join_with '', '' (map show_nat ps) @ '']''"

text \<open>The host the decisions are about: trimmed, without trailing dots, port and brackets,
  in lower case.\<close>

definition clean_domain :: "string \<Rightarrow> string" where
  "clean_domain domain = trim_end_matches (\<lambda>c. c = CHR ''.'') (trim domain)"

definition authorize_net_connect :: "SecurityContract \<Rightarrow> string \<Rightarrow> nat \<Rightarrow> ActionVerdict" where
  "authorize_net_connect c domain port =
     (let net = network c; clean = clean_domain domain
      in if clean = [] then deny ''Network destination host/domain is empty'' ''net_empty_domain''
         else (let host = to_ascii_lowercase (strip_domain_port clean);
                   dest = clean @ '':'' @ show_nat port
               in if net_mode net = ModeOff
                  then deny (''Outbound network egress to '' @ dest @
                             '' is disabled (NetworkMode::Off)'') ''net_mode:off''
                  else if net_mode net = ModeAsk \<and> \<not> is_domain_in_allowlist host (allowed_domains net)
                  then deny (''Connection to '' @ dest @
                             '' requires interactive approval (NetworkMode::Ask)'')
                         ''net_mode:ask_unapproved''
                  else if block_cloud_metadata net \<and> is_cloud_metadata_target host
                  then deny (''SSRF attempt to cloud metadata '' @ dest @ '' blocked'')
                         ''cloud_metadata_block''
                  else if block_loopback_daemons net \<and> is_loopback_target host
                  then deny (''Connection to loopback interface '' @ dest @ '' blocked'')
                         ''loopback_block''
                  else if net_mode net = ModeDirect then allow
                  else if \<not> is_domain_in_allowlist host (allowed_domains net)
                  then deny (''Domain '' @ [CHR 0x27] @ clean @ [CHR 0x27] @
                             '' is not in allowed network domains list'') ''net_domain_allowlist''
                  else if allowed_ports net \<noteq> [] \<and> port \<notin> set (allowed_ports net)
                  then deny (''Port '' @ show_nat port @ '' is not in allowed network ports '' @
                             show_ports (allowed_ports net)) ''net_port_allowlist''
                  else allow))"

section \<open>The gate\<close>

fun authorize_action :: "SecurityContract \<Rightarrow> Action \<Rightarrow> ActionVerdict" where
  "authorize_action c (FsRead target) = authorize_fs_read c target"
| "authorize_action c (FsWrite target) = authorize_fs_write c target"
| "authorize_action c (ProcessExec binary args) = authorize_process_exec c binary args"
| "authorize_action c (NetConnect domain port) = authorize_net_connect c domain port"

section \<open>What a path denotes\<close>

text \<open>The names below the root that a rooted path resolves to, and those of a target that is
  taken relative to the workspace.\<close>

definition names :: "path \<Rightarrow> string list" where
  "names p = resolve_stack [] (components p)"

definition denotes :: "path \<Rightarrow> path \<Rightarrow> string list" where
  "denotes ws target = names (path_join ws target)"

definition escapes :: "path \<Rightarrow> path \<Rightarrow> bool" where
  "escapes ws target \<longleftrightarrow>
     ParentDir \<in> set (components target) \<and>
     (is_absolute target \<longrightarrow> path_starts_with target (lexical_normalize ws)) \<and>
     \<not> prefix (names ws) (denotes ws target)"

definition rooted_contract :: "SecurityContract \<Rightarrow> bool" where
  "rooted_contract c \<longleftrightarrow>
     has_root (workspace_root (filesystem c)) \<and>
     list_all has_root (fs_allow_read (filesystem c)) \<and>
     list_all has_root (fs_allow_write (filesystem c)) \<and>
     list_all has_root (fs_allow_execute (filesystem c)) \<and>
     list_all has_root (mask_paths (filesystem c)) \<and>
     list_all has_root (contract_deny_read c) \<and> list_all has_root (contract_deny_write c)"

lemma prefix_map_Normal [simp]: "prefix (map Normal xs) (map Normal ys) \<longleftrightarrow> prefix xs ys"
proof (induction xs arbitrary: ys)
  case (Cons x xs)
  then show ?case by (cases ys) auto
qed simp

lemma map_Normal_eq [simp]: "map Normal xs = map Normal ys \<longleftrightarrow> xs = ys"
  by (rule inj_map_eq_map) (simp add: inj_on_def)

lemma norm_comps: "has_root p \<Longrightarrow> components (lexical_normalize p) = RootDir # map Normal (names p)"
  by (simp add: lexical_normalize_rooted_comps names_def)

lemma norm_under:
  "has_root p \<Longrightarrow> has_root r \<Longrightarrow>
   path_starts_with (lexical_normalize p) (lexical_normalize r) \<longleftrightarrow> prefix (names r) (names p)"
  by (simp add: path_starts_with_def norm_comps)

lemma norm_eq:
  "has_root p \<Longrightarrow> has_root r \<Longrightarrow>
   path_eq (lexical_normalize p) (lexical_normalize r) \<longleftrightarrow> names p = names r"
  by (simp add: path_eq_def norm_comps)

lemma has_root_join: "has_root ws \<Longrightarrow> has_root (path_join ws p)"
  by (cases ws) (auto simp: path_push_def)

lemma join_abs [simp]: "is_absolute p \<Longrightarrow> path_join ws p = p"
  by (simp add: path_push_def)

lemma resolve_denotes:
  assumes "has_root ws"
  shows "resolve_and_check_traversal ws p = (lexical_normalize (path_join ws p), escapes ws p)"
  using norm_under [OF has_root_join [OF assms, of p] assms]
  by (cases "is_absolute p")
     (simp_all add: resolve_and_check_traversal_def escapes_def denotes_def Let_def)

lemma relative_inside:
  assumes "has_root ws" and "\<not> is_absolute p" and "\<not> escapes ws p"
  shows "prefix (names ws) (denotes ws p)"
proof (cases "ParentDir \<in> set (components p)")
  case False
  have "ws \<noteq> []" using assms(1) by auto
  then have "components (path_join ws p) = components ws @ tail_comps p"
    using assms(2) by (rule components_push)
  moreover have "ParentDir \<notin> set (tail_comps p)" using False by (simp add: components_def)
  ultimately show ?thesis
    by (simp add: denotes_def names_def resolve_stack_append resolve_stack_no_parent)
qed (use assms in \<open>simp add: escapes_def\<close>)

lemma first_under_None:
  assumes "has_root p" and "list_all has_root ms"
  shows "first_under (lexical_normalize p) ms = None \<longleftrightarrow> (\<forall>m \<in> set ms. \<not> prefix (names m) (names p))"
  using assms norm_under [OF assms(1)]
  by (auto simp: first_under_def find_None_iff list_all_iff)

lemma first_colliding_None:
  assumes "has_root p" and "has_root ws" and "list_all has_root ms"
  shows "first_colliding (lexical_normalize ws) (lexical_normalize p) ms = None \<longleftrightarrow>
    (\<forall>m \<in> set ms. \<not> prefix (names m) (names p) \<and>
       (prefix (names p) (names m) \<longrightarrow> names p = names ws))"
  using assms(3)
  by (auto simp: first_colliding_def find_None_iff list_all_iff Let_def norm_under norm_eq assms(1,2))

lemma in_roots_iff:
  assumes "has_root p" and "list_all has_root rs"
  shows "in_roots (lexical_normalize p) rs \<longleftrightarrow> (\<exists>r \<in> set rs. prefix (names r) (names p))"
  using assms norm_under [OF assms(1)] by (auto simp: in_roots_def list_ex_iff list_all_iff)

lemma is_allowed_simps [simp]: "is_allowed allow" "\<not> is_allowed (deny reason rule)"
  by (simp_all add: allow_def deny_def)

lemma authorize_fs_read_iff:
  fixes p :: path
  assumes "rooted_contract c"
  defines "fs \<equiv> filesystem c"
  defines "t \<equiv> denotes (workspace_root fs) p"
  shows "is_allowed (authorize_fs_read c p) \<longleftrightarrow>
    p \<noteq> [] \<and> \<not> escapes (workspace_root fs) p \<and>
    (\<forall>m \<in> set (mask_paths fs) \<union> set (contract_deny_read c). \<not> prefix (names m) t) \<and>
    (\<exists>r \<in> set (fs_allow_read fs) \<union> set (fs_allow_write fs) \<union> {workspace_root fs}. prefix (names r) t)"
proof -
  from assms(1) have ws: "has_root (workspace_root fs)"
    and l: "list_all has_root (mask_paths fs)" "list_all has_root (contract_deny_read c)"
      "list_all has_root (fs_allow_read fs @ fs_allow_write fs @ [workspace_root fs])"
    by (auto simp: rooted_contract_def fs_def)
  note j = has_root_join [OF ws, of p]
  have t: "names (path_join (workspace_root fs) p) = t" by (simp add: t_def denotes_def)
  let ?n = "lexical_normalize (path_join (workspace_root fs) p)"
  have "is_allowed (authorize_fs_read c p) \<longleftrightarrow> p \<noteq> [] \<and> \<not> escapes (workspace_root fs) p \<and>
      first_under ?n (mask_paths fs) = None \<and> first_under ?n (contract_deny_read c) = None \<and>
      in_roots ?n (fs_allow_read fs @ fs_allow_write fs @ [workspace_root fs])"
    unfolding authorize_fs_read_def Let_def fs_def [symmetric] resolve_denotes [OF ws] prod.case
    by (simp split: option.split)
  then show ?thesis
    unfolding first_under_None [OF j l(1)] first_under_None [OF j l(2)] in_roots_iff [OF j l(3)] t
    by (simp add: ball_Un conj_ac)
qed

lemma authorize_fs_write_iff:
  fixes p :: path
  assumes "rooted_contract c"
  defines "fs \<equiv> filesystem c"
  defines "t \<equiv> denotes (workspace_root fs) p"
  shows "is_allowed (authorize_fs_write c p) \<longleftrightarrow>
    p \<noteq> [] \<and> \<not> escapes (workspace_root fs) p \<and>
    (\<forall>m \<in> set (mask_paths fs) \<union> set (contract_deny_write c). \<not> prefix (names m) t \<and>
       (prefix t (names m) \<longrightarrow> t = names (workspace_root fs))) \<and>
    (\<exists>r \<in> set (fs_allow_write fs). prefix (names r) t)"
proof -
  from assms(1) have ws: "has_root (workspace_root fs)"
    and l: "list_all has_root (mask_paths fs)" "list_all has_root (contract_deny_write c)"
      "list_all has_root (fs_allow_write fs)"
    by (auto simp: rooted_contract_def fs_def)
  note j = has_root_join [OF ws, of p]
  have t: "names (path_join (workspace_root fs) p) = t" by (simp add: t_def denotes_def)
  let ?n = "lexical_normalize (path_join (workspace_root fs) p)" and ?w = "lexical_normalize (workspace_root fs)"
  have "is_allowed (authorize_fs_write c p) \<longleftrightarrow> p \<noteq> [] \<and> \<not> escapes (workspace_root fs) p \<and>
      first_colliding ?w ?n (mask_paths fs) = None \<and> first_colliding ?w ?n (contract_deny_write c) = None \<and>
      fs_allow_write fs \<noteq> [] \<and> in_roots ?n (fs_allow_write fs)"
    unfolding authorize_fs_write_def Let_def fs_def [symmetric] resolve_denotes [OF ws] prod.case
    by (simp split: option.split)
  then show ?thesis
    unfolding first_colliding_None [OF j ws l(1)] first_colliding_None [OF j ws l(2)] in_roots_iff [OF j l(3)] t
    by (auto simp: ball_Un)
qed

lemma authorize_process_exec_sound:
  assumes "rooted_contract c" and "is_allowed (authorize_process_exec c p args)"
  defines "fs \<equiv> filesystem c" and "ib \<equiv> invoked_binary (agent_identity c)"
  defines "t \<equiv> denotes (workspace_root fs) p"
  shows "\<not> escapes (workspace_root fs) p \<and> (\<forall>m \<in> set (mask_paths fs). \<not> prefix (names m) t) \<and>
    ((\<exists>r \<in> set (fs_allow_execute fs). prefix (names r) t) \<or>
     path_eq (lexical_normalize (path_join (workspace_root fs) p)) (lexical_normalize ib) \<or>
     path_eq (lexical_normalize p) (lexical_normalize ib) \<or> path_eq p ib)"
proof -
  from assms(1) have ws: "has_root (workspace_root fs)"
    and l: "list_all has_root (mask_paths fs)" "list_all has_root (fs_allow_execute fs)"
    by (auto simp: rooted_contract_def fs_def)
  note j = has_root_join [OF ws, of p]
  have t: "names (path_join (workspace_root fs) p) = t" by (simp add: t_def denotes_def)
  show ?thesis
    using assms(2) first_under_None [OF j l(1)] in_roots_iff [OF j l(2)]
    unfolding authorize_process_exec_def Let_def fs_def [symmetric] resolve_denotes [OF ws] t
      ib_def [symmetric]
    by (auto split: option.splits if_splits)
qed

section \<open>What a host pattern means\<close>

definition normal_pattern :: "string \<Rightarrow> string" where
  "normal_pattern raw =
     to_ascii_lowercase (trim_end_matches (\<lambda>c. c = CHR ''.'') (strip_domain_port raw))"

definition connect_host :: "string \<Rightarrow> string" where
  "connect_host domain = to_ascii_lowercase (strip_domain_port (clean_domain domain))"

text \<open>A star matches every host, \<open>*.d\<close> the strict subdomains of \<open>d\<close>, and \<open>d\<close> itself and
  its subdomains, compared label by label.\<close>

definition covers :: "string \<Rightarrow> string \<Rightarrow> bool" where
  "covers pat host \<longleftrightarrow>
     pat = ''*'' \<or> (\<exists>d. pat = ''*.'' @ d \<and> strict_suffix (labels d) (labels host)) \<or>
     (pat \<noteq> ''*'' \<and> (\<forall>d. pat \<noteq> ''*.'' @ d) \<and> suffix (labels pat) (labels host))"

lemma domain_pattern_matches_covers:
  "domain_pattern_matches host raw \<longleftrightarrow> covers (normal_pattern raw) host"
proof -
  define pat where "pat = normal_pattern raw"
  have "domain_pattern_matches host raw \<longleftrightarrow>
      pat = ''*'' \<or> (case strip_prefix ''*.'' pat of
         Some sfx \<Rightarrow> ends_with host (CHR ''.'' # sfx)
       | None \<Rightarrow> host = pat \<or> ends_with host (CHR ''.'' # pat))"
    unfolding domain_pattern_matches_def pat_def normal_pattern_def Let_def
    by (simp split: option.split)
  also have "\<dots> \<longleftrightarrow> covers pat host"
  proof (cases "strip_prefix ''*.'' pat")
    case None
    then have "\<forall>d. pat \<noteq> ''*.'' @ d" by (metis option.distinct(1) strip_prefix_Some)
    then show ?thesis using None unfolding covers_def by (auto simp: subdomain_labels)
  next
    case (Some d)
    then have "pat = ''*.'' @ d" by (simp add: strip_prefix_Some)
    then show ?thesis using Some unfolding covers_def by (simp add: strict_subdomain_labels)
  qed
  finally show ?thesis by (simp add: pat_def)
qed

lemma allowlist_covers:
  "is_domain_in_allowlist host domains \<longleftrightarrow> (\<exists>raw \<in> set domains. covers (normal_pattern raw) host)"
  by (simp add: is_domain_in_allowlist_def list_ex_iff domain_pattern_matches_covers)

lemma authorize_net_connect_iff:
  fixes domain :: string
  defines "host \<equiv> connect_host domain"
  shows "is_allowed (authorize_net_connect c domain port) \<longleftrightarrow>
    clean_domain domain \<noteq> [] \<and> net_mode (network c) \<noteq> ModeOff \<and>
    \<not> (block_cloud_metadata (network c) \<and> is_cloud_metadata_target host) \<and>
    \<not> (block_loopback_daemons (network c) \<and> is_loopback_target host) \<and>
    (net_mode (network c) = ModeDirect \<or>
     is_domain_in_allowlist host (allowed_domains (network c)) \<and>
     (allowed_ports (network c) = [] \<or> port \<in> set (allowed_ports (network c))))"
  by (auto simp: authorize_net_connect_def host_def connect_host_def Let_def split: if_splits)

text \<open>The gate and the egress broker classify the same addresses as metadata endpoints,
  NAT64 addresses apart.\<close>

lemma metadata_target_agrees:
  "(case ip of V4 _ \<Rightarrow> True | V6 v \<Rightarrow> nat64_embedded_ipv4 (octets_v6 v) = None) \<Longrightarrow>
   metadata_target_ip ip = is_cloud_metadata ip"
  by (cases ip) (simp_all add: Let_def del: octets_v6.simps metadata_v4.simps)

lemma metadata_target_parse:
  "parse_ip (strip_brackets host) = Some ip \<Longrightarrow> metadata_target_ip ip \<Longrightarrow> is_cloud_metadata_target host"
  by (simp add: is_cloud_metadata_target_def Let_def)

section \<open>Properties\<close>

text \<open>
  Property C11 (the write decision). Under a contract whose paths are rooted, a write is
  allowed exactly when the target is not empty, does not escape the workspace through
  dot-dot, denotes neither a place at or below a secret mask or deny rule nor (the workspace
  root apart) a place above one, and lies at or below a write root. In particular a relative
  target that is allowed denotes a place inside the workspace.
\<close>

theorem write_gate_decision:
  fixes p :: path
  assumes "rooted_contract c"
  defines "ws \<equiv> workspace_root (filesystem c)"
  shows "(is_allowed (authorize_action c (FsWrite p)) \<longleftrightarrow>
      p \<noteq> [] \<and> \<not> escapes ws p \<and>
      (\<forall>m \<in> set (mask_paths (filesystem c)) \<union> set (contract_deny_write c).
         \<not> prefix (names m) (denotes ws p) \<and>
         (prefix (denotes ws p) (names m) \<longrightarrow> denotes ws p = names ws)) \<and>
      (\<exists>r \<in> set (fs_allow_write (filesystem c)). prefix (names r) (denotes ws p))) \<and>
    (\<not> is_absolute p \<and> is_allowed (authorize_action c (FsWrite p)) \<longrightarrow>
       prefix (names ws) (denotes ws p))"
  using authorize_fs_write_iff [OF assms(1), of p] relative_inside [of ws p] assms(1)
  by (auto simp: ws_def rooted_contract_def)

theorem write_gate_decision_witness:
  "rooted_contract (UnsealedSecurityContract.extend sample_contract (SecurityContract.fields [] [])) \<and>
   is_allowed (authorize_action
     (UnsealedSecurityContract.extend sample_contract (SecurityContract.fields [] [])) (FsWrite ''a/b'')) \<and>
   \<not> is_allowed (authorize_action
     (UnsealedSecurityContract.extend sample_contract (SecurityContract.fields [] [])) (FsWrite ''a/../.env''))"
proof -
  let ?c = "UnsealedSecurityContract.extend sample_contract (SecurityContract.fields [] [])"
  have fs: "filesystem ?c = filesystem sample_contract" "production ?c = None"
    by (simp_all add: UnsealedSecurityContract.defs sample_contract_def)
  have r: "rooted_contract ?c"
    by (simp add: rooted_contract_def contract_deny_read_def contract_deny_write_def fs)
       (simp add: sample_contract_def)
  have v: "denotes ''/ws'' ''a/b'' = [''ws'', ''a'', ''b'']" "denotes ''/ws'' ''a/../.env'' = [''ws'', ''.env'']"
    "names ''/ws'' = [''ws'']" "names ''/ws/.env'' = [''ws'', ''.env'']"
    "\<not> escapes ''/ws'' ''a/b''"
    by code_simp+
  show ?thesis
    using r write_gate_decision [OF r, of "''a/b''"] write_gate_decision [OF r, of "''a/../.env''"]
    by (simp add: fs contract_deny_write_def) (simp add: sample_contract_def v)
qed

text \<open>
  The read and execute decisions. Under a contract whose paths are rooted, a
  read is allowed exactly when its target does not escape, is not at or below a mask or a
  read-deny rule, and lies at or below a read root, a write root or the workspace; an
  execution that is allowed is of a binary that is below no mask and either lies below an
  execute root or is the invoked binary.
\<close>

theorem read_exec_gate_decision:
  fixes p :: path
  assumes "rooted_contract c"
  defines "ws \<equiv> workspace_root (filesystem c)" and "ib \<equiv> invoked_binary (agent_identity c)"
  shows "(is_allowed (authorize_action c (FsRead p)) \<longleftrightarrow>
      p \<noteq> [] \<and> \<not> escapes ws p \<and>
      (\<forall>m \<in> set (mask_paths (filesystem c)) \<union> set (contract_deny_read c).
         \<not> prefix (names m) (denotes ws p)) \<and>
      (\<exists>r \<in> set (fs_allow_read (filesystem c)) \<union> set (fs_allow_write (filesystem c)) \<union> {ws}.
         prefix (names r) (denotes ws p))) \<and>
    (is_allowed (authorize_action c (ProcessExec p args)) \<longrightarrow>
       \<not> escapes ws p \<and> (\<forall>m \<in> set (mask_paths (filesystem c)). \<not> prefix (names m) (denotes ws p)) \<and>
       ((\<exists>r \<in> set (fs_allow_execute (filesystem c)). prefix (names r) (denotes ws p)) \<or>
        path_eq (lexical_normalize (path_join ws p)) (lexical_normalize ib) \<or>
        path_eq (lexical_normalize p) (lexical_normalize ib) \<or> path_eq p ib))"
  using authorize_fs_read_iff [OF assms(1), of p] authorize_process_exec_sound [OF assms(1), of p args]
  unfolding ws_def ib_def authorize_action.simps by blast

theorem read_exec_gate_decision_witness:
  "is_allowed (authorize_action
     (UnsealedSecurityContract.extend sample_contract (SecurityContract.fields [] [])) (FsRead ''x'')) \<and>
   \<not> is_allowed (authorize_action
     (UnsealedSecurityContract.extend sample_contract (SecurityContract.fields [] [])) (FsRead ''../etc''))"
proof -
  let ?c = "UnsealedSecurityContract.extend sample_contract (SecurityContract.fields [] [])"
  have fs: "filesystem ?c = filesystem sample_contract" "production ?c = None"
    by (simp_all add: UnsealedSecurityContract.defs sample_contract_def)
  have r: "rooted_contract ?c"
    by (simp add: rooted_contract_def contract_deny_read_def contract_deny_write_def fs)
       (simp add: sample_contract_def)
  have v: "denotes ''/ws'' ''x'' = [''ws'', ''x'']" "names ''/ws'' = [''ws'']"
    "names ''/ws/.env'' = [''ws'', ''.env'']" "\<not> escapes ''/ws'' ''x''" "escapes ''/ws'' ''../etc''"
    by code_simp+
  show ?thesis
    using read_exec_gate_decision [OF r, of "''x''" "[]"] read_exec_gate_decision [OF r, of "''../etc''" "[]"]
    by (simp add: fs contract_deny_read_def) (simp add: sample_contract_def v)
qed

text \<open>
  The connection decision: a connection is allowed exactly when the host is
  not empty, the mode is not off, the host is not a blocked metadata or loopback target, and,
  unless the mode is direct, some pattern of the allowlist covers the host label by label (so
  no sibling domain that merely shares a string suffix is let through) and the port is
  allowed.
\<close>

theorem connect_gate_decision:
  fixes domain :: string
  defines "host \<equiv> connect_host domain"
  shows "is_allowed (authorize_action c (NetConnect domain port)) \<longleftrightarrow>
    clean_domain domain \<noteq> [] \<and> net_mode (network c) \<noteq> ModeOff \<and>
    \<not> (block_cloud_metadata (network c) \<and> is_cloud_metadata_target host) \<and>
    \<not> (block_loopback_daemons (network c) \<and> is_loopback_target host) \<and>
    (net_mode (network c) = ModeDirect \<or>
     (\<exists>raw \<in> set (allowed_domains (network c)). covers (normal_pattern raw) host) \<and>
     (allowed_ports (network c) = [] \<or> port \<in> set (allowed_ports (network c))))"
  using authorize_net_connect_iff [of c domain port]
  by (simp add: host_def allowlist_covers)

theorem connect_gate_decision_witness:
  "\<not> is_allowed (authorize_action
     (UnsealedSecurityContract.extend sample_contract (SecurityContract.fields [] []))
     (NetConnect ''evilexample.com'' 443))"
proof -
  let ?c = "UnsealedSecurityContract.extend sample_contract (SecurityContract.fields [] [])"
  have n: "network ?c = network sample_contract"
    by (simp add: UnsealedSecurityContract.defs)
  have h: "connect_host ''evilexample.com'' = ''evilexample.com''"
    "normal_pattern ''example.com'' = ''example.com''"
    "labels ''example.com'' = [''example'', ''com'']"
    "labels ''evilexample.com'' = [''evilexample'', ''com'']"
    by code_simp+
  have "\<not> covers ''example.com'' ''evilexample.com''"
    by (auto simp: covers_def h suffix_def Cons_eq_append_conv)
  then show ?thesis
    using connect_gate_decision [of ?c "''evilexample.com''" 443]
    by (simp add: n h) (simp add: sample_contract_def h)
qed

text \<open>
  Metadata endpoints in every spelling the gate reads: with the block on, a
  host that parses to an address the egress broker treats as a metadata endpoint, other than
  through a NAT64 prefix, is denied whatever its textual form, its brackets and its port.
\<close>

theorem metadata_spellings_blocked:
  assumes "block_cloud_metadata (network c)"
    and "parse_ip (strip_brackets (connect_host domain)) = Some ip" and "is_cloud_metadata ip"
    and "case ip of V4 _ \<Rightarrow> True | V6 v \<Rightarrow> nat64_embedded_ipv4 (octets_v6 v) = None"
  shows "\<not> is_allowed (authorize_action c (NetConnect domain port))"
  using assms metadata_target_parse [OF assms(2)] metadata_target_agrees [OF assms(4)]
  by (simp add: authorize_net_connect_iff)

theorem metadata_spellings_blocked_witness:
  "\<not> is_allowed (authorize_action
     (UnsealedSecurityContract.extend sample_contract (SecurityContract.fields [] []))
     (NetConnect ''[::ffff:A9FE:A9FE]:80'' 80))"
proof -
  let ?c = "UnsealedSecurityContract.extend sample_contract (SecurityContract.fields [] [])"
  have p: "parse_ip (strip_brackets (connect_host ''[::ffff:A9FE:A9FE]:80'')) =
      Some (V6 (IPv6 [0, 0, 0, 0, 0, 65535, 43518, 43518]))"
  proof -
    have "strip_brackets (connect_host ''[::ffff:A9FE:A9FE]:80'') = ''::ffff:a9fe:a9fe''" by code_simp
    then show ?thesis by (simp add: parse_defs)
  qed
  have m: "is_cloud_metadata (V6 (IPv6 [0, 0, 0, 0, 0, 65535, 43518, 43518]))"
    "nat64_embedded_ipv4 (octets_v6 (IPv6 [0, 0, 0, 0, 0, 65535, 43518, 43518])) = None"
    by (simp_all add: class_defs)
  show ?thesis
    by (rule metadata_spellings_blocked [OF _ p m(1)])
       (use m(2) in \<open>simp_all add: UnsealedSecurityContract.defs sample_contract_def\<close>)
qed

text \<open>
  Embedded addresses the gate misses. The gate does not look through an
  IPv4-mapped address for loopback, nor through a NAT64 prefix for the metadata endpoint:
  with both blocks on and the mode direct it allows connections to \<open>::ffff:127.0.0.1\<close> and to
  \<open>64:ff9b::169.254.169.254\<close>, both of which the egress broker refuses.
\<close>

theorem gate_misses_embedded_addresses:
  "let c = UnsealedSecurityContract.extend
        (sample_contract\<lparr>network := (network sample_contract)\<lparr>net_mode := ModeDirect\<rparr>\<rparr>)
        (SecurityContract.fields [] [])
   in block_cloud_metadata (network c) \<and> block_loopback_daemons (network c) \<and>
      is_allowed (authorize_action c (NetConnect ''[::ffff:127.0.0.1]'' 80)) \<and>
      is_allowed (authorize_action c (NetConnect ''[64:ff9b::a9fe:a9fe]'' 80)) \<and>
      forbidden_destination (V6 (mapped_v6 (IPv4 127 0 0 1))) \<and>
      parse_ip ''::ffff:127.0.0.1'' = Some (V6 (mapped_v6 (IPv4 127 0 0 1))) \<and>
      is_cloud_metadata (V6 (nat64_v6 (IPv4 169 254 169 254))) \<and>
      parse_ip ''64:ff9b::a9fe:a9fe'' = Some (V6 (nat64_v6 (IPv4 169 254 169 254)))"
proof -
  let ?c = "UnsealedSecurityContract.extend
        (sample_contract\<lparr>network := (network sample_contract)\<lparr>net_mode := ModeDirect\<rparr>\<rparr>)
        (SecurityContract.fields [] [])"
  have n: "network ?c = (network sample_contract)\<lparr>net_mode := ModeDirect\<rparr>"
    by (simp add: UnsealedSecurityContract.defs)
  have p: "parse_ip ''::ffff:127.0.0.1'' = Some (V6 (mapped_v6 (IPv4 127 0 0 1)))"
    "parse_ip ''64:ff9b::a9fe:a9fe'' = Some (V6 (nat64_v6 (IPv4 169 254 169 254)))"
    by (simp_all add: parse_defs mapped_v6_def nat64_v6_def)
  have h: "strip_brackets (connect_host ''[::ffff:127.0.0.1]'') = ''::ffff:127.0.0.1''"
    "strip_brackets (connect_host ''[64:ff9b::a9fe:a9fe]'') = ''64:ff9b::a9fe:a9fe''"
    "\<not> ends_with ''::ffff:127.0.0.1'' ''.localhost''"
    "\<not> ends_with ''64:ff9b::a9fe:a9fe'' ''.localhost''"
    "clean_domain ''[::ffff:127.0.0.1]'' \<noteq> []" "clean_domain ''[64:ff9b::a9fe:a9fe]'' \<noteq> []"
    by code_simp+
  have t: "\<not> is_cloud_metadata_target (connect_host ''[::ffff:127.0.0.1]'')"
    "\<not> is_loopback_target (connect_host ''[::ffff:127.0.0.1]'')"
    "\<not> is_cloud_metadata_target (connect_host ''[64:ff9b::a9fe:a9fe]'')"
    "\<not> is_loopback_target (connect_host ''[64:ff9b::a9fe:a9fe]'')"
    using h p
    by (simp_all add: is_cloud_metadata_target_def is_loopback_target_def mapped_v6_def nat64_v6_def
        class_defs)
  have f: "forbidden_destination (V6 (mapped_v6 (IPv4 127 0 0 1)))"
    "is_cloud_metadata (V6 (nat64_v6 (IPv4 169 254 169 254)))"
    by (subst mapped_policy(2) nat64_policy(1); simp)+
  have "is_allowed (authorize_action ?c (NetConnect ''[::ffff:127.0.0.1]'' 80))"
    "is_allowed (authorize_action ?c (NetConnect ''[64:ff9b::a9fe:a9fe]'' 80))"
    using t h by (simp_all add: authorize_net_connect_iff n)
  then show ?thesis using p f by (simp only: Let_def n) (simp add: sample_contract_def)
qed

end
