(* ===== verification/Compiler.thy ===== *)
theory Compiler
  imports Contract "HOL-Library.List_Lexorder" "HOL-Library.Char_ord"
begin

text \<open>
  The policy compiler of \<open>src/src/policy_ir/compiler.rs\<close>: \<open>compile_effective\<close>, which turns a
  resolved policy into a sealed contract, \<open>compile\<close>, the request-oriented variant, and the
  resource resolution they share. The filesystem (\<open>exists\<close>, \<open>canonicalize\<close>), the home
  directory and the fresh session nonce come from the host: they are the fields of \<open>HostEnv\<close>.
  The Unix branches of the code are modelled.

  The lemmas show what a contract that compiles guarantees: write roots are free of dot
  components, outside the protected system roots, below no secret mask or deny rule and
  above none but for the workspace and \<open>/tmp\<close>, and relative write targets stay in the workspace.
\<close>

section \<open>Data\<close>

datatype CompilerError =
    PathCanonicalizationFailed string
  | ConflictingPermissions string
  | UnsupportedCapability string
  | MissingMandatoryField string

record HostEnv =
  fs_exists :: "path \<Rightarrow> bool"
  fs_canonicalize :: "path \<Rightarrow> (string, path) result"
  home_dir :: "path option"
  fresh_nonce :: string
  codec :: Codec

record EffectivePolicyInput =
  in_policy :: Policy
  argv :: "string list"
  cwd :: path
  in_env :: "(string \<times> string) list"
  in_net :: NetMode
  nonce :: string
  in_timeout :: "nat option"
  in_tier :: "Tier option"
  in_backend :: string
  in_observe_seccomp :: bool
  in_debug_ports :: "DebugPortConfig option"

text \<open>The order of path components in Rust: root, current, parent, then names byte-wise.\<close>

fun component_rank :: "component \<Rightarrow> nat" where
  "component_rank RootDir = 0"
| "component_rank CurDir = 1"
| "component_rank ParentDir = 2"
| "component_rank (Normal _) = 3"

fun component_name :: "component \<Rightarrow> string" where
  "component_name (Normal s) = s"
| "component_name _ = []"

instantiation component :: linorder
begin

definition less_eq_component :: "component \<Rightarrow> component \<Rightarrow> bool" where
  "less_eq_component c d \<longleftrightarrow>
     component_rank c < component_rank d \<or>
     component_rank c = component_rank d \<and> component_name c \<le> component_name d"

definition less_component :: "component \<Rightarrow> component \<Rightarrow> bool" where
  "less_component c d \<longleftrightarrow>
     component_rank c < component_rank d \<or>
     component_rank c = component_rank d \<and> component_name c < component_name d"

instance
proof
  fix x y z :: component
  show "x < y \<longleftrightarrow> x \<le> y \<and> \<not> y \<le> x"
    by (auto simp: less_component_def less_eq_component_def)
  show "x \<le> x" by (simp add: less_eq_component_def)
  show "x \<le> y \<Longrightarrow> y \<le> z \<Longrightarrow> x \<le> z" by (auto simp: less_eq_component_def)
  show "x \<le> y \<Longrightarrow> y \<le> x \<Longrightarrow> x = y"
    by (cases x; cases y) (auto simp: less_eq_component_def)
  show "x \<le> y \<or> y \<le> x" by (auto simp: less_eq_component_def)
qed

end

definition sort_paths :: "path list \<Rightarrow> path list" where
  "sort_paths ps = sort_key components ps"

fun dedup_paths :: "path list \<Rightarrow> path list" where
  "dedup_paths [] = []"
| "dedup_paths [p] = [p]"
| "dedup_paths (p # q # ps) =
     (if path_eq p q then dedup_paths (p # ps) else p # dedup_paths (q # ps))"

section \<open>Path checks\<close>

definition SYSTEM_ROOTS :: "path list" where
  "SYSTEM_ROOTS =
     [''/etc'', ''/usr'', ''/bin'', ''/sbin'', ''/lib'', ''/lib32'', ''/lib64'', ''/boot'', ''/sys'',
      ''/proc'', ''/root'']"

definition is_forbidden_system_root :: "path \<Rightarrow> bool" where
  "is_forbidden_system_root p =
     (if path_eq p ''/'' then True
      else if list_ex (eq_or_under p) SYSTEM_ROOTS then True
      else path_starts_with p ''/dev'' \<and> \<not> path_eq p ''/dev/null'')"

definition has_traversal :: "path \<Rightarrow> bool" where
  "has_traversal p \<longleftrightarrow>
     list_ex (\<lambda>c. c = ''..'') (split_on (\<lambda>c. c = CHR ''/'' \<or> c = CHR 0x5C) p) \<or>
     list_ex (\<lambda>c. as_os_str c = ''..'' \<or> c = ParentDir) (components p)"

definition check_traversal :: "string \<Rightarrow> path \<Rightarrow> (CompilerError, unit) result" where
  "check_traversal what p =
     (if has_traversal p
      then Err (ConflictingPermissions
             (what @ '' target '' @ debug_str p @ '' attempts directory traversal''))
      else Ok ())"

text \<open>The ascent to the nearest existing ancestor, with the names left behind.\<close>

definition ascend_push :: "path \<Rightarrow> path \<Rightarrow> string list \<Rightarrow> (CompilerError, string list) result" where
  "ascend_push target ancestor sfx =
     (if components ancestor = [] then Ok sfx
      else (let comp = last (components ancestor)
            in if as_os_str comp = ''..'' \<or> comp = ParentDir
               then Err (ConflictingPermissions
                      (''Write target '' @ debug_str target @ '' attempts directory traversal''))
               else if as_os_str comp \<noteq> ''.'' \<and> comp \<noteq> CurDir then Ok (sfx @ [as_os_str comp])
               else Ok sfx))"

function ascend :: "(path \<Rightarrow> bool) \<Rightarrow> path \<Rightarrow> path \<Rightarrow> string list \<Rightarrow>
    (CompilerError, path \<times> string list) result" where
  "ascend ex target ancestor sfx =
     (if ex ancestor then Ok (ancestor, sfx)
      else (case ascend_push target ancestor sfx of
              Inl e \<Rightarrow> Inl e
            | Inr sfx' \<Rightarrow>
                if snd (path_pop ancestor) then ascend ex target (fst (path_pop ancestor)) sfx'
                else Ok (ancestor, sfx')))"
  by pat_completeness auto

termination
  by (relation "measure (\<lambda>(ex, target, ancestor, sfx). length (components ancestor))")
     (auto dest: path_pop_decreases)

declare ascend.simps [simp del]

section \<open>Resource resolution\<close>

definition positive :: "nat option \<Rightarrow> nat option" where
  "positive n = (case n of Some m \<Rightarrow> if m > 0 then Some m else None | None \<Rightarrow> None)"

definition cpu_str_to_percent :: "string \<Rightarrow> nat option" where
  "cpu_str_to_percent s =
     (case parse_cpu_ratio s of
        None \<Rightarrow> None
      | Some ratio \<Rightarrow> Some (max (f64_to_u32 (f64_round (f64_scale ratio 100))) 1))"

definition resolve_cpu_percent :: "Policy \<Rightarrow> nat" where
  "resolve_cpu_percent pol =
     (case (Option.bind (cpu_max pol) cpu_str_to_percent,
            Option.bind (Option.bind (cgroup pol) cg_cpu_max) cpu_str_to_percent) of
        (Some p1, Some p2) \<Rightarrow> min p1 p2
      | (Some p, None) \<Rightarrow> p
      | (None, Some p) \<Rightarrow> p
      | (None, None) \<Rightarrow> 100)"

definition resolve_max_memory_bytes :: "Policy \<Rightarrow> nat" where
  "resolve_max_memory_bytes pol =
     (case (positive (address_space_bytes (limits pol)),
            positive (Option.bind (Option.bind (cgroup pol) memory_max) parse_bytes_value)) of
        (Some a, Some c) \<Rightarrow> min a c
      | (Some a, None) \<Rightarrow> a
      | (None, Some c) \<Rightarrow> c
      | (None, None) \<Rightarrow> 0)"

definition resolve_max_pids :: "Policy \<Rightarrow> (CompilerError, nat) result" where
  "resolve_max_pids pol =
     (let cg = Option.bind (Option.bind (cgroup pol) pids_max)
                 (\<lambda>s. if eq_ignore_ascii_case (trim s) ''max'' then None else parse_u64 (trim s));
          effective = (case (positive (processes (limits pol)), positive cg) of
                         (Some p1, Some p2) \<Rightarrow> min p1 p2
                       | (Some p, None) \<Rightarrow> p
                       | (None, Some p) \<Rightarrow> p
                       | (None, None) \<Rightarrow> 0)
      in if effective < 2 ^ 32 then Ok effective
         else Err (UnsupportedCapability ''process limit exceeds contract v1 range''))"

section \<open>Compiling a resolved policy\<close>

definition resolve_read :: "path \<Rightarrow> path \<Rightarrow> path" where
  "resolve_read ws p = lexical_normalize (if is_absolute p then p else path_join ws p)"

definition resolve_write :: "HostEnv \<Rightarrow> path \<Rightarrow> path \<Rightarrow> (CompilerError, path) result" where
  "resolve_write env ws p =
     (let is_rel = (\<not> is_absolute p); normalized = (if is_rel then path_join ws p else p)
      in if is_forbidden_system_root normalized
         then Err (ConflictingPermissions
                (''Write target '' @ debug_str p @ '' exposes protected system root''))
         else and_then (ascend (fs_exists env) p normalized [])
           (\<lambda>(ancestor, sfx).
              let canon_ancestor =
                    (case fs_canonicalize env ancestor of Inr c \<Rightarrow> c | Inl _ \<Rightarrow> ancestor);
                  canon_ws = (case fs_canonicalize env ws of Inr c \<Rightarrow> c | Inl _ \<Rightarrow> ws)
              in if is_forbidden_system_root canon_ancestor
                 then Err (ConflictingPermissions
                        (''Write target ancestor '' @ debug_str canon_ancestor @
                         '' exposes protected system root''))
                 else if is_rel \<and> \<not> path_starts_with canon_ancestor canon_ws \<and>
                         \<not> path_starts_with canon_ancestor ws
                 then Err (ConflictingPermissions
                        (''Write target ancestor '' @ debug_str canon_ancestor @
                         '' escapes workspace '' @ debug_str ws))
                 else Ok (lexical_normalize (foldl path_push canon_ancestor (rev sfx)))))"

definition push_resolved ::
  "HostEnv \<Rightarrow> path \<Rightarrow> path \<Rightarrow> path list \<Rightarrow> (CompilerError, path list) result" where
  "push_resolved env ws p acc =
     and_then (resolve_write env ws p) (\<lambda>w. Ok (push_unique path_eq w acc))"

definition mandatory_masks :: "HostEnv \<Rightarrow> path \<Rightarrow> path list" where
  "mandatory_masks env ws =
     (let home = (case home_dir env of Some h \<Rightarrow> h | None \<Rightarrow> ''/root'')
      in [path_join home ''.ssh'', path_join home ''.aws'', path_join home ''.gnupg'',
          path_join ws ''.env'', path_join ws ''.git/config''])"

definition effective_masks :: "HostEnv \<Rightarrow> path \<Rightarrow> Policy \<Rightarrow> path list" where
  "effective_masks env ws pol =
     fold (push_unique path_eq) (mandatory_masks env ws) (map deny_path (deny_resolved pol))"

definition mask_collides :: "path \<Rightarrow> path \<Rightarrow> path \<Rightarrow> bool" where
  "mask_collides ws w m \<longleftrightarrow>
     eq_or_under w m \<or> \<not> path_eq w ws \<and> \<not> path_eq w ''/tmp'' \<and> path_starts_with m w"

definition check_masks :: "path \<Rightarrow> path list \<Rightarrow> path list \<Rightarrow> (CompilerError, unit) result" where
  "check_masks ws writes masks =
     check_all (\<lambda>w. check_all (\<lambda>m.
        if mask_collides ws w m
        then Err (ConflictingPermissions
               (''Write target '' @ debug_str w @ '' collides with secret mask '' @ debug_str m))
        else Ok ()) masks) writes"

definition check_deny_write :: "path list \<Rightarrow> path list \<Rightarrow> (CompilerError, unit) result" where
  "check_deny_write writes denied =
     check_all (\<lambda>w. check_all (\<lambda>d.
        if eq_or_under w d
        then Err (ConflictingPermissions
               (''Write target '' @ debug_str w @ '' collides with explicit deny_write '' @ debug_str d))
        else Ok ()) denied) writes"

fun lower_net :: "NetMode \<Rightarrow> NetworkMode \<times> string list \<times> nat list" where
  "lower_net NetOff = (ModeOff, [], [])"
| "lower_net (NetAllowlist domains) = (ModeAllowlist, domains, [])"
| "lower_net (NetStrict rules) = (ModeStrict, map rule_domain rules, map rule_port rules)"
| "lower_net NetAsk = (ModeAsk, [], [])"

definition default_exec :: "path list" where
  "default_exec = [''/usr'', ''/bin'']"

definition effective_execute :: "string \<Rightarrow> path list" where
  "effective_execute invoked =
     (if is_absolute invoked
      then (case path_parent invoked of
              Some parent \<Rightarrow> push_unique path_eq parent default_exec
            | None \<Rightarrow> default_exec)
      else default_exec)"

definition PROD_MAX_STDIO :: nat where
  "PROD_MAX_STDIO = 2 ^ 20"

definition PKG_VERSION :: string where
  "PKG_VERSION = ''0.6.3''"

definition wall_time_ms :: "nat option \<Rightarrow> (CompilerError, nat) result" where
  "wall_time_ms timeout =
     (let ms = (case timeout of None \<Rightarrow> 0 | Some t \<Rightarrow> t div 1000000)
      in if ms < 2 ^ 64 then Ok ms
         else Err (UnsupportedCapability ''timeout exceeds contract range''))"

definition effective_contract ::
  "HostEnv \<Rightarrow> EffectivePolicyInput \<Rightarrow> path list \<Rightarrow> path list \<Rightarrow> nat \<Rightarrow> nat \<Rightarrow>
   UnsealedSecurityContract" where
  "effective_contract env inp reads writes pids wall =
     (let pol = in_policy inp; (mode, domains, ports) = lower_net (in_net inp)
      in \<lparr>production = Some
            \<lparr>installation_policy = pol, prod_net = in_net inp, prod_timeout = in_timeout inp,
             prod_tier = in_tier inp, prod_backend = in_backend inp,
             prod_observe_seccomp = in_observe_seccomp inp, prod_debug_ports = in_debug_ports inp\<rparr>,
          contract_version = 1,
          contract_id = ''production-'' @ nonce inp,
          session_nonce = nonce inp,
          agent_identity =
            \<lparr>agent_name = policy_name pol, agent_preset = policy_name pol,
             agent_version = PKG_VERSION, invoked_binary = hd (argv inp),
             invoked_args = tl (argv inp)\<rparr>,
          filesystem =
            \<lparr>workspace_root = cwd inp, fs_allow_read = reads, fs_allow_write = writes,
             fs_allow_execute = effective_execute (hd (argv inp)),
             mask_paths = effective_masks env (cwd inp) pol, cow_overlay = snapshot pol,
             execution_root_ro = False, fs_shadow = shadow pol\<rparr>,
          network =
            \<lparr>net_mode = mode, allowed_domains = domains,
             allowed_ports = fold (push_unique (=)) (net_connect_ports pol) ports,
             block_cloud_metadata = uses_relay (in_net inp),
             block_loopback_daemons = uses_relay (in_net inp)\<rparr>,
          resources =
            \<lparr>max_pids = pids, max_memory_bytes = resolve_max_memory_bytes pol,
             max_cpu_percent = resolve_cpu_percent pol, max_wall_time_ms = wall,
             max_stdout_bytes = PROD_MAX_STDIO,
             max_file_size_bytes = (case file_size_bytes (limits pol) of None \<Rightarrow> 0 | Some n \<Rightarrow> n)\<rparr>,
          environment_contract =
            \<lparr>pass_through_vars = pass_through (environment pol), explicit_vars = in_env inp,
             redacted_patterns = env_deny (environment pol), inject_session_nonce = True\<rparr>,
          attestation =
            \<lparr>generate_audit_jsonl = True, sign_minisign = False, sign_cosign_slsa = False,
             evidence_level_minimum = ''HOST_FACT''\<rparr>,
          crypto = crypto_new\<rparr>)"

definition map_seal_error ::
  "(string \<Rightarrow> CompilerError) \<Rightarrow> (string, 'a) result \<Rightarrow> (CompilerError, 'a) result" where
  "map_seal_error f r = (case r of Inl e \<Rightarrow> Inl (f e) | Inr c \<Rightarrow> Inr c)"

definition compile_effective ::
  "HostEnv \<Rightarrow> EffectivePolicyInput \<Rightarrow> (CompilerError, SecurityContract) result" where
  "compile_effective env inp =
     (if argv inp = [] \<or> hd (argv inp) = [] \<or> nonce inp = []
      then Err (MissingMandatoryField ''command or nonce'')
      else (let pol = in_policy inp; ws = cwd inp
            in and_then (check_all (check_traversal ''Read'') (allow_read pol)) (\<lambda>_.
               let reads = fold (\<lambda>p. push_unique path_eq (resolve_read ws p)) (allow_read pol) []
               in and_then (check_all (check_traversal ''Write'') (allow_write pol)) (\<lambda>_.
                  and_then (fold_result (push_resolved env ws) (allow_write pol) []) (\<lambda>writes.
                  and_then (check_masks ws writes (effective_masks env ws pol)) (\<lambda>_.
                  and_then (check_deny_write writes (deny_write pol)) (\<lambda>_.
                  and_then (resolve_max_pids pol) (\<lambda>pids.
                  and_then (wall_time_ms (in_timeout inp)) (\<lambda>wall.
                  map_seal_error (\<lambda>e. UnsupportedCapability (''contract serialization: '' @ e))
                    (seal (codec env) (effective_contract env inp reads writes pids wall)))))))))))"

section \<open>Compiling a request\<close>

text \<open>A relative path is rebuilt on the workspace, component by component.\<close>

definition request_path :: "path \<Rightarrow> path \<Rightarrow> path" where
  "request_path ws p =
     (if is_absolute p then p
      else foldl (\<lambda>base c. if as_os_str c \<noteq> ''.'' \<and> c \<noteq> CurDir then path_push base (as_os_str c) else base)
             ws (components p))"

definition request_read :: "HostEnv \<Rightarrow> path \<Rightarrow> path \<Rightarrow> path list \<Rightarrow> (CompilerError, path list) result" where
  "request_read env ws p acc =
     and_then (check_traversal ''Read'' p)
       (\<lambda>_. case fs_canonicalize env (request_path ws p) of
               Inr c \<Rightarrow> Ok (acc @ [c])
             | Inl _ \<Rightarrow> Err (PathCanonicalizationFailed (''Read path invalid: '' @ debug_str p)))"

definition request_write :: "HostEnv \<Rightarrow> path \<Rightarrow> path \<Rightarrow> path list \<Rightarrow> (CompilerError, path list) result" where
  "request_write env ws p acc =
     and_then (check_traversal ''Write'' p)
       (\<lambda>_. and_then (ascend (fs_exists env) p (request_path ws p) [])
          (\<lambda>(ancestor, sfx).
             case fs_canonicalize env ancestor of
               Inl e \<Rightarrow> Err (PathCanonicalizationFailed
                          (''Write ancestor invalid for '' @ debug_str p @ '': '' @ e))
             | Inr canon_ancestor \<Rightarrow>
                 if \<not> path_starts_with canon_ancestor ws
                 then Err (ConflictingPermissions
                        (''Write target ancestor '' @ debug_str canon_ancestor @
                         '' escapes workspace '' @ debug_str ws))
                 else Ok (acc @ [foldl path_push canon_ancestor (rev sfx)])))"

definition request_mask_collides :: "path \<Rightarrow> path \<Rightarrow> path \<Rightarrow> bool" where
  "request_mask_collides ws w m \<longleftrightarrow> eq_or_under w m \<or> \<not> path_eq w ws \<and> path_starts_with m w"

definition check_request_masks :: "path \<Rightarrow> path list \<Rightarrow> path list \<Rightarrow> (CompilerError, unit) result" where
  "check_request_masks ws writes masks =
     check_all (\<lambda>w. check_all (\<lambda>m.
        if request_mask_collides ws w m
        then Err (ConflictingPermissions
               (''Write target '' @ debug_str w @ '' collides with mandatory secret mask '' @ debug_str m))
        else Ok ()) masks) writes"

definition request_contract ::
  "HostEnv \<Rightarrow> string \<Rightarrow> path \<Rightarrow> NetworkMode option \<Rightarrow> path list \<Rightarrow> path list \<Rightarrow>
   UnsealedSecurityContract" where
  "request_contract env name ws net reads writes =
     \<lparr>production = None, contract_version = 1,
      contract_id = ''contract-'' @ take 12 (fresh_nonce env), session_nonce = fresh_nonce env,
      agent_identity =
        \<lparr>agent_name = name, agent_preset = ''default'', agent_version = PKG_VERSION,
         invoked_binary = ''/bin/sh'', invoked_args = []\<rparr>,
      filesystem =
        \<lparr>workspace_root = ws, fs_allow_read = reads, fs_allow_write = writes,
         fs_allow_execute = default_exec, mask_paths = mandatory_masks env ws,
         cow_overlay = True, execution_root_ro = True, fs_shadow = False\<rparr>,
      network =
        \<lparr>net_mode = (case net of None \<Rightarrow> ModeOff | Some m \<Rightarrow> m), allowed_domains = [],
         allowed_ports = [80, 443], block_cloud_metadata = True, block_loopback_daemons = True\<rparr>,
      resources =
        \<lparr>max_pids = 128, max_memory_bytes = 2 * 1024 * 1024 * 1024, max_cpu_percent = 100,
         max_wall_time_ms = 120000, max_stdout_bytes = 10 * 1024 * 1024,
         max_file_size_bytes = 2147483648\<rparr>,
      environment_contract =
        \<lparr>pass_through_vars = [''PATH'', ''LANG'', ''TERM''], explicit_vars = [],
         redacted_patterns = [''*_KEY'', ''*_SECRET'', ''*_TOKEN'', ''AWS_*'', ''GITHUB_*''],
         inject_session_nonce = True\<rparr>,
      attestation =
        \<lparr>generate_audit_jsonl = True, sign_minisign = True, sign_cosign_slsa = False,
         evidence_level_minimum = ''HOST_FACT''\<rparr>,
      crypto = crypto_new\<rparr>"

definition compile_raw ::
  "HostEnv \<Rightarrow> string \<Rightarrow> path \<Rightarrow> NetworkMode option \<Rightarrow> path list \<Rightarrow> path list \<Rightarrow>
   (CompilerError, SecurityContract) result" where
  "compile_raw env name workspace_raw net raw_reads raw_writes =
     (case fs_canonicalize env workspace_raw of
        Inl e \<Rightarrow> Err (PathCanonicalizationFailed (''Workspace invalid: '' @ e))
      | Inr ws \<Rightarrow>
          and_then (fold_result (request_read env ws) raw_reads [ws]) (\<lambda>reads0.
          and_then (fold_result (request_write env ws) raw_writes []) (\<lambda>writes0.
          let reads = dedup_paths (sort_paths reads0); writes = dedup_paths (sort_paths writes0)
          in and_then (check_request_masks ws writes (mandatory_masks env ws)) (\<lambda>_.
             map_seal_error (\<lambda>e. PathCanonicalizationFailed (''Failed to seal contract: '' @ e))
               (seal (codec env) (request_contract env name ws net reads writes))))))"

section \<open>Lemmas on the ascent\<close>

text \<open>
  What the code relies on of the host: the root directory exists, and \<open>canonicalize\<close> returns
  absolute paths without dot components, as documented.
\<close>

definition host_ok :: "HostEnv \<Rightarrow> bool" where
  "host_ok env \<longleftrightarrow>
     (\<forall>p. components p = [RootDir] \<longrightarrow> fs_exists env p) \<and>
     (\<forall>p c. fs_canonicalize env p = Inr c \<longrightarrow> canonical c)"

lemma ascend_result:
  assumes "components ancestor = RootDir # map Normal ns" and "\<forall>q. components q = [RootDir] \<longrightarrow> ex q"
  shows "\<exists>a k. ascend ex target ancestor sfx = Ok (a, sfx @ rev (drop k ns)) \<and> k \<le> length ns \<and>
    components a = RootDir # map Normal (take k ns) \<and> ex a"
  using assms
proof (induction ex target ancestor sfx arbitrary: ns rule: ascend.induct)
  case (1 ex target ancestor sfx)
  show ?case
  proof (cases "ex ancestor")
    case True
    then show ?thesis using 1 by (intro exI [of _ ancestor] exI [of _ "length ns"]) (simp add: ascend.simps)
  next
    case False
    with "1.prems" have "ns \<noteq> []" by auto
    then obtain ms n where ns: "ns = ms @ [n]" by (cases ns rule: rev_cases) auto
    have "Normal n \<in> set (components ancestor)" using "1.prems" ns by simp
    then have "valid_name n" by (rule components_normal)
    then have n: "n \<noteq> ''..''" "n \<noteq> ''.''" by (auto simp: valid_name_def)
    have push: "ascend_push target ancestor sfx = Inr (sfx @ [n])"
      using "1.prems" n by (simp add: ascend_push_def ns)
    have pop: "snd (path_pop ancestor)" "components (fst (path_pop ancestor)) = RootDir # map Normal ms"
      using "1.prems" by (simp_all add: path_pop_comps pop_comps_def ns)
    from "1.IH" [OF False push pop(1) pop(2) "1.prems"(2)]
    obtain a k where "ascend ex target (fst (path_pop ancestor)) (sfx @ [n]) = Ok (a, (sfx @ [n]) @ rev (drop k ms))"
      "k \<le> length ms" "components a = RootDir # map Normal (take k ms)" "ex a"
      by blast
    then show ?thesis using False push pop
      by (intro exI [of _ a] exI [of _ k]) (simp add: ascend.simps [of ex target ancestor] ns)
  qed
qed

section \<open>Lemmas on protected roots\<close>

lemma canonical_iff: "canonical p \<longleftrightarrow> (\<exists>ns. components p = RootDir # map Normal ns)"
proof
  assume "canonical p"
  then show "\<exists>ns. components p = RootDir # map Normal ns" by (rule canonical_comps) blast
next
  assume "\<exists>ns. components p = RootDir # map Normal ns"
  then show "canonical p" by (auto simp: canonical_def has_root_iff)
qed

lemma rooted_canonical: "has_root p \<Longrightarrow> ParentDir \<notin> set (components p) \<Longrightarrow> canonical p"
  using tail_comps_no_root(2) [of p]
  by (auto simp: canonical_def components_def lead_comps_def)

definition SYSTEM_NAMES :: "string list" where
  "SYSTEM_NAMES =
     [''etc'', ''usr'', ''bin'', ''sbin'', ''lib'', ''lib32'', ''lib64'', ''boot'', ''sys'', ''proc'', ''root'']"

definition protected_names :: "string list \<Rightarrow> bool" where
  "protected_names ns \<longleftrightarrow>
     ns = [] \<or> hd ns \<in> set SYSTEM_NAMES \<or> hd ns = ''dev'' \<and> ns \<noteq> [''dev'', ''null'']"

lemma system_root_comps:
  "components ''/'' = [RootDir]"
  "map components SYSTEM_ROOTS = map (\<lambda>s. [RootDir, Normal s]) SYSTEM_NAMES"
  "components ''/dev'' = [RootDir, Normal ''dev'']"
  "components ''/dev/null'' = [RootDir, Normal ''dev'', Normal ''null'']"
  "components ''/tmp'' = [RootDir, Normal ''tmp'']"
  by code_simp+

lemma under_system_roots:
  "list_ex (eq_or_under p) SYSTEM_ROOTS \<longleftrightarrow>
     list_ex (\<lambda>cs. prefix cs (components p)) (map components SYSTEM_ROOTS)"
  by (simp add: list_ex_iff path_starts_with_def)

lemma forbidden_iff:
  assumes "components p = RootDir # map Normal ns"
  shows "is_forbidden_system_root p \<longleftrightarrow> protected_names ns"
proof (cases ns)
  case Nil
  with assms show ?thesis
    by (simp add: is_forbidden_system_root_def protected_names_def path_eq_def system_root_comps)
next
  case (Cons n ms)
  have null: "map Normal ms = [Normal ''null''] \<longleftrightarrow> ms = [''null'']" by (cases ms) auto
  have "list_ex (\<lambda>cs. prefix cs (RootDir # Normal n # map Normal ms)) (map (\<lambda>s. [RootDir, Normal s]) L)
      \<longleftrightarrow> n \<in> set L" for L
    by (induction L) auto
  then have sys: "list_ex (eq_or_under p) SYSTEM_ROOTS \<longleftrightarrow> n \<in> set SYSTEM_NAMES"
    using assms Cons by (simp add: under_system_roots system_root_comps)
  have dev: "path_starts_with p ''/dev'' \<longleftrightarrow> n = ''dev''" "path_eq p ''/dev/null'' \<longleftrightarrow> ns = [''dev'', ''null'']"
    "\<not> path_eq p ''/''"
    using assms Cons null by (auto simp: path_starts_with_def path_eq_def system_root_comps)
  show ?thesis
    using Cons by (simp add: is_forbidden_system_root_def sys dev protected_names_def)
qed

lemma protected_names_append:
  "\<not> protected_names ms \<Longrightarrow> protected_names (ms @ ns) \<Longrightarrow> ms = [''dev'', ''null'']"
  by (cases ms) (auto simp: protected_names_def)

lemma not_has_traversal: "\<not> has_traversal p \<Longrightarrow> ParentDir \<notin> set (components p)"
  by (auto simp: has_traversal_def list_ex_iff)

lemma write_base_canonical:
  assumes "canonical ws" and "\<not> has_traversal p"
  shows "canonical (if is_absolute p then p else path_join ws p)"
proof (cases "is_absolute p")
  case True
  then show ?thesis using rooted_canonical not_has_traversal assms(2) by simp
next
  case False
  from assms(1) have ws: "ws \<noteq> []" "has_root ws" "ParentDir \<notin> set (components ws)"
    by (auto simp: canonical_def)
  have "components (path_join ws p) = components ws @ tail_comps p"
    using ws False by (intro components_push)
  moreover have "ParentDir \<notin> set (tail_comps p)"
    using not_has_traversal [OF assms(2)] by (simp add: components_def)
  ultimately show ?thesis
    using False ws by (auto simp: has_root_iff intro!: rooted_canonical)
qed

text \<open>The form of a resolved write target: an unprotected canonical ancestor and names below it.\<close>

lemma resolve_write_ok:
  assumes "host_ok env" and "canonical ws" and "\<not> has_traversal p" and "resolve_write env ws p = Ok w"
  obtains c ms ns where "components c = RootDir # map Normal ms" "\<not> protected_names ms"
    "components w = RootDir # map Normal (ms @ ns)"
    "\<not> is_absolute p \<longrightarrow> path_starts_with c ws \<or>
       (\<exists>cw. fs_canonicalize env ws = Inr cw \<and> path_starts_with c cw)"
proof -
  let ?n = "if is_absolute p then p else path_join ws p"
  have nrm: "(if \<not> is_absolute p then path_join ws p else p) = ?n" by simp
  obtain xs where xs: "components ?n = RootDir # map Normal xs"
    using write_base_canonical [OF assms(2,3)] by (auto simp: canonical_iff)
  have ex: "\<forall>q. components q = [RootDir] \<longrightarrow> fs_exists env q" using assms(1) by (simp add: host_ok_def)
  obtain a k where a: "ascend (fs_exists env) p ?n [] = Ok (a, rev (drop k xs))" "k \<le> length xs"
    "components a = RootDir # map Normal (take k xs)"
    using ascend_result [OF xs ex, of p "[]"] by auto
  define c where "c = (case fs_canonicalize env a of Inr c \<Rightarrow> c | Inl _ \<Rightarrow> a)"
  have "canonical c"
    using assms(1) a(3) by (auto simp: c_def host_ok_def canonical_iff split: sum.splits)
  then obtain ms where ms: "components c = RootDir # map Normal ms" by (auto simp: canonical_iff)
  have vn: "\<forall>n \<in> set (drop k xs). valid_name n"
    using xs components_normal [of _ ?n] by (auto dest: in_set_dropD)
  have cw: "components (foldl path_push c (drop k xs)) = RootDir # map Normal (ms @ drop k xs)"
    using vn ms by (simp add: components_push_names)
  from assms(4) have ok: "\<not> is_forbidden_system_root c"
    "w = lexical_normalize (foldl path_push c (drop k xs))"
    "\<not> is_absolute p \<longrightarrow> path_starts_with c ws \<or>
       (\<exists>cw. fs_canonicalize env ws = Inr cw \<and> path_starts_with c cw)"
    by (auto simp: resolve_write_def nrm a c_def Let_def split: if_splits sum.splits)
  show ?thesis
  proof (rule that)
    show "components c = RootDir # map Normal ms" by (rule ms)
    show "\<not> protected_names ms" using ok(1) forbidden_iff [OF ms] by simp
    show "components w = RootDir # map Normal (ms @ drop k xs)"
      using lexical_normalize_canonical [OF cw] cw ok(2) by simp
  qed (rule ok(3))
qed

lemma resolve_write_safe:
  assumes "host_ok env" and "canonical ws" and "\<not> has_traversal p" and "resolve_write env ws p = Ok w"
  shows "canonical w" and "is_forbidden_system_root w \<Longrightarrow> path_starts_with w ''/dev/null''"
    and "\<not> is_absolute p \<Longrightarrow> path_starts_with w ws \<or>
           (\<exists>cw. fs_canonicalize env ws = Inr cw \<and> path_starts_with w cw)"
proof -
  obtain c ms ns where r: "components c = RootDir # map Normal ms" "\<not> protected_names ms"
    "components w = RootDir # map Normal (ms @ ns)"
    "\<not> is_absolute p \<longrightarrow> path_starts_with c ws \<or>
       (\<exists>cw. fs_canonicalize env ws = Inr cw \<and> path_starts_with c cw)"
    using resolve_write_ok [OF assms] .
  show "canonical w" unfolding canonical_iff using r(3) by blast
  show "path_starts_with w ''/dev/null''" if "is_forbidden_system_root w"
  proof -
    have "ms = [''dev'', ''null'']"
      using that r(2) forbidden_iff [OF r(3)] protected_names_append by blast
    then show ?thesis using r(3) by (simp add: path_starts_with_def system_root_comps)
  qed
  have wc: "path_starts_with w c" using r(1,3) by (simp add: path_starts_with_def)
  show "path_starts_with w ws \<or> (\<exists>cw. fs_canonicalize env ws = Inr cw \<and> path_starts_with w cw)"
    if "\<not> is_absolute p"
    using that r(4) wc path_starts_with_trans by blast
qed

section \<open>Lemmas on compiled contracts\<close>

lemma check_all_traversal: "check_all (check_traversal what) ps = Ok () \<longleftrightarrow> (\<forall>p \<in> set ps. \<not> has_traversal p)"
  by (auto simp: check_all_ok check_traversal_def)

lemma check_masks_ok:
  "check_masks ws writes masks = Ok () \<longleftrightarrow> (\<forall>w \<in> set writes. \<forall>m \<in> set masks. \<not> mask_collides ws w m)"
  by (auto simp: check_masks_def check_all_ok)

lemma check_deny_write_ok:
  "check_deny_write writes denied = Ok () \<longleftrightarrow>
     (\<forall>w \<in> set writes. \<forall>d \<in> set denied. \<not> path_starts_with w d)"
  by (auto simp: check_deny_write_def check_all_ok)

lemma map_seal_error_ok [simp]: "map_seal_error f r = Inr c \<longleftrightarrow> r = Inr c"
  by (auto simp: map_seal_error_def split: sum.splits)

lemma compile_effective_ok:
  assumes "compile_effective env inp = Ok c"
  obtains reads writes pids wall where
    "\<forall>p \<in> set (allow_write (in_policy inp)). \<not> has_traversal p"
    "fold_result (push_resolved env (cwd inp)) (allow_write (in_policy inp)) [] = Ok writes"
    "\<forall>w \<in> set writes. \<forall>m \<in> set (effective_masks env (cwd inp) (in_policy inp)).
       \<not> mask_collides (cwd inp) w m"
    "\<forall>w \<in> set writes. \<forall>d \<in> set (deny_write (in_policy inp)). \<not> path_starts_with w d"
    "resolve_max_pids (in_policy inp) = Ok pids" "wall_time_ms (in_timeout inp) = Ok wall"
    "seal (codec env) (effective_contract env inp reads writes pids wall) = Ok c"
  using assms
  by (auto simp: compile_effective_def Let_def check_all_traversal check_masks_ok check_deny_write_ok
      split: if_splits)

lemma effective_contract_fields:
  "workspace_root (filesystem (effective_contract env inp reads writes pids wall)) = cwd inp"
  "fs_allow_read (filesystem (effective_contract env inp reads writes pids wall)) = reads"
  "fs_allow_write (filesystem (effective_contract env inp reads writes pids wall)) = writes"
  "fs_allow_execute (filesystem (effective_contract env inp reads writes pids wall)) =
     effective_execute (hd (argv inp))"
  "mask_paths (filesystem (effective_contract env inp reads writes pids wall)) =
     effective_masks env (cwd inp) (in_policy inp)"
  "net_mode (network (effective_contract env inp reads writes pids wall)) = fst (lower_net (in_net inp))"
  "allowed_domains (network (effective_contract env inp reads writes pids wall)) =
     fst (snd (lower_net (in_net inp)))"
  "allowed_ports (network (effective_contract env inp reads writes pids wall)) =
     fold (push_unique (=)) (net_connect_ports (in_policy inp)) (snd (snd (lower_net (in_net inp))))"
  "block_cloud_metadata (network (effective_contract env inp reads writes pids wall)) = uses_relay (in_net inp)"
  "block_loopback_daemons (network (effective_contract env inp reads writes pids wall)) = uses_relay (in_net inp)"
  "map_option installation_policy (production (effective_contract env inp reads writes pids wall)) =
     Some (in_policy inp)"
  by (simp_all add: effective_contract_def Let_def split: prod.splits)

lemma compile_effective_form:
  assumes "compile_effective env inp = Ok c"
  obtains writes pids wall where
    "fold_result (push_resolved env (cwd inp)) (allow_write (in_policy inp)) [] = Ok writes"
    "seal (codec env) (effective_contract env inp
       (fold (\<lambda>p. push_unique path_eq (resolve_read (cwd inp) p)) (allow_read (in_policy inp)) [])
       writes pids wall) = Ok c"
  using assms by (auto simp: compile_effective_def Let_def split: if_splits)

lemma compile_effective_net:
  assumes "compile_effective env inp = Ok c"
  shows "net_mode (network c) = fst (lower_net (in_net inp))"
    "allowed_domains (network c) = fst (snd (lower_net (in_net inp)))"
    "block_cloud_metadata (network c) = uses_relay (in_net inp)"
    "block_loopback_daemons (network c) = uses_relay (in_net inp)"
    "allowed_ports (network c) =
       fold (push_unique (=)) (net_connect_ports (in_policy inp)) (snd (snd (lower_net (in_net inp))))"
proof -
  obtain w p t where s: "seal (codec env) (effective_contract env inp
       (fold (\<lambda>p. push_unique path_eq (resolve_read (cwd inp) p)) (allow_read (in_policy inp)) [])
       w p t) = Ok c"
    using compile_effective_form [OF assms] .
  show "net_mode (network c) = fst (lower_net (in_net inp))"
    "allowed_domains (network c) = fst (snd (lower_net (in_net inp)))"
    "block_cloud_metadata (network c) = uses_relay (in_net inp)"
    "block_loopback_daemons (network c) = uses_relay (in_net inp)"
    "allowed_ports (network c) =
       fold (push_unique (=)) (net_connect_ports (in_policy inp)) (snd (snd (lower_net (in_net inp))))"
    by (simp_all add: seal_fields [OF s] effective_contract_fields)
qed

lemma effective_execute_rooted: "list_all has_root (effective_execute s)"
proof -
  have d: "list_all has_root default_exec" by code_simp
  have "has_root q" if a: "is_absolute s" "path_parent s = Some q" for q
  proof -
    obtain x xs where s: "s = x # xs" "is_sep x" using a(1) by (cases s) simp_all
    have "components q = butlast (components s)" "components s \<noteq> [RootDir]"
      using path_parent_abs(1,2) [of x xs] s a(2) by auto
    then show ?thesis using a(1) by (auto simp: has_root_iff split: if_splits)
  qed
  then show ?thesis
    using d set_push_unique [of path_eq _ default_exec]
    by (fastforce simp: effective_execute_def list_all_iff split: option.splits)
qed

lemma push_resolved_ok:
  "push_resolved env ws p acc = Inr acc' \<longleftrightarrow>
     (\<exists>w. resolve_write env ws p = Inr w \<and> acc' = push_unique path_eq w acc)"
  by (auto simp: push_resolved_def)

lemma push_resolved_fold:
  assumes "fold_result (push_resolved env ws) ps [] = Ok writes"
  shows "\<forall>w \<in> set writes. \<exists>p \<in> set ps. resolve_write env ws p = Ok w"
proof -
  let ?P = "\<lambda>acc. \<forall>w \<in> set acc. \<exists>p \<in> set ps. resolve_write env ws p = Ok w"
  show "?P writes"
  proof (rule fold_result_inv [OF assms, of ?P])
    fix p acc acc'
    assume "p \<in> set ps" "?P acc" "push_resolved env ws p acc = Inr acc'"
    then show "?P acc'" using set_push_unique [of path_eq _ acc] by (fastforce simp: push_resolved_ok)
  qed simp
qed

lemma push_resolved_covers:
  "fold_result (push_resolved env ws) ps acc = Ok writes \<Longrightarrow> p \<in> set ps \<Longrightarrow>
   \<exists>w. resolve_write env ws p = Ok w \<and> (\<exists>w' \<in> set writes. path_eq w w')"
proof (induction ps arbitrary: acc)
  case (Cons q ps)
  from Cons.prems(1) obtain b where b: "push_resolved env ws q acc = Inr b"
    "fold_result (push_resolved env ws) ps b = Ok writes"
    by (auto split: sum.splits)
  then obtain w where w: "resolve_write env ws q = Ok w"
    and rest: "fold_result (push_resolved env ws) ps (push_unique path_eq w acc) = Ok writes"
    by (auto simp: push_resolved_ok)
  have mono: "set a \<subseteq> set writes" if "fold_result (push_resolved env ws) qs a = Ok writes" for qs a
    using that
  proof (induction qs arbitrary: a)
    case (Cons x qs)
    then obtain b where b: "push_resolved env ws x a = Ok b" "fold_result (push_resolved env ws) qs b = Ok writes"
      by (auto split: sum.splits)
    then have "set a \<subseteq> set b" using push_unique_mono by (fastforce simp: push_resolved_ok)
    with Cons.IH [OF b(2)] show ?case by blast
  qed simp
  show ?case
  proof (cases "p = q")
    case True
    obtain w' where "w' \<in> set (push_unique path_eq w acc)" "path_eq w w'"
      using push_unique_covers [of path_eq w acc] by auto
    then show ?thesis using True w mono [OF rest] by blast
  next
    case False
    then show ?thesis using Cons.IH [OF rest] Cons.prems by simp
  qed
qed simp

lemma effective_masks_cover:
  assumes "m \<in> set (mandatory_masks env ws) \<union> set (map deny_path (deny_resolved pol))"
  shows "\<exists>m' \<in> set (effective_masks env ws pol). path_eq m m'"
proof (cases "m \<in> set (mandatory_masks env ws)")
  case True
  then show ?thesis
    unfolding effective_masks_def by (intro fold_push_unique_covers) auto
next
  case False
  then have "m \<in> set (effective_masks env ws pol)"
    using assms fold_push_unique_set [of "map deny_path (deny_resolved pol)" path_eq "mandatory_masks env ws"]
    by (auto simp: effective_masks_def)
  then show ?thesis by (intro bexI [of _ m]) simp_all
qed

text \<open>Every way in which path resolution fails is a permission conflict.\<close>

lemma ascend_error:
  "ascend ex target a sfx = Inl e \<Longrightarrow> \<exists>msg. e = ConflictingPermissions msg"
proof (induction ex target a sfx rule: ascend.induct)
  case (1 ex target a sfx)
  have push: "ascend_push target a sfx = Inl e' \<Longrightarrow> \<exists>msg. e' = ConflictingPermissions msg" for e'
    by (auto simp: ascend_push_def Let_def split: if_splits)
  from 1 show ?case
    by (subst (asm) ascend.simps) (auto split: if_splits sum.splits dest: push)
qed

lemma resolve_write_error:
  "resolve_write env ws p = Inl e \<Longrightarrow> \<exists>msg. e = ConflictingPermissions msg"
  by (auto simp: resolve_write_def and_then_Inl Let_def split: if_splits dest: ascend_error)

lemma fold_result_err:
  "fold_result f xs s = Inl e \<Longrightarrow> \<exists>x \<in> set xs. \<exists>t. f x t = Inl e"
  by (induction xs arbitrary: s) (auto split: sum.splits)

lemma push_resolved_fold_error:
  "fold_result (push_resolved env ws) ps acc = Inl e \<Longrightarrow> \<exists>msg. e = ConflictingPermissions msg"
  by (drule fold_result_err) (auto simp: push_resolved_def and_then_Inl dest: resolve_write_error)

lemma check_traversal_error:
  "check_all (check_traversal what) ps = Inl e \<Longrightarrow> \<exists>msg. e = ConflictingPermissions msg"
  by (drule check_all_err) (auto simp: check_traversal_def split: if_splits)

section \<open>Lemmas on the request compiler\<close>

lemma request_path_canonical:
  assumes "canonical ws" and "\<not> has_traversal p"
  shows "canonical (request_path ws p)"
proof (cases "is_absolute p")
  case True
  then show ?thesis
    using rooted_canonical not_has_traversal [OF assms(2)] by (simp add: request_path_def)
next
  case False
  let ?f = "\<lambda>base c. if as_os_str c \<noteq> ''.'' \<and> c \<noteq> CurDir then path_push base (as_os_str c) else base"
  have fold: "canonical (foldl ?f b cs)"
    if "canonical b" "\<forall>c \<in> set cs. c = CurDir \<or> (\<exists>n. c = Normal n \<and> valid_name n)" for b cs
    using that
  proof (induction cs arbitrary: b)
    case (Cons c cs)
    have "canonical (?f b c)"
    proof (cases "c = CurDir")
      case False
      then obtain n where n: "c = Normal n" "valid_name n" using Cons.prems by auto
      obtain ns where ns: "components b = RootDir # map Normal ns"
        using Cons.prems(1) by (auto simp: canonical_iff)
      have "components (path_push b n) = RootDir # map Normal (ns @ [n])"
        using n ns by (simp add: components_push_name)
      then have "canonical (path_push b n)" unfolding canonical_iff by blast
      then show ?thesis using n by (auto simp: valid_name_def)
    qed (use Cons.prems in simp)
    then show ?case using Cons by simp
  qed simp
  have "RootDir \<notin> set (components p)"
    using False tail_comps_no_root(1) [of p] by (auto simp: components_def lead_comps_def)
  then have "c = CurDir \<or> (\<exists>n. c = Normal n \<and> valid_name n)" if "c \<in> set (components p)" for c
    using that not_has_traversal [OF assms(2)] components_normal [of _ p] by (cases c) auto
  then show ?thesis using fold [OF assms(1)] False by (simp add: request_path_def)
qed

lemma request_write_ok:
  assumes "host_ok env" and "canonical ws" and "request_write env ws p acc = Ok acc'"
  shows "\<exists>w. acc' = acc @ [w] \<and> canonical w \<and> path_starts_with w ws"
proof -
  from assms(3) have nt: "\<not> has_traversal p"
    by (auto simp: request_write_def check_traversal_def split: if_splits)
  obtain xs where xs: "components (request_path ws p) = RootDir # map Normal xs"
    using request_path_canonical [OF assms(2) nt] by (auto simp: canonical_iff)
  have ex: "\<forall>q. components q = [RootDir] \<longrightarrow> fs_exists env q" using assms(1) by (simp add: host_ok_def)
  obtain a k where a: "ascend (fs_exists env) p (request_path ws p) [] = Ok (a, rev (drop k xs))"
    using ascend_result [OF xs ex, of p "[]"] by auto
  from assms(3) obtain c where c: "fs_canonicalize env a = Inr c" "path_starts_with c ws"
    "acc' = acc @ [foldl path_push c (drop k xs)]"
    by (auto simp: request_write_def a split: if_splits sum.splits)
  have "canonical c" using assms(1) c(1) by (auto simp: host_ok_def)
  then obtain ms where ms: "components c = RootDir # map Normal ms" by (auto simp: canonical_iff)
  have "\<forall>n \<in> set (drop k xs). valid_name n"
    using xs components_normal [of _ "request_path ws p"] by (auto dest: in_set_dropD)
  then have w: "components (foldl path_push c (drop k xs)) = RootDir # map Normal (ms @ drop k xs)"
    using ms by (simp add: components_push_names)
  then have "canonical (foldl path_push c (drop k xs))" unfolding canonical_iff by blast
  moreover have "path_starts_with (foldl path_push c (drop k xs)) c"
    using w ms by (simp add: path_starts_with_def)
  ultimately show ?thesis using c path_starts_with_trans by blast
qed

lemma dedup_paths_comps: "set (map components (dedup_paths ps)) = set (map components ps)"
  by (induction ps rule: dedup_paths.induct) (auto simp: path_eq_def)

lemma dedup_paths_set: "set (dedup_paths ps) \<subseteq> set ps"
  by (induction ps rule: dedup_paths.induct) auto

lemma dedup_paths_sorted:
  "sorted (map components ps) \<Longrightarrow> sorted_wrt (<) (map components (dedup_paths ps))"
proof (induction ps rule: dedup_paths.induct)
  case (3 p q ps)
  show ?case
  proof (cases "path_eq p q")
    case True
    then show ?thesis using 3 by (auto simp: path_eq_def)
  next
    case False
    have "components p < components r" if "components r \<in> set (map components (q # ps))" for r
      using 3(3) False that by (auto simp: path_eq_def)
    then have "\<forall>c \<in> set (map components (dedup_paths (q # ps))). components p < c"
      unfolding dedup_paths_comps by auto
    then show ?thesis using 3 False by simp
  qed
qed simp_all

lemma check_request_masks_ok:
  "check_request_masks ws writes masks = Ok () \<longleftrightarrow>
     (\<forall>w \<in> set writes. \<forall>m \<in> set masks. \<not> request_mask_collides ws w m)"
  by (auto simp: check_request_masks_def check_all_ok)

lemma request_writes_safe:
  assumes "host_ok env" and "canonical ws" and "fold_result (request_write env ws) ps [] = Ok writes"
  shows "\<forall>w \<in> set writes. canonical w \<and> path_starts_with w ws"
proof (rule fold_result_inv [OF assms(3)])
  fix p acc acc'
  assume "\<forall>w \<in> set acc. canonical w \<and> path_starts_with w ws" "request_write env ws p acc = Inr acc'"
  then show "\<forall>w \<in> set acc'. canonical w \<and> path_starts_with w ws"
    using request_write_ok [OF assms(1,2)] by fastforce
qed simp

lemma request_reads_safe:
  assumes "host_ok env" and "canonical ws" and "fold_result (request_read env ws) ps [ws] = Ok reads"
  shows "ws \<in> set reads \<and> (\<forall>r \<in> set reads. canonical r)"
proof (rule fold_result_inv [OF assms(3)])
  fix p acc acc'
  assume "ws \<in> set acc \<and> (\<forall>r \<in> set acc. canonical r)" "request_read env ws p acc = Inr acc'"
  then show "ws \<in> set acc' \<and> (\<forall>r \<in> set acc'. canonical r)"
    using assms(1) by (auto simp: request_read_def host_ok_def split: sum.splits)
qed (use assms(2) in simp)

section \<open>Properties\<close>

text \<open>
  Property C3 (a compiled contract confines writes). When a resolved policy compiles, on a
  host whose \<open>canonicalize\<close> keeps its documented contract and from a working directory without
  dot-dot, the contract verifies against its seal, and every write root in it is an absolute
  path without dot components, lies outside the protected system roots (the null device
  apart), is not at or below any secret mask or explicit deny, and is above a mask only when
  it is the workspace itself or \<open>/tmp\<close>; the masks include every mandatory one and every
  resolved deny path.
\<close>

theorem compiled_contract_confines_writes:
  assumes "host_ok env" and "canonical (cwd inp)" and "\<And>b. sha256 (codec env) b \<noteq> []"
    and "compile_effective env inp = Ok c"
  shows "verify_sealed (codec env) c = Ok () \<and> workspace_root (filesystem c) = cwd inp \<and>
    (\<forall>w \<in> set (fs_allow_write (filesystem c)).
       canonical w \<and>
       (is_forbidden_system_root w \<longrightarrow> path_starts_with w ''/dev/null'') \<and>
       (\<forall>m \<in> set (mask_paths (filesystem c)).
          \<not> path_starts_with w m \<and>
          (path_starts_with m w \<longrightarrow> path_eq w (cwd inp) \<or> path_eq w ''/tmp'')) \<and>
       (\<forall>d \<in> set (deny_write (in_policy inp)). \<not> path_starts_with w d)) \<and>
    (\<forall>m \<in> set (mandatory_masks env (cwd inp)) \<union> set (map deny_path (deny_resolved (in_policy inp))).
       \<exists>m' \<in> set (mask_paths (filesystem c)). path_eq m m')"
proof -
  from compile_effective_ok [OF assms(4)] obtain reads writes pids wall where
    ok: "\<forall>p \<in> set (allow_write (in_policy inp)). \<not> has_traversal p"
    "fold_result (push_resolved env (cwd inp)) (allow_write (in_policy inp)) [] = Ok writes"
    "\<forall>w \<in> set writes. \<forall>m \<in> set (effective_masks env (cwd inp) (in_policy inp)).
       \<not> mask_collides (cwd inp) w m"
    "\<forall>w \<in> set writes. \<forall>d \<in> set (deny_write (in_policy inp)). \<not> path_starts_with w d"
    "seal (codec env) (effective_contract env inp reads writes pids wall) = Ok c" .
  have fs: "workspace_root (filesystem c) = cwd inp" "fs_allow_write (filesystem c) = writes"
    "mask_paths (filesystem c) = effective_masks env (cwd inp) (in_policy inp)"
    using seal_fields(2) [OF ok(5)] by (simp_all add: effective_contract_def Let_def split: prod.splits)
  have v: "verify_sealed (codec env) c = Ok ()" using seal_verifies [OF assms(3) ok(5)] by simp
  have safe: "canonical w \<and> (is_forbidden_system_root w \<longrightarrow> path_starts_with w ''/dev/null'')"
    if "w \<in> set writes" for w
    using push_resolved_fold [OF ok(2)] that ok(1) resolve_write_safe [OF assms(1,2)] by blast
  show ?thesis
    using safe ok(3,4) effective_masks_cover [of _ env "cwd inp" "in_policy inp"]
    unfolding fs mask_collides_def eq_or_under_iff by (blast intro: v)
qed

definition sample_host :: HostEnv where
  "sample_host =
     \<lparr>fs_exists = (\<lambda>p. path_eq p ''/'' \<or> path_eq p ''/ws''),
      fs_canonicalize = (\<lambda>p. if path_eq p ''/'' then Ok ''/'' else if path_eq p ''/ws'' then Ok ''/ws''
                             else Err ''not found''),
      home_dir = Some ''/home/u'', fresh_nonce = ''0123456789abcdef'', codec = sample_codec\<rparr>"

definition sample_input :: EffectivePolicyInput where
  "sample_input =
     \<lparr>in_policy = default_policy\<lparr>allow_write := [''out''], allow_read := [''/ws'']\<rparr>,
      argv = [''/bin/sh''], cwd = ''/ws'', in_env = [], in_net = NetOff, nonce = ''n1'',
      in_timeout = None, in_tier = None, in_backend = ''linux'', in_observe_seccomp = False,
      in_debug_ports = None\<rparr>"

lemma sample_host_ok: "host_ok sample_host"
proof -
  have "canonical ''/''" "canonical ''/ws''" by (code_simp)+
  then show ?thesis
    by (auto simp: host_ok_def sample_host_def path_eq_def system_root_comps split: if_splits)
qed

lemma sample_writes:
  "fold_result (push_resolved sample_host ''/ws'') [''out''] [] = Ok [''/ws/out'']"
  by code_simp

lemma sample_masks:
  "effective_masks sample_host ''/ws'' default_policy =
     [''/home/u/.ssh'', ''/home/u/.aws'', ''/home/u/.gnupg'', ''/ws/.env'', ''/ws/.git/config'']"
  by code_simp

lemma sample_compiles_policy:
  assumes "allow_write pol = [''out'']" and "allow_read pol = [''/ws'']" and "deny_write pol = []"
    and "deny_resolved pol = []" and "resolve_max_pids pol = Ok n"
  shows "\<exists>c. compile_effective sample_host (sample_input\<lparr>in_policy := pol, in_net := net\<rparr>) = Ok c"
proof -
  let ?i = "sample_input\<lparr>in_policy := pol, in_net := net\<rparr>"
  have t: "check_all (check_traversal ''Read'') [''/ws''] = Ok ()"
    "check_all (check_traversal ''Write'') [''out''] = Ok ()"
    "check_masks ''/ws'' [''/ws/out'']
      [''/home/u/.ssh'', ''/home/u/.aws'', ''/home/u/.gnupg'', ''/ws/.env'', ''/ws/.git/config''] = Ok ()"
    by code_simp+
  have m: "effective_masks sample_host ''/ws'' (in_policy ?i) =
      [''/home/u/.ssh'', ''/home/u/.aws'', ''/home/u/.gnupg'', ''/ws/.env'', ''/ws/.git/config'']"
    using sample_masks assms(3,4) by (simp add: effective_masks_def default_policy_def)
  have s: "\<exists>c. seal (codec sample_host) u = Ok c" for u
    by (auto simp: seal_ok sample_host_def sample_codec_def)
  have f: "allow_write (in_policy ?i) = [''out'']" "allow_read (in_policy ?i) = [''/ws'']"
    "deny_write (in_policy ?i) = []" "cwd ?i = ''/ws''" "resolve_max_pids (in_policy ?i) = Ok n"
    "\<not> (argv ?i = [] \<or> hd (argv ?i) = [] \<or> nonce ?i = [])"
    "wall_time_ms (in_timeout ?i) = Ok 0"
    using assms by (simp_all add: sample_input_def wall_time_ms_def)
  show ?thesis
    using s
    unfolding compile_effective_def Let_def f t m sample_writes and_then_simps check_deny_write_def
      if_not_P [OF f(6)] map_seal_error_ok
    by (simp add: check_all_ok)
qed

lemma sample_compiles_net: "\<exists>c. compile_effective sample_host (sample_input\<lparr>in_net := n\<rparr>) = Ok c"
proof -
  have "resolve_max_pids (in_policy sample_input) = Ok 0"
    by (simp add: resolve_max_pids_def sample_input_def default_policy_def no_limits_def positive_def)
  from sample_compiles_policy [OF _ _ _ _ this, of n] show ?thesis
    by (simp add: sample_input_def default_policy_def)
qed

lemma sample_compiles: "\<exists>c. compile_effective sample_host sample_input = Ok c"
  using sample_compiles_net [of NetOff] by (simp add: sample_input_def)

theorem compiled_contract_confines_writes_witness:
  "\<exists>c. compile_effective sample_host sample_input = Ok c \<and>
       (\<forall>w \<in> set (fs_allow_write (filesystem c)). canonical w)"
proof -
  obtain c where c: "compile_effective sample_host sample_input = Ok c" using sample_compiles by blast
  have ws: "canonical (cwd sample_input)" by code_simp
  have "sha256 (codec sample_host) b \<noteq> []" for b by (simp add: sample_host_def sample_codec_def)
  from compiled_contract_confines_writes [OF sample_host_ok ws this c] c show ?thesis by blast
qed

text \<open>
  Relative write targets stay in the workspace. When a resolved policy compiles,
  every relative write target of it resolves to a write root of the contract (up to equality
  of paths) that lies under the workspace or under the workspace's canonical form, through
  whatever symbolic links its existing ancestors are.
\<close>

theorem relative_writes_stay_in_workspace:
  assumes "host_ok env" and "canonical (cwd inp)" and "compile_effective env inp = Ok c"
    and "p \<in> set (allow_write (in_policy inp))" and "\<not> is_absolute p"
  shows "\<exists>w \<in> set (fs_allow_write (filesystem c)).
    path_starts_with w (cwd inp) \<or>
    (\<exists>cw. fs_canonicalize env (cwd inp) = Ok cw \<and> path_starts_with w cw)"
proof -
  from compile_effective_ok [OF assms(3)] obtain reads writes pids wall where
    ok: "\<forall>p \<in> set (allow_write (in_policy inp)). \<not> has_traversal p"
    "fold_result (push_resolved env (cwd inp)) (allow_write (in_policy inp)) [] = Ok writes"
    "seal (codec env) (effective_contract env inp reads writes pids wall) = Ok c" .
  have fs: "fs_allow_write (filesystem c) = writes"
    using seal_fields(2) [OF ok(3)] by (simp add: effective_contract_def Let_def split: prod.splits)
  obtain w w' where w: "resolve_write env (cwd inp) p = Ok w" "w' \<in> set writes" "path_eq w w'"
    using push_resolved_covers [OF ok(2) assms(4)] by blast
  have "path_starts_with w (cwd inp) \<or>
      (\<exists>cw. fs_canonicalize env (cwd inp) = Inr cw \<and> path_starts_with w cw)"
    using resolve_write_safe(3) [OF assms(1,2) _ w(1) assms(5)] ok(1) assms(4) by blast
  then show ?thesis using w(2,3) by (auto simp: fs path_starts_with_def path_eq_def)
qed

theorem relative_writes_stay_in_workspace_witness:
  "\<exists>c. compile_effective sample_host sample_input = Ok c \<and>
       (\<exists>w \<in> set (fs_allow_write (filesystem c)). path_starts_with w ''/ws'')"
proof -
  obtain c where c: "compile_effective sample_host sample_input = Ok c" using sample_compiles by blast
  have ws: "canonical (cwd sample_input)" by code_simp
  have f: "''out'' \<in> set (allow_write (in_policy sample_input))" "\<not> is_absolute ''out''"
    "cwd sample_input = ''/ws''" "fs_canonicalize sample_host ''/ws'' = Ok ''/ws''"
    by code_simp+
  from relative_writes_stay_in_workspace [OF sample_host_ok ws c f(1,2)] c show ?thesis
    by (auto simp: f)
qed

text \<open>
  Unsafe write targets are refused. A resolved policy with a command and a nonce
  that lists a write target with a dot-dot between slashes or backslashes, or one that names a
  protected system root, never compiles: the result is a permission conflict.
\<close>

theorem unsafe_write_targets_refused:
  assumes "argv inp \<noteq> []" and "hd (argv inp) \<noteq> []" and "nonce inp \<noteq> []"
    and "p \<in> set (allow_write (in_policy inp))"
    and "has_traversal p \<or>
         is_forbidden_system_root (if is_absolute p then p else path_join (cwd inp) p)"
  shows "\<exists>msg. compile_effective env inp = Err (ConflictingPermissions msg)"
proof -
  let ?pol = "in_policy inp" and ?ws = "cwd inp"
  have unfold: "compile_effective env inp =
      and_then (check_all (check_traversal ''Read'') (allow_read ?pol)) (\<lambda>_.
      and_then (check_all (check_traversal ''Write'') (allow_write ?pol)) (\<lambda>_.
      and_then (fold_result (push_resolved env ?ws) (allow_write ?pol) []) F))"
    if "F = (\<lambda>writes. and_then (check_masks ?ws writes (effective_masks env ?ws ?pol)) (\<lambda>_.
         and_then (check_deny_write writes (deny_write ?pol)) (\<lambda>_.
         and_then (resolve_max_pids ?pol) (\<lambda>pids.
         and_then (wall_time_ms (in_timeout inp)) (\<lambda>wall.
         map_seal_error (\<lambda>e. UnsupportedCapability (''contract serialization: '' @ e))
           (seal (codec env) (effective_contract env inp
              (fold (\<lambda>p. push_unique path_eq (resolve_read ?ws p)) (allow_read ?pol) [])
              writes pids wall)))))))" for F
    using assms(1-3) unfolding that by (simp add: compile_effective_def Let_def)
  have bad: "\<nexists>writes. fold_result (push_resolved env ?ws) (allow_write ?pol) [] = Ok writes"
    if "\<not> has_traversal p"
  proof
    assume "\<exists>writes. fold_result (push_resolved env ?ws) (allow_write ?pol) [] = Ok writes"
    then obtain w where "resolve_write env ?ws p = Ok w"
      using push_resolved_covers assms(4) by blast
    then show False using assms(5) that by (auto simp: resolve_write_def Let_def split: if_splits)
  qed
  consider e where "check_all (check_traversal ''Read'') (allow_read ?pol) = Inl e"
    | e where "check_all (check_traversal ''Read'') (allow_read ?pol) = Inr ()"
        "check_all (check_traversal ''Write'') (allow_write ?pol) = Inl e"
    | e where "check_all (check_traversal ''Read'') (allow_read ?pol) = Inr ()"
        "check_all (check_traversal ''Write'') (allow_write ?pol) = Inr ()"
        "fold_result (push_resolved env ?ws) (allow_write ?pol) [] = Inl e"
    using bad assms(4) check_all_traversal [of "''Write''" "allow_write ?pol"]
      unit_result_cases [of "check_all (check_traversal ''Read'') (allow_read ?pol)"]
      unit_result_cases [of "check_all (check_traversal ''Write'') (allow_write ?pol)"]
    by (cases "fold_result (push_resolved env ?ws) (allow_write ?pol) []") auto
  then show ?thesis
    by cases (use unfold check_traversal_error push_resolved_fold_error in fastforce)+
qed

theorem unsafe_write_targets_refused_witness:
  "\<exists>msg. compile_effective sample_host
      (sample_input\<lparr>in_policy := default_policy\<lparr>allow_write := [''/ws'', ''/etc/cron.d'']\<rparr>\<rparr>) =
    Err (ConflictingPermissions msg)"
proof (rule unsafe_write_targets_refused [where p = "''/etc/cron.d''"])
  have "is_forbidden_system_root ''/etc/cron.d''" "is_absolute ''/etc/cron.d''" by code_simp+
  then show "has_traversal ''/etc/cron.d'' \<or>
      is_forbidden_system_root (if is_absolute ''/etc/cron.d'' then ''/etc/cron.d''
        else path_join (cwd (sample_input\<lparr>in_policy := default_policy\<lparr>allow_write := [''/ws'', ''/etc/cron.d'']\<rparr>\<rparr>)) ''/etc/cron.d'')"
    by simp
qed (simp_all add: sample_input_def)

definition or_zero :: "nat option \<Rightarrow> nat" where
  "or_zero n = (case n of None \<Rightarrow> 0 | Some m \<Rightarrow> m)"

lemma mem_limit_width: "mem_limit s = Some n \<Longrightarrow> n < 2 ^ 64"
  by (auto simp: mem_limit_def parse_bytes_value_def parse_cgroup_memory_def bind_eq_Some_conv and_then_def Let_def
      dest: parse_bytes_with_standard_bound split: sum.splits if_splits)

lemma or_zero_strictest_width:
  "(\<And>n. a = Some n \<Longrightarrow> n < (k::nat)) \<Longrightarrow> (\<And>n. b = Some n \<Longrightarrow> n < k) \<Longrightarrow> 0 < k \<Longrightarrow>
   or_zero (strictest (positive a) (positive b)) < k"
  by (auto simp: or_zero_def strictest_def positive_def min_def split: option.splits)

text \<open>
  Property C40 (contract ceilings are the strictest). The process and memory ceilings of a
  compiled contract are the smallest positive limit among the rlimit and the cgroup value,
  read as the limits they denote, zero when neither is set; the process ceiling fits 32 bits;
  the memory ceiling fits 64 bits when the rlimit does, whatever the cgroup value; the CPU
  percentage is at least one; and the wall time fits 64 bits.
\<close>

theorem contract_ceilings_strictest:
  assumes "compile_effective env inp = Ok c"
  defines "pol \<equiv> in_policy inp" and "res \<equiv> resources c"
  shows "max_pids res = or_zero (strictest (positive (processes (limits pol)))
             (positive (pids_limit (Option.bind (cgroup pol) pids_max)))) \<and>
    max_pids res < 2 ^ 32 \<and>
    max_memory_bytes res = or_zero (strictest (positive (address_space_bytes (limits pol)))
             (positive (mem_limit (Option.bind (cgroup pol) memory_max)))) \<and>
    ((\<forall>n. address_space_bytes (limits pol) = Some n \<longrightarrow> n < 2 ^ 64) \<longrightarrow> max_memory_bytes res < 2 ^ 64) \<and>
    1 \<le> max_cpu_percent res \<and> max_wall_time_ms res < 2 ^ 64"
proof -
  from compile_effective_ok [OF assms(1)] obtain reads writes pids wall where
    ok: "resolve_max_pids pol = Ok pids" "wall_time_ms (in_timeout inp) = Ok wall"
    "seal (codec env) (effective_contract env inp reads writes pids wall) = Ok c"
    unfolding pol_def .
  have res: "max_pids res = pids" "max_memory_bytes res = resolve_max_memory_bytes pol"
    "max_cpu_percent res = resolve_cpu_percent pol" "max_wall_time_ms res = wall"
    using seal_fields(4) [OF ok(3)]
    by (simp_all add: res_def pol_def effective_contract_def Let_def split: prod.splits)
  have "pids = or_zero (strictest (positive (processes (limits pol)))
             (positive (pids_limit (Option.bind (cgroup pol) pids_max)))) \<and> pids < 2 ^ 32"
    using ok(1)
    by (auto simp: resolve_max_pids_def or_zero_def pids_limit_def pids_of_def Let_def
        split: option.splits if_splits)
  moreover have mem: "resolve_max_memory_bytes pol =
      or_zero (strictest (positive (address_space_bytes (limits pol)))
             (positive (mem_limit (Option.bind (cgroup pol) memory_max))))"
    by (auto simp: resolve_max_memory_bytes_def or_zero_def mem_limit_def split: option.splits)
  moreover have "resolve_max_memory_bytes pol < 2 ^ 64"
    if "\<forall>n. address_space_bytes (limits pol) = Some n \<longrightarrow> n < 2 ^ 64"
    unfolding mem using that mem_limit_width by (intro or_zero_strictest_width) auto
  moreover have "1 \<le> n" if "cpu_str_to_percent s = Some n" for s n
    using that by (auto simp: cpu_str_to_percent_def split: option.splits)
  then have "1 \<le> resolve_cpu_percent pol"
    by (auto simp: resolve_cpu_percent_def bind_eq_Some_conv split: option.splits)
  moreover have "wall < 2 ^ 64" using ok(2) by (auto simp: wall_time_ms_def Let_def split: if_splits)
  ultimately show ?thesis by (simp add: res)
qed

definition limited_policy :: Policy where
  "limited_policy = default_policy\<lparr>allow_write := [''out''], allow_read := [''/ws''],
     limits := no_limits\<lparr>processes := Some 64, address_space_bytes := Some 4096\<rparr>,
     cgroup := Some \<lparr>memory_max = Some ''2048'', pids_max = Some ''128'', swap_max = None, cg_cpu_max = None\<rparr>\<rparr>"

theorem contract_ceilings_strictest_witness:
  "\<exists>c. compile_effective sample_host (sample_input\<lparr>in_policy := limited_policy\<rparr>) = Ok c \<and>
     max_pids (resources c) = 64 \<and> max_memory_bytes (resources c) = 2048 \<and> max_memory_bytes (resources c) < 2 ^ 64"
proof -
  have f: "processes (limits limited_policy) = Some 64" "address_space_bytes (limits limited_policy) = Some 4096"
    "Option.bind (cgroup limited_policy) pids_max = Some ''128''"
    "Option.bind (cgroup limited_policy) memory_max = Some ''2048''"
    by (simp_all add: limited_policy_def no_limits_def)
  have t: "trim ''128'' = ''128''" "trim ''2048'' = ''2048''" "\<not> eq_ignore_ascii_case ''128'' ''max''"
    "\<not> eq_ignore_ascii_case ''2048'' ''max''" by code_simp+
  have u: "parse_u64 ''128'' = Some 128" "parse_u64 ''2048'' = Some 2048"
    by (simp_all add: parse_uint_def digits_val_def digit_val_def is_ascii_digit_def)
  have v: "pids_limit (Some ''128'') = Some 128" "mem_limit (Some ''2048'') = Some 2048"
    by (simp_all add: pids_limit_def pids_of_def mem_limit_def parse_bytes_value_def parse_cgroup_memory_def
        parse_bytes_with_standard_def t u)
  have p: "resolve_max_pids limited_policy = Ok 64"
    using v(1) by (simp add: resolve_max_pids_def f positive_def pids_limit_def pids_of_def Let_def)
  obtain c where c: "compile_effective sample_host (sample_input\<lparr>in_policy := limited_policy\<rparr>) = Ok c"
    using sample_compiles_policy [OF _ _ _ _ p, of NetOff] by (auto simp: sample_input_def limited_policy_def default_policy_def)
  from contract_ceilings_strictest [OF c] c show ?thesis
    by (simp add: f v positive_def or_zero_def strictest_def)
qed

text \<open>
  Property C39 (the request compiler). A request that compiles has the canonical workspace as
  its root; its write roots are absolute paths without dot components inside the workspace,
  none at or below a mandatory mask, and none above one but the workspace itself; its read
  roots are canonical, include the workspace, and are strictly sorted; and the contract
  verifies against its seal.
\<close>

theorem request_compiler_confines:
  assumes "host_ok env" and "\<And>b. sha256 (codec env) b \<noteq> []"
    and "compile_raw env name raw net raw_reads raw_writes = Ok c"
  defines "fs \<equiv> filesystem c"
  shows "fs_canonicalize env raw = Ok (workspace_root fs) \<and> verify_sealed (codec env) c = Ok () \<and>
    (\<forall>w \<in> set (fs_allow_write fs). canonical w \<and> path_starts_with w (workspace_root fs) \<and>
       (\<forall>m \<in> set (mandatory_masks env (workspace_root fs)).
          \<not> path_starts_with w m \<and> (path_starts_with m w \<longrightarrow> path_eq w (workspace_root fs)))) \<and>
    (\<forall>r \<in> set (fs_allow_read fs). canonical r) \<and>
    (\<exists>r \<in> set (fs_allow_read fs). path_eq r (workspace_root fs)) \<and>
    sorted_wrt (<) (map components (fs_allow_read fs))"
proof -
  from assms(3) obtain ws reads0 writes0 where
    ok: "fs_canonicalize env raw = Inr ws"
    "fold_result (request_read env ws) raw_reads [ws] = Ok reads0"
    "fold_result (request_write env ws) raw_writes [] = Ok writes0"
    "check_request_masks ws (dedup_paths (sort_paths writes0)) (mandatory_masks env ws) = Ok ()"
    "seal (codec env) (request_contract env name ws net (dedup_paths (sort_paths reads0))
       (dedup_paths (sort_paths writes0))) = Ok c"
    by (auto simp: compile_raw_def Let_def split: sum.splits)
  have fs: "workspace_root fs = ws" "fs_allow_write fs = dedup_paths (sort_paths writes0)"
    "fs_allow_read fs = dedup_paths (sort_paths reads0)"
    using seal_fields(2) [OF ok(5)] by (simp_all add: fs_def request_contract_def)
  have ws: "canonical ws" using assms(1) ok(1) by (auto simp: host_ok_def)
  have sub: "set (dedup_paths (sort_paths xs)) \<subseteq> set xs" for xs
    using dedup_paths_set [of "sort_paths xs"] by (simp add: sort_paths_def)
  have ws_in: "components ws \<in> set (map components (dedup_paths (sort_paths reads0)))"
    using request_reads_safe [OF assms(1) ws ok(2)] unfolding dedup_paths_comps by (simp add: sort_paths_def)
  have sorted: "sorted_wrt (<) (map components (dedup_paths (sort_paths reads0)))"
    by (rule dedup_paths_sorted) (simp add: sort_paths_def)
  have wr: "\<forall>w \<in> set (dedup_paths (sort_paths writes0)). canonical w \<and> path_starts_with w ws"
    and rd: "\<forall>r \<in> set (dedup_paths (sort_paths reads0)). canonical r"
    using request_writes_safe [OF assms(1) ws ok(3)] request_reads_safe [OF assms(1) ws ok(2)]
      sub [of writes0] sub [of reads0] by blast+
  show ?thesis
    unfolding fs
    using ok(1) seal_verifies [OF assms(2) ok(5)] wr rd ws_in sorted
      ok(4) [unfolded check_request_masks_ok request_mask_collides_def eq_or_under_iff]
    by (auto simp: path_eq_def)
qed

theorem request_compiler_confines_witness:
  "\<exists>c. compile_raw sample_host ''a'' ''/ws'' None [] [''out''] = Ok c \<and>
       (\<forall>w \<in> set (fs_allow_write (filesystem c)). path_starts_with w (workspace_root (filesystem c)))"
proof -
  have r: "fs_canonicalize sample_host ''/ws'' = Ok ''/ws''"
    "fold_result (request_write sample_host ''/ws'') [''out''] [] = Ok [''/ws/out'']"
    "check_request_masks ''/ws'' (dedup_paths (sort_paths [''/ws/out''])) (mandatory_masks sample_host ''/ws'') = Ok ()"
    by code_simp+
  have "\<exists>c. seal (codec sample_host) u = Ok c" for u
    by (auto simp: seal_ok sample_host_def sample_codec_def)
  then obtain c where c: "compile_raw sample_host ''a'' ''/ws'' None [] [''out''] = Ok c"
    using r by (auto simp: compile_raw_def Let_def)
  have "sha256 (codec sample_host) b \<noteq> []" for b by (simp add: sample_host_def sample_codec_def)
  from request_compiler_confines [OF sample_host_ok this c] c show ?thesis by blast
qed

end
