(* ===== verification/Seccomp.thy ===== *)
theory Seccomp
  imports PolicyTypes
begin

text \<open>
  The seccomp filter of \<open>src/src/sandbox/linux/seccomp_netblock.rs\<close>: the classic BPF program
  that \<open>build_program_for_profile\<close> assembles and patches, and the BPF machine that the kernel
  runs on it (the five opcodes the filter uses). System call numbers and the other
  constants of the \<open>libc\<close> crate are the fields of \<open>Libc\<close>, one number per system call name.
  \<open>jump_offset\<close> panics when an offset does not fit its byte: that is \<open>None\<close>.

  The lemmas show that the program is always built, that it always reaches a return, and that
  its verdict on every system call is the intended decision, whatever the numbers are.
\<close>

unbundle bit_operations_syntax

section \<open>Data\<close>

datatype Arch = X86_64 | Aarch64 | OtherArch

record Libc =
  arch :: Arch
  sys :: "string \<Rightarrow> 32 word"
  af_unix :: "32 word"
  af_inet :: "32 word"
  af_inet6 :: "32 word"
  sock_raw :: "32 word"
  eperm :: "32 word"
  enosys :: "32 word"
  eacces :: "32 word"

definition HARDENING_SYSCALLS :: "string list" where
  "HARDENING_SYSCALLS =
     [''umount2'', ''mount'', ''pivot_root'', ''move_mount'', ''open_tree'', ''fsopen'', ''fsconfig'',
      ''fsmount'', ''fspick'', ''mount_setattr'', ''io_uring_setup'', ''io_uring_enter'',
      ''io_uring_register'', ''userfaultfd'', ''ptrace'', ''process_vm_readv'', ''process_vm_writev'',
      ''pidfd_getfd'', ''kexec_load'', ''kexec_file_load'', ''init_module'', ''finit_module'',
      ''delete_module'', ''perf_event_open'', ''bpf'', ''reboot'', ''swapon'', ''swapoff'', ''unshare'',
      ''setns'']"

definition AGENT_MIN_COMMON :: "string list" where
  "AGENT_MIN_COMMON =
     [''personality'', ''acct'', ''vhangup'', ''quotactl'', ''settimeofday'', ''clock_settime'',
      ''adjtimex'', ''clock_adjtime'', ''fanotify_init'', ''fanotify_mark'', ''syslog'', ''chroot'',
      ''lookup_dcookie'', ''vmsplice'']"

fun AGENT_MIN_EXTRA_SYSCALLS :: "Arch \<Rightarrow> string list" where
  "AGENT_MIN_EXTRA_SYSCALLS X86_64 =
     AGENT_MIN_COMMON @ [''sysfs'', ''ustat'', ''iopl'', ''ioperm'', ''modify_ldt'']"
| "AGENT_MIN_EXTRA_SYSCALLS Aarch64 = AGENT_MIN_COMMON"
| "AGENT_MIN_EXTRA_SYSCALLS OtherArch = []"

definition SECCOMP_RET_ERRNO :: "32 word" where "SECCOMP_RET_ERRNO = 0x00050000"
definition SECCOMP_RET_KILL_PROCESS :: "32 word" where "SECCOMP_RET_KILL_PROCESS = 0x80000000"
definition SECCOMP_RET_ALLOW :: "32 word" where "SECCOMP_RET_ALLOW = 0x7fff0000"
definition EAFNOSUPPORT :: "32 word" where "EAFNOSUPPORT = 97"
definition X32_SYSCALL_BIT :: "32 word" where "X32_SYSCALL_BIT = 0x40000000"

datatype SocketPolicy = UnixOnly | UnixAndIp

datatype opcode = LD_ABS | JEQ | JSET | AND_K | RET

record SockFilter =
  code :: opcode
  jt :: nat
  jf :: nat
  k :: "32 word"

definition bpf_stmt :: "opcode \<Rightarrow> 32 word \<Rightarrow> SockFilter" where
  "bpf_stmt c v = \<lparr>code = c, jt = 0, jf = 0, k = v\<rparr>"

definition bpf_jump :: "opcode \<Rightarrow> 32 word \<Rightarrow> nat \<Rightarrow> nat \<Rightarrow> SockFilter" where
  "bpf_jump c v t f = \<lparr>code = c, jt = t, jf = f, k = v\<rparr>"

fun native_audit_arch :: "Arch \<Rightarrow> 32 word" where
  "native_audit_arch X86_64 = 0xC000003E"
| "native_audit_arch Aarch64 = 0xC00000B7"
| "native_audit_arch OtherArch = 0"

section \<open>Assembling the program\<close>

definition jump_offset :: "nat \<Rightarrow> nat \<Rightarrow> nat option" where
  "jump_offset f t = (if t < f + 1 then None else if t - (f + 1) < 256 then Some (t - (f + 1)) else None)"

definition patch_jt :: "nat \<Rightarrow> nat \<Rightarrow> SockFilter list \<Rightarrow> SockFilter list option" where
  "patch_jt i target prog = map_option (\<lambda>off. prog[i := (prog ! i)\<lparr>jt := off\<rparr>]) (jump_offset i target)"

fun patch_all :: "nat list \<Rightarrow> nat \<Rightarrow> SockFilter list \<Rightarrow> SockFilter list option" where
  "patch_all [] target prog = Some prog"
| "patch_all (i # is) target prog = Option.bind (patch_jt i target prog) (patch_all is target)"

fun inet_offsets :: "SocketPolicy \<Rightarrow> nat \<times> nat \<times> nat \<times> nat" where
  "inet_offsets UnixOnly = (1, 1, 0, 0)"
| "inet_offsets UnixAndIp = (2, 0, 1, 0)"

definition denied_syscalls :: "Libc \<Rightarrow> SeccompProfile \<Rightarrow> 32 word list" where
  "denied_syscalls lc profile =
     map (sys lc) (HARDENING_SYSCALLS @
       (if profile = AgentMin then AGENT_MIN_EXTRA_SYSCALLS (arch lc) else []))"

definition unpatched_program :: "Libc \<Rightarrow> SocketPolicy \<Rightarrow> 32 word list \<Rightarrow> SockFilter list" where
  "unpatched_program lc policy denied =
     (let (inet_jt, inet_jf, inet6_jt, inet6_jf) = inet_offsets policy
      in [bpf_stmt LD_ABS 4,
          bpf_jump JEQ (native_audit_arch (arch lc)) 1 0,
          bpf_stmt RET SECCOMP_RET_KILL_PROCESS,
          bpf_stmt LD_ABS 0,
          bpf_jump JSET X32_SYSCALL_BIT 0 1,
          bpf_stmt RET SECCOMP_RET_KILL_PROCESS,
          bpf_jump JEQ (sys lc ''socket'') 0 0,
          bpf_jump JEQ (sys lc ''socketpair'') 0 0,
          bpf_jump JEQ (sys lc ''clone3'') 0 0] @
         map (\<lambda>nr. bpf_jump JEQ nr 0 0) denied @
         [bpf_stmt RET SECCOMP_RET_ALLOW,
          bpf_stmt RET (SECCOMP_RET_ERRNO OR eperm lc),
          bpf_stmt RET (SECCOMP_RET_ERRNO OR enosys lc),
          bpf_stmt LD_ABS 24,
          bpf_stmt AND_K 0x0f,
          bpf_jump JEQ (sock_raw lc) 0 0,
          bpf_stmt LD_ABS 16,
          bpf_jump JEQ (af_unix lc) 0 0,
          bpf_jump JEQ (af_inet lc) inet_jt inet_jf,
          bpf_jump JEQ (af_inet6 lc) inet6_jt inet6_jf,
          bpf_stmt RET (SECCOMP_RET_ERRNO OR EAFNOSUPPORT),
          bpf_stmt RET SECCOMP_RET_ALLOW,
          bpf_stmt RET (SECCOMP_RET_ERRNO OR eacces lc)])"

definition build_program_for_profile ::
  "Libc \<Rightarrow> SocketPolicy \<Rightarrow> SeccompProfile \<Rightarrow> SockFilter list option" where
  "build_program_for_profile lc policy profile =
     (let denied = denied_syscalls lc profile;
          socket_index = 6; socketpair_index = 7; clone3_index = 8; hardening_start = 9;
          allow_index = hardening_start + length denied;
          hardening_deny_index = allow_index + 1;
          clone3_deny_index = allow_index + 2;
          socket_check_start = allow_index + 3;
          raw_jump_index = socket_check_start + 2;
          domain_index = raw_jump_index + 1;
          permitted_family_index = domain_index + 5;
          raw_deny_index = domain_index + 6;
          unix_index = domain_index + 1
      in do {
           p \<leftarrow> patch_jt socket_index socket_check_start (unpatched_program lc policy denied);
           p \<leftarrow> patch_jt socketpair_index socket_check_start p;
           p \<leftarrow> patch_jt clone3_index clone3_deny_index p;
           p \<leftarrow> patch_jt raw_jump_index raw_deny_index p;
           p \<leftarrow> patch_all [hardening_start..<allow_index] hardening_deny_index p;
           patch_jt unix_index permitted_family_index p
         })"

definition build_program :: "Libc \<Rightarrow> SocketPolicy \<Rightarrow> SockFilter list option" where
  "build_program lc policy = build_program_for_profile lc policy ProfileDefault"

section \<open>The machine\<close>

text \<open>What the filter sees of a system call: the words of \<open>seccomp_data\<close> it loads.\<close>

record seccomp_data =
  nr :: "32 word"
  audit_arch :: "32 word"
  arg0 :: "32 word"
  arg1 :: "32 word"

definition load :: "seccomp_data \<Rightarrow> 32 word \<Rightarrow> 32 word option" where
  "load d off =
     (if off = 0 then Some (nr d) else if off = 4 then Some (audit_arch d)
      else if off = 16 then Some (arg0 d) else if off = 24 then Some (arg1 d) else None)"

function bpf_run :: "SockFilter list \<Rightarrow> seccomp_data \<Rightarrow> 32 word \<Rightarrow> nat \<Rightarrow> 32 word option" where
  "bpf_run prog d acc pc =
     (if pc \<ge> length prog then None
      else (let i = prog ! pc
            in case code i of
                 RET \<Rightarrow> Some (k i)
               | LD_ABS \<Rightarrow> (case load d (k i) of None \<Rightarrow> None | Some v \<Rightarrow> bpf_run prog d v (pc + 1))
               | AND_K \<Rightarrow> bpf_run prog d (acc AND k i) (pc + 1)
               | JEQ \<Rightarrow> bpf_run prog d acc (if acc = k i then pc + jt i + 1 else pc + jf i + 1)
               | JSET \<Rightarrow> bpf_run prog d acc (if acc AND k i \<noteq> 0 then pc + jt i + 1 else pc + jf i + 1)))"
  by pat_completeness auto

termination
  by (relation "measure (\<lambda>(prog, d, acc, pc). length prog - pc)") auto

declare bpf_run.simps [simp del]

section \<open>The intended decision\<close>

definition socket_verdict :: "Libc \<Rightarrow> SocketPolicy \<Rightarrow> seccomp_data \<Rightarrow> 32 word" where
  "socket_verdict lc policy d =
     (if arg1 d AND 0x0f = sock_raw lc then SECCOMP_RET_ERRNO OR eacces lc
      else if arg0 d = af_unix lc then SECCOMP_RET_ALLOW
      else if policy = UnixAndIp \<and> (arg0 d = af_inet lc \<or> arg0 d = af_inet6 lc) then SECCOMP_RET_ALLOW
      else SECCOMP_RET_ERRNO OR EAFNOSUPPORT)"

definition intended_verdict :: "Libc \<Rightarrow> SocketPolicy \<Rightarrow> SeccompProfile \<Rightarrow> seccomp_data \<Rightarrow> 32 word" where
  "intended_verdict lc policy profile d =
     (if audit_arch d \<noteq> native_audit_arch (arch lc) then SECCOMP_RET_KILL_PROCESS
      else if nr d AND X32_SYSCALL_BIT \<noteq> 0 then SECCOMP_RET_KILL_PROCESS
      else if nr d = sys lc ''socket'' \<or> nr d = sys lc ''socketpair'' then socket_verdict lc policy d
      else if nr d = sys lc ''clone3'' then SECCOMP_RET_ERRNO OR enosys lc
      else if nr d \<in> set (denied_syscalls lc profile) then SECCOMP_RET_ERRNO OR eperm lc
      else SECCOMP_RET_ALLOW)"

section \<open>Lemmas\<close>

text \<open>The patched program, written out.\<close>

definition patched_program :: "Libc \<Rightarrow> SocketPolicy \<Rightarrow> 32 word list \<Rightarrow> SockFilter list" where
  "patched_program lc policy denied =
     (let (inet_jt, inet_jf, inet6_jt, inet6_jf) = inet_offsets policy; n = length denied
      in [bpf_stmt LD_ABS 4,
          bpf_jump JEQ (native_audit_arch (arch lc)) 1 0,
          bpf_stmt RET SECCOMP_RET_KILL_PROCESS,
          bpf_stmt LD_ABS 0,
          bpf_jump JSET X32_SYSCALL_BIT 0 1,
          bpf_stmt RET SECCOMP_RET_KILL_PROCESS,
          bpf_jump JEQ (sys lc ''socket'') (n + 5) 0,
          bpf_jump JEQ (sys lc ''socketpair'') (n + 4) 0,
          bpf_jump JEQ (sys lc ''clone3'') (n + 2) 0] @
         map (\<lambda>i. bpf_jump JEQ (denied ! i) (n - i) 0) [0..<n] @
         [bpf_stmt RET SECCOMP_RET_ALLOW,
          bpf_stmt RET (SECCOMP_RET_ERRNO OR eperm lc),
          bpf_stmt RET (SECCOMP_RET_ERRNO OR enosys lc),
          bpf_stmt LD_ABS 24,
          bpf_stmt AND_K 0x0f,
          bpf_jump JEQ (sock_raw lc) 6 0,
          bpf_stmt LD_ABS 16,
          bpf_jump JEQ (af_unix lc) 3 0,
          bpf_jump JEQ (af_inet lc) inet_jt inet_jf,
          bpf_jump JEQ (af_inet6 lc) inet6_jt inet6_jf,
          bpf_stmt RET (SECCOMP_RET_ERRNO OR EAFNOSUPPORT),
          bpf_stmt RET SECCOMP_RET_ALLOW,
          bpf_stmt RET (SECCOMP_RET_ERRNO OR eacces lc)])"

lemma bpf_jump_jt [simp]: "(bpf_jump c v t f)\<lparr>jt := u\<rparr> = bpf_jump c v u f"
  by (simp add: bpf_jump_def)

text \<open>Patching a stretch of jumps between a prefix and a suffix.\<close>

lemma patch_all_stretch:
  assumes "length pre = h" and "m \<le> length ds" and "length ds < 256"
  shows "patch_all [h + m..<h + length ds] (h + length ds + 1)
      (pre @ map (\<lambda>i. bpf_jump JEQ (ds ! i) (if i < m then length ds - i else 0) 0) [0..<length ds] @ post) =
    Some (pre @ map (\<lambda>i. bpf_jump JEQ (ds ! i) (length ds - i) 0) [0..<length ds] @ post)"
  using assms(2)
proof (induction "length ds - m" arbitrary: m)
  case 0
  then have "m = length ds" by simp
  then show ?case by (simp cong: map_cong)
next
  case (Suc x)
  let ?n = "length ds"
  let ?row = "\<lambda>m. map (\<lambda>i. bpf_jump JEQ (ds ! i) (if i < m then ?n - i else 0) 0) [0..<?n]"
  from Suc have m: "m < ?n" by simp
  have off: "jump_offset (h + m) (h + ?n + 1) = Some (?n - m)"
    using m assms(3) by (simp add: jump_offset_def)
  have upd: "(?row m)[m := bpf_jump JEQ (ds ! m) (?n - m) 0] = ?row (Suc m)"
    by (rule nth_equalityI) (use m in \<open>auto simp: nth_list_update less_Suc_eq\<close>)
  have "patch_jt (h + m) (h + ?n + 1) (pre @ ?row m @ post) = Some (pre @ ?row (Suc m) @ post)"
    using m assms(1) off upd
    by (simp add: patch_jt_def list_update_append nth_append)
  moreover have "[h + m..<h + ?n] = (h + m) # [h + Suc m..<h + ?n]"
    using m by (simp add: upt_conv_Cons)
  ultimately show ?case using Suc.hyps(1) [of "Suc m"] Suc.hyps(2) m by simp
qed

lemma patch_prefix:
  assumes "i < length xs" and "jump_offset i target = Some off"
  shows "patch_jt i target (xs @ ys) = Some (xs[i := (xs ! i)\<lparr>jt := off\<rparr>] @ ys)"
  using assms by (simp add: patch_jt_def list_update_append1 nth_append)

lemma patch_suffix:
  assumes "i = length xs + length ys + j" and "j < length zs" and "jump_offset i target = Some off"
  shows "patch_jt i target (xs @ ys @ zs) = Some (xs @ ys @ zs[j := (zs ! j)\<lparr>jt := off\<rparr>])"
  using assms by (simp add: patch_jt_def list_update_append nth_append)

lemma length_denied_syscalls: "length (denied_syscalls lc profile) \<le> 49"
  by (cases "arch lc") (simp_all add: denied_syscalls_def HARDENING_SYSCALLS_def AGENT_MIN_COMMON_def)

definition head_code :: "Libc \<Rightarrow> nat \<Rightarrow> nat \<Rightarrow> nat \<Rightarrow> SockFilter list" where
  "head_code lc s p c =
     [bpf_stmt LD_ABS 4, bpf_jump JEQ (native_audit_arch (arch lc)) 1 0,
      bpf_stmt RET SECCOMP_RET_KILL_PROCESS, bpf_stmt LD_ABS 0, bpf_jump JSET X32_SYSCALL_BIT 0 1,
      bpf_stmt RET SECCOMP_RET_KILL_PROCESS, bpf_jump JEQ (sys lc ''socket'') s 0,
      bpf_jump JEQ (sys lc ''socketpair'') p 0, bpf_jump JEQ (sys lc ''clone3'') c 0]"

definition tail_code :: "Libc \<Rightarrow> SocketPolicy \<Rightarrow> nat \<Rightarrow> nat \<Rightarrow> SockFilter list" where
  "tail_code lc policy r u =
     (let (inet_jt, inet_jf, inet6_jt, inet6_jf) = inet_offsets policy
      in [bpf_stmt RET SECCOMP_RET_ALLOW, bpf_stmt RET (SECCOMP_RET_ERRNO OR eperm lc),
          bpf_stmt RET (SECCOMP_RET_ERRNO OR enosys lc), bpf_stmt LD_ABS 24, bpf_stmt AND_K 0x0f,
          bpf_jump JEQ (sock_raw lc) r 0, bpf_stmt LD_ABS 16, bpf_jump JEQ (af_unix lc) u 0,
          bpf_jump JEQ (af_inet lc) inet_jt inet_jf, bpf_jump JEQ (af_inet6 lc) inet6_jt inet6_jf,
          bpf_stmt RET (SECCOMP_RET_ERRNO OR EAFNOSUPPORT), bpf_stmt RET SECCOMP_RET_ALLOW,
          bpf_stmt RET (SECCOMP_RET_ERRNO OR eacces lc)])"

lemma program_parts:
  "unpatched_program lc policy ds =
     head_code lc 0 0 0 @ map (\<lambda>nr. bpf_jump JEQ nr 0 0) ds @ tail_code lc policy 0 0"
  "patched_program lc policy ds =
     head_code lc (length ds + 5) (length ds + 4) (length ds + 2) @
     map (\<lambda>i. bpf_jump JEQ (ds ! i) (length ds - i) 0) [0..<length ds] @ tail_code lc policy 6 3"
  by (simp_all add: unpatched_program_def patched_program_def head_code_def tail_code_def Let_def
      split: prod.splits)

lemma head_code_patch:
  "(head_code lc s p c)[6 := (head_code lc s p c ! 6)\<lparr>jt := v\<rparr>] = head_code lc v p c"
  "(head_code lc s p c)[7 := (head_code lc s p c ! 7)\<lparr>jt := v\<rparr>] = head_code lc s v c"
  "(head_code lc s p c)[8 := (head_code lc s p c ! 8)\<lparr>jt := v\<rparr>] = head_code lc s p v"
  by (simp_all add: head_code_def numeral_eq_Suc)

lemma tail_code_patch:
  "(tail_code lc policy r u)[5 := (tail_code lc policy r u ! 5)\<lparr>jt := v\<rparr>] = tail_code lc policy v u"
  "(tail_code lc policy r u)[7 := (tail_code lc policy r u ! 7)\<lparr>jt := v\<rparr>] = tail_code lc policy r v"
  by (cases policy; simp add: tail_code_def numeral_eq_Suc)+

lemma code_lengths [simp]: "length (head_code lc s p c) = 9" "length (tail_code lc policy r u) = 13"
  by (cases policy; simp add: head_code_def tail_code_def)+

lemma build_program_patched:
  "build_program_for_profile lc policy profile =
   Some (patched_program lc policy (denied_syscalls lc profile))"
proof -
  define ds where "ds = denied_syscalls lc profile"
  define n where "n = length ds"
  have n: "n \<le> 49" using length_denied_syscalls by (simp add: n_def ds_def)
  let ?row = "map (\<lambda>nr. bpf_jump JEQ nr 0 0) ds"
  have row: "?row = map (\<lambda>i. bpf_jump JEQ (ds ! i) (if i < 0 then n - i else 0) 0) [0..<n]"
    by (rule nth_equalityI) (simp_all add: n_def)
  have j: "jump_offset 6 (9 + n + 3) = Some (n + 5)" "jump_offset 7 (9 + n + 3) = Some (n + 4)"
    "jump_offset 8 (9 + n + 2) = Some (n + 2)" "jump_offset (9 + n + 3 + 2) (9 + n + 3 + 2 + 1 + 6) = Some 6"
    "jump_offset (9 + n + 3 + 2 + 1 + 1) (9 + n + 3 + 2 + 1 + 5) = Some 3"
    using n by (simp_all add: jump_offset_def)
  have p: "patch_jt 6 (9 + n + 3) (head_code lc s p c @ X) = Some (head_code lc (n + 5) p c @ X)"
    "patch_jt 7 (9 + n + 3) (head_code lc s p c @ X) = Some (head_code lc s (n + 4) c @ X)"
    "patch_jt 8 (9 + n + 2) (head_code lc s p c @ X) = Some (head_code lc s p (n + 2) @ X)" for s p c X
    using patch_prefix [of _ "head_code lc s p c"] j(1-3) by (simp_all add: head_code_patch)
  have q: "patch_jt (9 + n + 3 + 2) (9 + n + 3 + 2 + 1 + 6) (head_code lc s p c @ R @ tail_code lc policy r u) =
      Some (head_code lc s p c @ R @ tail_code lc policy 6 u)"
    "patch_jt (9 + n + 3 + 2 + 1 + 1) (9 + n + 3 + 2 + 1 + 5) (head_code lc s p c @ R @ tail_code lc policy r u) =
      Some (head_code lc s p c @ R @ tail_code lc policy r 3)"
    if "length R = n" for s p c r u R
    using patch_suffix [OF _ _ j(4), of "head_code lc s p c" R 5 "tail_code lc policy r u"]
      patch_suffix [OF _ _ j(5), of "head_code lc s p c" R 7 "tail_code lc policy r u"] that
    by (simp_all add: tail_code_patch)
  have a: "patch_all [9..<9 + n] (9 + n + 1) (head_code lc s p c @ ?row @ Z) =
      Some (head_code lc s p c @ map (\<lambda>i. bpf_jump JEQ (ds ! i) (n - i) 0) [0..<n] @ Z)" for s p c Z
    unfolding row using patch_all_stretch [of "head_code lc s p c" 9 0 ds Z] n by (simp add: n_def)
  have "length ?row = n" by (simp add: n_def)
  then show ?thesis
    unfolding build_program_for_profile_def Let_def ds_def [symmetric] n_def [symmetric] program_parts
    by (simp only: p q a bind.bind_lunit length_map length_upt diff_zero)
qed

section \<open>Running the program\<close>

lemma bpf_step:
  assumes "b + j < length prog" and "prog ! (b + j) = i"
  shows "bpf_run prog d acc (b + j) =
     (case code i of
        RET \<Rightarrow> Some (k i)
      | LD_ABS \<Rightarrow> (case load d (k i) of None \<Rightarrow> None | Some v \<Rightarrow> bpf_run prog d v (b + (j + 1)))
      | AND_K \<Rightarrow> bpf_run prog d (acc AND k i) (b + (j + 1))
      | JEQ \<Rightarrow> bpf_run prog d acc (b + (if acc = k i then j + jt i + 1 else j + jf i + 1))
      | JSET \<Rightarrow> bpf_run prog d acc (b + (if acc AND k i \<noteq> 0 then j + jt i + 1 else j + jf i + 1)))"
  using assms
  by (subst bpf_run.simps) (auto simp: Let_def add.assoc split: opcode.split option.split)

lemmas instr_simps = bpf_stmt_def bpf_jump_def load_def

lemma patched_nth:
  fixes lc policy ds
  defines "P \<equiv> patched_program lc policy ds" and "n \<equiv> length ds"
  shows "length P = n + 22"
    and "pc < 9 \<Longrightarrow> P ! pc = head_code lc (n + 5) (n + 4) (n + 2) ! pc"
    and "i < n \<Longrightarrow> P ! (9 + i) = bpf_jump JEQ (ds ! i) (n - i) 0"
    and "j < 13 \<Longrightarrow> P ! (9 + n + j) = tail_code lc policy 6 3 ! j"
  by (simp_all add: P_def n_def program_parts nth_append)

lemma run_tail:
  fixes lc policy ds d
  defines "P \<equiv> patched_program lc policy ds" and "n \<equiv> length ds"
  shows "bpf_run P d acc (9 + n) = Some SECCOMP_RET_ALLOW"
    and "bpf_run P d acc (9 + n + 1) = Some (SECCOMP_RET_ERRNO OR eperm lc)"
    and "bpf_run P d acc (9 + n + 2) = Some (SECCOMP_RET_ERRNO OR enosys lc)"
    and "bpf_run P d acc (9 + n + 3) = Some (socket_verdict lc policy d)"
proof -
  note nth = patched_nth(1,4) [where lc = lc and policy = policy and ds = ds, folded P_def n_def]
  have at: "bpf_run P d acc (9 + n + j) =
     (case code (tail_code lc policy 6 3 ! j) of
        RET \<Rightarrow> Some (k (tail_code lc policy 6 3 ! j))
      | LD_ABS \<Rightarrow> (case load d (k (tail_code lc policy 6 3 ! j)) of
                      None \<Rightarrow> None | Some v \<Rightarrow> bpf_run P d v (9 + n + (j + 1)))
      | AND_K \<Rightarrow> bpf_run P d (acc AND k (tail_code lc policy 6 3 ! j)) (9 + n + (j + 1))
      | JEQ \<Rightarrow> bpf_run P d acc (9 + n + (if acc = k (tail_code lc policy 6 3 ! j)
                  then j + jt (tail_code lc policy 6 3 ! j) + 1 else j + jf (tail_code lc policy 6 3 ! j) + 1))
      | JSET \<Rightarrow> bpf_run P d acc (9 + n + (if acc AND k (tail_code lc policy 6 3 ! j) \<noteq> 0
                  then j + jt (tail_code lc policy 6 3 ! j) + 1 else j + jf (tail_code lc policy 6 3 ! j) + 1)))"
    if "j < 13" for j acc
    by (rule bpf_step) (use nth that in simp_all)
  have ret: "bpf_run P d acc (9 + n + 10) = Some (SECCOMP_RET_ERRNO OR EAFNOSUPPORT)"
    "bpf_run P d acc (9 + n + 11) = Some SECCOMP_RET_ALLOW"
    "bpf_run P d acc (9 + n + 12) = Some (SECCOMP_RET_ERRNO OR eacces lc)" for acc
    by (subst at; cases policy; simp add: tail_code_def instr_simps)+
  have inet6: "bpf_run P d acc (9 + n + 9) =
      Some (if policy = UnixAndIp \<and> acc = af_inet6 lc then SECCOMP_RET_ALLOW
            else SECCOMP_RET_ERRNO OR EAFNOSUPPORT)" for acc
    by (subst at; cases policy) (simp_all add: tail_code_def instr_simps ret [simplified])
  show "bpf_run P d acc (9 + n) = Some SECCOMP_RET_ALLOW"
    using at [of 0] by (cases policy) (simp_all add: tail_code_def instr_simps)
  show "bpf_run P d acc (9 + n + 1) = Some (SECCOMP_RET_ERRNO OR eperm lc)"
    "bpf_run P d acc (9 + n + 2) = Some (SECCOMP_RET_ERRNO OR enosys lc)"
    using at [of 1] at [of 2] by (cases policy; simp add: tail_code_def instr_simps)+
  have inet: "bpf_run P d acc (9 + n + 8) =
      Some (if policy = UnixAndIp \<and> (acc = af_inet lc \<or> acc = af_inet6 lc) then SECCOMP_RET_ALLOW
            else SECCOMP_RET_ERRNO OR EAFNOSUPPORT)" for acc
    by (subst at; cases policy)
       (simp_all add: tail_code_def instr_simps ret [simplified] inet6 [simplified])
  have family: "bpf_run P d acc (9 + n + 6) =
      Some (if arg0 d = af_unix lc then SECCOMP_RET_ALLOW
            else if policy = UnixAndIp \<and> (arg0 d = af_inet lc \<or> arg0 d = af_inet6 lc)
            then SECCOMP_RET_ALLOW else SECCOMP_RET_ERRNO OR EAFNOSUPPORT)" for acc
    using at [of 6 acc] at [of 7 "arg0 d"]
    by (cases policy) (simp_all add: tail_code_def instr_simps inet [simplified] ret [simplified])
  show "bpf_run P d acc (9 + n + 3) = Some (socket_verdict lc policy d)"
    using at [of 3 acc] at [of 4 "arg1 d"] at [of 5 "arg1 d AND 15"]
    by (cases policy)
       (simp_all add: tail_code_def instr_simps socket_verdict_def family [simplified] ret [simplified])
qed

lemma run_hardening:
  fixes lc policy ds d
  defines "P \<equiv> patched_program lc policy ds" and "n \<equiv> length ds"
  assumes "m \<le> n"
  shows "bpf_run P d acc (9 + m) =
    Some (if acc \<in> set (drop m ds) then SECCOMP_RET_ERRNO OR eperm lc else SECCOMP_RET_ALLOW)"
  using assms(3)
proof (induction "n - m" arbitrary: m)
  case 0
  then have "m = n" by simp
  then show ?case using run_tail(1) [of lc policy ds d acc] by (simp add: P_def n_def)
next
  case (Suc x)
  then have m: "m < n" by simp
  have i: "P ! (9 + m) = bpf_jump JEQ (ds ! m) (n - m) 0"
    using patched_nth(3) [of m ds lc policy] m by (simp add: P_def n_def)
  have "9 + m < length P" using patched_nth(1) [of lc policy ds] m by (simp add: P_def n_def)
  from bpf_step [OF this i, of d acc]
  have "bpf_run P d acc (9 + m) =
      (if acc = ds ! m then bpf_run P d acc (9 + n + 1) else bpf_run P d acc (9 + Suc m))"
    using m by (simp add: bpf_jump_def)
  moreover have "set (drop m ds) = insert (ds ! m) (set (drop (Suc m) ds))"
    using m by (simp add: n_def Cons_nth_drop_Suc [symmetric])
  moreover have "bpf_run P d acc (9 + n + 1) = Some (SECCOMP_RET_ERRNO OR eperm lc)"
    unfolding P_def n_def by (rule run_tail(2))
  moreover have "bpf_run P d acc (9 + Suc m) =
      Some (if acc \<in> set (drop (Suc m) ds) then SECCOMP_RET_ERRNO OR eperm lc else SECCOMP_RET_ALLOW)"
    using Suc m by (intro Suc.hyps(1)) simp_all
  ultimately show ?case by (cases "acc = ds ! m") simp_all
qed

lemma run_program:
  fixes lc policy ds d
  defines "P \<equiv> patched_program lc policy ds"
  shows "bpf_run P d 0 0 =
    Some (if audit_arch d \<noteq> native_audit_arch (arch lc) then SECCOMP_RET_KILL_PROCESS
      else if nr d AND X32_SYSCALL_BIT \<noteq> 0 then SECCOMP_RET_KILL_PROCESS
      else if nr d = sys lc ''socket'' \<or> nr d = sys lc ''socketpair'' then socket_verdict lc policy d
      else if nr d = sys lc ''clone3'' then SECCOMP_RET_ERRNO OR enosys lc
      else if nr d \<in> set ds then SECCOMP_RET_ERRNO OR eperm lc
      else SECCOMP_RET_ALLOW)"
proof -
  define n where "n = length ds"
  define H where "H = head_code lc (n + 5) (n + 4) (n + 2)"
  have len: "length P = n + 22" and at: "pc < 9 \<Longrightarrow> P ! pc = H ! pc" for pc
    using patched_nth(1) [of lc policy ds] patched_nth(2) [of pc lc policy ds]
    by (simp_all add: P_def n_def H_def)
  have step: "bpf_run P d acc (0 + pc) =
     (case code (H ! pc) of
        RET \<Rightarrow> Some (k (H ! pc))
      | LD_ABS \<Rightarrow> (case load d (k (H ! pc)) of None \<Rightarrow> None | Some v \<Rightarrow> bpf_run P d v (0 + (pc + 1)))
      | AND_K \<Rightarrow> bpf_run P d (acc AND k (H ! pc)) (0 + (pc + 1))
      | JEQ \<Rightarrow> bpf_run P d acc (0 + (if acc = k (H ! pc) then pc + jt (H ! pc) + 1 else pc + jf (H ! pc) + 1))
      | JSET \<Rightarrow> bpf_run P d acc
                 (0 + (if acc AND k (H ! pc) \<noteq> 0 then pc + jt (H ! pc) + 1 else pc + jf (H ! pc) + 1)))"
    if "pc < 9" for pc acc
    by (rule bpf_step) (use that at len in simp_all)
  have tail: "bpf_run P d acc (n + 12) = Some (socket_verdict lc policy d)"
    "bpf_run P d acc (n + 11) = Some (SECCOMP_RET_ERRNO OR enosys lc)"
    "bpf_run P d acc 9 = Some (if acc \<in> set ds then SECCOMP_RET_ERRNO OR eperm lc else SECCOMP_RET_ALLOW)"
    for acc
    using run_tail(3,4) [of lc policy ds d acc] run_hardening [of 0 ds lc policy d acc]
    by (simp_all add: P_def n_def add.commute)
  have c8: "bpf_run P d acc 8 =
      Some (if acc = sys lc ''clone3'' then SECCOMP_RET_ERRNO OR enosys lc
        else if acc \<in> set ds then SECCOMP_RET_ERRNO OR eperm lc else SECCOMP_RET_ALLOW)" for acc
    using step [of 8 acc] by (simp add: H_def head_code_def instr_simps tail add.commute)
  have c7: "bpf_run P d acc 7 =
      (if acc = sys lc ''socketpair'' then Some (socket_verdict lc policy d) else bpf_run P d acc 8)" for acc
    using step [of 7 acc] by (simp add: H_def head_code_def instr_simps tail add.commute)
  have c6: "bpf_run P d acc 6 =
      (if acc = sys lc ''socket'' then Some (socket_verdict lc policy d) else bpf_run P d acc 7)" for acc
    using step [of 6 acc] by (simp add: H_def head_code_def instr_simps tail add.commute)
  have c4: "bpf_run P d acc 4 =
      (if acc AND X32_SYSCALL_BIT \<noteq> 0 then Some SECCOMP_RET_KILL_PROCESS else bpf_run P d acc 6)" for acc
    using step [of 4 acc] step [of 5 acc] by (simp add: H_def head_code_def instr_simps)
  have c3: "bpf_run P d acc 3 = bpf_run P d (nr d) 4" for acc
    using step [of 3 acc] by (simp add: H_def head_code_def instr_simps)
  have c2: "bpf_run P d acc 2 = Some SECCOMP_RET_KILL_PROCESS" for acc
    using step [of 2 acc] by (simp add: H_def head_code_def instr_simps numeral_2_eq_2)
  have c1: "bpf_run P d acc 1 =
      (if acc = native_audit_arch (arch lc) then bpf_run P d acc 3 else bpf_run P d acc 2)" for acc
    using step [of 1 acc] by (simp add: H_def head_code_def instr_simps numeral_eq_Suc)
  have c0: "bpf_run P d acc 0 = bpf_run P d (audit_arch d) 1" for acc
    using step [of 0 acc] by (simp add: H_def head_code_def instr_simps)
  show ?thesis unfolding c0 c1 c2 c3 c4 c6 c7 c8 by simp
qed

section \<open>Properties\<close>

definition sample_libc :: Libc where
  "sample_libc =
     \<lparr>arch = X86_64, sys = (\<lambda>s. if s = ''socket'' then 41 else if s = ''socketpair'' then 53
        else if s = ''clone3'' then 435 else 165), af_unix = 1, af_inet = 2, af_inet6 = 10,
      sock_raw = 3, eperm = 1, enosys = 38, eacces = 13\<rparr>"

text \<open>
  Property C4 (the seccomp filter decides as intended). For every architecture, every
  assignment of system call numbers and constants, every socket policy and profile, assembling
  the filter succeeds (no jump offset overflows its byte), the filter fits the kernel's limit,
  and the BPF machine, started on it, returns for every system call: it kills foreign and x32
  calls, decides \<open>socket\<close> and \<open>socketpair\<close> by type and family, answers \<open>clone3\<close> with
  ENOSYS and the listed calls with EPERM, and allows everything else.
\<close>

theorem seccomp_filter_decides:
  "\<exists>prog. build_program_for_profile lc policy profile = Some prog \<and> length prog \<le> 4096 \<and>
     (\<forall>i \<in> set prog. jt i < 256 \<and> jf i < 256) \<and>
     (\<forall>d. bpf_run prog d 0 0 = Some (intended_verdict lc policy profile d))"
proof (intro exI conjI)
  let ?ds = "denied_syscalls lc profile"
  let ?P = "patched_program lc policy ?ds"
  show "build_program_for_profile lc policy profile = Some ?P" by (rule build_program_patched)
  have n: "length ?ds \<le> 49" by (rule length_denied_syscalls)
  then show "length ?P \<le> 4096" using patched_nth(1) [of lc policy ?ds] by simp
  show "\<forall>i \<in> set ?P. jt i < 256 \<and> jf i < 256"
    using n by (cases policy) (auto simp: program_parts head_code_def tail_code_def instr_simps)
  show "\<forall>d. bpf_run ?P d 0 0 = Some (intended_verdict lc policy profile d)"
    using run_program [of lc policy ?ds] by (simp add: intended_verdict_def)
qed

theorem seccomp_filter_decides_witness:
  "\<exists>prog. build_program_for_profile sample_libc UnixOnly AgentMin = Some prog \<and>
     bpf_run prog \<lparr>nr = 165, audit_arch = 0xC000003E, arg0 = 0, arg1 = 0\<rparr> 0 0 =
       Some (SECCOMP_RET_ERRNO OR 1) \<and>
     bpf_run prog \<lparr>nr = 165, audit_arch = 0x40000003, arg0 = 0, arg1 = 0\<rparr> 0 0 =
       Some SECCOMP_RET_KILL_PROCESS"
  using seccomp_filter_decides [of sample_libc UnixOnly AgentMin]
  by (auto simp: intended_verdict_def sample_libc_def denied_syscalls_def HARDENING_SYSCALLS_def X32_SYSCALL_BIT_def)

text \<open>
  No network socket without the relay. Under the default policy of the sandbox,
  on a host where the socket families and the calls involved have distinct numbers, no
  program can create a socket outside \<open>AF_UNIX\<close>, whatever its type; with the relay, IPv4 and
  IPv6 stream sockets are allowed and raw sockets still are not.
\<close>

theorem seccomp_blocks_network:
  assumes "build_program lc UnixOnly = Some p" and "build_program lc UnixAndIp = Some q"
    and "nr d = sys lc ''socket''" and "audit_arch d = native_audit_arch (arch lc)"
    and "nr d AND X32_SYSCALL_BIT = 0" and "arg0 d \<noteq> af_unix lc"
  shows "bpf_run p d 0 0 =
      Some (if arg1 d AND 0x0f = sock_raw lc then SECCOMP_RET_ERRNO OR eacces lc
            else SECCOMP_RET_ERRNO OR EAFNOSUPPORT) \<and>
    (arg0 d \<in> {af_inet lc, af_inet6 lc} \<and> arg1 d AND 0x0f \<noteq> sock_raw lc \<longrightarrow>
       bpf_run q d 0 0 = Some SECCOMP_RET_ALLOW) \<and>
    (arg1 d AND 0x0f = sock_raw lc \<longrightarrow> bpf_run q d 0 0 = Some (SECCOMP_RET_ERRNO OR eacces lc))"
  using assms run_program [of lc UnixOnly "denied_syscalls lc ProfileDefault" d]
    run_program [of lc UnixAndIp "denied_syscalls lc ProfileDefault" d]
  by (auto simp: build_program_def build_program_patched socket_verdict_def)

theorem seccomp_blocks_network_witness:
  "\<exists>p. build_program sample_libc UnixOnly = Some p \<and>
     bpf_run p \<lparr>nr = 41, audit_arch = 0xC000003E, arg0 = 2, arg1 = 1\<rparr> 0 0 =
       Some (SECCOMP_RET_ERRNO OR EAFNOSUPPORT)"
proof -
  obtain p q where p: "build_program sample_libc UnixOnly = Some p"
    and q: "build_program sample_libc UnixAndIp = Some q"
    by (simp add: build_program_def build_program_patched)
  have x: "(41 :: 32 word) AND X32_SYSCALL_BIT = 0" "(1 :: 32 word) AND 15 \<noteq> 3"
    by (simp_all add: X32_SYSCALL_BIT_def)
  from seccomp_blocks_network [OF p q, of "\<lparr>nr = 41, audit_arch = 0xC000003E, arg0 = 2, arg1 = 1\<rparr>"]
  show ?thesis using p x by (auto simp: sample_libc_def)
qed

end
