(* ===== verification/Relay.thy ===== *)
theory Relay
  imports Authorize "HOL-Library.AList"
begin

text \<open>
  The decisions of the egress broker, \<open>src/src/sandbox/linux/net_relay.rs\<close>, and the guard on
  loopback debug ports, \<open>src/src/sandbox/linux/debug_guard.rs\<close>. The broker's process-wide
  state (transfer statistics, the cache of interactive answers, the targets it was asked to
  persist, the notices it published) is the record \<open>BrokerState\<close>; hash maps are association
  lists, of which the code observes only lookups, sums and a sort by length. The terminal, the
  name resolution and the sockets are parameters: \<open>Terminal_io\<close> gives what the user is able to
  answer, \<open>resolver\<close> what \<open>to_socket_addrs\<close> returns, \<open>Dialer\<close> which connections succeed.

  The lemmas show which requests the broker admits, that no connection it makes reaches a
  metadata endpoint or a non-public address outside the configured blocks, that an exhausted
  quota and an unanswered question deny, and that the proxy credentials are encoded reversibly.
\<close>

section \<open>The debug port guard\<close>

definition CHROME_DEVTOOLS_PORTS :: "nat list" where "CHROME_DEVTOOLS_PORTS = [9222, 9223]"
definition NODE_INSPECT_PORTS :: "nat list" where "NODE_INSPECT_PORTS = [9229, 9230]"
definition PYTHON_DEBUGPY_PORTS :: "nat list" where "PYTHON_DEBUGPY_PORTS = [5678]"

datatype DebugPortVerdict = DebugAllowed | Blocked nat string

record DebugPortGuard =
  guard_config :: DebugPortConfig
  session_token :: string
  whitelisted :: "nat list"

definition with_token :: "DebugPortConfig \<Rightarrow> string \<Rightarrow> DebugPortGuard" where
  "with_token cfg token =
     \<lparr>guard_config = cfg, session_token = token, whitelisted = debug_allowed_ports cfg\<rparr>"

definition is_debug_port :: "DebugPortGuard \<Rightarrow> nat \<Rightarrow> bool" where
  "is_debug_port g port =
     (if isolate_devtools (guard_config g) \<and> port \<in> set CHROME_DEVTOOLS_PORTS then True
      else if isolate_node_inspect (guard_config g) \<and> port \<in> set NODE_INSPECT_PORTS then True
      else if isolate_debugpy (guard_config g) \<and> port \<in> set PYTHON_DEBUGPY_PORTS then True
      else False)"

definition identify_service :: "nat \<Rightarrow> string option" where
  "identify_service port =
     (if port \<in> set CHROME_DEVTOOLS_PORTS then Some ''Chrome DevTools''
      else if port \<in> set NODE_INSPECT_PORTS then Some ''Node.js Inspector''
      else if port \<in> set PYTHON_DEBUGPY_PORTS then Some ''Python debugpy''
      else None)"

definition check_access :: "DebugPortGuard \<Rightarrow> nat \<Rightarrow> string option \<Rightarrow> DebugPortVerdict" where
  "check_access g port token_candidate =
     (if port \<in> set (whitelisted g) then DebugAllowed
      else if (case token_candidate of Some token \<Rightarrow> trim token = session_token g | None \<Rightarrow> False)
      then DebugAllowed
      else if isolate_devtools (guard_config g) \<and> port \<in> set CHROME_DEVTOOLS_PORTS
      then Blocked port ''Chrome DevTools''
      else if isolate_node_inspect (guard_config g) \<and> port \<in> set NODE_INSPECT_PORTS
      then Blocked port ''Node.js Inspector''
      else if isolate_debugpy (guard_config g) \<and> port \<in> set PYTHON_DEBUGPY_PORTS
      then Blocked port ''Python debugpy''
      else DebugAllowed)"

section \<open>Broker configuration and state\<close>

datatype BrokerPolicy =
    BrokerAllowlist "string list"
  | BrokerStrict "NetRule list"
  | BrokerAsk "string list"

record BrokerConfig =
  broker_policy :: BrokerPolicy
  debug_guard :: "DebugPortGuard option"
  allow_cidr :: "string list"
  quotas :: "(string \<times> nat) list"
  block_doh :: bool
  http_proxy :: "string option"
  https_proxy :: "string option"
  no_proxy :: "string option"

record DomainStats =
  requests :: nat
  bytes_tx :: nat
  bytes_rx :: nat

record BrokerState =
  transfer_stats :: "(string \<times> DomainStats) list"
  ask_cache :: "(string \<times> bool) list"
  persisted :: "string list"
  notices :: "string list"

text \<open>What the terminal offers for a question: whether it is one, and the line read from it,
  none on an error or a timeout.\<close>

type_synonym Terminal_io = "string \<Rightarrow> nat \<Rightarrow> bool \<times> string option"

definition norm_host :: "string \<Rightarrow> string" where
  "norm_host host = to_ascii_lowercase (trim_end_matches (\<lambda>c. c = CHR ''.'') (trim host))"

definition add_domain_transfer :: "string \<Rightarrow> nat \<Rightarrow> nat \<Rightarrow> BrokerState \<Rightarrow> BrokerState" where
  "add_domain_transfer host tx rx st =
     (let key = to_ascii_lowercase (trim host);
          entry = (case map_of (transfer_stats st) key of
                     Some e \<Rightarrow> e | None \<Rightarrow> \<lparr>requests = 0, bytes_tx = 0, bytes_rx = 0\<rparr>)
      in st\<lparr>transfer_stats := AList.update key
             \<lparr>requests = (requests entry + 1) mod 2 ^ 64, bytes_tx = (bytes_tx entry + tx) mod 2 ^ 64,
              bytes_rx = (bytes_rx entry + rx) mod 2 ^ 64\<rparr> (transfer_stats st)\<rparr>)"

definition domain_matches_pattern :: "string \<Rightarrow> string \<Rightarrow> bool" where
  "domain_matches_pattern host_in pattern =
     (let host = norm_host host_in; pat = norm_host pattern
      in if pat = ''*'' then True
         else if host = pat then True
         else (case (parse_ip (strip_brackets host), cidr_parse pat) of
                 (Some ip, Inr cidr) \<Rightarrow> cidr_contains cidr ip
               | _ \<Rightarrow>
                   (case strip_prefix ''*.'' pat of
                      Some sfx \<Rightarrow> ends_with host (CHR ''.'' # sfx) \<or> host = sfx
                    | None \<Rightarrow> ends_with host (CHR ''.'' # pat))))"

definition saturating_add :: "nat \<Rightarrow> nat \<Rightarrow> nat" where
  "saturating_add a b = min (a + b) (2 ^ 64 - 1)"

definition get_quota_bytes :: "BrokerState \<Rightarrow> string \<Rightarrow> nat" where
  "get_quota_bytes st pattern =
     foldl (\<lambda>total (host, stats).
        if domain_matches_pattern host pattern
        then saturating_add total (saturating_add (bytes_tx stats) (bytes_rx stats)) else total)
       0 (transfer_stats st)"

definition find_matching_quotas :: "string \<Rightarrow> (string \<times> nat) list \<Rightarrow> (string \<times> nat) list" where
  "find_matching_quotas host qs =
     rev (sort_key (\<lambda>(pat, _). length pat)
       (rev (filter (\<lambda>(pat, _). domain_matches_pattern host pat) qs)))"

section \<open>Interactive confirmation\<close>

definition prompt_confirmation_interactive ::
  "bool \<times> string option \<Rightarrow> string \<Rightarrow> nat \<Rightarrow> BrokerState \<Rightarrow> bool \<times> BrokerState" where
  "prompt_confirmation_interactive io host port st =
     (let key = norm_host host; (is_tty, line) = io
      in if \<not> is_tty then (False, st)
         else (let (allowed, permanent) =
                 (case line of
                    Some l \<Rightarrow>
                      (let t = to_ascii_lowercase (trim l)
                       in if t = ''y'' \<or> t = ''yes'' then (True, False)
                          else if t = ''p'' \<or> t = ''perm'' \<or> t = ''permanent'' then (True, True)
                          else (False, False))
                  | None \<Rightarrow> (False, False))
               in (allowed, if permanent then st\<lparr>persisted := persisted st @ [key]\<rparr> else st)))"

definition ask_confirmation :: "Terminal_io \<Rightarrow> string \<Rightarrow> nat \<Rightarrow> BrokerState \<Rightarrow> bool \<times> BrokerState" where
  "ask_confirmation tio host port st =
     (let key = norm_host host
      in case map_of (ask_cache st) key of
           Some allowed \<Rightarrow> (allowed, st)
         | None \<Rightarrow>
             (let (allowed, st') = prompt_confirmation_interactive (tio host port) host port st
              in (allowed, st'\<lparr>ask_cache := AList.update key allowed (ask_cache st')\<rparr>)))"

section \<open>Host matching\<close>

definition domain_allowed :: "string \<Rightarrow> string list \<Rightarrow> bool" where
  "domain_allowed host_in allowlist =
     (let host = to_ascii_lowercase (strip_domain_port host_in)
      in list_ex (\<lambda>raw.
           let pat = to_ascii_lowercase (strip_domain_port raw)
           in if pat = ''*'' then True
              else (case strip_prefix ''*.'' pat of
                      Some sfx \<Rightarrow> ends_with host (CHR ''.'' # sfx)
                    | None \<Rightarrow> host = pat \<or> ends_with host (CHR ''.'' # pat))) allowlist)"

definition strict_allowed :: "string \<Rightarrow> nat \<Rightarrow> NetRule list \<Rightarrow> bool" where
  "strict_allowed host_in port rules =
     (let host = norm_host host_in
      in list_ex (\<lambda>rule.
           if rule_port rule \<noteq> port then False
           else (let pat = norm_host (rule_domain rule)
                 in if pat = ''*'' \<or> pat = [] then False
                    else (case strip_prefix ''*.'' pat of
                            Some sfx \<Rightarrow> ends_with host (CHR ''.'' # sfx)
                          | None \<Rightarrow> host = pat \<or> ends_with host (CHR ''.'' # pat)))) rules)"

definition DOH_ENDPOINTS :: "string list" where
  "DOH_ENDPOINTS =
     [''cloudflare-dns.com'', ''dns.google'', ''dns.quad9.net'', ''1.1.1.1'', ''1.0.0.1'', ''8.8.8.8'',
      ''8.8.4.4'', ''9.9.9.9'']"

definition is_doh_endpoint :: "string \<Rightarrow> bool" where
  "is_doh_endpoint host =
     list_ex (\<lambda>d. d = norm_host host \<or> ends_with (norm_host host) (CHR ''.'' # d)) DOH_ENDPOINTS"

definition is_loopback_host :: "string \<Rightarrow> bool" where
  "is_loopback_host host =
     (let h = norm_host host
      in if h = ''localhost'' then True
         else (case parse_ip (strip_brackets h) of
                 Some (V4 v4) \<Rightarrow> is_loopback_v4 v4
               | Some (V6 v6) \<Rightarrow>
                   if is_loopback_v6 v6 then True
                   else (let os = octets_v6 v6
                         in if is_v4_mapped os \<or> is_v4_compatible os
                            then is_loopback_v4 (embedded_v4 os) else False)
               | None \<Rightarrow> False))"

section \<open>The request decision\<close>

definition notice :: "string \<Rightarrow> BrokerState \<Rightarrow> BrokerState" where
  "notice message st = st\<lparr>notices := notices st @ [message]\<rparr>"

definition at_port :: "string \<Rightarrow> nat \<Rightarrow> string" where
  "at_port host port = host @ '':'' @ show_nat port"

definition parsed_cidrs :: "BrokerConfig \<Rightarrow> IpCidr list" where
  "parsed_cidrs cfg = List.map_filter (\<lambda>c. case cidr_parse c of Inr b \<Rightarrow> Some b | Inl _ \<Rightarrow> None) (allow_cidr cfg)"

text \<open>The literal check: denied with a notice, or whether the literal is explicitly allowed.\<close>

definition check_literal :: "BrokerConfig \<Rightarrow> string \<Rightarrow> nat \<Rightarrow> (string, bool) result" where
  "check_literal cfg host port =
     (case parse_ip (strip_brackets host) of
        Some ip \<Rightarrow>
          if is_cloud_metadata ip
          then Err (''blocked SSRF attempt to cloud metadata '' @ at_port host port)
          else (let by_cidr = list_ex (\<lambda>c. cidr_contains c ip) (parsed_cidrs cfg);
                    loopback = (is_loopback_host host \<and> is_loopback_ip ip)
                in if forbidden_destination ip \<and> \<not> by_cidr \<and> \<not> loopback
                   then Err (''blocked SSRF attempt to forbidden destination '' @ at_port host port)
                   else Ok (by_cidr \<or> loopback))
      | None \<Rightarrow> Ok (is_loopback_host host))"

definition policy_allows ::
  "Terminal_io \<Rightarrow> BrokerPolicy \<Rightarrow> string \<Rightarrow> nat \<Rightarrow> BrokerState \<Rightarrow> bool \<times> BrokerState" where
  "policy_allows tio pol host port st =
     (case pol of
        BrokerAllowlist domains \<Rightarrow> (domain_allowed host domains, st)
      | BrokerStrict rules \<Rightarrow> (strict_allowed host port rules, st)
      | BrokerAsk allowlist \<Rightarrow>
          if domain_allowed host allowlist then (True, st) else ask_confirmation tio host port st)"

definition request_allowed ::
  "Terminal_io \<Rightarrow> BrokerConfig \<Rightarrow> string \<Rightarrow> nat \<Rightarrow> string option \<Rightarrow> BrokerState \<Rightarrow> bool \<times> BrokerState" where
  "request_allowed tio cfg host port token st =
     (if is_loopback_host host \<and>
         (case debug_guard cfg of Some g \<Rightarrow> check_access g port token \<noteq> DebugAllowed | None \<Rightarrow> False)
      then (False, st)
      else if list_ex (\<lambda>(pat, limit). limit \<le> get_quota_bytes st pat) (find_matching_quotas host (quotas cfg))
      then (False, st)
      else (case check_literal cfg host port of
              Inl message \<Rightarrow> (False, notice message st)
            | Inr explicit \<Rightarrow>
                (let (ok, st') = (if explicit then (True, st)
                                  else policy_allows tio (broker_policy cfg) host port st)
                 in if block_doh cfg \<and> port = 853
                    then (False, notice (''blocked DoT attempt on port 853 to '' @ at_port host port) st')
                    else if block_doh cfg \<and> is_doh_endpoint host
                    then (False, notice (''blocked DoH bypass attempt to '' @ at_port host port) st')
                    else (ok, st'))))"

section \<open>Encrypted name resolution\<close>

definition DOH_DOT_DENY_IPS :: "string list" where
  "DOH_DOT_DENY_IPS =
     [''1.1.1.1'', ''1.0.0.1'', ''8.8.8.8'', ''8.8.4.4'', ''9.9.9.9'', ''149.112.112.112'',
      ''208.67.222.222'', ''208.67.220.220'', ''94.140.14.14'', ''94.140.15.15'', ''76.76.2.0'',
      ''76.76.10.0'', ''2606:4700:4700::1111'', ''2606:4700:4700::1001'', ''2001:4860:4860::8888'',
      ''2001:4860:4860::8844'', ''2620:fe::fe'', ''2620:fe::9'', ''2620:119:35::35'',
      ''2620:119:53::53'', ''2a10:50c0::ad1:ff'', ''2a10:50c0::ad2:ff'']"

definition DOH_DOT_DENY_DOMAINS :: "string list" where
  "DOH_DOT_DENY_DOMAINS =
     [''cloudflare-dns.com'', ''one.one.one.one'', ''mozilla.cloudflare-dns.com'', ''dns.cloudflare.com'',
      ''dns.google'', ''dns.google.com'', ''dns.quad9.net'', ''doh.opendns.com'', ''dns.adguard-dns.com'',
      ''unfiltered.adguard-dns.com'', ''freedns.controld.com'', ''dns.nextdns.io'']"

text \<open>\<open>ip.to_string()\<close>: dotted octets; groups in hexadecimal with the first longest run of two or
  more zero groups elided; an IPv4-mapped address keeps its dotted part.\<close>

fun show_v4 :: "ipv4 \<Rightarrow> string" where
  "show_v4 (IPv4 a b c d) = join_with ''.'' (map show_nat [a, b, c, d])"

fun show_hex :: "nat \<Rightarrow> string" where
  "show_hex n = (if n < 16 then [hex_digit n] else show_hex (n div 16) @ [hex_digit (n mod 16)])"

declare show_hex.simps [simp del]

definition show_groups :: "nat list \<Rightarrow> string" where
  "show_groups gs = join_with '':'' (map show_hex gs)"

definition zero_run :: "nat list \<Rightarrow> nat \<Rightarrow> nat" where
  "zero_run gs i = length (takeWhile (\<lambda>g. g = 0) (drop i gs))"

definition longest_run :: "nat list \<Rightarrow> nat \<times> nat" where
  "longest_run gs =
     foldl (\<lambda>(s, n) i. if zero_run gs i > n then (i, zero_run gs i) else (s, n)) (0, 0) [0..<length gs]"

fun show_v6 :: "ipv6 \<Rightarrow> string" where
  "show_v6 (IPv6 gs) =
     (if is_v4_mapped (octets_v6 (IPv6 gs)) then ''::ffff:'' @ show_v4 (embedded_v4 (octets_v6 (IPv6 gs)))
      else (let (start, n) = longest_run gs
            in if n > 1 then show_groups (take start gs) @ ''::'' @ show_groups (drop (start + n) gs)
               else show_groups gs))"

fun show_ip :: "ip_addr \<Rightarrow> string" where
  "show_ip (V4 a) = show_v4 a"
| "show_ip (V6 a) = show_v6 a"

definition is_doh_or_dot :: "string \<Rightarrow> nat \<Rightarrow> ip_addr option \<Rightarrow> bool" where
  "is_doh_or_dot host_in port ip =
     (if port = 853 then True
      else (let host = norm_host host_in
            in if list_ex (\<lambda>d. host = d \<or> ends_with host (CHR ''.'' # d)) DOH_DOT_DENY_DOMAINS then True
               else if (case parse_ip (strip_brackets host) of
                          Some a \<Rightarrow> show_ip a \<in> set DOH_DOT_DENY_IPS | None \<Rightarrow> False) then True
               else (case ip of Some a \<Rightarrow> show_ip a \<in> set DOH_DOT_DENY_IPS | None \<Rightarrow> False)))"

section \<open>Upstream proxies\<close>

definition no_proxy_item :: "string \<Rightarrow> string" where
  "no_proxy_item item =
     to_ascii_lowercase (trim_end_matches (\<lambda>c. c = CHR ''.'')
       (trim_start_matches (\<lambda>c. c = CHR ''.'') (trim item)))"

definition get_upstream_proxy :: "BrokerConfig \<Rightarrow> string \<Rightarrow> nat \<Rightarrow> string option" where
  "get_upstream_proxy cfg host port =
     (let h = norm_host host;
          bypass = (case no_proxy cfg of
                      Some np \<Rightarrow> list_ex (\<lambda>raw. let item = no_proxy_item raw
                          in item \<noteq> [] \<and> (item = ''*'' \<or> h = item \<or> ends_with h (CHR ''.'' # item)))
                        (split_on (\<lambda>c. c = CHR '','') np)
                    | None \<Rightarrow> False)
      in if bypass then None else if port = 443 then https_proxy cfg else http_proxy cfg)"

definition B64_CHARS :: string where
  "B64_CHARS = ''ABCDEFGHIJKLMNOPQRSTUVWXYZabcdefghijklmnopqrstuvwxyz0123456789+/''"

text \<open>One turn of the loop consumes three bytes; absent bytes read as zero and are padded.\<close>

definition b64_char :: "8 word \<Rightarrow> char" where
  "b64_char w = B64_CHARS ! unat w"

fun encode_base64_bytes :: "8 word list \<Rightarrow> string" where
  "encode_base64_bytes [] = []"
| "encode_base64_bytes (b0 # bs) =
     (let b1 = (if 0 < length bs then bs ! 0 else 0);
          b2 = (if 1 < length bs then bs ! 1 else 0);
          enc0 = drop_bit 2 b0;
          enc1 = push_bit 4 (b0 AND 3) OR drop_bit 4 b1;
          enc2 = push_bit 2 (b1 AND 15) OR drop_bit 6 b2;
          enc3 = b2 AND 63
      in [b64_char enc0, b64_char enc1,
          if 0 < length bs then b64_char enc2 else CHR ''='',
          if 1 < length bs then b64_char enc3 else CHR ''=''] @ encode_base64_bytes (drop 2 bs))"

definition encode_base64 :: "string \<Rightarrow> string" where
  "encode_base64 s = encode_base64_bytes (map (\<lambda>c. word_of_nat (of_char c)) s)"

definition strip_scheme :: "string \<Rightarrow> string" where
  "strip_scheme url =
     (let t = trim url;
          t = (case strip_prefix ''http://'' t of Some r \<Rightarrow> r | None \<Rightarrow> t)
      in case strip_prefix ''https://'' t of Some r \<Rightarrow> r | None \<Rightarrow> t)"

text \<open>User information, host and port of a proxy address; the port defaults to 8080.\<close>

definition proxy_parts :: "string \<Rightarrow> string option \<times> string \<times> nat" where
  "proxy_parts url =
     (let t = strip_scheme url;
          (auth, host_port) = (case split_once (CHR ''@'') t of
                                 Some (u, hp) \<Rightarrow> (Some u, hp) | None \<Rightarrow> (None, t));
          (p_host, p_port) = (case split_once (CHR '':'') host_port of
                                Some hp \<Rightarrow> hp | None \<Rightarrow> (host_port, ''8080''));
          slash = (\<lambda>c. c = CHR ''/'')
      in (auth, p_host,
          case parse_uint 16 (trim_end_matches slash (trim_start_matches slash p_port)) of
            Some n \<Rightarrow> n | None \<Rightarrow> 8080))"

definition CRLF :: string where "CRLF = [CHR 0x0D, CHR 0x0A]"

text \<open>The request \<open>connect_via_proxy\<close> writes.\<close>

definition proxy_request :: "string \<Rightarrow> string \<Rightarrow> nat \<Rightarrow> string" where
  "proxy_request url host port =
     ''CONNECT '' @ at_port host port @ '' HTTP/1.1'' @ CRLF @ ''Host: '' @ at_port host port @ CRLF @
     (case fst (proxy_parts url) of
        Some u \<Rightarrow> ''Proxy-Authorization: Basic '' @ encode_base64 u @ CRLF | None \<Rightarrow> []) @
     ''Proxy-Connection: Keep-Alive'' @ CRLF @ CRLF"

type_synonym resolver = "string \<Rightarrow> nat \<Rightarrow> ip_addr list option"

text \<open>The exemption both checks share: a loopback name that means the loopback interface, or an
  address in a configured block.\<close>

definition exempt :: "IpCidr list \<Rightarrow> string \<Rightarrow> ip_addr \<Rightarrow> bool" where
  "exempt cidrs host ip \<longleftrightarrow>
     is_loopback_host host \<and> is_loopback_ip ip \<or> list_ex (\<lambda>c. cidr_contains c ip) cidrs"

definition is_valid_proxy_target :: "resolver \<Rightarrow> IpCidr list \<Rightarrow> string \<Rightarrow> bool" where
  "is_valid_proxy_target res cidrs url =
     (let (_, p_host_raw, p_port) = proxy_parts url; p_host = strip_brackets p_host_raw
      in if p_host = [] then False
         else (case parse_ip p_host of
                 Some ip \<Rightarrow>
                   if is_cloud_metadata ip then False
                   else \<not> (\<not> exempt cidrs p_host ip \<and> forbidden_destination ip)
               | None \<Rightarrow>
                   (case res p_host p_port of
                      Some addrs \<Rightarrow>
                        \<not> list_ex (\<lambda>a. is_cloud_metadata a \<or>
                               \<not> exempt cidrs p_host a \<and> forbidden_destination a) addrs
                    | None \<Rightarrow> True)))"

section \<open>Resolving and connecting\<close>

record Dialer =
  dial :: "ip_addr \<Rightarrow> nat \<Rightarrow> bool"
  dial_proxy :: "string \<Rightarrow> string \<Rightarrow> nat \<Rightarrow> bool"

datatype Connection = Direct ip_addr nat | ViaProxy string

definition address_refused :: "IpCidr list \<Rightarrow> string \<Rightarrow> nat \<Rightarrow> ip_addr \<Rightarrow> bool" where
  "address_refused cidrs host port ip =
     (if is_cloud_metadata ip then True
      else if is_doh_or_dot host port (Some ip) then True
      else if exempt cidrs host ip then False
      else forbidden_destination ip)"

definition is_ascii_whitespace :: "char \<Rightarrow> bool" where
  "is_ascii_whitespace c \<longleftrightarrow> (of_char c :: nat) \<in> {9, 10, 12, 13, 32}"

definition literal_blocked :: "IpCidr list \<Rightarrow> string \<Rightarrow> nat \<Rightarrow> string option" where
  "literal_blocked cidrs host port =
     (case parse_ip (strip_brackets host) of
        Some ip \<Rightarrow>
          if is_cloud_metadata ip
          then Some (''blocked SSRF attempt to cloud metadata '' @ at_port host port)
          else if \<not> exempt cidrs host ip \<and> forbidden_destination ip
          then Some (''blocked SSRF attempt to forbidden destination '' @ at_port host port)
          else None
      | None \<Rightarrow> None)"

definition resolve_and_connect ::
  "resolver \<Rightarrow> Dialer \<Rightarrow> BrokerConfig \<Rightarrow> string \<Rightarrow> nat \<Rightarrow> BrokerState \<Rightarrow>
   (unit, Connection) result \<times> BrokerState" where
  "resolve_and_connect res dl cfg host_in port st =
     (let host = trim_end_matches (\<lambda>c. c = CHR ''.'') (trim host_in);
          cidrs = parsed_cidrs cfg;
          resolved = (case res host port of Some addrs \<Rightarrow> addrs | None \<Rightarrow> [])
      in if host = [] \<or> list_ex is_ascii_whitespace host then (Err (), st)
         else if is_doh_or_dot host port None then (Err (), st)
         else (case literal_blocked cidrs host port of
                 Some message \<Rightarrow> (Err (), notice message st)
               | None \<Rightarrow>
                   if list_ex (address_refused cidrs host port) resolved
                   then (Err (), notice (''blocked SSRF attempt to forbidden destination '' @ at_port host port) st)
                   else (let direct = (case find (\<lambda>a. dial dl a port) resolved of
                                         Some a \<Rightarrow> (Ok (Direct a port), st) | None \<Rightarrow> (Err (), st))
                         in case get_upstream_proxy cfg host port of
                              Some url \<Rightarrow>
                                if is_valid_proxy_target res cidrs url
                                then (if dial_proxy dl url host port then (Ok (ViaProxy url), st) else direct)
                                else (Err (), notice (''blocked SSRF attempt via forbidden upstream proxy: '' @ url) st)
                            | None \<Rightarrow> direct)))"

section \<open>Lemmas on the credentials\<close>

text \<open>The decoder of RFC 4648 with padding, the reference for the encoder.\<close>

definition b64_val :: "char \<Rightarrow> 8 word option" where
  "b64_val c = map_option (word_of_nat \<circ> fst) (find (\<lambda>(i, d). d = c) (enumerate 0 B64_CHARS))"

fun decode_base64 :: "string \<Rightarrow> 8 word list option" where
  "decode_base64 [] = Some []"
| "decode_base64 (c0 # c1 # c2 # c3 # cs) =
     (case (b64_val c0, b64_val c1, b64_val c2, b64_val c3) of
        (Some e0, Some e1, Some e2, Some e3) \<Rightarrow>
          map_option (\<lambda>bs. [push_bit 2 e0 OR drop_bit 4 e1, push_bit 4 e1 OR drop_bit 2 e2, push_bit 6 e2 OR e3] @ bs)
            (decode_base64 cs)
      | (Some e0, Some e1, Some e2, None) \<Rightarrow>
          if c3 = CHR ''='' \<and> cs = [] then Some [push_bit 2 e0 OR drop_bit 4 e1, push_bit 4 e1 OR drop_bit 2 e2] else None
      | (Some e0, Some e1, None, None) \<Rightarrow>
          if c2 = CHR ''='' \<and> c3 = CHR ''='' \<and> cs = [] then Some [push_bit 2 e0 OR drop_bit 4 e1] else None
      | _ \<Rightarrow> None)"
| "decode_base64 cs = None"

lemma b64_chars: "length B64_CHARS = 64" "distinct B64_CHARS" "CHR ''='' \<notin> set B64_CHARS"
  by code_simp+

lemma b64_val_pad: "b64_val (CHR ''='') = None"
  by code_simp

lemma b64_val_char:
  assumes "w < 64" shows "b64_val (b64_char w) = Some w"
proof -
  have i: "unat w < 64" using assms by (simp add: word_less_nat_alt)
  have "find (\<lambda>(i, d). d = B64_CHARS ! n) (enumerate 0 B64_CHARS) = Some (n, B64_CHARS ! n)" if "n < 64" for n
    unfolding find_Some_iff using that b64_chars nth_eq_iff_index_eq [OF b64_chars(2)]
    by (intro exI [of _ n]) (auto simp: nth_enumerate_eq)
  then show ?thesis using i by (simp add: b64_val_def b64_char_def)
qed

lemma and_low_bits:
  "(b :: 8 word) AND 3 = take_bit 2 b" "(b :: 8 word) AND 15 = take_bit 4 b" "(b :: 8 word) AND 63 = take_bit 6 b"
  by (simp_all add: take_bit_eq_mask mask_eq_exp_minus_1)

lemma small_word: "(\<And>n. 6 \<le> n \<Longrightarrow> n < 8 \<Longrightarrow> \<not> bit w n) \<Longrightarrow> (w :: 8 word) < 64"
proof -
  assume a: "\<And>n. 6 \<le> n \<Longrightarrow> n < 8 \<Longrightarrow> \<not> bit w n"
  have "w = take_bit 6 w"
  proof (rule bit_eqI)
    fix n assume "possible_bit TYPE(8 word) n"
    then show "bit w n = bit (take_bit 6 w) n" using a [of n] by (cases "n < 6") (auto simp: bit_take_bit_iff)
  qed
  then have "unat w = take_bit 6 (unat w)" by (metis unsigned_take_bit_eq)
  then have "unat w < 2 ^ 6" by (metis take_bit_nat_less_exp)
  then show ?thesis by (simp add: word_less_nat_alt)
qed

lemma sextets:
  fixes b0 b1 b2 :: "8 word"
  shows "drop_bit 2 b0 < 64" "push_bit 4 (take_bit 2 b0) OR drop_bit 4 b1 < 64"
    "push_bit 2 (take_bit 4 b1) OR drop_bit 6 b2 < 64" "take_bit 6 b2 < 64"
  by (rule small_word, force simp: bit_simps dest: bit_imp_le_length)+

lemma byte_index: "possible_bit TYPE(8 word) n \<Longrightarrow> n = 0 \<or> n = 1 \<or> n = 2 \<or> n = 3 \<or> n = 4 \<or> n = 5 \<or> n = 6 \<or> n = 7"
  by (auto simp: possible_bit_word)

lemma sextets_join:
  fixes b0 b1 b2 :: "8 word"
  shows "push_bit 2 (drop_bit 2 b0) OR drop_bit 4 (push_bit 4 (take_bit 2 b0) OR drop_bit 4 b1) = b0"
    "push_bit 4 (push_bit 4 (take_bit 2 b0) OR drop_bit 4 b1) OR
       drop_bit 2 (push_bit 2 (take_bit 4 b1) OR drop_bit 6 b2) = b1"
    "push_bit 6 (push_bit 2 (take_bit 4 b1) OR drop_bit 6 b2) OR take_bit 6 b2 = b2"
  by (rule bit_eqI, drule byte_index, elim disjE, simp_all add: bit_simps)+

lemma sextets_join_pad:
  fixes b0 b1 :: "8 word"
  shows "push_bit 2 (drop_bit 2 b0) OR drop_bit 4 (push_bit 4 (take_bit 2 b0)) = b0"
    "push_bit 4 (push_bit 4 (take_bit 2 b0) OR drop_bit 4 b1) OR drop_bit 2 (push_bit 2 (take_bit 4 b1)) = b1"
    "push_bit 4 (drop_bit 4 b1) OR drop_bit 2 (push_bit 2 (take_bit 4 b1)) = b1"
    "push_bit 6 (drop_bit 6 b1) OR take_bit 6 b1 = b1"
  by (rule bit_eqI, drule byte_index, elim disjE, simp_all add: bit_simps)+

lemma sextets_pad:
  fixes b :: "8 word"
  shows "push_bit 4 (take_bit 2 b) < 64" "push_bit 2 (take_bit 4 b) < 64"
  using sextets(2) [of b 0] sextets(3) [of b 0] by simp_all

lemma decode_encode_bytes: "decode_base64 (encode_base64_bytes bs) = Some bs"
proof (induction bs rule: encode_base64_bytes.induct)
  case (2 b0 bs)
  show ?case
  proof (cases bs)
    case Nil
    then show ?thesis
      by (simp add: and_low_bits b64_val_char b64_val_pad sextets sextets_pad sextets_join_pad)
  next
    case (Cons b1 cs)
    show ?thesis
    proof (cases cs)
      case Nil
      then show ?thesis using Cons
        by (simp add: and_low_bits b64_val_char b64_val_pad sextets sextets_pad sextets_join sextets_join_pad)
    next
      case (Cons b2 ds)
      with \<open>bs = b1 # cs\<close> "2.IH" [OF refl refl refl refl refl refl] show ?thesis
        by (simp add: and_low_bits b64_val_char sextets sextets_join sextets_join_pad)
    qed
  qed
qed simp

lemma length_encode_bytes: "length (encode_base64_bytes bs) = 4 * ((length bs + 2) div 3)"
proof (induction bs rule: encode_base64_bytes.induct)
  case (2 b0 bs)
  have "(5 + n) div 3 = Suc ((Suc (Suc n)) div 3)" for n :: nat by simp
  with 2 show ?case by (cases bs; cases "tl bs") (simp_all add: Let_def)
qed simp

lemma encode_alphabet: "set (encode_base64_bytes bs) \<subseteq> insert (CHR ''='') (set B64_CHARS)"
proof (induction bs rule: encode_base64_bytes.induct)
  case (2 b0 bs)
  have "b64_char w \<in> set B64_CHARS" if "w < 64" for w
    using that b64_chars(1) unfolding b64_char_def by (intro nth_mem) (simp add: word_less_nat_alt)
  with 2 show ?case by (simp add: Let_def and_low_bits sextets)
qed simp

section \<open>Lemmas on the decisions\<close>

lemma check_access_iff:
  "check_access g port tok = DebugAllowed \<longleftrightarrow>
     port \<in> set (whitelisted g) \<or> (\<exists>t. tok = Some t \<and> trim t = session_token g) \<or> \<not> is_debug_port g port"
  by (auto simp: check_access_def is_debug_port_def split: option.splits)

lemma set_find_matching_quotas:
  "set (find_matching_quotas host qs) = {(pat, limit) \<in> set qs. domain_matches_pattern host pat}"
  by (auto simp: find_matching_quotas_def)

lemma check_literal_exempt:
  "check_literal cfg host port =
     (case parse_ip (strip_brackets host) of
        Some ip \<Rightarrow>
          if is_cloud_metadata ip
          then Inl (''blocked SSRF attempt to cloud metadata '' @ at_port host port)
          else if forbidden_destination ip \<and> \<not> exempt (parsed_cidrs cfg) host ip
          then Inl (''blocked SSRF attempt to forbidden destination '' @ at_port host port)
          else Inr (exempt (parsed_cidrs cfg) host ip)
      | None \<Rightarrow> Inr (is_loopback_host host))"
  by (auto simp: check_literal_def exempt_def Let_def split: option.splits)

text \<open>What a literal or a loopback name is allowed without asking the policy.\<close>

definition explicitly_allowed :: "BrokerConfig \<Rightarrow> string \<Rightarrow> bool" where
  "explicitly_allowed cfg host =
     (case parse_ip (strip_brackets host) of
        Some ip \<Rightarrow> exempt (parsed_cidrs cfg) host ip | None \<Rightarrow> is_loopback_host host)"

lemma pattern_covers:
  "(if pat = ''*'' then True
    else (case strip_prefix ''*.'' pat of
            Some sfx \<Rightarrow> ends_with host (CHR ''.'' # sfx)
          | None \<Rightarrow> host = pat \<or> ends_with host (CHR ''.'' # pat))) \<longleftrightarrow> covers pat host"
proof (cases "strip_prefix ''*.'' pat")
  case None
  then have "\<forall>d. pat \<noteq> ''*.'' @ d" by (metis option.distinct(1) strip_prefix_Some)
  then show ?thesis using None unfolding covers_def by (auto simp: subdomain_labels)
next
  case (Some d)
  then have "pat = ''*.'' @ d" by (simp add: strip_prefix_Some)
  then show ?thesis using Some unfolding covers_def by (simp add: strict_subdomain_labels)
qed

lemma domain_allowed_covers:
  "domain_allowed host ds \<longleftrightarrow>
     (\<exists>raw \<in> set ds. covers (to_ascii_lowercase (strip_domain_port raw)) (to_ascii_lowercase (strip_domain_port host)))"
  unfolding domain_allowed_def Let_def list_ex_iff pattern_covers ..

lemma strict_allowed_covers:
  "strict_allowed host port rules \<longleftrightarrow>
     (\<exists>r \<in> set rules. rule_port r = port \<and> norm_host (rule_domain r) \<noteq> ''*'' \<and> norm_host (rule_domain r) \<noteq> [] \<and>
        covers (norm_host (rule_domain r)) (norm_host host))"
  unfolding strict_allowed_def Let_def list_ex_iff pattern_covers [symmetric] by auto

lemma request_allowed_iff:
  "fst (request_allowed tio cfg host port token st) \<longleftrightarrow>
     (is_loopback_host host \<longrightarrow> (case debug_guard cfg of Some g \<Rightarrow> check_access g port token = DebugAllowed | None \<Rightarrow> True)) \<and>
     (\<forall>(pat, limit) \<in> set (quotas cfg). domain_matches_pattern host pat \<longrightarrow> get_quota_bytes st pat < limit) \<and>
     (\<forall>ip. parse_ip (strip_brackets host) = Some ip \<longrightarrow>
        \<not> is_cloud_metadata ip \<and> (forbidden_destination ip \<longrightarrow> exempt (parsed_cidrs cfg) host ip)) \<and>
     (explicitly_allowed cfg host \<or> fst (policy_allows tio (broker_policy cfg) host port st)) \<and>
     (block_doh cfg \<longrightarrow> port \<noteq> 853 \<and> \<not> is_doh_endpoint host)"
proof -
  have q: "list_ex (\<lambda>(pat, limit). limit \<le> get_quota_bytes st pat) (find_matching_quotas host (quotas cfg)) \<longleftrightarrow>
      \<not> (\<forall>(pat, limit) \<in> set (quotas cfg). domain_matches_pattern host pat \<longrightarrow> get_quota_bytes st pat < limit)"
    unfolding list_ex_iff set_find_matching_quotas by fastforce
  show ?thesis
    unfolding request_allowed_def check_literal_exempt explicitly_allowed_def q
    by (auto simp: split: option.splits if_splits prod.splits)
qed

lemma resolve_and_connect_ok:
  assumes "resolve_and_connect res dl cfg host_in port st = (Ok conn, st')"
  defines "host \<equiv> trim_end_matches (\<lambda>c. c = CHR ''.'') (trim host_in)"
  defines "addrs \<equiv> (case res host port of Some as \<Rightarrow> as | None \<Rightarrow> [])"
  shows "\<not> is_doh_or_dot host port None" "literal_blocked (parsed_cidrs cfg) host port = None"
    "list_all (\<lambda>a. \<not> address_refused (parsed_cidrs cfg) host port a) addrs" "st' = st"
    "case conn of Direct a q \<Rightarrow> a \<in> set addrs \<and> q = port
     | ViaProxy url \<Rightarrow> get_upstream_proxy cfg host port = Some url \<and>
         is_valid_proxy_target res (parsed_cidrs cfg) url"
  using assms(1)
  unfolding resolve_and_connect_def Let_def host_def [symmetric] addrs_def [symmetric]
  by (auto simp: list_ex_iff list_all_iff dest!: find_SomeD split: if_splits option.splits)

section \<open>Lemmas on questions and quotas\<close>

lemma prompt_ask_cache [simp]: "ask_cache (snd (prompt_confirmation_interactive io host port st)) = ask_cache st"
  by (auto simp: prompt_confirmation_interactive_def Let_def split: prod.splits)

lemma ask_confirmation_caches:
  "ask_confirmation tio host port st = (ok, st') \<Longrightarrow> map_of (ask_cache st') (norm_host host) = Some ok"
  by (auto simp: ask_confirmation_def Let_def update_conv' split: option.splits prod.splits)

definition entry_bytes :: "string \<Rightarrow> string \<times> DomainStats \<Rightarrow> nat" where
  "entry_bytes pat e = (if domain_matches_pattern (fst e) pat then bytes_tx (snd e) + bytes_rx (snd e) else 0)"

lemma saturating_fold:
  "foldl (\<lambda>total (host, stats).
        if domain_matches_pattern host pat
        then saturating_add total (saturating_add (bytes_tx stats) (bytes_rx stats)) else total)
       (min n (2 ^ 64 - 1)) xs = min (n + sum_list (map (entry_bytes pat) xs)) (2 ^ 64 - 1)"
proof (induction xs arbitrary: n)
  case (Cons x xs)
  obtain h s where x: "x = (h, s)" by (cases x)
  have "saturating_add (min n (2 ^ 64 - 1)) (saturating_add a b) = min (n + (a + b)) (2 ^ 64 - 1)" for a b
    by (simp add: saturating_add_def)
  then show ?case
    using Cons.IH [of n] Cons.IH [of "n + (bytes_tx s + bytes_rx s)"]
    by (simp add: x entry_bytes_def add.assoc)
qed simp

lemma get_quota_bytes_sum:
  "get_quota_bytes st pat = min (sum_list (map (entry_bytes pat) (transfer_stats st))) (2 ^ 64 - 1)"
  using saturating_fold [of pat 0 "transfer_stats st"] by (simp add: get_quota_bytes_def)

lemma sum_update:
  assumes "distinct (map fst xs)"
  shows "sum_list (map f (AList.update k v xs)) + (case map_of xs k of Some e \<Rightarrow> f (k, e) | None \<Rightarrow> 0) =
    sum_list (map f xs) + (f (k, v) :: nat)"
  using assms
proof (induction xs)
  case (Cons x xs)
  have "k \<notin> set (map fst xs) \<Longrightarrow> map_of xs k = None" by (simp add: map_of_eq_None_iff)
  then show ?case using Cons by (cases x) (auto split: option.splits)
qed simp

definition sample_broker :: BrokerConfig where
  "sample_broker =
     \<lparr>broker_policy = BrokerAllowlist [''example.com''], debug_guard = Some (with_token default_debug_ports ''t''),
      allow_cidr = [], quotas = [(''example.com'', 100)], block_doh = True, http_proxy = None,
      https_proxy = None, no_proxy = None\<rparr>"

definition fresh_broker :: BrokerState where
  "fresh_broker = \<lparr>transfer_stats = [], ask_cache = [], persisted = [], notices = []\<rparr>"

lemma sample_names:
  "norm_host ''api.example.com'' = ''api.example.com''" "norm_host ''example.com'' = ''example.com''"
  "strip_brackets ''api.example.com'' = ''api.example.com''"
  "strip_domain_port ''api.example.com'' = ''api.example.com''" "strip_domain_port ''example.com'' = ''example.com''"
  "to_ascii_lowercase ''api.example.com'' = ''api.example.com''" "to_ascii_lowercase ''example.com'' = ''example.com''"
  "suffix (labels ''example.com'') (labels ''api.example.com'')"
  "strip_brackets ''[::ffff:169.254.169.254]'' = ''::ffff:169.254.169.254''"
  "\<not> is_doh_endpoint ''api.example.com''"
  by code_simp+

lemma sample_parse:
  "parse_ip ''api.example.com'' = None"
  "parse_ip ''::ffff:169.254.169.254'' = Some (V6 (IPv6 [0, 0, 0, 0, 0, 65535, 43518, 43518]))"
  by (simp_all add: parse_defs)

section \<open>Properties\<close>

text \<open>
  Property C27 (the broker's request decision). A request is admitted exactly when: a loopback
  host asks for an isolated debug port only with the session token or a whitelisted port;
  every quota that matches the host has bytes left; a literal address is no metadata endpoint
  and, if it is not public, is exempt; the host is exempt or the policy admits it, label by
  label for an allowlist, together with the exact port for strict rules; and with the block on
  encrypted name resolution neither its port nor its endpoints are asked for.
\<close>

theorem broker_request_decision:
  fixes cfg :: BrokerConfig
  defines "cidrs \<equiv> parsed_cidrs cfg"
  shows "fst (request_allowed tio cfg host port token st) \<longleftrightarrow>
    (is_loopback_host host \<longrightarrow>
       (\<forall>g. debug_guard cfg = Some g \<and> is_debug_port g port \<longrightarrow>
          port \<in> set (whitelisted g) \<or> (\<exists>t. token = Some t \<and> trim t = session_token g))) \<and>
    (\<forall>(pat, limit) \<in> set (quotas cfg). domain_matches_pattern host pat \<longrightarrow> get_quota_bytes st pat < limit) \<and>
    (\<forall>ip. parse_ip (strip_brackets host) = Some ip \<longrightarrow>
       \<not> is_cloud_metadata ip \<and> (forbidden_destination ip \<longrightarrow> exempt cidrs host ip)) \<and>
    (explicitly_allowed cfg host \<or>
     (case broker_policy cfg of
        BrokerAllowlist ds \<Rightarrow>
          \<exists>raw \<in> set ds. covers (to_ascii_lowercase (strip_domain_port raw)) (to_ascii_lowercase (strip_domain_port host))
      | BrokerStrict rules \<Rightarrow>
          \<exists>r \<in> set rules. rule_port r = port \<and> norm_host (rule_domain r) \<noteq> ''*'' \<and>
            norm_host (rule_domain r) \<noteq> [] \<and> covers (norm_host (rule_domain r)) (norm_host host)
      | BrokerAsk ds \<Rightarrow> domain_allowed host ds \<or> fst (ask_confirmation tio host port st))) \<and>
    (block_doh cfg \<longrightarrow> port \<noteq> 853 \<and> \<not> is_doh_endpoint host)"
proof -
  have g: "(case debug_guard cfg of Some g \<Rightarrow> check_access g port token = DebugAllowed | None \<Rightarrow> True) \<longleftrightarrow>
      (\<forall>g. debug_guard cfg = Some g \<and> is_debug_port g port \<longrightarrow>
          port \<in> set (whitelisted g) \<or> (\<exists>t. token = Some t \<and> trim t = session_token g))"
    by (auto simp: check_access_iff split: option.splits)
  have p: "fst (policy_allows tio (broker_policy cfg) host port st) \<longleftrightarrow>
     (case broker_policy cfg of
        BrokerAllowlist ds \<Rightarrow>
          \<exists>raw \<in> set ds. covers (to_ascii_lowercase (strip_domain_port raw)) (to_ascii_lowercase (strip_domain_port host))
      | BrokerStrict rules \<Rightarrow>
          \<exists>r \<in> set rules. rule_port r = port \<and> norm_host (rule_domain r) \<noteq> ''*'' \<and>
            norm_host (rule_domain r) \<noteq> [] \<and> covers (norm_host (rule_domain r)) (norm_host host)
      | BrokerAsk ds \<Rightarrow> domain_allowed host ds \<or> fst (ask_confirmation tio host port st))"
    by (simp add: policy_allows_def domain_allowed_covers strict_allowed_covers split: BrokerPolicy.splits)
  show ?thesis unfolding request_allowed_iff g p cidrs_def ..
qed

theorem broker_request_decision_witness:
  "fst (request_allowed (\<lambda>_ _. (False, None)) sample_broker ''api.example.com'' 443 None fresh_broker) \<and>
   \<not> fst (request_allowed (\<lambda>_ _. (False, None)) sample_broker ''[::ffff:169.254.169.254]'' 80 None fresh_broker)"
proof -
  have l: "\<not> is_loopback_host ''api.example.com''"
    by (simp add: is_loopback_host_def sample_names sample_parse)
  have c: "covers ''example.com'' ''api.example.com''"
    using sample_names(8) by (auto simp: covers_def)
  have q: "get_quota_bytes fresh_broker ''example.com'' = 0"
    by (simp add: get_quota_bytes_def fresh_broker_def)
  have m: "is_cloud_metadata (V6 (IPv6 [0, 0, 0, 0, 0, 65535, 43518, 43518]))"
    by (simp add: is_v4_mapped_def all_zero_def embedded_v4_def)
  show ?thesis
    using m broker_request_decision [of "\<lambda>_ _. (False, None)" sample_broker "''api.example.com''" 443 None fresh_broker]
      broker_request_decision [of "\<lambda>_ _. (False, None)" sample_broker "''[::ffff:169.254.169.254]''" 80 None fresh_broker]
    by (simp add: l sample_parse sample_names del: is_cloud_metadata.simps)
       (simp add: sample_broker_def q c sample_names)
qed

text \<open>
  Property C28 (what the broker dials). Whatever the name resolution answers, a connection the
  broker makes is on a port other than 853 and for no blocked resolver name, and every address
  its destination resolved to is no metadata endpoint in any embedding, no blocked resolver, and
  public unless it is exempt. A direct connection goes to one of these addresses. For a
  connection through a proxy, the proxy has a host, and that literal, or every address its name
  resolved to when it was checked, is no metadata endpoint and public unless exempt. The
  address the proxy's name resolves to when it is dialed is not part of the claim: the code
  resolves it a second time.
\<close>

theorem broker_dials_policed:
  assumes "resolve_and_connect res dl cfg host_in port st = (Ok conn, st')"
  defines "host \<equiv> trim_end_matches (\<lambda>c. c = CHR ''.'') (trim host_in)" and "cidrs \<equiv> parsed_cidrs cfg"
  shows "port \<noteq> 853 \<and> \<not> list_ex (\<lambda>d. suffix (labels d) (labels (norm_host host))) DOH_DOT_DENY_DOMAINS \<and>
    (\<forall>ip. parse_ip (strip_brackets host) = Some ip \<longrightarrow>
       \<not> is_cloud_metadata ip \<and> (forbidden_destination ip \<longrightarrow> exempt cidrs host ip)) \<and>
    (\<forall>addrs a. res host port = Some addrs \<longrightarrow> a \<in> set addrs \<longrightarrow>
       \<not> is_cloud_metadata a \<and> show_ip a \<notin> set DOH_DOT_DENY_IPS \<and> (forbidden_destination a \<longrightarrow> exempt cidrs host a)) \<and>
    (case conn of
       Direct a q \<Rightarrow> q = port \<and> (\<exists>addrs. res host port = Some addrs \<and> a \<in> set addrs)
     | ViaProxy url \<Rightarrow>
         (let (_, raw, proxy_port) = proxy_parts url; proxy = strip_brackets raw
          in proxy \<noteq> [] \<and>
             (\<forall>ip. parse_ip proxy = Some ip \<longrightarrow>
                \<not> is_cloud_metadata ip \<and> (forbidden_destination ip \<longrightarrow> exempt cidrs proxy ip)) \<and>
             (\<forall>addrs a. parse_ip proxy = None \<longrightarrow> res proxy proxy_port = Some addrs \<longrightarrow> a \<in> set addrs \<longrightarrow>
                \<not> is_cloud_metadata a \<and> (forbidden_destination a \<longrightarrow> exempt cidrs proxy a))))"
proof -
  note ok = resolve_and_connect_ok [OF assms(1), folded host_def cidrs_def]
  have d: "\<not> list_ex (\<lambda>d. suffix (labels d) (labels (norm_host host))) DOH_DOT_DENY_DOMAINS" "port \<noteq> 853"
    using ok(1) by (auto simp: is_doh_or_dot_def Let_def list_ex_iff subdomain_labels split: if_splits)
  have l: "\<forall>ip. parse_ip (strip_brackets host) = Some ip \<longrightarrow>
       \<not> is_cloud_metadata ip \<and> (forbidden_destination ip \<longrightarrow> exempt cidrs host ip)"
    using ok(2) by (auto simp: literal_blocked_def split: option.splits if_splits)
  have a: "\<not> is_cloud_metadata a \<and> show_ip a \<notin> set DOH_DOT_DENY_IPS \<and> (forbidden_destination a \<longrightarrow> exempt cidrs host a)"
    if "res host port = Some addrs" "a \<in> set addrs" for addrs a
    using ok(3) that by (auto simp: list_all_iff address_refused_def is_doh_or_dot_def Let_def split: if_splits)
  show ?thesis
  proof (cases conn)
    case (Direct x q)
    then obtain addrs where "res host port = Some addrs" "x \<in> set addrs" "q = port"
      using ok(5) by (cases "res host port") auto
    then show ?thesis using a d l Direct by auto
  next
    case (ViaProxy url)
    then have "is_valid_proxy_target res cidrs url" using ok(5) by simp
    then show ?thesis using a d l ViaProxy
      by (auto simp: is_valid_proxy_target_def list_ex_iff Let_def split: option.splits if_splits prod.splits)
  qed
qed

theorem broker_dials_policed_witness:
  "resolve_and_connect (\<lambda>_ _. Some [V4 (IPv4 93 184 216 34)]) \<lparr>dial = (\<lambda>_ _. True), dial_proxy = (\<lambda>_ _ _. False)\<rparr>
     sample_broker '' api.example.com. '' 443 fresh_broker = (Ok (Direct (V4 (IPv4 93 184 216 34)) 443), fresh_broker) \<and>
   \<not> forbidden_destination (V4 (IPv4 93 184 216 34))"
proof -
  have h: "trim_end_matches (\<lambda>c. c = CHR ''.'') (trim '' api.example.com. '') = ''api.example.com''"
    "\<not> list_ex is_ascii_whitespace ''api.example.com''"
    "\<not> list_ex (\<lambda>d. ''api.example.com'' = d \<or> ends_with ''api.example.com'' (CHR ''.'' # d)) DOH_DOT_DENY_DOMAINS"
    by code_simp+
  have s: "show_ip (V4 (IPv4 93 184 216 34)) = ''93.184.216.34''"
    by (simp add: show_nat.simps digit_char_def char_of_def bit_0)
  have d: "\<not> is_doh_or_dot ''api.example.com'' 443 None"
    "\<not> is_doh_or_dot ''api.example.com'' 443 (Some (V4 (IPv4 93 184 216 34)))"
    using h(3) by (simp_all add: is_doh_or_dot_def sample_names sample_parse s DOH_DOT_DENY_IPS_def del: show_ip.simps)
  have b: "literal_blocked (parsed_cidrs sample_broker) ''api.example.com'' 443 = None"
    by (simp add: literal_blocked_def sample_names sample_parse)
  have p: "get_upstream_proxy sample_broker ''api.example.com'' 443 = None"
    by (simp add: get_upstream_proxy_def sample_broker_def)
  have r: "\<not> address_refused (parsed_cidrs sample_broker) ''api.example.com'' 443 (V4 (IPv4 93 184 216 34))"
    by (simp add: address_refused_def d)
  have e: "resolve_and_connect (\<lambda>_ _. Some [V4 (IPv4 93 184 216 34)]) \<lparr>dial = (\<lambda>_ _. True), dial_proxy = (\<lambda>_ _ _. False)\<rparr>
     sample_broker '' api.example.com. '' 443 fresh_broker = (Ok (Direct (V4 (IPv4 93 184 216 34)) 443), fresh_broker)"
    using h(2) by (simp add: resolve_and_connect_def h(1) d b p r)
  have x: "\<not> exempt (parsed_cidrs sample_broker) ''api.example.com'' (V4 (IPv4 93 184 216 34))"
    by (simp add: exempt_def parsed_cidrs_def sample_broker_def List.map_filter_def is_loopback_host_def sample_names sample_parse)
  show ?thesis using e broker_dials_policed [OF e] x unfolding h(1) by simp
qed

text \<open>
  One question per host and session. After a host has been asked about, every
  spelling of it gets the same answer, on every port and without the terminal; the first
  answer is positive only from a terminal that answered yes or permanent; a target is
  persisted only with a positive answer.
\<close>

theorem ask_once_per_session:
  assumes "ask_confirmation tio host port st = (ok, st')"
  shows "(norm_host host' = norm_host host \<longrightarrow> ask_confirmation tio' host' port' st' = (ok, st')) \<and>
    (map_of (ask_cache st) (norm_host host) = None \<longrightarrow>
       (ok \<longleftrightarrow> fst (tio host port) \<and>
          (\<exists>l. snd (tio host port) = Some l \<and>
             to_ascii_lowercase (trim l) \<in> {''y'', ''yes'', ''p'', ''perm'', ''permanent''})) \<and>
       (persisted st' = persisted st \<or> ok \<and> persisted st' = persisted st @ [norm_host host])) \<and>
    transfer_stats st' = transfer_stats st"
proof -
  have c: "norm_host host' = norm_host host \<longrightarrow> ask_confirmation tio' host' port' st' = (ok, st')"
    using ask_confirmation_caches [OF assms] by (auto simp: ask_confirmation_def)
  have p: "prompt_confirmation_interactive io host port st = (a, s) \<Longrightarrow>
      (a \<longleftrightarrow> fst io \<and> (\<exists>l. snd io = Some l \<and>
             to_ascii_lowercase (trim l) \<in> {''y'', ''yes'', ''p'', ''perm'', ''permanent''})) \<and>
      (persisted s = persisted st \<or> a \<and> persisted s = persisted st @ [norm_host host]) \<and>
      transfer_stats s = transfer_stats st" for io a s
    by (auto simp: prompt_confirmation_interactive_def Let_def split: prod.splits option.splits if_splits)
  have "transfer_stats st' = transfer_stats st \<and> (map_of (ask_cache st) (norm_host host) = None \<longrightarrow>
       (ok \<longleftrightarrow> fst (tio host port) \<and>
          (\<exists>l. snd (tio host port) = Some l \<and>
             to_ascii_lowercase (trim l) \<in> {''y'', ''yes'', ''p'', ''perm'', ''permanent''})) \<and>
       (persisted st' = persisted st \<or> ok \<and> persisted st' = persisted st @ [norm_host host]))"
  proof (cases "map_of (ask_cache st) (norm_host host)")
    case None
    obtain a s where as: "prompt_confirmation_interactive (tio host port) host port st = (a, s)"
      by (cases "prompt_confirmation_interactive (tio host port) host port st")
    then have "ok = a" "st' = s\<lparr>ask_cache := AList.update (norm_host host) a (ask_cache s)\<rparr>"
      using assms None by (auto simp: ask_confirmation_def Let_def)
    then show ?thesis using p [OF as] by auto
  next
    case (Some b)
    then show ?thesis using assms by (auto simp: ask_confirmation_def Let_def)
  qed
  with c show ?thesis by blast
qed

theorem ask_once_per_session_witness:
  "ask_confirmation (\<lambda>_ _. (True, Some '' Yes '')) ''A.com'' 443 fresh_broker =
     (True, fresh_broker\<lparr>ask_cache := [(''a.com'', True)]\<rparr>) \<and>
   ask_confirmation (\<lambda>_ _. (False, None)) '' a.com. '' 80 (fresh_broker\<lparr>ask_cache := [(''a.com'', True)]\<rparr>) =
     (True, fresh_broker\<lparr>ask_cache := [(''a.com'', True)]\<rparr>)"
proof -
  have n: "norm_host ''A.com'' = ''a.com''" "norm_host '' a.com. '' = ''a.com''"
    "to_ascii_lowercase (trim '' Yes '') = ''yes''"
    by code_simp+
  have e: "ask_confirmation (\<lambda>_ _. (True, Some '' Yes '')) ''A.com'' 443 fresh_broker =
     (True, fresh_broker\<lparr>ask_cache := [(''a.com'', True)]\<rparr>)"
    by (simp add: ask_confirmation_def prompt_confirmation_interactive_def n fresh_broker_def)
  show ?thesis
    using e ask_once_per_session [OF e, of "'' a.com. ''" "\<lambda>_ _. (False, None)" 80] by (simp add: n)
qed

text \<open>
  Quota accounting. Recording a transfer adds exactly its bytes to each quota
  whose pattern matches the host, saturating at the top of the 64-bit range, and to no other,
  as long as no counter wraps; so a host of an exhausted quota stays refused.
\<close>

theorem quota_accounts_transfers:
  fixes host :: string and st :: BrokerState
  defines "key \<equiv> to_ascii_lowercase (trim host)"
  assumes "distinct (map fst (transfer_stats st))" and "tx < 2 ^ 64" and "rx < 2 ^ 64"
    and "\<And>e. map_of (transfer_stats st) key = Some e \<Longrightarrow> bytes_tx e + tx < 2 ^ 64 \<and> bytes_rx e + rx < 2 ^ 64"
  defines "st' \<equiv> add_domain_transfer host tx rx st"
  shows "distinct (map fst (transfer_stats st')) \<and>
    get_quota_bytes st' pat =
      (if domain_matches_pattern key pat then min (get_quota_bytes st pat + tx + rx) (2 ^ 64 - 1)
       else get_quota_bytes st pat) \<and>
    ((pat, limit) \<in> set (quotas cfg) \<and> domain_matches_pattern req pat \<and> limit \<le> get_quota_bytes st pat \<longrightarrow>
       \<not> fst (request_allowed tio cfg req port token st'))"
proof -
  define old where "old = (case map_of (transfer_stats st) key of
      Some e \<Rightarrow> e | None \<Rightarrow> \<lparr>requests = 0, bytes_tx = 0, bytes_rx = 0\<rparr>)"
  define new where "new = \<lparr>requests = (requests old + 1) mod 2 ^ 64, bytes_tx = (bytes_tx old + tx) mod 2 ^ 64,
      bytes_rx = (bytes_rx old + rx) mod 2 ^ 64\<rparr>"
  have st': "transfer_stats st' = AList.update key new (transfer_stats st)"
    by (simp add: st'_def add_domain_transfer_def Let_def key_def [symmetric] old_def [symmetric] new_def)
  have "bytes_tx old + tx < 2 ^ 64" "bytes_rx old + rx < 2 ^ 64"
    using assms(3-5) by (auto simp: old_def split: option.splits)
  then have "bytes_tx new = bytes_tx old + tx" "bytes_rx new = bytes_rx old + rx"
    by (simp_all add: new_def)
  then have "entry_bytes pat (key, new) = entry_bytes pat (key, old) + (if domain_matches_pattern key pat then tx + rx else 0)"
    by (simp add: entry_bytes_def)
  moreover have "(case map_of (transfer_stats st) key of Some e \<Rightarrow> entry_bytes pat (key, e) | None \<Rightarrow> 0) =
      entry_bytes pat (key, old)"
    by (simp add: old_def entry_bytes_def split: option.splits)
  ultimately have s: "sum_list (map (entry_bytes pat) (transfer_stats st')) =
      sum_list (map (entry_bytes pat) (transfer_stats st)) + (if domain_matches_pattern key pat then tx + rx else 0)"
    using sum_update [OF assms(2), of "entry_bytes pat" key new] unfolding st' by simp
  then have q: "get_quota_bytes st' pat =
      (if domain_matches_pattern key pat then min (get_quota_bytes st pat + tx + rx) (2 ^ 64 - 1)
       else get_quota_bytes st pat)"
    by (auto simp: get_quota_bytes_sum)
  have m: "get_quota_bytes st pat \<le> get_quota_bytes st' pat"
    using get_quota_bytes_sum [of st pat] by (simp add: q)
  have d: "distinct (map fst (transfer_stats st'))"
    using assms(2) unfolding st' by (rule distinct_update)
  show ?thesis
    using m by (intro conjI d q) (force simp: request_allowed_iff)
qed

theorem quota_accounts_transfers_witness:
  "\<not> fst (request_allowed (\<lambda>_ _. (False, None)) sample_broker ''example.com'' 443 None
     (add_domain_transfer ''example.com'' 1 0 (add_domain_transfer ''example.com'' 60 50 fresh_broker)))"
proof -
  have k: "to_ascii_lowercase (trim ''example.com'') = ''example.com''" by code_simp
  have m: "domain_matches_pattern ''example.com'' ''example.com''" by (simp add: domain_matches_pattern_def)
  let ?s = "add_domain_transfer ''example.com'' 60 50 fresh_broker"
  have s: "transfer_stats ?s = [(''example.com'', \<lparr>requests = 1, bytes_tx = 60, bytes_rx = 50\<rparr>)]"
    by (simp add: add_domain_transfer_def fresh_broker_def k)
  have q: "100 \<le> get_quota_bytes ?s ''example.com''"
    by (simp add: get_quota_bytes_def s m saturating_add_def)
  have c: "(''example.com'', 100) \<in> set (quotas sample_broker)" by (simp add: sample_broker_def)
  have "\<And>e. map_of (transfer_stats ?s) (to_ascii_lowercase (trim ''example.com'')) = Some e \<Longrightarrow>
      bytes_tx e + 1 < 2 ^ 64 \<and> bytes_rx e + 0 < 2 ^ 64"
    by (simp add: k s)
  from quota_accounts_transfers [of ?s 1 0 "''example.com''" "''example.com''" 100 sample_broker "''example.com''", OF _ _ _ this]
  show ?thesis using q c m by (simp add: s)
qed

text \<open>
  Proxy credentials. The encoder is inverted by the RFC 4648 decoder on every
  byte string, emits only its alphabet and the padding, and four characters for every started
  group of three bytes.
\<close>

theorem base64_roundtrip:
  "map_option (map (\<lambda>w. char_of (unat w))) (decode_base64 (encode_base64 s)) = Some s \<and>
   length (encode_base64 s) = 4 * ((length s + 2) div 3) \<and>
   set (encode_base64 s) \<subseteq> insert (CHR ''='') (set B64_CHARS)"
proof -
  have "char_of (unat (word_of_nat (of_char c) :: 8 word)) = c" for c
    by (simp add: unsigned_of_nat take_bit_eq_mod)
  then show ?thesis
    by (simp add: encode_base64_def decode_encode_bytes length_encode_bytes encode_alphabet map_idI)
qed

end
