(* ===== verification/Sni.thy ===== *)
theory Sni
  imports Relay
begin

text \<open>
  The check of the TLS server name in \<open>src/src/sandbox/linux/net_relay.rs\<close>: \<open>extract_sni\<close>, which
  reads the name out of the first bytes of a connection, \<open>validate_sni_host\<close>, and the loop of
  \<open>forward_data_tunnel\<close> that holds a connection on port 443 back until its name has been seen.

  An index out of bounds is a panic in Rust: indexing returns an option, and \<open>None\<close> is the
  panic. The lemmas show exactly when the parser panics, that it finds the name of every
  well-formed client hello, and that nothing is forwarded before a matching name.
\<close>

section \<open>Bytes\<close>

definition byte_at :: "u8 list \<Rightarrow> nat \<Rightarrow> nat option" where
  "byte_at data i = (if i < length data then Some (unat (data ! i)) else None)"

definition be16_at :: "u8 list \<Rightarrow> nat \<Rightarrow> nat option" where
  "be16_at data i = do { a \<leftarrow> byte_at data i; b \<leftarrow> byte_at data (i + 1); Some (256 * a + b) }"

definition slice :: "u8 list \<Rightarrow> nat \<Rightarrow> nat \<Rightarrow> u8 list option" where
  "slice data i j = (if i \<le> j \<and> j \<le> length data then Some (take (j - i) (drop i data)) else None)"

text \<open>\<open>String::from_utf8_lossy\<close>: the length of the well-formed sequence at the head, or the length
  of the ill-formed prefix that one replacement character stands for.\<close>

definition cont :: "nat \<Rightarrow> bool" where "cont b \<longleftrightarrow> 0x80 \<le> b \<and> b \<le> 0xBF"

definition second_ok :: "nat \<Rightarrow> nat \<Rightarrow> bool" where
  "second_ok b c =
     (if b = 0xE0 then 0xA0 \<le> c \<and> c \<le> 0xBF
      else if b = 0xED then 0x80 \<le> c \<and> c \<le> 0x9F
      else if b = 0xF0 then 0x90 \<le> c \<and> c \<le> 0xBF
      else if b = 0xF4 then 0x80 \<le> c \<and> c \<le> 0x8F
      else cont c)"

definition seq_len :: "nat \<Rightarrow> nat" where
  "seq_len b =
     (if b < 0x80 then 1 else if 0xC2 \<le> b \<and> b \<le> 0xDF then 2 else if 0xE0 \<le> b \<and> b \<le> 0xEF then 3
      else if 0xF0 \<le> b \<and> b \<le> 0xF4 then 4 else 0)"

fun valid_tail :: "nat \<Rightarrow> u8 list \<Rightarrow> nat" where
  "valid_tail 0 bs = 0"
| "valid_tail (Suc n) [] = 0"
| "valid_tail (Suc n) (b # bs) = (if cont (unat b) then Suc (valid_tail n bs) else 0)"

definition utf8_head :: "u8 \<Rightarrow> u8 list \<Rightarrow> nat \<times> bool" where
  "utf8_head b bs =
     (let n = seq_len (unat b)
      in if n = 0 then (1, False)
         else if n = 1 then (1, True)
         else if bs = [] \<or> \<not> second_ok (unat b) (unat (hd bs)) then (1, False)
         else (let k = 2 + valid_tail (n - 2) (tl bs) in (k, k = n)))"

definition REPLACEMENT :: string where "REPLACEMENT = [CHR 0xEF, CHR 0xBF, CHR 0xBD]"

fun from_utf8_lossy :: "u8 list \<Rightarrow> string" where
  "from_utf8_lossy [] = []"
| "from_utf8_lossy (b # bs) =
     (let (k, ok) = utf8_head b bs
      in (if ok then map (\<lambda>w. char_of (unat w)) (take k (b # bs)) else REPLACEMENT) @
         from_utf8_lossy (drop (k - 1) bs))"

section \<open>The parser\<close>

function sni_names :: "u8 list \<Rightarrow> nat \<Rightarrow> nat \<Rightarrow> string option option" where
  "sni_names data sni_pos ext_lim =
     (if sni_pos + 3 \<le> ext_lim
      then do {
        name_type \<leftarrow> byte_at data sni_pos;
        name_len \<leftarrow> be16_at data (sni_pos + 1);
        if name_type = 0 \<and> sni_pos + 3 + name_len \<le> ext_lim
        then map_option (Some \<circ> from_utf8_lossy) (slice data (sni_pos + 3) (sni_pos + 3 + name_len))
        else sni_names data (sni_pos + 3 + name_len) ext_lim
      }
      else Some None)"
  by pat_completeness auto

termination by (relation "measure (\<lambda>(data, sni_pos, ext_lim). ext_lim - sni_pos)") auto

declare sni_names.simps [simp del]

function sni_extensions :: "u8 list \<Rightarrow> nat \<Rightarrow> nat \<Rightarrow> (unit, string option) result option" where
  "sni_extensions data pos ext_end =
     (if pos + 4 \<le> ext_end
      then do {
        ext_type \<leftarrow> be16_at data pos;
        ext_len \<leftarrow> be16_at data (pos + 2);
        let pos' = pos + 4;
        if ext_type = 0
        then (if pos' + ext_len > ext_end then Some (Err ())
              else if pos' + 2 > pos' + ext_len then Some (Err ())
              else do {
                _ \<leftarrow> be16_at data pos';
                found \<leftarrow> sni_names data (pos' + 2) (pos' + ext_len);
                case found of
                  Some name \<Rightarrow> Some (Ok (Some name))
                | None \<Rightarrow> sni_extensions data (pos' + ext_len) ext_end
              })
        else sni_extensions data (pos' + ext_len) ext_end
      }
      else Some (Ok (Some [])))"
  by pat_completeness auto

termination by (relation "measure (\<lambda>(data, pos, ext_end). ext_end - pos)") auto

declare sni_extensions.simps [simp del]

text \<open>From the session identifier at offset 43 on.\<close>

definition sni_body :: "u8 list \<Rightarrow> (unit, string option) result option" where
  "sni_body data =
     (if 43 \<ge> length data then Some (Err ())
      else do {
        session_id_len \<leftarrow> byte_at data 43;
        let pos = 44 + session_id_len;
        if pos + 2 > length data then Some (Err ())
        else do {
          cipher_suites_len \<leftarrow> be16_at data pos;
          let pos = pos + 2 + cipher_suites_len;
          if pos \<ge> length data then Some (Err ())
          else do {
            comp_methods_len \<leftarrow> byte_at data pos;
            let pos = pos + 1 + comp_methods_len;
            if pos + 2 > length data then Some (Ok (Some []))
            else do {
              extensions_len \<leftarrow> be16_at data pos;
              let pos = pos + 2;
              let ext_end = pos + extensions_len;
              if ext_end > length data then Some (Err ())
              else sni_extensions data pos ext_end
            }
          }
        }
      })"

definition extract_sni :: "u8 list \<Rightarrow> (unit, string option) result option" where
  "extract_sni data =
     (if data = [] then Some (Ok None)
      else do {
        content_type \<leftarrow> byte_at data 0;
        if content_type \<noteq> 0x16 then Some (Err ())
        else if length data < 5 then Some (Ok None)
        else do {
          record_len \<leftarrow> be16_at data 3;
          if length data < 5 + record_len then Some (Ok None)
          else do {
            msg_type \<leftarrow> byte_at data 5;
            if msg_type \<noteq> 0x01 then Some (Err ())
            else do {
              a \<leftarrow> byte_at data 6;
              b \<leftarrow> byte_at data 7;
              c \<leftarrow> byte_at data 8;
              let handshake_len = 65536 * a + 256 * b + c;
              if record_len < 4 + handshake_len then Some (Err ())
              else sni_body data
            }
          }
        }
      })"

section \<open>Matching the name\<close>

definition is_strict_subdomain :: "string \<Rightarrow> string \<Rightarrow> bool" where
  "is_strict_subdomain sub parent =
     (let sub_labels = filter (\<lambda>s. s \<noteq> []) (labels sub);
          parent_labels = filter (\<lambda>s. s \<noteq> []) (labels parent)
      in if length parent_labels < 2 \<or> length sub_labels \<le> length parent_labels then False
         else drop (length sub_labels - length parent_labels) sub_labels = parent_labels)"

definition validate_sni_host :: "string \<Rightarrow> string \<Rightarrow> bool" where
  "validate_sni_host requested sni =
     (let req_h = norm_host requested; act = norm_host sni; is_ip = (parse_ip req_h \<noteq> None)
      in if act = [] \<and> is_ip then True
         else if act = req_h then True
         else if \<not> is_ip \<and> is_strict_subdomain act req_h then True
         else False)"

text \<open>The loop on port 443: the reads that succeed, in order, until the end of the stream. The
  connection is released with what was read, torn down with a notice, or the thread panics.\<close>

datatype tunnel_verdict = Released "u8 list" "u8 list list" | TornDown "string list" | TunnelPanic

fun sni_gate :: "string \<Rightarrow> u8 list \<Rightarrow> u8 list list \<Rightarrow> tunnel_verdict" where
  "sni_gate host sni_buf [] = TornDown []"
| "sni_gate host sni_buf (chunk # chunks) =
     (if chunk = [] then TornDown []
      else (let data = sni_buf @ chunk
            in case extract_sni data of
                 None \<Rightarrow> TunnelPanic
               | Some (Inr (Some sni)) \<Rightarrow>
                   if validate_sni_host host sni then Released data chunks
                   else TornDown [''SNI mismatch: expected '' @ [CHR 0x27] @ host @ [CHR 0x27] @ '', got '' @
                                  [CHR 0x27] @ sni @ [CHR 0x27]]
               | Some (Inr None) \<Rightarrow> if length data > 8192 then TornDown [] else sni_gate host data chunks
               | Some (Inl ()) \<Rightarrow> TornDown [''Non-TLS or malformed traffic on port 443 to '' @ host]))"

text \<open>
  The direction from the client to the server of \<open>forward_data_tunnel\<close>: what is written to the
  outbound connection, write by write, for the reads the client causes. Only a tunnel to port
  443 is gated. \<open>killed i\<close> is the flag the loop finds before its read \<open>i\<close>: a quota was exceeded
  in either direction, or a write failed.
\<close>

fun pump_out :: "(nat \<Rightarrow> bool) \<Rightarrow> nat \<Rightarrow> u8 list list \<Rightarrow> u8 list list" where
  "pump_out killed i [] = []"
| "pump_out killed i (chunk # chunks) =
     (if killed i \<or> chunk = [] then [] else chunk # pump_out killed (Suc i) chunks)"

definition client_writes :: "(nat \<Rightarrow> bool) \<Rightarrow> nat \<Rightarrow> string \<Rightarrow> u8 list list \<Rightarrow> u8 list list" where
  "client_writes killed port host chunks =
     (if port = 443
      then (case sni_gate host [] chunks of
              Released data chunks \<Rightarrow> data # pump_out killed 0 chunks
            | TornDown _ \<Rightarrow> []
            | TunnelPanic \<Rightarrow> [])
      else pump_out killed 0 chunks)"

section \<open>Lemmas on panics\<close>

lemma byte_at_Some: "i < length data \<Longrightarrow> byte_at data i = Some (unat (data ! i))"
  by (simp add: byte_at_def)

lemma byte_at_None [simp]: "byte_at data i = None \<longleftrightarrow> length data \<le> i"
  by (simp add: byte_at_def)

lemma be16_at_Some:
  "i + 1 < length data \<Longrightarrow> be16_at data i = Some (256 * unat (data ! i) + unat (data ! (i + 1)))"
  by (simp add: be16_at_def byte_at_def)

lemma be16_at_None [simp]: "be16_at data i = None \<longleftrightarrow> length data \<le> i + 1"
  by (auto simp: be16_at_def byte_at_def)

lemma slice_None [simp]: "slice data i k = None \<longleftrightarrow> k < i \<or> length data < k"
  by (auto simp: slice_def)

lemma bind_total: "m \<noteq> None \<Longrightarrow> (\<And>x. m = Some x \<Longrightarrow> f x \<noteq> None) \<Longrightarrow> Option.bind m f \<noteq> None"
  by (cases m) auto

lemma if_total: "(P \<Longrightarrow> a \<noteq> None) \<Longrightarrow> (\<not> P \<Longrightarrow> b \<noteq> None) \<Longrightarrow> (if P then a else b) \<noteq> None"
  by simp

lemma sni_names_total: "ext_lim \<le> length data \<Longrightarrow> sni_names data p ext_lim \<noteq> None"
proof (induction data p ext_lim rule: sni_names.induct)
  case (1 data p ext_lim)
  show ?case
  proof (cases "p + 3 \<le> ext_lim")
    case True
    obtain a n where an: "byte_at data p = Some a" "be16_at data (p + 1) = Some n"
      using True 1(2) byte_at_Some [of p data] be16_at_Some [of "p + 1" data] by auto
    show ?thesis
      using True an 1(1) [OF True an] 1(2)
      by (auto simp: sni_names.simps [of data p] slice_def)
  qed (simp add: sni_names.simps)
qed

lemma sni_extensions_total: "ext_end \<le> length data \<Longrightarrow> sni_extensions data p ext_end \<noteq> None"
proof (induction data p ext_end rule: sni_extensions.induct)
  case (1 data p ext_end)
  show ?case
  proof (cases "p + 4 \<le> ext_end")
    case True
    obtain ty n where tn: "be16_at data p = Some ty" "be16_at data (p + 2) = Some n"
      using True 1(3) be16_at_Some [of p data] be16_at_Some [of "p + 2" data] by auto
    show ?thesis
    proof (cases "ty = 0 \<and> p + 4 + n \<le> ext_end \<and> 2 \<le> n")
      case sni: True
      then have "be16_at data (p + 4) \<noteq> None" "sni_names data (p + 4 + 2) (p + 4 + n) \<noteq> None"
        using 1(3) sni_names_total [of "p + 4 + n" data "p + 4 + 2"] by (auto simp del: not_None_eq)
      then obtain l found where "be16_at data (p + 4) = Some l" "sni_names data (p + 4 + 2) (p + 4 + n) = Some found"
        by blast
      then show ?thesis
        using True tn sni 1(1) [OF True tn refl] 1(3)
        by (cases found) (simp_all add: sni_extensions.simps [of data p] Let_def del: not_None_eq)
    next
      case False
      then show ?thesis
        using True tn 1(2) [OF True tn refl] 1(3)
        by (auto simp: sni_extensions.simps [of data p] Let_def simp del: not_None_eq)
    qed
  qed (simp add: sni_extensions.simps)
qed

lemma sni_body_total: "sni_body data \<noteq> None"
  unfolding sni_body_def Let_def
  by (intro if_total bind_total sni_extensions_total) (simp_all del: not_None_eq)

definition record_len :: "u8 list \<Rightarrow> nat" where
  "record_len data = 256 * unat (data ! 3) + unat (data ! 4)"

section \<open>Lemmas on client hellos\<close>

definition be16 :: "nat \<Rightarrow> u8 list" where
  "be16 n = [word_of_nat (n div 256), word_of_nat (n mod 256)]"

definition extension_of :: "nat \<Rightarrow> u8 list \<Rightarrow> u8 list" where
  "extension_of ty body = be16 ty @ be16 (length body) @ body"

definition server_name :: "u8 list \<Rightarrow> u8 list" where
  "server_name name = be16 (length name + 3) @ [0] @ be16 (length name) @ name"

definition client_hello :: "u8 list \<Rightarrow> u8 list \<Rightarrow> u8 list \<Rightarrow> u8 list \<Rightarrow> u8 list \<Rightarrow> u8 list" where
  "client_hello head sid suites methods exts =
     head @ [word_of_nat (length sid)] @ sid @ be16 (length suites) @ suites @
     [word_of_nat (length methods)] @ methods @ be16 (length exts) @ exts"

definition tls_record :: "u8 list \<Rightarrow> u8 list" where
  "tls_record hello =
     [0x16, 3, 1] @ be16 (length hello + 4) @ [1, word_of_nat (length hello div 65536)] @
     be16 (length hello mod 65536) @ hello"

lemma length_be16 [simp]: "length (be16 n) = 2"
  by (simp add: be16_def)

lemma unat_byte: "n < 256 \<Longrightarrow> unat (word_of_nat n :: u8) = n"
  by (simp add: unat_of_nat)

lemma byte_at_append: "byte_at (xs @ b # ys) (length xs) = Some (unat b)"
  by (simp add: byte_at_def)

lemma be16_at_append: "n < 65536 \<Longrightarrow> be16_at (xs @ be16 n @ ys) (length xs) = Some n"
  by (simp add: be16_at_def byte_at_def be16_def nth_append unat_byte)

lemma nth_mid: "length xs = n \<Longrightarrow> (xs @ b # ys) ! n = b"
  by auto

text \<open>Reading at the offset where a part begins.\<close>

lemma byte_at_here: "length xs = n \<Longrightarrow> byte_at (xs @ b # ys) n = Some (unat b)"
  by (auto simp: byte_at_def)

lemma be16_at_here: "length xs = i \<Longrightarrow> n < 65536 \<Longrightarrow> be16_at (xs @ be16 n @ ys) i = Some n"
  using be16_at_append by blast

lemma slice_here: "length xs = i \<Longrightarrow> Sni.slice (xs @ ys @ zs) i (i + length ys) = Some ys"
  by (auto simp: slice_def)

lemma sni_names_server_name:
  assumes "length name < 65536"
  shows "sni_names (xs @ [0] @ be16 (length name) @ name @ ys) (length xs) (length xs + 3 + length name) =
    Some (Some (from_utf8_lossy name))"
proof -
  let ?d = "xs @ [0] @ be16 (length name) @ name @ ys"
  have "byte_at ?d (length xs) = Some 0" by (simp add: byte_at_here)
  moreover have "be16_at ?d (length xs + 1) = Some (length name)"
    using be16_at_here [of "xs @ [0]" "length xs + 1" "length name" "name @ ys"] assms by simp
  moreover have "Sni.slice ?d (length xs + 3) (length xs + 3 + length name) = Some name"
    using slice_here [of "xs @ [0] @ be16 (length name)" "length xs + 3" name ys] by simp
  ultimately show ?thesis by (simp add: sni_names.simps)
qed

lemma sni_extensions_server_name:
  assumes "length name + 5 < 65536" and "list_all (\<lambda>(ty, body). 0 < ty \<and> ty < 65536 \<and> length body < 65536) pre"
    and "length (concat (map (\<lambda>(ty, body). extension_of ty body) pre) @ extension_of 0 (server_name name)) \<le> n"
  shows "sni_extensions (xs @ concat (map (\<lambda>(ty, body). extension_of ty body) pre) @
      extension_of 0 (server_name name) @ ys) (length xs) (length xs + n) = Some (Ok (Some (from_utf8_lossy name)))"
  using assms(2,3)
proof (induction pre arbitrary: xs n)
  case Nil
  define d where "d = xs @ be16 0 @ be16 (length name + 5) @ be16 (length name + 3) @ [0] @ be16 (length name) @ name @ ys"
  have d: "xs @ concat (map (\<lambda>(ty, body). extension_of ty body) []) @ extension_of 0 (server_name name) @ ys = d"
  proof -
    have l: "length (server_name name) = length name + 5" by (simp add: server_name_def)
    show ?thesis unfolding d_def extension_of_def l by (simp add: server_name_def)
  qed
  have "be16_at d (length xs) = Some 0" unfolding d_def by (rule be16_at_here) simp_all
  moreover have "be16_at d (length xs + 2) = Some (length name + 5)"
    using be16_at_here [of "xs @ be16 0" "length xs + 2" "length name + 5"] assms(1) by (simp add: d_def)
  moreover have "be16_at d (length xs + 4) = Some (length name + 3)"
    using be16_at_here [of "xs @ be16 0 @ be16 (length name + 5)" "length xs + 4" "length name + 3"] assms(1)
    by (simp add: d_def)
  moreover have "sni_names d (length xs + 4 + 2) (length xs + 4 + (length name + 5)) = Some (Some (from_utf8_lossy name))"
    using sni_names_server_name [of name "xs @ be16 0 @ be16 (length name + 5) @ be16 (length name + 3)" ys] assms(1)
    by (simp add: d_def add.commute add.left_commute)
  moreover have "length name + 9 \<le> n"
    using Nil.prems(2) by (simp add: extension_of_def server_name_def)
  ultimately show ?case
    unfolding d by (simp add: sni_extensions.simps [of d "length xs"] Let_def)
next
  case (Cons e pre)
  obtain ty body where e: "e = (ty, body)" by (cases e)
  define zs where "zs = concat (map (\<lambda>(ty, body). extension_of ty body) pre) @ extension_of 0 (server_name name) @ ys"
  define d where "d = xs @ be16 ty @ be16 (length body) @ body @ zs"
  have d: "xs @ concat (map (\<lambda>(ty, body). extension_of ty body) (e # pre)) @ extension_of 0 (server_name name) @ ys = d"
    by (simp add: d_def e extension_of_def zs_def)
  have t: "0 < ty" "ty < 65536" "length body < 65536" using Cons.prems(1) e by auto
  have "be16_at d (length xs) = Some ty" unfolding d_def using t by (intro be16_at_here) simp_all
  moreover have "be16_at d (length xs + 2) = Some (length body)"
    using be16_at_here [of "xs @ be16 ty" "length xs + 2" "length body"] t by (simp add: d_def)
  moreover have "4 + length body \<le> n" using Cons.prems(2) by (simp add: e extension_of_def)
  moreover have "sni_extensions d (length xs + 4 + length body) (length xs + n) = Some (Ok (Some (from_utf8_lossy name)))"
  proof -
    define ws where "ws = xs @ be16 ty @ be16 (length body) @ body"
    have l: "length ws = length xs + 4 + length body" by (simp add: ws_def)
    have "length (extension_of ty body) = 4 + length body" by (simp add: extension_of_def)
    then have "length (concat (map (\<lambda>(ty, body). extension_of ty body) pre) @ extension_of 0 (server_name name)) \<le>
        n - (4 + length body)"
      using Cons.prems(2) by (simp add: e)
    then have "sni_extensions (ws @ zs) (length ws) (length ws + (n - (4 + length body))) =
        Some (Ok (Some (from_utf8_lossy name)))"
      unfolding zs_def using Cons.prems(1) by (intro Cons.IH) simp_all
    moreover have "length ws + (n - (4 + length body)) = length xs + n" using \<open>4 + length body \<le> n\<close> l by simp
    moreover have "ws @ zs = d" by (simp add: ws_def d_def)
    ultimately show ?thesis by (simp add: l)
  qed
  ultimately show ?case
    unfolding d using t by (simp add: sni_extensions.simps [of d "length xs"] Let_def)
qed

lemma sni_body_hello:
  assumes "length head = 43" and "length sid < 256" and "length suites < 65536" and "length methods < 256"
    and "length exts < 65536"
  shows "sni_body (client_hello head sid suites methods exts @ ys) =
    sni_extensions (client_hello head sid suites methods exts @ ys)
      (50 - 1 + length sid + length suites + length methods)
      (50 - 1 + length sid + length suites + length methods + length exts)"
proof -
  define d where "d = client_hello head sid suites methods exts @ ys"
  have d: "d = head @ [word_of_nat (length sid)] @ sid @ be16 (length suites) @ suites @
     [word_of_nat (length methods)] @ methods @ be16 (length exts) @ exts @ ys"
    by (simp add: d_def client_hello_def)
  have "byte_at d 43 = Some (length sid)"
    using byte_at_here [of head 43] assms(1,2) by (simp add: d unat_byte)
  moreover have "be16_at d (44 + length sid) = Some (length suites)"
    using be16_at_here [of "head @ [word_of_nat (length sid)] @ sid" "44 + length sid" "length suites"] assms
    by (simp add: d)
  moreover have "byte_at d (46 + length sid + length suites) = Some (length methods)"
    using byte_at_here [of "head @ [word_of_nat (length sid)] @ sid @ be16 (length suites) @ suites"
        "46 + length sid + length suites"] assms
    by (simp add: d unat_byte)
  moreover have "be16_at d (47 + length sid + length suites + length methods) = Some (length exts)"
    using be16_at_here [of "head @ [word_of_nat (length sid)] @ sid @ be16 (length suites) @ suites @
        [word_of_nat (length methods)] @ methods" "47 + length sid + length suites + length methods" "length exts"] assms
    by (simp add: d)
  moreover have "length d = 49 + length sid + length suites + length methods + length exts + length ys"
    using assms(1) by (simp add: d)
  ultimately show ?thesis
    unfolding d_def [symmetric] sni_body_def by (simp add: Let_def add.assoc add.left_commute)
qed

lemma from_utf8_lossy_ascii:
  "list_all (\<lambda>b. unat b < 128) bs \<Longrightarrow> from_utf8_lossy bs = map (\<lambda>w. char_of (unat w)) bs"
  by (induction bs) (simp_all add: utf8_head_def seq_len_def)

lemma extract_sni_waits:
  assumes "data ! 0 = 0x16" and "5 \<le> length data \<Longrightarrow> length data < 5 + record_len data"
  shows "extract_sni data = Some (Ok None)"
proof -
  have "unat (data ! 0) = 22" using assms(1) by simp
  then show ?thesis
    using assms(2) by (auto simp: extract_sni_def record_len_def byte_at_Some be16_at_Some)
qed

lemma hello_name_found:
  fixes vr sid suites methods name after :: "u8 list" and pre :: "(nat \<times> u8 list) list"
  defines "exts \<equiv> concat (map (\<lambda>(ty, body). extension_of ty body) pre) @ extension_of 0 (server_name name) @ after"
  defines "hello \<equiv> client_hello vr sid suites methods exts"
  assumes "length vr = 34" and "length sid < 256" and "length methods < 256" and "length hello + 4 < 65536"
    and "list_all (\<lambda>(ty, body). 0 < ty \<and> ty < 65536 \<and> length body < 65536) pre"
  shows "extract_sni (tls_record hello @ ys) = Some (Ok (Some (from_utf8_lossy name))) \<and>
    (\<forall>n < length (tls_record hello). extract_sni (take n (tls_record hello)) = Some (Ok None))"
proof (intro conjI allI impI)
  define h where "h = length hello"
  define hdr where "hdr = [0x16, 3, 1] @ be16 (h + 4) @ [1, word_of_nat (h div 65536)] @ be16 (h mod 65536)"
  have r: "tls_record hello = hdr @ hello" by (simp add: tls_record_def hdr_def h_def)
  have h: "h + 4 < 65536" using assms(6) by (simp add: h_def)
  have l: "length exts < 65536" "length suites < 65536" "length name + 5 < 65536"
    using h by (simp_all add: h_def hello_def client_hello_def exts_def extension_of_def server_name_def)
  have hdr: "length hdr = 9" by (simp add: hdr_def)
  have c: "hdr @ hello @ zs = client_hello (hdr @ vr) sid suites methods exts @ zs" for zs
    by (simp add: hello_def client_hello_def)
  let ?p = "49 + length sid + length suites + length methods"
  have "sni_body (hdr @ hello @ ys) = sni_extensions (hdr @ hello @ ys) ?p (?p + length exts)"
    unfolding c using sni_body_hello [of "hdr @ vr" sid suites methods exts ys] hdr assms(3-5) l by simp
  also have "hdr @ hello @ ys = (hdr @ vr @ [word_of_nat (length sid)] @ sid @ be16 (length suites) @ suites @
     [word_of_nat (length methods)] @ methods @ be16 (length exts)) @ exts @ ys"
    by (simp add: hello_def client_hello_def)
  also have "sni_extensions \<dots> ?p (?p + length exts) = Some (Ok (Some (from_utf8_lossy name)))"
  proof -
    define xs where "xs = hdr @ vr @ [word_of_nat (length sid)] @ sid @ be16 (length suites) @ suites @
     [word_of_nat (length methods)] @ methods @ be16 (length exts)"
    have p: "length xs = ?p" using hdr assms(3) by (simp add: xs_def)
    have "sni_extensions (xs @ concat (map (\<lambda>(ty, body). extension_of ty body) pre) @
        extension_of 0 (server_name name) @ after @ ys) (length xs) (length xs + length exts) =
        Some (Ok (Some (from_utf8_lossy name)))"
      by (rule sni_extensions_server_name [OF l(3) assms(7)]) (simp add: exts_def)
    then have "sni_extensions (xs @ exts @ ys) ?p (?p + length exts) = Some (Ok (Some (from_utf8_lossy name)))"
      unfolding p by (simp add: exts_def)
    then show ?thesis unfolding xs_def .
  qed
  finally have body: "sni_body (hdr @ hello @ ys) = Some (Ok (Some (from_utf8_lossy name)))"
    by (simp add: hello_def client_hello_def)
  have b: "(hdr @ zs) ! 0 = 0x16" "(hdr @ zs) ! 3 = word_of_nat ((h + 4) div 256)" "(hdr @ zs) ! 4 = word_of_nat ((h + 4) mod 256)"
    "(hdr @ zs) ! 5 = 1" "(hdr @ zs) ! 6 = word_of_nat (h div 65536)" "(hdr @ zs) ! 7 = word_of_nat (h mod 65536 div 256)"
    "(hdr @ zs) ! 8 = word_of_nat (h mod 65536 mod 256)" for zs
    by (simp_all add: hdr_def be16_def)
  have "record_len (hdr @ zs) = h + 4" for zs
    using h by (simp add: record_len_def b unat_byte)
  note rl = this [of "hello @ ys", unfolded record_len_def]
  have "byte_at (hdr @ hello @ ys) 0 = Some 22" "byte_at (hdr @ hello @ ys) 5 = Some 1"
    "byte_at (hdr @ hello @ ys) 6 = Some 0" "byte_at (hdr @ hello @ ys) 7 = Some (h div 256)"
    "byte_at (hdr @ hello @ ys) 8 = Some (h mod 256)"
    using hdr h b [of "hello @ ys"] by (simp_all add: byte_at_Some unat_byte)
  moreover have "be16_at (hdr @ hello @ ys) 3 = Some (h + 4)"
    using hdr rl by (simp add: be16_at_Some)
  ultimately show "extract_sni (tls_record hello @ ys) = Some (Ok (Some (from_utf8_lossy name)))"
    using body hdr unfolding r extract_sni_def by (auto simp: h_def Let_def)
  fix n
  assume n: "n < length (tls_record hello)"
  have "5 \<le> n \<Longrightarrow> record_len (take n (hdr @ hello)) = h + 4"
    using h b [of hello] by (simp add: record_len_def unat_byte del: take_append)
  then show "extract_sni (take n (tls_record hello)) = Some (Ok None)"
    using n b(1) [of hello] hdr unfolding r
    by (cases "n = 0") (simp add: extract_sni_def, intro extract_sni_waits, simp_all add: h_def del: take_append)
qed

section \<open>Lemmas on the gate\<close>

lemma is_strict_subdomain_labels:
  "is_strict_subdomain sub parent \<longleftrightarrow>
     2 \<le> length (filter (\<lambda>s. s \<noteq> []) (labels parent)) \<and>
     strict_suffix (filter (\<lambda>s. s \<noteq> []) (labels parent)) (filter (\<lambda>s. s \<noteq> []) (labels sub))"
proof -
  have key: "(length p < length s \<and> drop (length s - length p) s = p) \<longleftrightarrow> strict_suffix p s" for p s :: "string list"
  proof
    assume a: "length p < length s \<and> drop (length s - length p) s = p"
    then have "s = take (length s - length p) s @ p" by (metis append_take_drop_id)
    then show "strict_suffix p s" using a by (auto simp: strict_suffix_def suffix_def)
  qed (auto simp: strict_suffix_def suffix_def)
  show ?thesis unfolding key [symmetric] by (auto simp: is_strict_subdomain_def Let_def)
qed

lemma validate_sni_host_iff:
  "validate_sni_host requested sni \<longleftrightarrow>
     norm_host sni = norm_host requested \<or>
     norm_host sni = [] \<and> parse_ip (norm_host requested) \<noteq> None \<or>
     parse_ip (norm_host requested) = None \<and> is_strict_subdomain (norm_host sni) (norm_host requested)"
  by (auto simp: validate_sni_host_def Let_def)

lemma extract_sni_found: "extract_sni data = Some (Ok (Some sni)) \<Longrightarrow> data ! 0 = 0x16 \<and> data \<noteq> []"
  by (auto simp: extract_sni_def byte_at_def word_unat_eq_iff split: if_splits)

lemma sni_gate_released:
  "sni_gate host data chunks = Released out later \<Longrightarrow>
   \<exists>k \<le> length chunks. out = data @ concat (take k chunks) \<and> later = drop k chunks \<and>
     (\<exists>sni. extract_sni out = Some (Ok (Some sni)) \<and> validate_sni_host host sni) \<and>
     (\<forall>i < k. 0 < i \<longrightarrow> extract_sni (data @ concat (take i chunks)) = Some (Ok None))"
proof (induction host data chunks rule: sni_gate.induct)
  case (2 host data chunk chunks)
  let ?d = "data @ chunk"
  show ?case
  proof (cases "\<exists>sni. extract_sni ?d = Some (Ok (Some sni))")
    case True
    then show ?thesis using 2(2) by (intro exI [of _ 1]) (auto simp: Let_def split: if_splits)
  next
    case False
    then have w: "extract_sni ?d = Some (Ok None)" and g: "sni_gate host ?d chunks = Released out later"
      using 2(2) by (auto simp: Let_def split: if_splits option.splits sum.splits unit.splits)
    have c: "chunk \<noteq> []" "\<not> length ?d > 8192" using 2(2) w by (auto simp: Let_def split: if_splits)
    from 2(1) [OF c(1) refl w refl refl c(2) g] obtain k where k: "k \<le> length chunks"
      "out = ?d @ concat (take k chunks)" "later = drop k chunks" "\<exists>sni. extract_sni out = Some (Ok (Some sni)) \<and> validate_sni_host host sni"
      "\<forall>i < k. 0 < i \<longrightarrow> extract_sni (?d @ concat (take i chunks)) = Some (Ok None)" by auto
    have "extract_sni (data @ concat (take i (chunk # chunks))) = Some (Ok None)" if "i < Suc k" "0 < i" for i
      using that w k(5) by (cases i; cases "i = 1") auto
    then show ?thesis using k by (intro exI [of _ "Suc k"]) auto
  qed
qed simp

definition sample_hello :: "u8 list" where
  "sample_hello = tls_record (client_hello (replicate 34 0) [] [] [] (extension_of 0 (server_name [97, 46, 98, 46, 99])))"

lemma sample_gate: "sni_gate ''B.c.'' [] [take 7 sample_hello, drop 7 sample_hello] = Released sample_hello []"
proof -
  have n: "length sample_hello = 63"
    by (simp add: sample_hello_def tls_record_def client_hello_def extension_of_def server_name_def)
  have "list_all (\<lambda>b. unat b < 128) [97, 46, 98, 46, 99 :: u8]" by simp
  moreover have "map (\<lambda>w. char_of (unat w)) [97, 46, 98, 46, 99 :: u8] = ''a.b.c''" by code_simp
  ultimately have l: "from_utf8_lossy [97, 46, 98, 46, 99] = ''a.b.c''" using from_utf8_lossy_ascii by metis
  let ?e = "extension_of 0 (server_name [97, 46, 98, 46, 99])"
  have "length (client_hello (replicate 34 0) [] [] [] ?e) + 4 < 65536"
    by (simp add: client_hello_def extension_of_def server_name_def)
  then have f: "extract_sni sample_hello = Some (Ok (Some (from_utf8_lossy [97, 46, 98, 46, 99]))) \<and>
      (\<forall>n < length sample_hello. extract_sni (take n sample_hello) = Some (Ok None))"
    unfolding sample_hello_def
    using hello_name_found [of "replicate 34 0" "[]" "[]" "[]" "[]" "[97, 46, 98, 46, 99]" "[]" "[]",
        simplified list.map concat.simps append_Nil append_Nil2]
    by (simp del: from_utf8_lossy.simps)
  then have s: "extract_sni sample_hello = Some (Ok (Some ''a.b.c''))" "extract_sni (take 7 sample_hello) = Some (Ok None)"
    using l n by (simp_all del: from_utf8_lossy.simps)
  have "norm_host ''B.c.'' = ''b.c''" "norm_host ''a.b.c'' = ''a.b.c''" "is_strict_subdomain ''a.b.c'' ''b.c''"
    by code_simp+
  moreover have "parse_ip ''b.c'' = None" by (simp add: parse_defs)
  ultimately have "validate_sni_host ''B.c.'' ''a.b.c''" by (simp add: validate_sni_host_iff)
  moreover have "take 7 sample_hello \<noteq> []" "drop 7 sample_hello \<noteq> []" using n by auto
  ultimately show ?thesis using s n by (simp add: Let_def)
qed

section \<open>Properties\<close>

text \<open>
  Property C31 (when the name parser panics). \<open>extract_sni\<close> indexes out of bounds exactly on a
  complete handshake record that ends within the handshake header: five bytes in all, or a
  client hello message of fewer than nine bytes. On every other input it returns.
\<close>

theorem extract_sni_panics_exactly:
  "extract_sni data = None \<longleftrightarrow>
     5 \<le> length data \<and> data ! 0 = 0x16 \<and> 5 + record_len data \<le> length data \<and>
     (length data = 5 \<or> data ! 5 = 1 \<and> length data < 9)"
proof -
  have w: "unat (data ! 0) = 22 \<longleftrightarrow> data ! 0 = 0x16" "unat (data ! 5) = Suc 0 \<longleftrightarrow> data ! 5 = 1"
    by (simp_all add: word_unat_eq_iff)
  show ?thesis
  proof (cases "5 \<le> length data \<and> data ! 0 = 0x16 \<and> 5 + record_len data \<le> length data")
    case False
    then show ?thesis using w(1)
      by (auto simp: extract_sni_def record_len_def byte_at_Some be16_at_Some split: if_splits)
  next
    case True
    then have e: "extract_sni data = do {
            msg_type \<leftarrow> byte_at data 5;
            if msg_type \<noteq> 0x01 then Some (Err ())
            else do {
              a \<leftarrow> byte_at data 6;
              b \<leftarrow> byte_at data 7;
              c \<leftarrow> byte_at data 8;
              let handshake_len = 65536 * a + 256 * b + c;
              if record_len data < 4 + handshake_len then Some (Err ())
              else sni_body data
            }
          }"
      unfolding extract_sni_def record_len_def Let_def by (auto simp: byte_at_Some be16_at_Some)
    show ?thesis
      using True w(2) sni_body_total [of data] unfolding e
      by (cases "length data = 5"; cases "length data < 9") (auto simp: bind_eq_None_conv Let_def byte_at_def)
  qed
qed

text \<open>
  Property C29 (the server name is found). On every client hello with a server name extension,
  after any other extensions and whatever follows, the parser returns the name, decoded as
  UTF-8 (as it is, when it is ASCII), and on every proper prefix of the record it asks for
  more bytes.
\<close>

theorem client_hello_name_found:
  fixes vr sid suites methods name after :: "u8 list" and pre :: "(nat \<times> u8 list) list"
  defines "exts \<equiv> concat (map (\<lambda>(ty, body). extension_of ty body) pre) @ extension_of 0 (server_name name) @ after"
  defines "hello \<equiv> client_hello vr sid suites methods exts"
  assumes "length vr = 34" and "length sid < 256" and "length methods < 256" and "length hello + 4 < 65536"
    and "list_all (\<lambda>(ty, body). 0 < ty \<and> ty < 65536 \<and> length body < 65536) pre"
  shows "extract_sni (tls_record hello @ ys) = Some (Ok (Some (from_utf8_lossy name))) \<and>
    (\<forall>n < length (tls_record hello). extract_sni (take n (tls_record hello)) = Some (Ok None)) \<and>
    (list_all (\<lambda>b. unat b < 128) name \<longrightarrow> from_utf8_lossy name = map (\<lambda>w. char_of (unat w)) name)"
  using hello_name_found [of vr sid methods suites pre name after ys] assms(3-7) from_utf8_lossy_ascii [of name]
  unfolding exts_def hello_def by blast

theorem client_hello_name_found_witness:
  "extract_sni (tls_record (client_hello (replicate 34 0) [] [] [] (extension_of 10 [1] @ extension_of 0 (server_name [97, 46, 98])))) =
     Some (Ok (Some ''a.b''))"
proof -
  have n: "map (\<lambda>w. char_of (unat w)) [97, 46, 98 :: u8] = ''a.b''" by code_simp
  show ?thesis
    using client_hello_name_found [of "replicate 34 0" "[]" "[]" "[]" "[(10, [1])]" "[97, 46, 98]" "[]" "[]"] n
    by (simp add: client_hello_def extension_of_def server_name_def)
qed

lemma pump_out_prefix: "\<exists>j. pump_out killed i chunks = take j chunks"
proof (induction chunks arbitrary: i)
  case (Cons chunk chunks)
  then obtain j where "pump_out killed (Suc i) chunks = take j chunks" by blast
  then have "pump_out killed i (chunk # chunks) = take (if killed i \<or> chunk = [] then 0 else Suc j) (chunk # chunks)"
    by simp
  then show ?case by blast
qed simp

text \<open>
  Property C30 (nothing is sent to port 443 before the client names its host). On a tunnel to
  port 443 the broker writes nothing to the server, or its first write is the client's reads up
  to one that completes a TLS handshake record with a server name: no earlier read gave a name,
  and the name is the requested host or, for a host that is no address and has at least two
  labels, a strict subdomain of it (an empty name is let through for an address). All it writes
  is what the client sent, from the start and in order. On other ports the client's bytes are
  forwarded without a gate, and the server's bytes never pass one.
\<close>

theorem nothing_released_without_name:
  "(port = 443 \<longrightarrow> client_writes killed port host chunks = [] \<or>
     (\<exists>k \<le> length chunks. \<exists>sni data. hd (client_writes killed port host chunks) = data \<and>
        data = concat (take k chunks) \<and> data ! 0 = 0x16 \<and> extract_sni data = Some (Ok (Some sni)) \<and>
        (\<forall>i < k. extract_sni (concat (take i chunks)) = Some (Ok None)) \<and>
        (norm_host sni = norm_host host \<or>
         norm_host sni = [] \<and> parse_ip (norm_host host) \<noteq> None \<or>
         parse_ip (norm_host host) = None \<and> 2 \<le> length (filter (\<lambda>s. s \<noteq> []) (labels (norm_host host))) \<and>
         strict_suffix (filter (\<lambda>s. s \<noteq> []) (labels (norm_host host))) (filter (\<lambda>s. s \<noteq> []) (labels (norm_host sni)))))) \<and>
   (\<exists>j. concat (client_writes killed port host chunks) = concat (take j chunks))"
proof -
  have gate: "\<exists>k \<le> length chunks. \<exists>sni. data = concat (take k chunks) \<and> later = drop k chunks \<and> data ! 0 = 0x16 \<and>
      extract_sni data = Some (Ok (Some sni)) \<and> validate_sni_host host sni \<and>
      (\<forall>i < k. extract_sni (concat (take i chunks)) = Some (Ok None))"
    if "sni_gate host [] chunks = Released data later" for data later
  proof -
    from sni_gate_released [OF that] obtain k sni where k: "k \<le> length chunks" "data = concat (take k chunks)"
      "later = drop k chunks" "extract_sni data = Some (Ok (Some sni))" "validate_sni_host host sni"
      "\<forall>i < k. 0 < i \<longrightarrow> extract_sni (concat (take i chunks)) = Some (Ok None)" by auto
    have "extract_sni (concat (take i chunks)) = Some (Ok None)" if "i < k" for i
      using that k(6) by (cases "i = 0") (simp_all add: extract_sni_def)
    then show ?thesis using k extract_sni_found [OF k(4)] by blast
  qed
  have order: "\<exists>j. concat (client_writes killed port host chunks) = concat (take j chunks)"
  proof (cases "port = 443")
    case True
    show ?thesis
    proof (cases "sni_gate host [] chunks")
      case (Released data later)
      from gate [OF this] obtain k where k: "k \<le> length chunks" "data = concat (take k chunks)" "later = drop k chunks"
        by blast
      obtain j where "pump_out killed 0 later = take j later" using pump_out_prefix by blast
      then have "concat (client_writes killed port host chunks) = concat (take k chunks @ take j (drop k chunks))"
        using True Released k by (simp add: client_writes_def)
      also have "take k chunks @ take j (drop k chunks) = take (k + j) chunks" by (simp add: take_add)
      finally show ?thesis by blast
    qed (use True in \<open>auto simp: client_writes_def intro: exI [of _ 0]\<close>)
  next
    case False
    then show ?thesis using pump_out_prefix [of killed 0 chunks] by (auto simp: client_writes_def)
  qed
  show ?thesis
  proof (intro conjI impI order)
    assume "port = 443"
    then show "client_writes killed port host chunks = [] \<or>
     (\<exists>k \<le> length chunks. \<exists>sni data. hd (client_writes killed port host chunks) = data \<and>
        data = concat (take k chunks) \<and> data ! 0 = 0x16 \<and> extract_sni data = Some (Ok (Some sni)) \<and>
        (\<forall>i < k. extract_sni (concat (take i chunks)) = Some (Ok None)) \<and>
        (norm_host sni = norm_host host \<or>
         norm_host sni = [] \<and> parse_ip (norm_host host) \<noteq> None \<or>
         parse_ip (norm_host host) = None \<and> 2 \<le> length (filter (\<lambda>s. s \<noteq> []) (labels (norm_host host))) \<and>
         strict_suffix (filter (\<lambda>s. s \<noteq> []) (labels (norm_host host))) (filter (\<lambda>s. s \<noteq> []) (labels (norm_host sni)))))"
      using gate unfolding client_writes_def validate_sni_host_iff is_strict_subdomain_labels
      by (cases "sni_gate host [] chunks") (simp_all, blast)
  qed
qed

theorem nothing_released_without_name_witness:
  "client_writes (\<lambda>_. False) 443 ''B.c.'' [take 7 sample_hello, drop 7 sample_hello] = [sample_hello] \<and>
   sample_hello ! 0 = 0x16"
proof -
  have "client_writes (\<lambda>_. False) 443 ''B.c.'' [take 7 sample_hello, drop 7 sample_hello] = [sample_hello]"
    by (simp add: client_writes_def sample_gate del: sni_gate.simps)
  with nothing_released_without_name [of 443 "\<lambda>_. False" "''B.c.''" "[take 7 sample_hello, drop 7 sample_hello]"]
  show ?thesis by auto
qed

end
