(* ===== verification/Schema.thy ===== *)
theory Schema
  imports PolicyTypes
begin

text \<open>
  The layers of a policy as they are read: \<open>src/src/policy/loader/schema.rs\<close>. A layer is what
  the TOML parser (a library) returns for a policy file; every section and every key is
  optional. The fields of a section carry its prefix. A \<open>HashMap\<close> is the list of its
  entries in the order the program iterates over them.
\<close>

section \<open>Values\<close>

datatype RawStringList = One string | Many "string list"

fun into_vec :: "RawStringList \<Rightarrow> string list" where
  "into_vec (One value) = [value]"
| "into_vec (Many values) = values"

datatype RawValueOrString = Num nat | Str string

fun to_string_repr :: "RawValueOrString \<Rightarrow> string" where
  "to_string_repr (Num n) = show_nat n"
| "to_string_repr (Str s) = s"

section \<open>Sections\<close>

record RawMetadata =
  rm_name :: "string option"
  rm_description :: "string option"
  rm_extends :: "RawStringList option"

definition no_metadata :: RawMetadata where
  "no_metadata =
    \<lparr>rm_name = None, rm_description = None, rm_extends = None\<rparr>"

record RawSeccompNotify =
  rn_enabled :: "bool option"
  rn_default_action :: "string option"
  rn_allow_syscalls :: "RawStringList option"

record RawSecurity =
  rs_immutable :: "bool option"
  rs_system_log :: "bool option"
  rs_auto_deny_secrets :: "bool option"
  rs_git_guard :: "bool option"
  rs_seccomp_profile :: "string option"
  rs_seccomp_notify :: "RawSeccompNotify option"

record RawFilesystem =
  rf_allow_write :: "RawStringList option"
  rf_allow_read :: "RawStringList option"
  rf_deny :: "RawStringList option"
  rf_deny_write :: "RawStringList option"
  rf_deny_read :: "RawStringList option"
  rf_deny_preset :: "RawStringList option"
  rf_deny_glob :: "RawStringList option"
  rf_ro_mounts :: "RawStringList option"
  rf_read_only_caches :: "bool option"
  rf_shadow :: "bool option"
  rf_tmpfs_tmp :: "bool option"
  rf_dev_allow :: "RawStringList option"

definition no_filesystem :: RawFilesystem where
  "no_filesystem =
    \<lparr>rf_allow_write = None, rf_allow_read = None, rf_deny = None, rf_deny_write = None,
     rf_deny_read = None, rf_deny_preset = None, rf_deny_glob = None, rf_ro_mounts = None,
     rf_read_only_caches = None, rf_shadow = None, rf_tmpfs_tmp = None, rf_dev_allow = None\<rparr>"

record RawSecrets =
  rx_proxy :: "RawStringList option"
  rx_auto_deny :: "bool option"

record RawDeny =
  rd_paths :: "RawStringList option"

record RawEnvironment =
  re_pass_through :: "RawStringList option"
  re_deny :: "RawStringList option"
  re_deny_env :: "RawStringList option"

record RawNetPorts =
  rp_allow_tcp_connect :: "nat list option"

record RawNetwork =
  rw_mode :: "string option"
  rw_allow :: "RawStringList option"
  rw_allow_domains :: "RawStringList option"
  rw_deny :: "RawStringList option"
  rw_deny_domains :: "RawStringList option"
  rw_deny_network :: "RawStringList option"
  rw_net_preset :: "RawStringList option"
  rw_net_presets :: "RawStringList option"
  rw_allow_cidr :: "RawStringList option"
  rw_net_quota :: "(string \<times> string) list option"
  rw_net_ports :: "RawNetPorts option"
  rw_allow_tcp_connect :: "nat list option"
  rw_allow_tcp_bind :: "nat list option"

definition no_network :: RawNetwork where
  "no_network =
    \<lparr>rw_mode = None, rw_allow = None, rw_allow_domains = None, rw_deny = None,
     rw_deny_domains = None, rw_deny_network = None, rw_net_preset = None, rw_net_presets =
     None, rw_allow_cidr = None, rw_net_quota = None, rw_net_ports = None,
     rw_allow_tcp_connect = None, rw_allow_tcp_bind = None\<rparr>"

record RawUnixSockets =
  ru_allow :: "RawStringList option"
  ru_deny :: "RawStringList option"

record RawIoRate =
  ri_max_iops :: "nat option"
  ri_max_bandwidth :: "string option"

record RawCgroup =
  rc_memory_max :: "RawValueOrString option"
  rc_pids_max :: "RawValueOrString option"
  rc_swap_max :: "RawValueOrString option"
  rc_cpu_max :: "RawValueOrString option"

record RawLimits =
  rl_cpu_seconds :: "nat option"
  rl_address_space_bytes :: "nat option"
  rl_processes :: "nat option"
  rl_open_files :: "nat option"
  rl_file_size_bytes :: "nat option"
  rl_cgroup :: "RawCgroup option"
  rl_cpu_max :: "string option"
  rl_io_priority :: "string option"
  rl_io_rate :: "RawIoRate option"

definition no_raw_limits :: RawLimits where
  "no_raw_limits =
    \<lparr>rl_cpu_seconds = None, rl_address_space_bytes = None, rl_processes = None, rl_open_files
     = None, rl_file_size_bytes = None, rl_cgroup = None, rl_cpu_max = None, rl_io_priority =
     None, rl_io_rate = None\<rparr>"

record RawProcess =
  rb_allowed_binaries :: "RawStringList option"
  rb_foreground_args :: "RawStringList option"

record RawLayer =
  layer_metadata :: "RawMetadata option"
  layer_security :: "RawSecurity option"
  layer_filesystem :: "RawFilesystem option"
  layer_secrets :: "RawSecrets option"
  layer_display_only_deny :: "RawDeny option"
  layer_environment :: "RawEnvironment option"
  layer_network :: "RawNetwork option"
  layer_unix_sockets :: "RawUnixSockets option"
  layer_net_ports :: "RawNetPorts option"
  layer_limits :: "RawLimits option"
  layer_cgroup :: "RawCgroup option"
  layer_process :: "RawProcess option"

definition empty_layer :: RawLayer where
  "empty_layer =
    \<lparr>layer_metadata = None, layer_security = None, layer_filesystem = None, layer_secrets =
     None, layer_display_only_deny = None, layer_environment = None, layer_network = None,
     layer_unix_sockets = None, layer_net_ports = None, layer_limits = None, layer_cgroup =
     None, layer_process = None\<rparr>"

section \<open>Conversions\<close>

definition to_resource_limits :: "RawLimits \<Rightarrow> ResourceLimits" where
  "to_resource_limits raw =
     \<lparr>cpu_seconds = rl_cpu_seconds raw,
      address_space_bytes = rl_address_space_bytes raw,
      processes = rl_processes raw,
      open_files = rl_open_files raw,
      file_size_bytes = rl_file_size_bytes raw,
      io_rate = map_option (\<lambda>rate.
        \<lparr>max_iops = ri_max_iops rate,
         max_bandwidth = Option.bind (ri_max_bandwidth rate) parse_byte_size\<rparr>) (rl_io_rate raw)\<rparr>"

definition to_cgroup_config :: "RawCgroup \<Rightarrow> CgroupConfig" where
  "to_cgroup_config cg =
     \<lparr>memory_max = map_option to_string_repr (rc_memory_max cg),
      pids_max = map_option to_string_repr (rc_pids_max cg),
      swap_max = map_option to_string_repr (rc_swap_max cg),
      cg_cpu_max = map_option to_string_repr (rc_cpu_max cg)\<rparr>"

definition NET_PRESETS :: "(string \<times> string list) list" where
  "NET_PRESETS =
     [(''npm'', [''registry.npmjs.org'']),
      (''git'', [''github.com'', ''api.github.com'', ''codeload.github.com'']),
      (''pip'', [''pypi.org'', ''files.pythonhosted.org'']),
      (''pypi'', [''pypi.org'', ''files.pythonhosted.org'']),
      (''huggingface'', [''huggingface.co'', ''cdn-lfs.huggingface.co'']),
      (''hf'', [''huggingface.co'', ''cdn-lfs.huggingface.co'']),
      (''cargo'', [''crates.io'', ''static.crates.io'', ''index.crates.io'']),
      (''crates'', [''crates.io'', ''static.crates.io'', ''index.crates.io'']),
      (''go'', [''proxy.golang.org'', ''sum.golang.org'']),
      (''golang'', [''proxy.golang.org'', ''sum.golang.org'']),
      (''maven'', [''repo1.maven.org'', ''repo.maven.apache.org'']),
      (''nuget'', [''api.nuget.org''])]"

text \<open>A message with a quoted part, as the \<open>bail!\<close> calls build them.\<close>

definition quoted :: "string \<Rightarrow> string" where
  "quoted s = [CHR 0x27] @ s @ [CHR 0x27]"

definition expand_net_preset :: "string \<Rightarrow> (string, string list) result" where
  "expand_net_preset name =
     (let key = to_ascii_lowercase (trim name)
      in case map_of NET_PRESETS key of
           Some domains \<Rightarrow> Ok domains
         | None \<Rightarrow> Err (''unknown net preset '' @ quoted key @
             ''; known presets: npm, git, pip, huggingface, cargo, go, maven, nuget''))"

definition parse_quota_bytes :: "string \<Rightarrow> (string, nat) result" where
  "parse_quota_bytes s =
     (case parse_bytes_value s of
        Some n \<Rightarrow> Ok n
      | None \<Rightarrow> Err (''invalid quota value '' @ quoted s))"

section \<open>The host of the loader\<close>

text \<open>
  What the loader asks of its surroundings: environment variables, the filesystem, the TOML
  parser, the glob library, and the texts of the profiles embedded at compile time. The
  filesystem answers \<open>lstat\<close> (without following links), \<open>stat\<close> (following them),
  canonicalization, directory listings (whose entries may fail one by one), and the text of a
  file.
\<close>

datatype FileKind = RegularFile | Directory | Symlink | OtherFile

record LoaderHost =
  env_var :: "string \<Rightarrow> string option"
  uid :: nat
  current_dir :: "path option"
  lstat :: "path \<Rightarrow> (string, FileKind) result"
  stat :: "path \<Rightarrow> FileKind option"
  canon :: canonicalize
  read_dir :: "path \<Rightarrow> (string, (string, path) result list) result"
  read_text :: "path \<Rightarrow> (string, string) result"
  glob_with :: "string \<Rightarrow> path list option"
  toml :: "string \<Rightarrow> (string, RawLayer) result"
  embedded :: "string \<Rightarrow> string"

definition parse_layer :: "LoaderHost \<Rightarrow> string \<Rightarrow> string \<Rightarrow> (PolicyError, RawLayer) result" where
  "parse_layer host txt label =
     (case toml host txt of
        Ok layer \<Rightarrow> Ok layer
      | Err e \<Rightarrow> Err (CompilationFailed (''failed to parse policy '' @ quoted label @ '': '' @ e)))"

text \<open>\<open>var_os("HOME").or_else(var_os("USERPROFILE"))\<close>.\<close>

definition home_var :: "LoaderHost \<Rightarrow> path option" where
  "home_var host = (case env_var host ''HOME'' of Some h \<Rightarrow> Some h | None \<Rightarrow> env_var host ''USERPROFILE'')"

section \<open>Lemmas\<close>

lemma parse_quota_bytes_ok: "parse_quota_bytes s = Ok n \<longleftrightarrow> parse_bytes_value s = Some n"
  by (simp add: parse_quota_bytes_def split: option.splits)

lemma parse_layer_ok: "parse_layer host txt label = Ok l \<longleftrightarrow> toml host txt = Ok l"
  by (simp add: parse_layer_def split: sum.splits)

end
