(* ===== verification/Presets.thy ===== *)
theory Presets
  imports Schema
begin

text \<open>
  The built-in profiles of \<open>src/src/policy/defaults.rs\<close> and the security presets, agent
  allowlists and deny presets of \<open>src/src/policy/presets.rs\<close>, with \<open>agent_root\<close> of
  \<open>loader/resolve.rs\<close>. A \<open>match\<close> on names is a table, searched in order. The texts of the
  profiles are files embedded at compile time; the model keeps the name of the file and the
  host gives its text.

  The lemmas show that the tables agree with each other: every name an agent goes by leads
  to one of the known profiles, with a root, a text and a deny preset, and the list of known
  presets is exactly what resolves.
\<close>

section \<open>Built-in profiles\<close>

definition PROFILE_NAMES :: "string list" where
  "PROFILE_NAMES =
     [''default'', ''strict'', ''audit'', ''permissive'']"

definition AGENT_PROFILE_NAMES :: "string list" where
  "AGENT_PROFILE_NAMES =
     [''codex'', ''claude'', ''antigravity'', ''aider'', ''cursor'', ''cline'', ''opencode'',
      ''copilot'', ''windsurf'', ''goose'', ''openhands'', ''devin'', ''smolagents'', ''omp'',
      ''zcode'', ''kimi'', ''grok'', ''hermes'', ''kilo'', ''pi'', ''command_code'',
      ''freebuff'', ''deepseek_harness'', ''omnigent'', ''crewai'', ''autogen'', ''amp'',
      ''custom'', ''swebench'', ''qwen_code'', ''roo_code'', ''browser_use'']"

definition DEFAULT_ENV_PASSTHROUGH :: "string list" where
  "DEFAULT_ENV_PASSTHROUGH =
     [''HOME'', ''PATH'', ''SHELL'', ''USER'', ''LOGNAME'', ''TERM'', ''COLORTERM'', ''LANG'',
      ''LC_*'', ''EDITOR'', ''GIT_AUTHOR_NAME'', ''GIT_AUTHOR_EMAIL'', ''GIT_COMMITTER_NAME'',
      ''GIT_COMMITTER_EMAIL'', ''CARGO_HOME'', ''RUSTUP_HOME'', ''NVM_DIR'', ''NODE_PATH'',
      ''TMPDIR'', ''PWD'', ''OLDPWD'', ''XDG_RUNTIME_DIR'', ''XDG_CONFIG_HOME'', ''DISPLAY'',
      ''WAYLAND_DISPLAY'', ''XDG_CURRENT_DESKTOP'', ''XDG_SESSION_TYPE'',
      ''XDG_SESSION_DESKTOP'', ''XAUTHORITY'', ''DBUS_SESSION_BUS_ADDRESS'', ''BROWSER'',
      ''NO_COLOR'', ''CI'', ''TERM_PROGRAM'', ''VETTO_SANDBOXED'', ''VETTO_SHIM_ACTIVE'',
      ''VETTO_WRAPPED'', ''VETTO_GIT_GUARD'']"

definition BUILTIN_FILES :: "(string \<times> string) list" where
  "BUILTIN_FILES =
     [(''default'', ''../../profiles/default.toml''),
      (''strict'', ''../../profiles/strict.toml''),
      (''audit'', ''../../profiles/audit.toml''),
      (''permissive'', ''../../profiles/permissive.toml'')]"

definition builtin :: "LoaderHost \<Rightarrow> string \<Rightarrow> string option" where
  "builtin host name = map_option (embedded host) (map_of BUILTIN_FILES name)"

definition CANONICAL_AGENTS :: "(string \<times> string) list" where
  "CANONICAL_AGENTS =
     [(''codex'', ''codex''), (''codex-cli'', ''codex''), (''claude'', ''claude''),
      (''claude-code'', ''claude''), (''aider'', ''aider''), (''aider-chat'', ''aider''),
      (''cursor'', ''cursor''), (''cursor-agent'', ''cursor''), (''cursor-server'', ''cursor''),
      (''cline'', ''cline''), (''cline-cli'', ''cline''), (''opencode'', ''opencode''),
      (''opencode-ai'', ''opencode''), (''copilot'', ''copilot''),
      (''github-copilot-cli'', ''copilot''), (''gh-copilot'', ''copilot''),
      (''antigravity'', ''antigravity''), (''antigravity-cli'', ''antigravity''),
      (''agy'', ''antigravity''), (''windsurf'', ''windsurf''),
      (''windsurf-cli'', ''windsurf''), (''goose'', ''goose''), (''goose-ai'', ''goose''),
      (''openhands'', ''openhands''), (''all-hands'', ''openhands''), (''devin'', ''devin''),
      (''devin-cli'', ''devin''), (''smolagents'', ''smolagents''),
      (''smol-agents'', ''smolagents''), (''smolagent'', ''smolagents''), (''omp'', ''omp''),
      (''omp-cli'', ''omp''), (''zcode'', ''zcode''), (''zcode-cli'', ''zcode''),
      (''kimi'', ''kimi''), (''kimi-code'', ''kimi''), (''kimi-cli'', ''kimi''),
      (''grok'', ''grok''), (''grok-build'', ''grok''), (''grok-cli'', ''grok''),
      (''hermes'', ''hermes''), (''hermes-agent'', ''hermes''), (''kilo'', ''kilo''),
      (''kilo-code'', ''kilo''), (''pi'', ''pi''), (''pi-agent'', ''pi''),
      (''command-code'', ''command_code''), (''command_code'', ''command_code''),
      (''commandcode'', ''command_code''), (''freebuff'', ''freebuff''),
      (''freebuff-agent'', ''freebuff''), (''deepseek-harness'', ''deepseek_harness''),
      (''deepseek_harness'', ''deepseek_harness''), (''deepseek'', ''deepseek_harness''),
      (''omnigent'', ''omnigent''), (''omnigent-ai'', ''omnigent''),
      (''omnigent-cli'', ''omnigent''), (''crewai'', ''crewai''), (''crew-ai'', ''crewai''),
      (''autogen'', ''autogen''), (''autogen-studio'', ''autogen''),
      (''autogenstudio'', ''autogen''), (''amp'', ''amp''), (''amp-cli'', ''amp''),
      (''custom'', ''custom''), (''swebench'', ''swebench''), (''qwen-code'', ''qwen_code''),
      (''qwen_code'', ''qwen_code''), (''qwencode'', ''qwen_code''), (''qwen'', ''qwen_code''),
      (''roo-code'', ''roo_code''), (''roo_code'', ''roo_code''), (''roocode'', ''roo_code''),
      (''roo'', ''roo_code''), (''browser-use'', ''browser_use''),
      (''browser_use'', ''browser_use''), (''browseruse'', ''browser_use'')]"

definition canonical_agent_name :: "string \<Rightarrow> string option" where
  "canonical_agent_name name = map_of CANONICAL_AGENTS (to_ascii_lowercase (trim name))"

definition canonical_or_self :: "string \<Rightarrow> string" where
  "canonical_or_self agent = (case canonical_agent_name agent of None \<Rightarrow> agent | Some c \<Rightarrow> c)"

definition AGENT_FILES :: "(string \<times> string) list" where
  "AGENT_FILES =
     [(''codex'', ''../../profiles/agents/codex.toml''),
      (''claude'', ''../../profiles/agents/claude.toml''),
      (''antigravity'', ''../../profiles/agents/antigravity.toml''),
      (''aider'', ''../../profiles/agents/aider.toml''),
      (''cursor'', ''../../profiles/agents/cursor.toml''),
      (''cline'', ''../../profiles/agents/cline.toml''),
      (''opencode'', ''../../profiles/agents/opencode.toml''),
      (''copilot'', ''../../profiles/agents/copilot.toml''),
      (''windsurf'', ''../../profiles/agents/windsurf.toml''),
      (''goose'', ''../../profiles/agents/goose.toml''),
      (''openhands'', ''../../profiles/agents/openhands.toml''),
      (''devin'', ''../../profiles/agents/devin.toml''),
      (''smolagents'', ''../../profiles/agents/smolagents.toml''),
      (''omp'', ''../../profiles/agents/omp.toml''),
      (''zcode'', ''../../profiles/agents/zcode.toml''),
      (''kimi'', ''../../profiles/agents/kimi.toml''),
      (''grok'', ''../../profiles/agents/grok.toml''),
      (''hermes'', ''../../profiles/agents/hermes.toml''),
      (''kilo'', ''../../profiles/agents/kilo.toml''),
      (''pi'', ''../../profiles/agents/pi.toml''),
      (''command_code'', ''../../profiles/agents/command_code.toml''),
      (''freebuff'', ''../../profiles/agents/freebuff.toml''),
      (''deepseek_harness'', ''../../profiles/agents/deepseek_harness.toml''),
      (''omnigent'', ''../../profiles/agents/omnigent.toml''),
      (''crewai'', ''../../profiles/agents/crewai.toml''),
      (''autogen'', ''../../profiles/agents/autogen.toml''),
      (''amp'', ''../../profiles/agents/amp.toml''),
      (''custom'', ''../../profiles/agents/custom.toml''),
      (''swebench'', ''../../profiles/agents/swebench.toml''),
      (''qwen_code'', ''../../profiles/agents/qwen_code.toml''),
      (''roo_code'', ''../../profiles/agents/roo_code.toml''),
      (''browser_use'', ''../../profiles/agents/browser_use.toml'')]"

definition agent_builtin :: "LoaderHost \<Rightarrow> string \<Rightarrow> string option" where
  "agent_builtin host name =
     (case canonical_agent_name name of
        None \<Rightarrow> None
      | Some c \<Rightarrow> map_option (embedded host) (map_of AGENT_FILES c))"

section \<open>Agent roots\<close>

definition AGENT_ROOTS :: "(string \<times> path) list" where
  "AGENT_ROOTS =
     [(''codex'', ''.codex''), (''claude'', ''.claude''), (''antigravity'', ''.gemini''),
      (''agy'', ''.gemini''), (''aider'', ''.aider''), (''cursor'', ''.cursor''),
      (''cline'', ''.cline''), (''opencode'', ''.config/opencode''),
      (''copilot'', ''.config/github-copilot''), (''windsurf'', ''.windsurf''),
      (''goose'', ''.config/goose''), (''openhands'', ''.openhands''), (''devin'', ''.devin''),
      (''smolagents'', ''.cache/smolagents''), (''amp'', ''.amp''), (''omp'', ''.omp''),
      (''zcode'', ''.zcode''), (''kimi'', ''.kimi''), (''grok'', ''.grok''),
      (''hermes'', ''.hermes''), (''kilo'', ''.kilo''), (''pi'', ''.pi''),
      (''command_code'', ''.command-code''), (''freebuff'', ''.freebuff''),
      (''deepseek_harness'', ''.deepseek''), (''omnigent'', ''.omnigent''),
      (''crewai'', ''.crewai''), (''autogen'', ''.autogen''),
      (''custom'', ''.config/vetto/agents/custom''), (''swebench'', ''.swebench''),
      (''qwen_code'', ''.qwen''), (''roo_code'', ''.roo''), (''browser_use'', ''.browser-use'')]"

definition agent_root :: "path \<Rightarrow> string \<Rightarrow> (string, path) result" where
  "agent_root home agent =
     (case map_of AGENT_ROOTS (canonical_or_self agent) of
        Some dir \<Rightarrow> Ok (path_join home dir)
      | None \<Rightarrow> Err (''unknown agent '' @ quoted agent @ ''; known agents: '' @
                    join_with '', '' AGENT_PROFILE_NAMES))"

section \<open>Security presets\<close>

datatype SecurityPreset = Paranoid | Balanced | Yolo

definition preset_parse :: "string \<Rightarrow> (string, SecurityPreset) result" where
  "preset_parse str =
     (let other = to_ascii_lowercase (trim str)
      in if other = ''paranoid'' then Ok Paranoid
         else if other = ''balanced'' then Ok Balanced
         else if other = ''yolo'' then Ok Yolo
         else Err (''unknown preset '' @ quoted other @ '' (expected '' @ quoted ''paranoid'' @ '', '' @
                   quoted ''balanced'' @ '', or '' @ quoted ''yolo'' @ '')''))"

fun preset_as_str :: "SecurityPreset \<Rightarrow> string" where
  "preset_as_str Paranoid = ''paranoid''"
| "preset_as_str Balanced = ''balanced''"
| "preset_as_str Yolo = ''yolo''"

definition CANONICAL_PACKAGE_REGISTRY_DOMAINS :: "string list" where
  "CANONICAL_PACKAGE_REGISTRY_DOMAINS =
     [''registry.npmjs.org'', ''pypi.org'', ''files.pythonhosted.org'', ''crates.io'',
      ''index.crates.io'', ''static.crates.io'', ''proxy.golang.org'', ''sum.golang.org'',
      ''registry.yarnpkg.com'', ''github.com'', ''api.github.com'',
      ''raw.githubusercontent.com'', ''objects.githubusercontent.com'']"

definition AGENT_DOMAINS_1 :: "(string \<times> string list) list" where
  "AGENT_DOMAINS_1 =
     [(''claude'', [''api.anthropic.com'', ''auth.anthropic.com'', ''claude.ai'',
         ''statsig.anthropic.com'', ''platform.anthropic.com'']),
      (''codex'', [''api.openai.com'', ''chatgpt.com'', ''auth.openai.com'', ''cdn.oaistatic.com'',
         ''chat.openai.com'', ''platform.openai.com'']),
      (''omp'', [''omp.sh'', ''api.anthropic.com'', ''api.openai.com'',
         ''generativelanguage.googleapis.com'', ''openrouter.ai'']),
      (''zcode'', [''z.ai'', ''api.z.ai'', ''glm.z.ai'', ''api.openai.com'']),
      (''kimi'', [''code.kimi.com'', ''api.moonshot.cn'', ''api.moonshot.ai'']),
      (''grok'', [''x.ai'', ''api.x.ai'', ''grok.com'']),
      (''antigravity'', [''accounts.google.com'', ''oauth2.googleapis.com'', ''antigravity.google'',
         ''www.googleapis.com'', ''cloudcode-pa.googleapis.com'',
         ''daily-cloudcode-pa.googleapis.com'', ''antigravity-unleash.goog'',
         ''alkalimodelplatform-pa.googleapis.com'', ''generativelanguage.googleapis.com'',
         ''aicode.googleapis.com'', ''businessaicode.googleapis.com'',
         ''aiplatform.googleapis.com'', ''play.googleapis.com'', ''googleusercontent.com'']),
      (''agy'', [''accounts.google.com'', ''oauth2.googleapis.com'', ''antigravity.google'',
         ''www.googleapis.com'', ''cloudcode-pa.googleapis.com'',
         ''daily-cloudcode-pa.googleapis.com'', ''antigravity-unleash.goog'',
         ''alkalimodelplatform-pa.googleapis.com'', ''generativelanguage.googleapis.com'',
         ''aicode.googleapis.com'', ''businessaicode.googleapis.com'',
         ''aiplatform.googleapis.com'', ''play.googleapis.com'', ''googleusercontent.com'']),
      (''aider'', [''api.openai.com'', ''api.anthropic.com'', ''auth.anthropic.com'', ''openrouter.ai'',
         ''api.deepseek.com'', ''api.groq.com'', ''generativelanguage.googleapis.com'',
         ''api.mistral.ai'', ''api.cohere.ai'', ''api.cohere.com'', ''api.together.xyz'',
         ''api.perplexity.ai'', ''aider.chat'', ''api.github.com'', ''github.com'',
         ''registry.npmjs.org'', ''pypi.org'', ''files.pythonhosted.org'']),
      (''opencode'', [''api.openai.com'', ''api.anthropic.com'', ''openrouter.ai'', ''opencode.ai'',
         ''integrate.api.nvidia.com'', ''agentrouter.org'', ''aihubmix.com'',
         ''api.github.com'', ''github.com'', ''localhost'', ''127.0.0.1'']),
      (''cursor'', [''api2.cursor.sh'', ''api.cursor.sh'', ''auth.cursor.sh'', ''repo.cursor.sh'']),
      (''copilot'', [''api.github.com'', ''copilot-proxy.githubusercontent.com'']),
      (''cline'', [''api.anthropic.com'', ''api.openai.com'', ''openrouter.ai'', ''otel.cline.bot'',
         ''api.cline.bot'', ''data.cline.bot'', ''registry.npmjs.org'']),
      (''windsurf'', [''api.codeium.com'', ''windsurf.codeium.com'']),
      (''goose'', [''api.openai.com'', ''api.anthropic.com'', ''openrouter.ai'']),
      (''openhands'', [''api.all-hands.dev'', ''api.openai.com'', ''api.anthropic.com''])]"

definition AGENT_DOMAINS_2 :: "(string \<times> string list) list" where
  "AGENT_DOMAINS_2 =
     [(''devin'', [''api.devin.ai'', ''cognition.ai'', ''api.openai.com'']),
      (''smolagents'', [''api.openai.com'', ''api.anthropic.com'', ''openrouter.ai'', ''huggingface.co'',
         ''hf.co'', ''cas.huggingface.co'']),
      (''hermes'', [''api.openai.com'', ''api.anthropic.com'', ''openrouter.ai'', ''nousresearch.com'',
         ''api.together.xyz'']),
      (''kilo'', [''api.openai.com'', ''api.anthropic.com'', ''api.kilo.ai'', ''openrouter.ai'']),
      (''pi'', [''api.openai.com'', ''api.anthropic.com'', ''api.groq.com'', ''openrouter.ai'']),
      (''command_code'', [''api.cohere.com'', ''api.cohere.ai'', ''api.openai.com'', ''api.anthropic.com'',
         ''openrouter.ai'']),
      (''freebuff'', [''api.deepseek.com'', ''api.openai.com'', ''api.anthropic.com'', ''openrouter.ai'']),
      (''deepseek_harness'', [''api.deepseek.com'', ''api.openai.com'', ''api.anthropic.com'', ''openrouter.ai'']),
      (''omnigent'', [''api.omnigent.ai'', ''api.openai.com'', ''api.anthropic.com'', ''openrouter.ai'',
         ''api.together.xyz'']),
      (''crewai'', [''api.openai.com'', ''api.anthropic.com'', ''generativelanguage.googleapis.com'',
         ''api.groq.com'', ''api.cohere.com'', ''api.cohere.ai'', ''openrouter.ai'',
         ''app.crewai.com'', ''telemetry.crewai.com'', ''google.serper.dev'', ''api.exa.ai'',
         ''github.com'', ''api.github.com'']),
      (''autogen'', [''api.openai.com'', ''api.anthropic.com'', ''generativelanguage.googleapis.com'',
         ''api.groq.com'', ''openrouter.ai'', ''api.mistral.ai'', ''api.together.xyz'',
         ''api.cohere.com'', ''api.cohere.ai'', ''github.com'', ''api.github.com'']),
      (''amp'', [''ampcode.com'', ''sourcegraph.com'', ''auth.sourcegraph.com'', ''api.anthropic.com'',
         ''api.openai.com'']),
      (''swebench'', []),
      (''qwen_code'', [''dashscope.aliyuncs.com'', ''api.deepseek.com'', ''api.openai.com'',
         ''api.anthropic.com'', ''openrouter.ai'', ''huggingface.co'', ''hf.co'']),
      (''roo_code'', [''api.anthropic.com'', ''api.openai.com'', ''openrouter.ai'', ''api.deepseek.com'',
         ''generativelanguage.googleapis.com'', ''api.groq.com'']),
      (''browser_use'', [''api.openai.com'', ''api.anthropic.com'', ''openrouter.ai'', ''api.deepseek.com'',
         ''generativelanguage.googleapis.com'', ''playwright.dev''])]"

definition agent_domains :: "string \<Rightarrow> string list" where
  "agent_domains canon_name =
     (case map_of (AGENT_DOMAINS_1 @ AGENT_DOMAINS_2) canon_name of None \<Rightarrow> [] | Some ds \<Rightarrow> ds)"

definition extract_host_from_url :: "string \<Rightarrow> string option" where
  "extract_host_from_url url =
     (let str = trim url
      in if str = [] then None
         else (let without_scheme = (case after_first ''://'' str of Some r \<Rightarrow> r | None \<Rightarrow> str);
                   host_and_port = takeWhile (\<lambda>c. c \<noteq> CHR ''/'' \<and> c \<noteq> CHR ''?'' \<and> c \<noteq> CHR ''#'') without_scheme;
                   host_and_port = (case rsplit_once (CHR ''@'') host_and_port of
                                      Some (_, r) \<Rightarrow> r | None \<Rightarrow> host_and_port);
                   hst = (if starts_with host_and_port ''[''
                          then (if CHR '']'' \<in> set host_and_port
                                then takeWhile (\<lambda>c. c \<noteq> CHR '']'') (tl host_and_port)
                                else host_and_port)
                          else (case rsplit_once (CHR '':'') host_and_port of
                                  Some (h, p) \<Rightarrow>
                                    if p \<noteq> [] \<and> list_all is_ascii_digit p \<and> CHR '':'' \<notin> set h
                                    then h else host_and_port
                                | None \<Rightarrow> host_and_port));
                   hst = to_ascii_lowercase (trim_end_matches (\<lambda>c. c = CHR ''.'') (trim hst))
               in if hst = [] then None else Some hst))"

definition BASE_URL_VARS :: "string list" where
  "BASE_URL_VARS =
     [''OPENAI_BASE_URL'', ''ANTHROPIC_BASE_URL'', ''DEEPSEEK_BASE_URL'', ''OPENROUTER_BASE_URL'',
      ''OLLAMA_API_BASE'']"

definition push_base_url :: "LoaderHost \<Rightarrow> string \<Rightarrow> string list \<Rightarrow> string list" where
  "push_base_url host var domains =
     (case Option.bind (env_var host var) extract_host_from_url of
        None \<Rightarrow> domains
      | Some h \<Rightarrow>
          if h = ''localhost'' \<or> h = ''127.0.0.1''
          then push_unique (=) ''127.0.0.1'' (push_unique (=) ''localhost'' domains)
          else push_unique (=) h domains)"

definition agent_network_allowlist :: "LoaderHost \<Rightarrow> string \<Rightarrow> string list" where
  "agent_network_allowlist host agent =
     (let domains = agent_domains (canonical_or_self agent)
      in if domains \<noteq> []
         then fold (push_unique (=)) CANONICAL_PACKAGE_REGISTRY_DOMAINS
                (fold (push_base_url host) BASE_URL_VARS domains)
         else domains)"

definition agent_default_limits :: "string \<Rightarrow> RawLimits option" where
  "agent_default_limits agent =
     (if canonical_or_self agent = ''opencode''
      then Some (no_raw_limits\<lparr>rl_file_size_bytes := Some 2147483648\<rparr>)
      else None)"

definition standard_secret_deny_paths :: "string list" where
  "standard_secret_deny_paths =
     [''$PROJECT/.env'', ''$PROJECT/.env.*'', ''$PROJECT/**/.env'', ''$PROJECT/**/.env.*'',
      ''$PROJECT/*.pem'', ''$PROJECT/**/*.pem'', ''$PROJECT/*.key'', ''$PROJECT/**/*.key'',
      ''$PROJECT/*.p12'', ''$PROJECT/**/*.p12'', ''$PROJECT/*.pfx'', ''$PROJECT/**/*.pfx'',
      ''$PROJECT/*.kdbx'', ''$PROJECT/**/*.kdbx'', ''$PROJECT/.git/config'',
      ''$PROJECT/.[eE][nN][vV]'', ''$PROJECT/.[eE][nN][vV].*'', ''$PROJECT/**/.[eE][nN][vV]'',
      ''$PROJECT/**/.[eE][nN][vV].*'', ''$PROJECT/*.[pP][eE][mM]'',
      ''$PROJECT/**/*.[pP][eE][mM]'', ''$PROJECT/*.[kK][eE][yY]'',
      ''$PROJECT/**/*.[kK][eE][yY]'', ''$PROJECT/*.[pP]12'', ''$PROJECT/**/*.[pP]12'',
      ''$PROJECT/*.[pP][fF][xX]'', ''$PROJECT/**/*.[pP][fF][xX]'',
      ''$PROJECT/*.[kK][dD][bB][xX]'', ''$PROJECT/**/*.[kK][dD][bB][xX]'']"

text \<open>The network section of the balanced and the permissive preset.\<close>

definition allowlist_network :: "string list \<Rightarrow> RawNetwork" where
  "allowlist_network domains =
     no_network\<lparr>rw_mode := Some (''allowlist:'' @ join_with '','' domains), rw_allow := Some (Many domains)\<rparr>"

definition preset_layer :: "LoaderHost \<Rightarrow> SecurityPreset \<Rightarrow> string option \<Rightarrow> RawLayer" where
  "preset_layer host preset agent =
     (let network_domains = (case agent of None \<Rightarrow> [] | Some a \<Rightarrow> agent_network_allowlist host a);
          secrets = Some \<lparr>rd_paths = Some (Many standard_secret_deny_paths)\<rparr>;
          off = no_network\<lparr>rw_mode := Some ''off''\<rparr>;
          agent_limits = Option.bind agent agent_default_limits
      in case preset of
           Paranoid \<Rightarrow>
             empty_layer\<lparr>
               layer_metadata := Some (no_metadata\<lparr>rm_name := Some ''preset:paranoid'',
                 rm_description := Some ''Paranoid preset: everything closed, network off''\<rparr>),
               layer_filesystem := Some (no_filesystem\<lparr>
                 rf_allow_write := Some (Many [''$PROJECT'', ''/tmp'', ''/dev/null'']),
                 rf_allow_read := Some (Many [''$PROJECT'']),
                 rf_deny_write := Some (Many [''$PROJECT/.git''])\<rparr>),
               layer_display_only_deny := secrets,
               layer_network := Some off\<rparr>
         | Balanced \<Rightarrow>
             empty_layer\<lparr>
               layer_metadata := Some (no_metadata\<lparr>rm_name := Some ''preset:balanced'',
                 rm_description := Some ''Balanced preset: standard development access''\<rparr>),
               layer_filesystem := Some (no_filesystem\<lparr>
                 rf_allow_write := Some (Many [''$PROJECT'', ''/tmp'', ''/dev/null'']),
                 rf_allow_read := Some (Many [''$PROJECT'', ''$HOME/.cargo'', ''$HOME/.rustup'',
                   ''$HOME/.npm'', ''$HOME/.cache'', ''$HOME/.local/share'']),
                 rf_deny_write := Some (Many [''$PROJECT/.git''])\<rparr>),
               layer_display_only_deny := secrets,
               layer_network :=
                 Some (if network_domains \<noteq> [] then allowlist_network network_domains else off),
               layer_limits := agent_limits\<rparr>
         | Yolo \<Rightarrow>
             empty_layer\<lparr>
               layer_metadata := Some (no_metadata\<lparr>rm_name := Some ''preset:yolo'',
                 rm_description := Some ''Yolo preset: permissive write/read with secret masking''\<rparr>),
               layer_filesystem := Some (no_filesystem\<lparr>
                 rf_allow_write := Some (Many [''$PROJECT'', ''/tmp'', ''/dev/null'', ''$HOME'']),
                 rf_allow_read := Some (Many [''/'']),
                 rf_deny_write := Some (Many [''$PROJECT/.git''])\<rparr>),
               layer_display_only_deny := secrets,
               layer_network :=
                 (if network_domains \<noteq> [] then Some (allowlist_network network_domains) else None),
               layer_limits := agent_limits\<rparr>)"

section \<open>Deny presets\<close>

definition DENY_PRESETS :: "(string \<times> string list) list" where
  "DENY_PRESETS =
     [(''ssh'', [''$HOME/.ssh'']),
      (''aws'', [''$HOME/.aws'']),
      (''gcp'', [''$HOME/.config/gcloud'']),
      (''gcloud'', [''$HOME/.config/gcloud'']),
      (''kube'', [''$HOME/.kube'']),
      (''kubernetes'', [''$HOME/.kube'']),
      (''docker'', [''$HOME/.docker'', ''$HOME/.docker/config.json'']),
      (''gnupg'', [''$HOME/.gnupg'']),
      (''gpg'', [''$HOME/.gnupg'']),
      (''git'', [''$HOME/.git-credentials'', ''$HOME/.netrc'']),
      (''npm'', [''$HOME/.npmrc'']),
      (''cargo'', [''$HOME/.cargo/credentials'', ''$HOME/.cargo/credentials.toml'']),
      (''codex'', [''$HOME/.codex'', ''$HOME/.config/codex'']),
      (''codex-cli'', [''$HOME/.codex'', ''$HOME/.config/codex'']),
      (''claude'', [''$HOME/.claude'', ''$HOME/.config/claude'', ''$HOME/.claude.json'']),
      (''claude-code'', [''$HOME/.claude'', ''$HOME/.config/claude'', ''$HOME/.claude.json'']),
      (''antigravity'', [''$HOME/.gemini'', ''$HOME/.config/Antigravity'']),
      (''antigravity-cli'', [''$HOME/.gemini'', ''$HOME/.config/Antigravity'']),
      (''agy'', [''$HOME/.gemini'', ''$HOME/.config/Antigravity'']),
      (''aider'', [''$HOME/.aider'', ''$HOME/.config/aider'', ''$HOME/.aider.conf.yml'']),
      (''aider-chat'', [''$HOME/.aider'', ''$HOME/.config/aider'', ''$HOME/.aider.conf.yml'']),
      (''cursor'', [''$HOME/.cursor'', ''$HOME/.config/Cursor'']),
      (''cursor-agent'', [''$HOME/.cursor'', ''$HOME/.config/Cursor'']),
      (''cursor-server'', [''$HOME/.cursor'', ''$HOME/.config/Cursor'']),
      (''cline'', [''$HOME/.cline'', ''$HOME/.config/cline'']),
      (''cline-cli'', [''$HOME/.cline'', ''$HOME/.config/cline'']),
      (''opencode'', [''$HOME/.opencode'', ''$HOME/.config/opencode'']),
      (''opencode-ai'', [''$HOME/.opencode'', ''$HOME/.config/opencode'']),
      (''copilot'', [''$HOME/.copilot'', ''$HOME/.config/github-copilot'']),
      (''github-copilot-cli'', [''$HOME/.copilot'', ''$HOME/.config/github-copilot'']),
      (''gh-copilot'', [''$HOME/.copilot'', ''$HOME/.config/github-copilot'']),
      (''windsurf'', [''$HOME/.windsurf'', ''$HOME/.codeium'', ''$HOME/.config/windsurf'']),
      (''windsurf-cli'', [''$HOME/.windsurf'', ''$HOME/.codeium'', ''$HOME/.config/windsurf'']),
      (''goose'', [''$HOME/.goose'', ''$HOME/.config/goose'']),
      (''goose-ai'', [''$HOME/.goose'', ''$HOME/.config/goose'']),
      (''openhands'', [''$HOME/.openhands'', ''$HOME/.config/openhands'']),
      (''all-hands'', [''$HOME/.openhands'', ''$HOME/.config/openhands'']),
      (''devin'', [''$HOME/.devin'', ''$HOME/.config/devin'']),
      (''devin-cli'', [''$HOME/.devin'', ''$HOME/.config/devin'']),
      (''smolagents'', [''$HOME/.smolagents'', ''$HOME/.cache/huggingface'', ''$HOME/.cache/smolagents'']),
      (''smol-agents'', [''$HOME/.smolagents'', ''$HOME/.cache/huggingface'', ''$HOME/.cache/smolagents'']),
      (''smolagent'', [''$HOME/.smolagents'', ''$HOME/.cache/huggingface'', ''$HOME/.cache/smolagents'']),
      (''omp'', [''$HOME/.omp'', ''$HOME/.config/omp'']),
      (''omp-cli'', [''$HOME/.omp'', ''$HOME/.config/omp'']),
      (''zcode'', [''$HOME/.zcode'', ''$HOME/.config/zcode'']),
      (''zcode-cli'', [''$HOME/.zcode'', ''$HOME/.config/zcode'']),
      (''kimi'', [''$HOME/.kimi'', ''$HOME/.config/kimi'']),
      (''kimi-code'', [''$HOME/.kimi'', ''$HOME/.config/kimi'']),
      (''kimi-cli'', [''$HOME/.kimi'', ''$HOME/.config/kimi'']),
      (''grok'', [''$HOME/.grok'', ''$HOME/.config/grok'']),
      (''grok-build'', [''$HOME/.grok'', ''$HOME/.config/grok'']),
      (''grok-cli'', [''$HOME/.grok'', ''$HOME/.config/grok'']),
      (''hermes'', [''$HOME/.hermes'', ''$HOME/.config/hermes'']),
      (''hermes-agent'', [''$HOME/.hermes'', ''$HOME/.config/hermes'']),
      (''kilo'', [''$HOME/.kilo'', ''$HOME/.config/kilo'']),
      (''kilo-code'', [''$HOME/.kilo'', ''$HOME/.config/kilo'']),
      (''pi'', [''$HOME/.pi'', ''$HOME/.config/pi'']),
      (''pi-agent'', [''$HOME/.pi'', ''$HOME/.config/pi'']),
      (''command_code'', [''$HOME/.command-code'', ''$HOME/.config/command-code'']),
      (''command-code'', [''$HOME/.command-code'', ''$HOME/.config/command-code'']),
      (''commandcode'', [''$HOME/.command-code'', ''$HOME/.config/command-code'']),
      (''freebuff'', [''$HOME/.freebuff'', ''$HOME/.config/freebuff'']),
      (''freebuff-agent'', [''$HOME/.freebuff'', ''$HOME/.config/freebuff'']),
      (''deepseek'', [''$HOME/.deepseek'', ''$HOME/.config/deepseek'']),
      (''deepseek_harness'', [''$HOME/.deepseek'', ''$HOME/.config/deepseek'']),
      (''deepseek-harness'', [''$HOME/.deepseek'', ''$HOME/.config/deepseek'']),
      (''omnigent'', [''$HOME/.omnigent'', ''$HOME/.config/omnigent'']),
      (''omnigent-ai'', [''$HOME/.omnigent'', ''$HOME/.config/omnigent'']),
      (''omnigent-cli'', [''$HOME/.omnigent'', ''$HOME/.config/omnigent'']),
      (''crewai'', [''$HOME/.crewai'', ''$HOME/.config/crewai'']),
      (''crew-ai'', [''$HOME/.crewai'', ''$HOME/.config/crewai'']),
      (''autogen'', [''$HOME/.autogen'', ''$HOME/.autogenstudio'', ''$HOME/.config/autogen'']),
      (''autogen-studio'', [''$HOME/.autogen'', ''$HOME/.autogenstudio'', ''$HOME/.config/autogen'']),
      (''autogenstudio'', [''$HOME/.autogen'', ''$HOME/.autogenstudio'', ''$HOME/.config/autogen'']),
      (''amp'', [''$HOME/.amp'', ''$HOME/.config/amp'']),
      (''amp-cli'', [''$HOME/.amp'', ''$HOME/.config/amp'']),
      (''custom'', [''$HOME/.config/vetto/agents/custom'']),
      (''swebench'', [''$HOME/.swebench'']),
      (''qwen_code'', [''$HOME/.qwen'', ''$HOME/.config/qwen'', ''$HOME/.config/qwen-code'']),
      (''qwen-code'', [''$HOME/.qwen'', ''$HOME/.config/qwen'', ''$HOME/.config/qwen-code'']),
      (''qwencode'', [''$HOME/.qwen'', ''$HOME/.config/qwen'', ''$HOME/.config/qwen-code'']),
      (''qwen'', [''$HOME/.qwen'', ''$HOME/.config/qwen'', ''$HOME/.config/qwen-code'']),
      (''roo_code'', [''$HOME/.roo'', ''$HOME/.config/roo'', ''$HOME/.config/roo-code'']),
      (''roo-code'', [''$HOME/.roo'', ''$HOME/.config/roo'', ''$HOME/.config/roo-code'']),
      (''roocode'', [''$HOME/.roo'', ''$HOME/.config/roo'', ''$HOME/.config/roo-code'']),
      (''roo'', [''$HOME/.roo'', ''$HOME/.config/roo'', ''$HOME/.config/roo-code'']),
      (''browser_use'', [''$HOME/.browser-use'', ''$HOME/.config/browser-use'']),
      (''browser-use'', [''$HOME/.browser-use'', ''$HOME/.config/browser-use'']),
      (''browseruse'', [''$HOME/.browser-use'', ''$HOME/.config/browser-use''])]"

definition resolve_preset :: "string \<Rightarrow> string list option" where
  "resolve_preset name = map_of DENY_PRESETS (to_ascii_lowercase name)"

definition KNOWN_PRESETS :: "string list" where
  "KNOWN_PRESETS =
     [''ssh'', ''aws'', ''gcp'', ''gcloud'', ''kube'', ''kubernetes'', ''docker'', ''gnupg'',
      ''gpg'', ''git'', ''npm'', ''cargo'', ''codex'', ''codex-cli'', ''claude'',
      ''claude-code'', ''antigravity'', ''antigravity-cli'', ''agy'', ''aider'', ''aider-chat'',
      ''cursor'', ''cursor-agent'', ''cursor-server'', ''cline'', ''cline-cli'', ''opencode'',
      ''opencode-ai'', ''copilot'', ''github-copilot-cli'', ''gh-copilot'', ''windsurf'',
      ''windsurf-cli'', ''goose'', ''goose-ai'', ''openhands'', ''all-hands'', ''devin'',
      ''devin-cli'', ''smolagents'', ''smol-agents'', ''smolagent'', ''omp'', ''omp-cli'',
      ''zcode'', ''zcode-cli'', ''kimi'', ''kimi-code'', ''kimi-cli'', ''grok'', ''grok-build'',
      ''grok-cli'', ''hermes'', ''hermes-agent'', ''kilo'', ''kilo-code'', ''pi'', ''pi-agent'',
      ''command_code'', ''command-code'', ''commandcode'', ''freebuff'', ''freebuff-agent'',
      ''deepseek'', ''deepseek_harness'', ''deepseek-harness'', ''omnigent'', ''omnigent-ai'',
      ''omnigent-cli'', ''crewai'', ''crew-ai'', ''autogen'', ''autogen-studio'',
      ''autogenstudio'', ''amp'', ''amp-cli'', ''custom'', ''swebench'', ''qwen_code'',
      ''qwen-code'', ''qwencode'', ''qwen'', ''roo_code'', ''roo-code'', ''roocode'', ''roo'',
      ''browser_use'', ''browser-use'', ''browseruse'']"

definition resolve_preset_toml :: "LoaderHost \<Rightarrow> string \<Rightarrow> string option" where
  "resolve_preset_toml host name =
     (case agent_builtin host name of Some t \<Rightarrow> Some t | None \<Rightarrow> builtin host name)"

section \<open>Lemmas\<close>

text \<open>One row of the table of names: what a canonical name leads to.\<close>

definition agent_row_ok :: "string \<Rightarrow> bool" where
  "agent_row_ok c \<longleftrightarrow> c \<in> set AGENT_PROFILE_NAMES \<and> canonical_agent_name c = Some c \<and>
     c \<in> fst ` set AGENT_ROOTS \<and> c \<in> fst ` set AGENT_FILES \<and> c \<in> fst ` set DENY_PRESETS"

lemma profile_rows_ok: "list_all agent_row_ok AGENT_PROFILE_NAMES"
  by code_simp

lemma canonical_targets: "set (map snd CANONICAL_AGENTS) \<subseteq> set AGENT_PROFILE_NAMES"
  by code_simp

lemma known_presets_keys: "map fst DENY_PRESETS = KNOWN_PRESETS"
  by code_simp

lemma map_of_key: "k \<in> fst ` set xs \<Longrightarrow> \<exists>v. map_of xs k = Some v"
  by (cases "map_of xs k") (auto simp: map_of_eq_None_iff)

lemma map_of_key_iff: "map fst xs = ks \<Longrightarrow> map_of xs k \<noteq> None \<longleftrightarrow> k \<in> set ks"
  using map_of_eq_None_iff [of xs k] by (metis set_map)

lemma canonical_agent_row:
  assumes "canonical_agent_name name = Some c"
  shows "agent_row_ok c"
proof -
  have "(to_ascii_lowercase (trim name), c) \<in> set CANONICAL_AGENTS"
    using assms by (simp add: canonical_agent_name_def map_of_SomeD)
  then have "c \<in> set AGENT_PROFILE_NAMES" using canonical_targets by force
  then show ?thesis using profile_rows_ok by (auto simp: list_all_iff)
qed

lemma builtin_profile_names: "builtin host name \<noteq> None \<longleftrightarrow> name \<in> set PROFILE_NAMES"
proof -
  have "map fst BUILTIN_FILES = PROFILE_NAMES" by code_simp
  from map_of_key_iff [OF this, of name] show ?thesis by (simp add: builtin_def)
qed

lemma push_base_url_set:
  "set (push_base_url host var domains) =
     set domains \<union> (case Option.bind (env_var host var) extract_host_from_url of
       None \<Rightarrow> {}
     | Some h \<Rightarrow> if h = ''localhost'' \<or> h = ''127.0.0.1'' then {''localhost'', ''127.0.0.1''} else {h})"
  by (auto simp: push_base_url_def push_unique_def list_ex_iff split: option.splits)

lemma push_base_url_distinct: "distinct domains \<Longrightarrow> distinct (push_base_url host var domains)"
  by (auto simp: push_base_url_def push_unique_def list_ex_iff split: option.splits)

lemma fold_push_base_url:
  "set domains \<subseteq> set (fold (push_base_url host) vars domains) \<and>
   set (fold (push_base_url host) vars domains) = set domains \<union>
     (\<Union>var \<in> set vars. set (push_base_url host var [])) \<and>
   (distinct domains \<longrightarrow> distinct (fold (push_base_url host) vars domains))"
proof (induction vars arbitrary: domains)
  case (Cons var vars)
  have e: "set (push_base_url host var domains) = set domains \<union> set (push_base_url host var [])"
    by (simp add: push_base_url_set)
  show ?case
    using Cons [of "push_base_url host var domains"] push_base_url_distinct [of domains host var]
    by (auto simp: e)
qed simp

lemma fold_push_unique_distinct: "distinct ys \<Longrightarrow> distinct (fold (push_unique (=)) xs ys)"
proof (induction xs arbitrary: ys)
  case (Cons x xs)
  then show ?case by (simp add: push_unique_def list_ex_iff)
qed simp

lemma map_of_default_all:
  assumes "list_all (\<lambda>(_, v). P v) xs" and "P d"
  shows "P (case map_of xs k of None \<Rightarrow> d | Some v \<Rightarrow> v)"
  using assms by (cases "map_of xs k") (auto simp: list_all_iff dest: map_of_SomeD)

lemma agent_domains_distinct: "distinct (agent_domains name)"
  unfolding agent_domains_def by (rule map_of_default_all) code_simp+

section \<open>Properties\<close>

text \<open>
  The agent tables agree. Whatever spelling an agent is selected by, if it has
  a canonical name then that name is one of the known profiles and its own canonical name,
  the agent has a root below the home directory, an embedded profile text, and a deny preset
  of the same name: no table lacks an agent another table knows.
\<close>

theorem agent_tables_agree:
  assumes "canonical_agent_name name = Some c"
  shows "c \<in> set AGENT_PROFILE_NAMES \<and> canonical_agent_name c = Some c \<and>
    is_ok (agent_root home name) \<and> agent_builtin host name \<noteq> None \<and> resolve_preset c \<noteq> None"
proof -
  note row = canonical_agent_row [OF assms, unfolded agent_row_ok_def]
  obtain r t p where t: "map_of AGENT_ROOTS c = Some r" "map_of AGENT_FILES c = Some t"
    using row map_of_key by metis
  have "to_ascii_lowercase c = c" if "c \<in> set AGENT_PROFILE_NAMES"
  proof -
    have "list_all (\<lambda>c. to_ascii_lowercase c = c) AGENT_PROFILE_NAMES" by code_simp
    then show ?thesis using that by (simp add: list_all_iff)
  qed
  then obtain p where "map_of DENY_PRESETS (to_ascii_lowercase c) = Some p"
    using row map_of_key [of c DENY_PRESETS] by auto
  then show ?thesis
    using row t assms
    by (simp add: agent_root_def agent_builtin_def resolve_preset_def canonical_or_self_def)
qed

theorem agent_tables_agree_witness:
  "is_ok (agent_root ''/home/u'' '' Claude-Code '') \<and>
   resolve_preset ''claude'' \<noteq> None"
proof -
  have "canonical_agent_name '' Claude-Code '' = Some ''claude''" by code_simp
  from agent_tables_agree [OF this, of "''/home/u''"] show ?thesis by simp
qed

text \<open>
  The list of known presets is exact. A deny preset resolves precisely when its
  name, in any case, is on the list used for validation.
\<close>

theorem known_presets_exact:
  "resolve_preset name \<noteq> None \<longleftrightarrow> to_ascii_lowercase name \<in> set KNOWN_PRESETS"
  using map_of_key_iff [OF known_presets_keys, of "to_ascii_lowercase name"]
  by (simp add: resolve_preset_def)

text \<open>
  What an agent may reach. The allowlist of an agent without domains of its own
  is empty, so the balanced preset closes the network for it; otherwise it holds the agent's
  domains, the hosts that the base URL variables name (both loopback names when one is given)
  and the package registries, nothing else, and no host twice.
\<close>

theorem agent_allowlist_exact:
  fixes host :: LoaderHost and agent :: string
  defines "own \<equiv> agent_domains (canonical_or_self agent)"
    and "found \<equiv> {h. \<exists>var \<in> set BASE_URL_VARS. Option.bind (env_var host var) extract_host_from_url = Some h}"
    and "loops \<equiv> {''localhost'', ''127.0.0.1''}"
  shows "distinct (agent_network_allowlist host agent) \<and>
    set (agent_network_allowlist host agent) =
      (if own = [] then {}
       else set own \<union> set CANONICAL_PACKAGE_REGISTRY_DOMAINS \<union> found \<union>
            (if found \<inter> loops \<noteq> {} then loops else {}))"
proof -
  have f: "(\<Union>var \<in> set BASE_URL_VARS. set (push_base_url host var [])) =
      found \<union> (if found \<inter> loops \<noteq> {} then loops else {})"
  proof -
    have "set (push_base_url host var []) =
        (\<Union>h \<in> {h. Option.bind (env_var host var) extract_host_from_url = Some h}.
           insert h (if h \<in> loops then loops else {}))" for var
      unfolding push_base_url_set loops_def by (auto split: option.split)
    then show ?thesis unfolding found_def by (auto split: if_splits)
  qed
  define urls where "urls = fold (push_base_url host) BASE_URL_VARS own"
  have u: "set urls = set own \<union> (found \<union> (if found \<inter> loops \<noteq> {} then loops else {}))" "distinct urls"
    using fold_push_base_url [of own host BASE_URL_VARS] agent_domains_distinct
    unfolding urls_def f own_def by blast+
  have "agent_network_allowlist host agent =
      (if own \<noteq> [] then fold (push_unique (=)) CANONICAL_PACKAGE_REGISTRY_DOMAINS urls else [])"
    by (simp add: agent_network_allowlist_def own_def urls_def Let_def)
  then show ?thesis
    using fold_push_unique_distinct [OF u(2), of CANONICAL_PACKAGE_REGISTRY_DOMAINS] u(1)
      set_fold_insert [of CANONICAL_PACKAGE_REGISTRY_DOMAINS urls]
    by (cases "own = []") (simp_all add: Un_ac)
qed

end
