(* ===== verification/Merge.thy ===== *)
theory Merge
  imports Presets "HOL-Library.AList"
begin

text \<open>
  The merge of policy layers: \<open>src/src/policy/loader/merge.rs\<close>. \<open>MergedPolicy\<close> accumulates
  the layers in the order of their precedence; \<open>apply\<close> adds one layer, \<open>merge_layer\<close> first the
  built-in profiles it extends, \<open>apply_overrides\<close> the command line, and \<open>deduplicate\<close> removes
  repetitions. A failure ends the load, so the model drops the half-updated state.

  The lemmas show what a layer can and cannot do to the layers before it: rules that deny
  only accumulate, the lockdown flag stays, limits only tighten (with one exception for
  presets), inheritance terminates and refuses cycles.
\<close>

section \<open>State\<close>

record MergedPolicy =
  m_metadata :: "PolicyMetadata"
  m_limits :: "ResourceLimits"
  m_active_preset :: "SecurityPreset option"
  m_allow_write :: "string list"
  m_allow_read :: "string list"
  m_deny_write :: "string list"
  m_deny_read :: "string list"
  m_deny_paths :: "string list"
  m_deny_preset :: "string list"
  m_deny_glob :: "string list"
  m_ro_mounts :: "string list"
  m_pass_through :: "string list"
  m_deny_env :: "string list"
  m_deny_network :: "string list"
  m_secret_proxies :: "string list"
  m_network_mode :: "string option"
  m_network_allow :: "string list"
  m_allow_cidr :: "string list"
  m_net_quota :: "(string \<times> nat) list"
  m_net_bind_ports :: "nat list"
  m_net_connect_ports :: "nat list"
  m_allow_unix_sockets :: "string list"
  m_deny_unix_sockets :: "string list"
  m_oslog :: "bool"
  m_lpac :: "bool"
  m_is_immutable :: "bool"
  m_system_log :: "bool"
  m_auto_deny_secrets :: "bool"
  m_git_guard :: "bool"
  m_snapshot :: "bool"
  m_read_only_caches :: "bool"
  m_shadow :: "bool"
  m_tmpfs_tmp :: "bool option"
  m_seccomp_profile :: "string option"
  m_seccomp_notify :: "SeccompNotifyConfig option"
  m_cgroup :: "CgroupConfig option"
  m_cpu_max :: "string option"
  m_io_priority :: "string option"
  m_dev_allow :: "string list option"
  m_require_signed :: "bool"

definition default_metadata :: PolicyMetadata where
  "default_metadata =
     \<lparr>meta_name = [], description = [], extends_from = [], source_kind = None, immutable = False\<rparr>"

definition empty_merged :: MergedPolicy where
  "empty_merged =
     \<lparr>m_metadata = default_metadata, m_limits = no_limits, m_active_preset = None,
      m_allow_write = [], m_allow_read = [], m_deny_write = [], m_deny_read = [], m_deny_paths
      = [], m_deny_preset = [], m_deny_glob = [], m_ro_mounts = [], m_pass_through = [],
      m_deny_env = [], m_deny_network = [], m_secret_proxies = [], m_network_mode = None,
      m_network_allow = [], m_allow_cidr = [], m_net_quota = [], m_net_bind_ports = [],
      m_net_connect_ports = [], m_allow_unix_sockets = [], m_deny_unix_sockets = [], m_oslog =
      False, m_lpac = False, m_is_immutable = False, m_system_log = False, m_auto_deny_secrets
      = False, m_git_guard = False, m_snapshot = False, m_read_only_caches = False, m_shadow =
      False, m_tmpfs_tmp = None, m_seccomp_profile = None, m_seccomp_notify = None, m_cgroup =
      None, m_cpu_max = None, m_io_priority = None, m_dev_allow = None, m_require_signed =
      False\<rparr>"

datatype LoadError =
    PolicyLockdownViolation string
  | PolicyFailure PolicyError
  | Bail string

section \<open>Applying a layer\<close>

text \<open>\<open>extend\<close> by an optional list; \<open>Some(true)\<close> raises a flag; \<open>Some(v)\<close> replaces a value.\<close>

definition listed :: "RawStringList option \<Rightarrow> string list" where
  "listed extra = (case extra of None \<Rightarrow> [] | Some l \<Rightarrow> into_vec l)"

definition grow :: "RawStringList option \<Rightarrow> string list \<Rightarrow> string list" where
  "grow extra xs = xs @ listed extra"

definition raised :: "bool option \<Rightarrow> bool \<Rightarrow> bool" where
  "raised flag b = (flag = Some True \<or> b)"

definition replaced :: "'a option \<Rightarrow> 'a \<Rightarrow> 'a" where
  "replaced new old = (case new of None \<Rightarrow> old | Some v \<Rightarrow> v)"

definition set_if_some :: "'a option \<Rightarrow> 'a option \<Rightarrow> 'a option" where
  "set_if_some new old = (case new of None \<Rightarrow> old | Some v \<Rightarrow> Some v)"

definition when_some :: "('a \<Rightarrow> 's \<Rightarrow> 's) \<Rightarrow> 'a option \<Rightarrow> 's \<Rightarrow> 's" where
  "when_some f x s = (case x of None \<Rightarrow> s | Some v \<Rightarrow> f v s)"

definition apply_security :: "RawSecurity \<Rightarrow> MergedPolicy \<Rightarrow> MergedPolicy" where
  "apply_security sec m = m\<lparr>
     m_is_immutable := raised (rs_immutable sec) (m_is_immutable m),
     m_system_log := replaced (rs_system_log sec) (m_system_log m),
     m_auto_deny_secrets := raised (rs_auto_deny_secrets sec) (m_auto_deny_secrets m),
     m_git_guard := raised (rs_git_guard sec) (m_git_guard m),
     m_seccomp_profile := set_if_some (rs_seccomp_profile sec) (m_seccomp_profile m),
     m_seccomp_notify := set_if_some (map_option (\<lambda>notif.
       \<lparr>notify_enabled = replaced (rn_enabled notif) True,
        default_action = rn_default_action notif,
        allow_syscalls = listed (rn_allow_syscalls notif)\<rparr>) (rs_seccomp_notify sec))
       (m_seccomp_notify m)\<rparr>"

definition apply_metadata :: "RawMetadata \<Rightarrow> MergedPolicy \<Rightarrow> MergedPolicy" where
  "apply_metadata meta m = m\<lparr>m_metadata := (m_metadata m)\<lparr>
     meta_name := (case rm_name meta of
                     None \<Rightarrow> meta_name (m_metadata m)
                   | Some n \<Rightarrow> if n \<noteq> [] then n else meta_name (m_metadata m)),
     description := replaced (rm_description meta) (description (m_metadata m))\<rparr>\<rparr>"

definition SYSTEM_WRITE_ROOTS :: "string list" where
  "SYSTEM_WRITE_ROOTS =
     [''/'', ''/usr'', ''/bin'', ''/sbin'', ''/lib'', ''/lib64'', ''/etc'', ''/boot'',
      ''C:'' @ [CHR 0x5C], ''C:'' @ [CHR 0x5C] @ ''Windows'', ''C:'' @ [CHR 0x5C] @ ''Program Files'',
      ''C:'' @ [CHR 0x5C] @ ''Program Files (x86)'']"

fun is_repo :: "PolicySourceKind \<Rightarrow> bool" where
  "is_repo Repository = True"
| "is_repo RepositoryFragment = True"
| "is_repo _ = False"

definition canonical_or :: "LoaderHost \<Rightarrow> path \<Rightarrow> path" where
  "canonical_or host p = (case canon host p of Some c \<Rightarrow> c | None \<Rightarrow> p)"

definition check_repo_write :: "LoaderHost \<Rightarrow> string \<Rightarrow> (LoadError, unit) result" where
  "check_repo_write host w =
     (if canonical_or host w \<in> set SYSTEM_WRITE_ROOTS
      then Err (Bail (''fail-closed: repository policy cannot grant write access to system root '' @
                      quoted w @ '' (exit 125)''))
      else (case home_var host of
              Some h \<Rightarrow>
                if path_eq (canonical_or host w) h \<or> w = ''$HOME'' \<or> w = ''~''
                then Err (Bail (''fail-closed: repository policy cannot grant write access to $HOME '' @
                                quoted w @ '' (exit 125)''))
                else Ok ()
            | None \<Rightarrow> Ok ()))"

definition apply_filesystem ::
    "LoaderHost \<Rightarrow> PolicySourceKind \<Rightarrow> RawFilesystem \<Rightarrow> MergedPolicy \<Rightarrow> (LoadError, MergedPolicy) result" where
  "apply_filesystem host kind fs m =
     and_then
       (if is_repo kind then check_all (check_repo_write host) (listed (rf_allow_write fs)) else Ok ())
       (\<lambda>_. Ok (m\<lparr>
          m_allow_write := grow (rf_allow_write fs) (m_allow_write m),
          m_allow_read := grow (rf_allow_read fs) (m_allow_read m),
          m_deny_write := grow (rf_deny_write fs) (grow (rf_deny fs) (m_deny_write m)),
          m_deny_read := grow (rf_deny_read fs) (grow (rf_deny fs) (m_deny_read m)),
          m_deny_paths := grow (rf_deny fs) (m_deny_paths m),
          m_deny_preset := grow (rf_deny_preset fs) (m_deny_preset m),
          m_deny_glob := grow (rf_deny_glob fs) (m_deny_glob m),
          m_ro_mounts := grow (rf_ro_mounts fs) (m_ro_mounts m),
          m_read_only_caches := replaced (rf_read_only_caches fs) (m_read_only_caches m),
          m_shadow := replaced (rf_shadow fs) (m_shadow m),
          m_tmpfs_tmp := set_if_some (rf_tmpfs_tmp fs) (m_tmpfs_tmp m),
          m_dev_allow := set_if_some (map_option into_vec (rf_dev_allow fs)) (m_dev_allow m)\<rparr>))"

definition apply_secrets :: "RawSecrets \<Rightarrow> MergedPolicy \<Rightarrow> MergedPolicy" where
  "apply_secrets sec m = m\<lparr>
     m_secret_proxies := grow (rx_proxy sec) (m_secret_proxies m),
     m_auto_deny_secrets := raised (rx_auto_deny sec) (m_auto_deny_secrets m)\<rparr>"

definition apply_deny :: "RawDeny \<Rightarrow> MergedPolicy \<Rightarrow> MergedPolicy" where
  "apply_deny dny m = m\<lparr>m_deny_paths := grow (rd_paths dny) (m_deny_paths m)\<rparr>"

definition apply_environment :: "RawEnvironment \<Rightarrow> MergedPolicy \<Rightarrow> MergedPolicy" where
  "apply_environment env m = m\<lparr>
     m_pass_through := grow (re_pass_through env) (m_pass_through m),
     m_deny_env := grow (re_deny_env env) (grow (re_deny env) (m_deny_env m))\<rparr>"

definition add_net_preset :: "string \<Rightarrow> MergedPolicy \<Rightarrow> (LoadError, MergedPolicy) result" where
  "add_net_preset name m =
     (case expand_net_preset name of
        Err e \<Rightarrow> Err (Bail e)
      | Ok domains \<Rightarrow> Ok (m\<lparr>m_network_allow := m_network_allow m @ domains\<rparr>))"

definition quota_key :: "string \<Rightarrow> string" where
  "quota_key domain = to_ascii_lowercase (trim_end_matches (\<lambda>c. c = CHR ''.'') (trim domain))"

definition add_quota :: "string \<times> string \<Rightarrow> MergedPolicy \<Rightarrow> (LoadError, MergedPolicy) result" where
  "add_quota entry m =
     (case parse_quota_bytes (snd entry) of
        Err e \<Rightarrow> Err (Bail e)
      | Ok bytes \<Rightarrow> Ok (m\<lparr>m_net_quota := AList.update (quota_key (fst entry)) bytes (m_net_quota m)\<rparr>))"

definition grow_ports :: "nat list option \<Rightarrow> nat list \<Rightarrow> nat list" where
  "grow_ports extra ports = ports @ (case extra of None \<Rightarrow> [] | Some ps \<Rightarrow> ps)"

definition apply_net_ports :: "RawNetPorts \<Rightarrow> MergedPolicy \<Rightarrow> MergedPolicy" where
  "apply_net_ports ports m =
     m\<lparr>m_net_connect_ports := grow_ports (rp_allow_tcp_connect ports) (m_net_connect_ports m)\<rparr>"

definition apply_network :: "RawNetwork \<Rightarrow> MergedPolicy \<Rightarrow> (LoadError, MergedPolicy) result" where
  "apply_network net m =
     and_then
       (fold_result add_net_preset (listed (rw_net_preset net) @ listed (rw_net_presets net))
          (m\<lparr>m_network_mode := set_if_some (rw_mode net) (m_network_mode m),
             m_network_allow := grow (rw_allow_domains net) (grow (rw_allow net) (m_network_allow m)),
             m_deny_network := grow (rw_deny_network net) (grow (rw_deny_domains net)
               (grow (rw_deny net) (m_deny_network m)))\<rparr>))
       (\<lambda>m. and_then
          (fold_result add_quota (case rw_net_quota net of None \<Rightarrow> [] | Some qs \<Rightarrow> qs)
             (m\<lparr>m_allow_cidr := grow (rw_allow_cidr net) (m_allow_cidr m)\<rparr>))
          (\<lambda>m. let m = when_some apply_net_ports (rw_net_ports net) m
               in Ok (m\<lparr>
                    m_net_connect_ports := grow_ports (rw_allow_tcp_connect net) (m_net_connect_ports m),
                    m_net_bind_ports := grow_ports (rw_allow_tcp_bind net) (m_net_bind_ports m)\<rparr>)))"

definition apply_network_sections :: "RawLayer \<Rightarrow> MergedPolicy \<Rightarrow> (LoadError, MergedPolicy) result" where
  "apply_network_sections layer m =
     and_then (case layer_network layer of None \<Rightarrow> Ok m | Some net \<Rightarrow> apply_network net m)
       (\<lambda>m. Ok (when_some apply_net_ports (layer_net_ports layer) m))"

definition apply_unix_sockets :: "RawUnixSockets \<Rightarrow> MergedPolicy \<Rightarrow> MergedPolicy" where
  "apply_unix_sockets socks m = m\<lparr>
     m_allow_unix_sockets := grow (ru_allow socks) (m_allow_unix_sockets m),
     m_deny_unix_sockets := grow (ru_deny socks) (m_deny_unix_sockets m)\<rparr>"

definition apply_cgroup :: "RawCgroup \<Rightarrow> MergedPolicy \<Rightarrow> MergedPolicy" where
  "apply_cgroup cg m = m\<lparr>m_cgroup := Some (
     case m_cgroup m of
       Some existing \<Rightarrow> cgroup_merge_strictest existing (to_cgroup_config cg)
     | None \<Rightarrow> to_cgroup_config cg)\<rparr>"

fun is_preset_kind :: "PolicySourceKind \<Rightarrow> bool" where
  "is_preset_kind AgentPreset = True"
| "is_preset_kind Preset = True"
| "is_preset_kind _ = False"

text \<open>A preset may raise the file size ceiling: the larger of the two values stays.\<close>

definition merge_limits :: "PolicySourceKind \<Rightarrow> ResourceLimits \<Rightarrow> ResourceLimits \<Rightarrow> ResourceLimits" where
  "merge_limits kind current incoming =
     (case (is_preset_kind kind, file_size_bytes incoming) of
        (True, Some fsize) \<Rightarrow>
          limits_merge_strictest
            (current\<lparr>file_size_bytes := Some (case file_size_bytes current of
                                                None \<Rightarrow> fsize | Some cur \<Rightarrow> max cur fsize)\<rparr>)
            (incoming\<lparr>file_size_bytes := None\<rparr>)
      | _ \<Rightarrow> limits_merge_strictest current incoming)"

definition apply_limits :: "PolicySourceKind \<Rightarrow> RawLimits \<Rightarrow> MergedPolicy \<Rightarrow> MergedPolicy" where
  "apply_limits kind raw m =
     (let m = m\<lparr>m_limits := merge_limits kind (m_limits m) (to_resource_limits raw)\<rparr>;
          m = when_some apply_cgroup (rl_cgroup raw) m
      in m\<lparr>m_cpu_max := (case rl_cpu_max raw of
                            None \<Rightarrow> m_cpu_max m
                          | Some cpu \<Rightarrow> strictest_cpu_max (m_cpu_max m) (Some cpu)),
           m_io_priority := set_if_some (rl_io_priority raw) (m_io_priority m)\<rparr>)"

definition unsets_lockdown :: "RawLayer \<Rightarrow> bool" where
  "unsets_lockdown layer =
     (case layer_security layer of None \<Rightarrow> False | Some sec \<Rightarrow> rs_immutable sec = Some False)"

definition apply_layer ::
    "LoaderHost \<Rightarrow> RawLayer \<Rightarrow> PolicySourceKind \<Rightarrow> MergedPolicy \<Rightarrow> (LoadError, MergedPolicy) result" where
  "apply_layer host layer kind m =
     (if m_is_immutable m \<and> precedence kind > precedence SystemGlobal \<and> unsets_lockdown layer
      then Err (PolicyLockdownViolation ''cannot unset immutable enterprise lockdown'')
      else (let m = when_some apply_security (layer_security layer) m;
                m = when_some apply_metadata (layer_metadata layer) m
            in and_then (case layer_filesystem layer of
                           None \<Rightarrow> Ok m
                         | Some fs \<Rightarrow> apply_filesystem host kind fs m)
                 (\<lambda>m. let m = when_some apply_secrets (layer_secrets layer) m;
                          m = when_some apply_deny (layer_display_only_deny layer) m;
                          m = when_some apply_environment (layer_environment layer) m
                      in and_then (if is_repo kind \<and> m_active_preset m = Some Paranoid then Ok m
                                   else apply_network_sections layer m)
                           (\<lambda>m. let m = when_some apply_unix_sockets (layer_unix_sockets layer) m;
                                    m = when_some (apply_limits kind) (layer_limits layer) m
                                in Ok (when_some apply_cgroup (layer_cgroup layer) m)))))"

section \<open>Duplicates\<close>

fun retain_unseen :: "'a list \<Rightarrow> 'a list \<Rightarrow> 'a list" where
  "retain_unseen seen [] = []"
| "retain_unseen seen (x # xs) =
     (if x \<in> set seen then retain_unseen seen xs else x # retain_unseen (x # seen) xs)"

definition deduplicate_strings :: "string list \<Rightarrow> string list" where
  "deduplicate_strings values = retain_unseen [] values"

definition sorted_ports :: "nat list \<Rightarrow> nat list" where
  "sorted_ports ports = remdups_adj (sort ports)"

definition deduplicate :: "MergedPolicy \<Rightarrow> MergedPolicy" where
  "deduplicate m = m\<lparr>
     m_allow_write := deduplicate_strings (m_allow_write m),
     m_allow_read := deduplicate_strings (m_allow_read m),
     m_deny_write := deduplicate_strings (m_deny_write m),
     m_deny_read := deduplicate_strings (m_deny_read m),
     m_deny_paths := deduplicate_strings (m_deny_paths m),
     m_deny_preset := deduplicate_strings (m_deny_preset m),
     m_deny_glob := deduplicate_strings (m_deny_glob m),
     m_ro_mounts := deduplicate_strings (m_ro_mounts m),
     m_secret_proxies := deduplicate_strings (m_secret_proxies m),
     m_pass_through := deduplicate_strings (m_pass_through m),
     m_deny_env := deduplicate_strings (m_deny_env m),
     m_deny_network := deduplicate_strings (m_deny_network m),
     m_network_allow := deduplicate_strings (m_network_allow m),
     m_allow_cidr := deduplicate_strings (m_allow_cidr m),
     m_allow_unix_sockets := deduplicate_strings (m_allow_unix_sockets m),
     m_deny_unix_sockets := deduplicate_strings (m_deny_unix_sockets m),
     m_net_bind_ports := sorted_ports (m_net_bind_ports m),
     m_net_connect_ports := sorted_ports (m_net_connect_ports m),
     m_metadata := (m_metadata m)\<lparr>extends_from := deduplicate_strings (extends_from (m_metadata m))\<rparr>\<rparr>"

section \<open>Overrides\<close>

record PolicyOverrides =
  o_allow_write :: "string list"
  o_allow_read :: "string list"
  o_deny_write :: "string list"
  o_deny_read :: "string list"
  o_display_only_deny :: "string list"
  o_deny_glob :: "string list"
  o_ro_mounts :: "string list"
  o_pass_through :: "string list"
  o_deny_env :: "string list"
  o_deny_network :: "string list"
  o_oslog :: "bool option"
  o_lpac :: "bool option"
  o_name :: "string option"
  o_description :: "string option"
  o_limits :: "ResourceLimits option"
  o_git_guard :: "bool option"
  o_snapshot :: "bool option"
  o_read_only_caches :: "bool option"
  o_shadow :: "bool option"
  o_tmpfs_tmp :: "bool option"
  o_auto_deny_secrets :: "bool option"
  o_net_quota :: "(string \<times> nat) list"
  o_deny_unix_sockets :: "string list"

definition no_overrides :: PolicyOverrides where
  "no_overrides =
     \<lparr>o_allow_write = [], o_allow_read = [], o_deny_write = [], o_deny_read = [],
      o_display_only_deny = [], o_deny_glob = [], o_ro_mounts = [], o_pass_through = [],
      o_deny_env = [], o_deny_network = [], o_oslog = None, o_lpac = None, o_name = None,
      o_description = None, o_limits = None, o_git_guard = None, o_snapshot = None,
      o_read_only_caches = None, o_shadow = None, o_tmpfs_tmp = None, o_auto_deny_secrets =
      None, o_net_quota = [], o_deny_unix_sockets = []\<rparr>"

definition apply_overrides :: "PolicyOverrides \<Rightarrow> MergedPolicy \<Rightarrow> (LoadError, MergedPolicy) result" where
  "apply_overrides ov m =
     (if m_is_immutable m \<and> (o_allow_write ov \<noteq> [] \<or> o_allow_read ov \<noteq> [])
      then Err (PolicyLockdownViolation
                  ''cannot add filesystem allow paths via CLI in enterprise lockdown mode'')
      else Ok (m\<lparr>
        m_allow_write := m_allow_write m @ o_allow_write ov,
        m_allow_read := m_allow_read m @ o_allow_read ov,
        m_deny_write := m_deny_write m @ o_deny_write ov,
        m_deny_read := m_deny_read m @ o_deny_read ov,
        m_deny_paths := m_deny_paths m @ o_display_only_deny ov,
        m_deny_glob := m_deny_glob m @ o_deny_glob ov,
        m_ro_mounts := m_ro_mounts m @ o_ro_mounts ov,
        m_pass_through := m_pass_through m @ o_pass_through ov,
        m_deny_env := m_deny_env m @ o_deny_env ov,
        m_deny_network := m_deny_network m @ o_deny_network ov,
        m_deny_unix_sockets := deduplicate_strings (m_deny_unix_sockets m @ o_deny_unix_sockets ov),
        m_git_guard := raised (o_git_guard ov) (m_git_guard m),
        m_snapshot := raised (o_snapshot ov) (m_snapshot m),
        m_auto_deny_secrets := raised (o_auto_deny_secrets ov) (m_auto_deny_secrets m),
        m_read_only_caches := raised (o_read_only_caches ov) (m_read_only_caches m),
        m_shadow := raised (o_shadow ov) (m_shadow m),
        m_tmpfs_tmp := set_if_some (o_tmpfs_tmp ov) (m_tmpfs_tmp m),
        m_net_quota := fold (\<lambda>(domain, quota). AList.update domain quota) (o_net_quota ov) (m_net_quota m),
        m_metadata := (m_metadata m)\<lparr>
          meta_name := (case o_name ov of
                          None \<Rightarrow> meta_name (m_metadata m)
                        | Some n \<Rightarrow> if n \<noteq> [] then n else meta_name (m_metadata m)),
          description := replaced (o_description ov) (description (m_metadata m))\<rparr>,
        m_limits := (case o_limits ov of
                       None \<Rightarrow> m_limits m
                     | Some lims \<Rightarrow> limits_merge_strictest (m_limits m) lims),
        m_oslog := replaced (o_oslog ov) (m_oslog m),
        m_lpac := replaced (o_lpac ov) (m_lpac m)\<rparr>))"

section \<open>Inheritance\<close>

definition is_name_char :: "char \<Rightarrow> bool" where
  "is_name_char c =
     (let n = (of_char c :: nat)
      in 48 \<le> n \<and> n \<le> 57 \<or> 65 \<le> n \<and> n \<le> 90 \<or> 97 \<le> n \<and> n \<le> 122 \<or> c = CHR ''_'' \<or> c = CHR ''-'')"

definition validate_parent_name :: "string \<Rightarrow> (LoadError, unit) result" where
  "validate_parent_name parent =
     (if parent = [] \<or> parent = ''.'' \<or> parent = ''..'' \<or> CHR ''/'' \<in> set parent \<or>
         CHR 0x5C \<in> set parent \<or> \<not> list_all is_name_char parent
      then Err (Bail (''invalid inherited profile name '' @ quoted parent))
      else Ok ())"

definition parents_of :: "RawLayer \<Rightarrow> string list" where
  "parents_of layer =
     (case layer_metadata layer of None \<Rightarrow> [] | Some meta \<Rightarrow> listed (rm_extends meta))"

definition note_parent :: "string \<Rightarrow> MergedPolicy \<Rightarrow> MergedPolicy" where
  "note_parent parent m = m\<lparr>m_metadata := (m_metadata m)\<lparr>
     extends_from := push_unique (=) parent (extends_from (m_metadata m))\<rparr>\<rparr>"

text \<open>The text of an inherited profile, parsed: names are checked, then the stack of profiles
  under way, then the table of built-in profiles.\<close>

definition parent_layer ::
    "LoaderHost \<Rightarrow> string \<Rightarrow> string list \<Rightarrow> string \<Rightarrow> (LoadError, RawLayer) result" where
  "parent_layer host source stack parent =
     and_then (validate_parent_name parent)
       (\<lambda>_. if parent \<in> set stack
            then Err (Bail (''policy inheritance cycle involving '' @ quoted parent @ '' in '' @ source))
            else (case builtin host parent of
                    None \<Rightarrow> Err (Bail (''unknown inherited profile '' @ quoted parent @
                                       ''; only built-in profiles may be extended''))
                  | Some txt \<Rightarrow>
                      (case parse_layer host txt (''inherited:'' @ parent) of
                         Err e \<Rightarrow> Err (PolicyFailure e)
                       | Ok layer \<Rightarrow> Ok layer)))"

lemma parent_layer_builtin:
  "parent_layer host source stack parent = Ok layer \<Longrightarrow> parent \<notin> set stack \<and> parent \<in> fst ` set BUILTIN_FILES"
  by (auto simp: parent_layer_def builtin_def split: if_splits option.splits dest: map_of_SomeD)
     (force dest: map_of_SomeD)

text \<open>Every level of inheritance puts one more of the finitely many built-in profiles on the
  stack.\<close>

definition unused_profiles :: "string list \<Rightarrow> nat" where
  "unused_profiles stack = card (fst ` set BUILTIN_FILES - set stack)"

lemma unused_profiles_decrease:
  assumes "parent_layer host source stack parent = Ok layer"
  shows "unused_profiles (stack @ [parent]) < unused_profiles stack"
proof -
  have "fst ` set BUILTIN_FILES - set (stack @ [parent]) \<subset> fst ` set BUILTIN_FILES - set stack"
    using parent_layer_builtin [OF assms] by auto
  then show ?thesis unfolding unused_profiles_def by (intro psubset_card_mono) auto
qed

function merge_layer ::
    "LoaderHost \<Rightarrow> RawLayer \<Rightarrow> string \<Rightarrow> string list \<Rightarrow> PolicySourceKind \<Rightarrow> MergedPolicy \<Rightarrow>
     (LoadError, MergedPolicy) result" and
  merge_parents ::
    "LoaderHost \<Rightarrow> string \<Rightarrow> string list \<Rightarrow> string list \<Rightarrow> MergedPolicy \<Rightarrow> (LoadError, MergedPolicy) result" where
  "merge_layer host layer source stack kind m =
     (case merge_parents host source stack (parents_of layer) m of
        Err e \<Rightarrow> Err e
      | Ok m' \<Rightarrow> apply_layer host layer kind m')"
| "merge_parents host source stack [] m = Ok m"
| "merge_parents host source stack (parent # parents) m =
     (case parent_layer host source stack parent of
        Err e \<Rightarrow> Err e
      | Ok layer \<Rightarrow>
          (case merge_layer host layer (''inherited:'' @ parent) (stack @ [parent]) BuiltinProfile m of
             Err e \<Rightarrow> Err e
           | Ok m' \<Rightarrow> merge_parents host source stack parents (note_parent parent m')))"
  by pat_completeness auto

termination
  by (relation "inv_image (less_than <*lex*> less_than <*lex*> less_than)
        (\<lambda>x. case x of
           Inl (host, layer, source, stack, kind, m) \<Rightarrow> (unused_profiles stack, 1, 0)
         | Inr (host, source, stack, parents, m) \<Rightarrow> (unused_profiles stack, 0, length parents))")
     (auto simp: unused_profiles_decrease)

declare merge_layer.simps [simp del]

definition merge_into ::
    "LoaderHost \<Rightarrow> RawLayer \<Rightarrow> PolicySourceKind \<Rightarrow> MergedPolicy \<Rightarrow> (LoadError, MergedPolicy) result" where
  "merge_into host layer kind m = merge_layer host layer ''merge'' [] kind m"

definition merge_all ::
    "LoaderHost \<Rightarrow> (RawLayer \<times> PolicySourceKind) list \<Rightarrow> (LoadError, MergedPolicy) result" where
  "merge_all host layers = fold_result (\<lambda>(layer, kind). merge_into host layer kind) layers empty_merged"

section \<open>Orders on merged policies\<close>

text \<open>The interface through which statements about layers go: an order on states that every
  successful \<open>apply_layer\<close> respects is respected by whole merges, inherited profiles included.\<close>

locale preorder_steps =
  fixes le :: "'s \<Rightarrow> 's \<Rightarrow> bool"
  assumes le_refl: "le s s" and le_trans: "le s t \<Longrightarrow> le t u \<Longrightarrow> le s u"
begin

lemma fold_result_le:
  assumes "fold_result f xs s = Ok t" and "\<And>x s t. x \<in> set xs \<Longrightarrow> f x s = Ok t \<Longrightarrow> le s t"
  shows "le s t"
  using fold_result_inv [of f xs s t "le s"] assms le_refl le_trans by blast

lemma when_some_le: "(\<And>v. le s (f v s)) \<Longrightarrow> le s (when_some f x s)"
  by (cases x) (simp_all add: when_some_def le_refl)

end

locale layer_order = preorder_steps le for le :: "MergedPolicy \<Rightarrow> MergedPolicy \<Rightarrow> bool" +
  fixes good :: "LoaderHost \<Rightarrow> bool" and admits :: "RawLayer \<Rightarrow> PolicySourceKind \<Rightarrow> bool"
  assumes apply_le: "admits layer kind \<Longrightarrow> apply_layer host layer kind m = Ok m' \<Longrightarrow> le m m'"
    and note_le: "le m (note_parent p m)"
    and admits_profile: "good host \<Longrightarrow> parent_layer host source stack p = Ok l \<Longrightarrow> admits l BuiltinProfile"
begin

lemma merge_le:
  "good host \<Longrightarrow> admits layer kind \<Longrightarrow> merge_layer host layer source stack kind m = Ok m1 \<Longrightarrow> le m m1"
  "good host \<Longrightarrow> merge_parents host source stack parents m = Ok m2 \<Longrightarrow> le m m2"
proof (induction host layer source stack kind m and host source stack parents m
    arbitrary: m1 and m2 rule: merge_layer_merge_parents.induct)
  case (1 host layer source stack kind m)
  from 1(4) obtain m' where "merge_parents host source stack (parents_of layer) m = Ok m'"
    "apply_layer host layer kind m' = Ok m1"
    by (auto simp: merge_layer.simps split: sum.splits)
  then show ?case using 1 apply_le le_trans by metis
next
  case (2 host source stack m)
  then show ?case by (simp add: le_refl)
next
  case (3 host source stack parent parents m)
  from 3(4) obtain layer m' where s: "parent_layer host source stack parent = Ok layer"
    "merge_layer host layer (''inherited:'' @ parent) (stack @ [parent]) BuiltinProfile m = Ok m'"
    "merge_parents host source stack parents (note_parent parent m') = Ok m2"
    by (auto split: sum.splits)
  have "le m m'" using 3(1) [OF s(1) 3(3) admits_profile [OF 3(3) s(1)] s(2)] .
  moreover have "le (note_parent parent m') m2" using 3(2) [OF s(1) s(2) 3(3) s(3)] .
  ultimately show ?case using note_le le_trans by metis
qed

end

section \<open>Lemmas\<close>

lemma set_grow [simp]: "set (grow extra xs) = set xs \<union> set (listed extra)"
  by (simp add: grow_def)

lemma raised_iff [simp]: "raised flag b \<longleftrightarrow> flag = Some True \<or> b"
  by (simp add: raised_def)

lemma when_some_simps [simp]: "when_some f None s = s" "when_some f (Some v) s = f v s"
  by (simp_all add: when_some_def)

lemma set_retain_unseen: "set (retain_unseen seen xs) = set xs - set seen"
  by (induction seen xs rule: retain_unseen.induct) auto

lemma retain_unseen_distinct: "distinct (retain_unseen seen xs)"
  by (induction seen xs rule: retain_unseen.induct) (auto simp: set_retain_unseen)

lemma retain_unseen_subseq: "subseq (retain_unseen seen xs) xs"
  by (induction seen xs rule: retain_unseen.induct) (auto intro: list_emb.intros)

lemma set_deduplicate_strings [simp]: "set (deduplicate_strings xs) = set xs"
  by (simp add: deduplicate_strings_def set_retain_unseen)

lemma remdups_adj_strict: "sorted xs \<Longrightarrow> sorted_wrt (<) (remdups_adj (xs :: nat list))"
  by (induction xs rule: remdups_adj.induct) (auto simp: less_le)

lemma sorted_ports_props: "set (sorted_ports ps) = set ps" "sorted_wrt (<) (sorted_ports ps)"
  by (simp_all add: sorted_ports_def remdups_adj_strict)

text \<open>The stages of a layer that applies.\<close>

lemma apply_layer_ok:
  assumes "apply_layer host layer kind m = Ok m'"
  obtains a b c d where
    "a = when_some apply_metadata (layer_metadata layer) (when_some apply_security (layer_security layer) m)"
    "(case layer_filesystem layer of None \<Rightarrow> Ok a | Some fs \<Rightarrow> apply_filesystem host kind fs a) = Ok b"
    "c = when_some apply_environment (layer_environment layer)
      (when_some apply_deny (layer_display_only_deny layer) (when_some apply_secrets (layer_secrets layer) b))"
    "(if is_repo kind \<and> m_active_preset c = Some Paranoid then Ok c else apply_network_sections layer c) = Ok d"
    "m' = when_some apply_cgroup (layer_cgroup layer) (when_some (apply_limits kind) (layer_limits layer)
      (when_some apply_unix_sockets (layer_unix_sockets layer) d))"
proof (cases "m_is_immutable m \<and> precedence kind > precedence SystemGlobal \<and> unsets_lockdown layer")
  case False
  then show ?thesis using assms that unfolding apply_layer_def Let_def if_not_P [OF False] and_then_Inr by auto
qed (use assms in \<open>simp add: apply_layer_def\<close>)

subsection \<open>Denials\<close>

text \<open>The rules of a policy that deny, and its protective flags.\<close>

datatype denial =
    DenyWrite string | DenyRead string | DenyPath string | DenyPreset string | DenyGlob string
  | DenyEnv string | DenyNetwork string | DenySocket string | Lockdown | GitGuard | AutoDeny

definition denials :: "MergedPolicy \<Rightarrow> denial set" where
  "denials m =
     DenyWrite ` set (m_deny_write m) \<union> DenyRead ` set (m_deny_read m) \<union>
     DenyPath ` set (m_deny_paths m) \<union> DenyPreset ` set (m_deny_preset m) \<union>
     DenyGlob ` set (m_deny_glob m) \<union> DenyEnv ` set (m_deny_env m) \<union>
     DenyNetwork ` set (m_deny_network m) \<union> DenySocket ` set (m_deny_unix_sockets m) \<union>
     {d. d = Lockdown \<and> m_is_immutable m \<or> d = GitGuard \<and> m_git_guard m \<or>
         d = AutoDeny \<and> m_auto_deny_secrets m}"

definition filesystem_denials :: "RawFilesystem \<Rightarrow> denial set" where
  "filesystem_denials fs =
     DenyWrite ` set (listed (rf_deny fs) @ listed (rf_deny_write fs)) \<union>
     DenyRead ` set (listed (rf_deny fs) @ listed (rf_deny_read fs)) \<union>
     DenyPath ` set (listed (rf_deny fs)) \<union> DenyPreset ` set (listed (rf_deny_preset fs)) \<union>
     DenyGlob ` set (listed (rf_deny_glob fs))"

definition security_denials :: "RawSecurity \<Rightarrow> denial set" where
  "security_denials sec =
     {d. d = Lockdown \<and> rs_immutable sec = Some True \<or> d = GitGuard \<and> rs_git_guard sec = Some True \<or>
         d = AutoDeny \<and> rs_auto_deny_secrets sec = Some True}"

definition network_denials :: "RawNetwork \<Rightarrow> denial set" where
  "network_denials net =
     DenyNetwork ` set (listed (rw_deny net) @ listed (rw_deny_domains net) @ listed (rw_deny_network net))"

definition from_section :: "('a \<Rightarrow> denial set) \<Rightarrow> 'a option \<Rightarrow> denial set" where
  "from_section f x = (case x of None \<Rightarrow> {} | Some v \<Rightarrow> f v)"

lemma from_section_simps [simp]: "from_section f None = {}" "from_section f (Some v) = f v"
  by (simp_all add: from_section_def)

text \<open>What a layer denies; its network section apart, which some layers may not contribute.\<close>

definition layer_denials :: "RawLayer \<Rightarrow> denial set" where
  "layer_denials layer =
     from_section security_denials (layer_security layer) \<union>
     from_section filesystem_denials (layer_filesystem layer) \<union>
     from_section (\<lambda>s. {d. d = AutoDeny \<and> rx_auto_deny s = Some True}) (layer_secrets layer) \<union>
     from_section (\<lambda>d. DenyPath ` set (listed (rd_paths d))) (layer_display_only_deny layer) \<union>
     from_section (\<lambda>e. DenyEnv ` set (listed (re_deny e) @ listed (re_deny_env e))) (layer_environment layer) \<union>
     from_section (\<lambda>u. DenySocket ` set (listed (ru_deny u))) (layer_unix_sockets layer)"

definition layer_net_denials :: "RawLayer \<Rightarrow> denial set" where
  "layer_net_denials layer = from_section network_denials (layer_network layer)"

definition keeps_denials :: "MergedPolicy \<Rightarrow> MergedPolicy \<Rightarrow> bool" where
  "keeps_denials m m' \<longleftrightarrow> denials m \<subseteq> denials m' \<and> m_active_preset m' = m_active_preset m"

interpretation denial_steps: preorder_steps keeps_denials
  by unfold_locales (auto simp: keeps_denials_def)

text \<open>One section at a time: the denials after it are those before and its own.\<close>

lemma section_denials:
  "denials (apply_security sec m) = denials m \<union> security_denials sec"
  "denials (apply_metadata meta m) = denials m"
  "denials (apply_secrets scr m) = denials m \<union> {d. d = AutoDeny \<and> rx_auto_deny scr = Some True}"
  "denials (apply_deny dny m) = denials m \<union> DenyPath ` set (listed (rd_paths dny))"
  "denials (apply_environment env m) =
     denials m \<union> DenyEnv ` set (listed (re_deny env) @ listed (re_deny_env env))"
  "denials (apply_net_ports ports m) = denials m"
  "denials (apply_unix_sockets socks m) = denials m \<union> DenySocket ` set (listed (ru_deny socks))"
  "denials (apply_cgroup cg m) = denials m"
  by (auto simp: denials_def security_denials_def apply_security_def apply_metadata_def
      apply_secrets_def apply_deny_def apply_environment_def apply_net_ports_def
      apply_unix_sockets_def apply_cgroup_def)

lemma apply_limits_denials: "denials (apply_limits kind raw m) = denials m"
  by (cases "rl_cgroup raw") (simp_all add: apply_limits_def Let_def denials_def apply_cgroup_def)

lemma apply_filesystem_denials:
  assumes "apply_filesystem host kind fs m = Ok m'"
  shows "denials m' = denials m \<union> filesystem_denials fs"
  using assms unfolding apply_filesystem_def and_then_Inr
  by (elim exE conjE) (simp only: sum.inject, hypsubst, simp add: denials_def filesystem_denials_def image_Un Un_ac)

lemma section_presets:
  "m_active_preset (apply_security sec m) = m_active_preset m"
  "m_active_preset (apply_metadata meta m) = m_active_preset m"
  "m_active_preset (apply_secrets scr m) = m_active_preset m"
  "m_active_preset (apply_deny dny m) = m_active_preset m"
  "m_active_preset (apply_environment env m) = m_active_preset m"
  "m_active_preset (apply_net_ports ports m) = m_active_preset m"
  "m_active_preset (apply_unix_sockets socks m) = m_active_preset m"
  "m_active_preset (apply_cgroup cg m) = m_active_preset m"
  by (simp_all add: apply_security_def apply_metadata_def apply_secrets_def apply_deny_def
      apply_environment_def apply_net_ports_def apply_unix_sockets_def apply_cgroup_def)

lemma apply_limits_preset: "m_active_preset (apply_limits kind raw m) = m_active_preset m"
  by (cases "rl_cgroup raw") (simp_all add: apply_limits_def Let_def section_presets)

lemma apply_filesystem_preset:
  "apply_filesystem host kind fs m = Ok m' \<Longrightarrow> m_active_preset m' = m_active_preset m"
  by (auto simp: apply_filesystem_def)

lemma when_some_denials:
  "(\<And>v m. denials (f v m) = denials m \<union> d v) \<Longrightarrow> denials (when_some f x m) = denials m \<union> from_section d x"
  by (cases x) simp_all

lemma when_some_preset:
  "(\<And>v m. m_active_preset (f v m) = m_active_preset m) \<Longrightarrow> m_active_preset (when_some f x m) = m_active_preset m"
  by (cases x) simp_all

text \<open>What the first update of the network section establishes and the others keep.\<close>

lemma apply_network_inv:
  assumes "apply_network net m = Ok m'"
    and "P (m\<lparr>m_network_mode := set_if_some (rw_mode net) (m_network_mode m),
             m_network_allow := grow (rw_allow_domains net) (grow (rw_allow net) (m_network_allow m)),
             m_deny_network := grow (rw_deny_network net) (grow (rw_deny_domains net)
               (grow (rw_deny net) (m_deny_network m)))\<rparr>)"
    and allow: "\<And>s xs. P s \<Longrightarrow> P (s\<lparr>m_network_allow := xs\<rparr>)"
    and cidr: "\<And>s xs. P s \<Longrightarrow> P (s\<lparr>m_allow_cidr := xs\<rparr>)"
    and quota: "\<And>s xs. P s \<Longrightarrow> P (s\<lparr>m_net_quota := xs\<rparr>)"
    and connect: "\<And>s xs. P s \<Longrightarrow> P (s\<lparr>m_net_connect_ports := xs\<rparr>)"
    and bind: "\<And>s xs. P s \<Longrightarrow> P (s\<lparr>m_net_bind_ports := xs\<rparr>)"
  shows "P m'"
proof -
  obtain b c where
    b: "fold_result add_net_preset (listed (rw_net_preset net) @ listed (rw_net_presets net))
          (m\<lparr>m_network_mode := set_if_some (rw_mode net) (m_network_mode m),
             m_network_allow := grow (rw_allow_domains net) (grow (rw_allow net) (m_network_allow m)),
             m_deny_network := grow (rw_deny_network net) (grow (rw_deny_domains net)
               (grow (rw_deny net) (m_deny_network m)))\<rparr>) = Ok b" and
    c: "fold_result add_quota (case rw_net_quota net of None \<Rightarrow> [] | Some qs \<Rightarrow> qs)
          (b\<lparr>m_allow_cidr := grow (rw_allow_cidr net) (m_allow_cidr b)\<rparr>) = Ok c" and
    m': "m' = (when_some apply_net_ports (rw_net_ports net) c)\<lparr>
          m_net_connect_ports := grow_ports (rw_allow_tcp_connect net)
            (m_net_connect_ports (when_some apply_net_ports (rw_net_ports net) c)),
          m_net_bind_ports := grow_ports (rw_allow_tcp_bind net)
            (m_net_bind_ports (when_some apply_net_ports (rw_net_ports net) c))\<rparr>"
    using assms(1) unfolding apply_network_def Let_def and_then_Inr sum.inject by metis
  have "P t" if "P s" "add_net_preset name s = Ok t" for name s t
    using that allow by (auto simp: add_net_preset_def split: sum.splits)
  then have "P b" using fold_result_inv [OF b, of P] assms(2) by blast
  then have "P (b\<lparr>m_allow_cidr := grow (rw_allow_cidr net) (m_allow_cidr b)\<rparr>)" by (rule cidr)
  moreover have "P t" if "P s" "add_quota entry s = Ok t" for entry s t
    using that quota by (auto simp: add_quota_def split: sum.splits)
  ultimately have "P c" using fold_result_inv [OF c, of P] by blast
  then have "P (when_some apply_net_ports (rw_net_ports net) c)"
    using connect by (cases "rw_net_ports net") (simp_all add: apply_net_ports_def)
  then show ?thesis unfolding m' by (intro bind connect)
qed

lemma apply_network_denials:
  assumes "apply_network net m = Ok m'"
  shows "denials m' = denials m \<union> network_denials net \<and> m_active_preset m' = m_active_preset m"
  using assms
proof (rule apply_network_inv)
qed (simp_all add: denials_def network_denials_def image_Un Un_ac)

lemma apply_network_sections_denials:
  assumes "apply_network_sections layer m = Ok m'"
  shows "denials m' = denials m \<union> layer_net_denials layer \<and> m_active_preset m' = m_active_preset m"
  using assms
  by (cases "layer_network layer"; cases "layer_net_ports layer")
     (auto simp: apply_network_sections_def layer_net_denials_def section_denials section_presets
       dest: apply_network_denials)

text \<open>The whole layer: exactly its own denials are added.\<close>

lemma apply_layer_denials:
  assumes "apply_layer host layer kind m = Ok m'"
  shows "denials m' = denials m \<union> layer_denials layer \<union>
      (if is_repo kind \<and> m_active_preset m = Some Paranoid then {} else layer_net_denials layer) \<and>
    m_active_preset m' = m_active_preset m"
proof -
  obtain a b c d where st: "a = when_some apply_metadata (layer_metadata layer) (when_some apply_security (layer_security layer) m)"
    "(case layer_filesystem layer of None \<Rightarrow> Ok a | Some fs \<Rightarrow> apply_filesystem host kind fs a) = Ok b"
    "c = when_some apply_environment (layer_environment layer)
      (when_some apply_deny (layer_display_only_deny layer) (when_some apply_secrets (layer_secrets layer) b))"
    "(if is_repo kind \<and> m_active_preset c = Some Paranoid then Ok c else apply_network_sections layer c) = Ok d"
    "m' = when_some apply_cgroup (layer_cgroup layer) (when_some (apply_limits kind) (layer_limits layer)
      (when_some apply_unix_sockets (layer_unix_sockets layer) d))"
    by (rule apply_layer_ok [OF assms])
  have A: "denials a = denials m \<union> from_section security_denials (layer_security layer)"
    "m_active_preset a = m_active_preset m"
    by (cases "layer_metadata layer"; cases "layer_security layer";
        simp add: st(1) section_denials section_presets)+
  have B: "denials b = denials a \<union> from_section filesystem_denials (layer_filesystem layer)"
    "m_active_preset b = m_active_preset a"
    using st(2) by (auto simp: apply_filesystem_denials apply_filesystem_preset split: option.splits)
  have C: "denials c = denials b \<union> from_section (\<lambda>s. {d. d = AutoDeny \<and> rx_auto_deny s = Some True}) (layer_secrets layer) \<union>
      from_section (\<lambda>d. DenyPath ` set (listed (rd_paths d))) (layer_display_only_deny layer) \<union>
      from_section (\<lambda>e. DenyEnv ` set (listed (re_deny e) @ listed (re_deny_env e))) (layer_environment layer)"
    "m_active_preset c = m_active_preset b"
    unfolding st(3)
    by (simp only: when_some_denials [OF section_denials(3)] when_some_denials [OF section_denials(4)]
          when_some_denials [OF section_denials(5)])
       (simp only: when_some_preset [OF section_presets(3)] when_some_preset [OF section_presets(4)]
          when_some_preset [OF section_presets(5)])
  have D: "denials d = denials c \<union> (if is_repo kind \<and> m_active_preset c = Some Paranoid then {} else layer_net_denials layer)"
    "m_active_preset d = m_active_preset c"
    using st(4) apply_network_sections_denials [of layer c d] by (auto split: if_splits)
  have "denials m' = denials d \<union> from_section (\<lambda>u. DenySocket ` set (listed (ru_deny u))) (layer_unix_sockets layer)"
    "m_active_preset m' = m_active_preset d"
    by (cases "layer_unix_sockets layer"; cases "layer_limits layer"; cases "layer_cgroup layer";
        simp add: st(5) section_denials section_presets apply_limits_denials apply_limits_preset)+
  then show ?thesis using A B C D by (simp add: layer_denials_def Un_ac)
qed

lemma note_parent_denials: "denials (note_parent p m) = denials m" "m_active_preset (note_parent p m) = m_active_preset m"
  by (simp_all add: note_parent_def denials_def)

interpretation denial_order: layer_order keeps_denials "\<lambda>_. True" "\<lambda>_ _. True"
proof unfold_locales
  fix layer kind host m m'
  assume "apply_layer host layer kind m = Ok m'"
  from apply_layer_denials [OF this] show "keeps_denials m m'" by (auto simp: keeps_denials_def)
qed (simp_all add: keeps_denials_def note_parent_denials)

subsection \<open>Overrides and duplicates\<close>

lemma deduplicate_denials: "denials (deduplicate m) = denials m"
  by (simp add: denials_def deduplicate_def)

lemma apply_overrides_denials:
  assumes "apply_overrides ov m = Ok m'"
  shows "denials m \<subseteq> denials m'"
proof -
  have "m' = (case apply_overrides ov m of Inr x \<Rightarrow> x | Inl _ \<Rightarrow> m)" using assms by simp
  then show ?thesis
    using assms unfolding apply_overrides_def by (simp split: if_split_asm) (simp add: denials_def image_Un, blast)
qed

subsection \<open>Limits\<close>

text \<open>The second state is at least as tight: merging the first state's limits changes nothing.\<close>

definition tightens :: "MergedPolicy \<Rightarrow> MergedPolicy \<Rightarrow> bool" where
  "tightens m m' \<longleftrightarrow> limits_merge_strictest (m_limits m') (m_limits m) = m_limits m'"

definition but_size :: "ResourceLimits \<Rightarrow> ResourceLimits" where
  "but_size l = l\<lparr>file_size_bytes := None\<rparr>"

definition tightens_but_size :: "MergedPolicy \<Rightarrow> MergedPolicy \<Rightarrow> bool" where
  "tightens_but_size m m' \<longleftrightarrow>
     limits_merge_strictest (but_size (m_limits m')) (but_size (m_limits m)) = but_size (m_limits m')"

lemma section_limits:
  "m_limits (apply_security sec m) = m_limits m"
  "m_limits (apply_metadata meta m) = m_limits m"
  "m_limits (apply_secrets scr m) = m_limits m"
  "m_limits (apply_deny dny m) = m_limits m"
  "m_limits (apply_environment env m) = m_limits m"
  "m_limits (apply_net_ports ports m) = m_limits m"
  "m_limits (apply_unix_sockets socks m) = m_limits m"
  "m_limits (apply_cgroup cg m) = m_limits m"
  by (simp_all add: apply_security_def apply_metadata_def apply_secrets_def apply_deny_def
      apply_environment_def apply_net_ports_def apply_unix_sockets_def apply_cgroup_def)

lemma when_some_limits: "(\<And>v m. m_limits (f v m) = m_limits m) \<Longrightarrow> m_limits (when_some f x m) = m_limits m"
  by (cases x) simp_all

lemmas when_section_limits = section_limits [THEN when_some_limits]

lemma apply_limits_limits:
  "m_limits (apply_limits kind raw m) = merge_limits kind (m_limits m) (to_resource_limits raw)"
  by (cases "rl_cgroup raw") (simp_all add: apply_limits_def Let_def section_limits)

lemma apply_network_limits: "apply_network net m = Ok m' \<Longrightarrow> m_limits m' = m_limits m"
  by (erule apply_network_inv) simp_all

lemma apply_layer_limits:
  assumes "apply_layer host layer kind m = Ok m'"
  shows "m_limits m' = (case layer_limits layer of
      None \<Rightarrow> m_limits m | Some raw \<Rightarrow> merge_limits kind (m_limits m) (to_resource_limits raw))"
proof -
  obtain a b c d where st: "a = when_some apply_metadata (layer_metadata layer) (when_some apply_security (layer_security layer) m)"
    "(case layer_filesystem layer of None \<Rightarrow> Ok a | Some fs \<Rightarrow> apply_filesystem host kind fs a) = Ok b"
    "c = when_some apply_environment (layer_environment layer)
      (when_some apply_deny (layer_display_only_deny layer) (when_some apply_secrets (layer_secrets layer) b))"
    "(if is_repo kind \<and> m_active_preset c = Some Paranoid then Ok c else apply_network_sections layer c) = Ok d"
    "m' = when_some apply_cgroup (layer_cgroup layer) (when_some (apply_limits kind) (layer_limits layer)
      (when_some apply_unix_sockets (layer_unix_sockets layer) d))"
    by (rule apply_layer_ok [OF assms])
  have "m_limits b = m_limits a" using st(2) by (auto simp: apply_filesystem_def split: option.splits)
  moreover have "m_limits d = m_limits c"
    using st(4) by (auto simp: apply_network_sections_def when_section_limits apply_network_limits split: if_splits option.splits)
  ultimately have "m_limits d = m_limits m" by (simp add: st(1,3) when_section_limits)
  then show ?thesis by (simp add: st(5) when_section_limits apply_limits_limits split: option.split)
qed

lemma merge_limits_plain: "\<not> is_preset_kind kind \<Longrightarrow> merge_limits kind cur inc = limits_merge_strictest cur inc"
  by (simp add: merge_limits_def)

lemma merge_limits_but_size:
  "but_size (merge_limits kind cur inc) = limits_merge_strictest (but_size cur) (but_size inc)"
  by (auto simp: merge_limits_def but_size_def limits_merge_strictest_def split: bool.split option.split)

lemma limits_absorb: "limits_merge_strictest (limits_merge_strictest x y) x = limits_merge_strictest x y"
  "limits_merge_strictest (limits_merge_strictest x y) y = limits_merge_strictest x y"
  by (metis limits_merge.merge_assoc limits_merge.merge_commute limits_merge.merge_idem)+

lemma apply_layer_tightens:
  assumes "apply_layer host layer kind m = Ok m'"
  shows "tightens_but_size m m'" and "\<not> is_preset_kind kind \<Longrightarrow> tightens m m'"
  using apply_layer_limits [OF assms]
  by (auto simp: tightens_but_size_def tightens_def merge_limits_but_size merge_limits_plain limits_absorb
      limits_merge.merge_idem split: option.splits)

lemma limits_order_trans:
  "limits_merge_strictest y x = y \<Longrightarrow> limits_merge_strictest z y = z \<Longrightarrow> limits_merge_strictest z x = z"
  by (metis limits_merge.merge_assoc)

lemma parent_not_preset: "\<not> is_preset_kind BuiltinProfile"
  by simp

interpretation limit_order: layer_order tightens "\<lambda>_. True" "\<lambda>_ kind. \<not> is_preset_kind kind"
  by unfold_locales
     (auto simp: tightens_def note_parent_def limits_merge.merge_idem intro: limits_order_trans
       dest: apply_layer_tightens(2) [unfolded tightens_def])

interpretation size_order: layer_order tightens_but_size "\<lambda>_. True" "\<lambda>_ _. True"
  by unfold_locales
     (auto simp: tightens_but_size_def note_parent_def limits_merge.merge_idem intro: limits_order_trans
       dest: apply_layer_tightens(1) [unfolded tightens_but_size_def])

subsection \<open>The network under the paranoid preset\<close>

definition net_view :: "MergedPolicy \<Rightarrow>
    string option \<times> string list \<times> string list \<times> string list \<times> (string \<times> nat) list \<times> nat list \<times> nat list" where
  "net_view m = (m_network_mode m, m_network_allow m, m_deny_network m, m_allow_cidr m, m_net_quota m,
     m_net_bind_ports m, m_net_connect_ports m)"

text \<open>The built-in profiles say nothing about the network.\<close>

definition quiet_layer :: "RawLayer \<Rightarrow> bool" where
  "quiet_layer layer \<longleftrightarrow> layer_network layer = None \<and> layer_net_ports layer = None"

definition quiet_profiles :: "LoaderHost \<Rightarrow> bool" where
  "quiet_profiles host \<longleftrightarrow> (\<forall>p \<in> set PROFILE_NAMES. \<forall>txt layer.
     builtin host p = Some txt \<longrightarrow> toml host txt = Ok layer \<longrightarrow> quiet_layer layer)"

definition net_kept :: "MergedPolicy \<Rightarrow> MergedPolicy \<Rightarrow> bool" where
  "net_kept m m' \<longleftrightarrow> m_active_preset m' = m_active_preset m \<and>
     (m_active_preset m = Some Paranoid \<longrightarrow> net_view m' = net_view m)"

lemma section_net_view:
  "net_view (apply_security sec m) = net_view m"
  "net_view (apply_metadata meta m) = net_view m"
  "net_view (apply_secrets scr m) = net_view m"
  "net_view (apply_deny dny m) = net_view m"
  "net_view (apply_environment env m) = net_view m"
  "net_view (apply_unix_sockets socks m) = net_view m"
  "net_view (apply_cgroup cg m) = net_view m"
  by (simp_all add: net_view_def apply_security_def apply_metadata_def apply_secrets_def apply_deny_def
      apply_environment_def apply_unix_sockets_def apply_cgroup_def)

lemma apply_limits_net_view: "net_view (apply_limits kind raw m) = net_view m"
  by (cases "rl_cgroup raw") (simp_all add: apply_limits_def Let_def net_view_def apply_cgroup_def)

lemma when_some_net_view: "(\<And>v m. net_view (f v m) = net_view m) \<Longrightarrow> net_view (when_some f x m) = net_view m"
  by (cases x) simp_all

lemmas when_section_net_view = section_net_view [THEN when_some_net_view]

lemma apply_layer_net_view:
  assumes "apply_layer host layer kind m = Ok m'"
    and "is_repo kind \<and> m_active_preset m = Some Paranoid \<or> quiet_layer layer"
  shows "net_view m' = net_view m"
proof -
  obtain a b c d where st: "a = when_some apply_metadata (layer_metadata layer) (when_some apply_security (layer_security layer) m)"
    "(case layer_filesystem layer of None \<Rightarrow> Ok a | Some fs \<Rightarrow> apply_filesystem host kind fs a) = Ok b"
    "c = when_some apply_environment (layer_environment layer)
      (when_some apply_deny (layer_display_only_deny layer) (when_some apply_secrets (layer_secrets layer) b))"
    "(if is_repo kind \<and> m_active_preset c = Some Paranoid then Ok c else apply_network_sections layer c) = Ok d"
    "m' = when_some apply_cgroup (layer_cgroup layer) (when_some (apply_limits kind) (layer_limits layer)
      (when_some apply_unix_sockets (layer_unix_sockets layer) d))"
    by (rule apply_layer_ok [OF assms(1)])
  have b: "net_view b = net_view a" "m_active_preset b = m_active_preset a"
    using st(2) by (auto simp: apply_filesystem_def net_view_def split: option.splits)
  have "m_active_preset a = m_active_preset m"
    by (simp add: st(1) when_some_preset [OF section_presets(1)] when_some_preset [OF section_presets(2)])
  then have "m_active_preset c = m_active_preset m"
    using b by (simp add: st(3) when_some_preset [OF section_presets(3)] when_some_preset [OF section_presets(4)]
        when_some_preset [OF section_presets(5)])
  then have "net_view d = net_view c"
    using st(4) assms(2) by (auto simp: apply_network_sections_def quiet_layer_def split: if_splits)
  then show ?thesis
    using b by (simp add: st(1,3,5) when_section_net_view when_some_net_view [OF apply_limits_net_view])
qed

lemma parent_layer_quiet:
  "quiet_profiles host \<Longrightarrow> parent_layer host source stack p = Ok l \<Longrightarrow> quiet_layer l"
  using builtin_profile_names [of host p]
  by (auto simp: parent_layer_def quiet_profiles_def parse_layer_ok split: if_splits option.splits sum.splits)

interpretation net_order: layer_order net_kept quiet_profiles "\<lambda>layer kind. is_repo kind \<or> quiet_layer layer"
  by unfold_locales
     (auto simp: net_kept_def note_parent_def net_view_def
       dest: apply_layer_denials apply_layer_net_view [unfolded net_view_def] parent_layer_quiet)

lemma fold_result_Cons_ok: "fold_result f (x # xs) s = Ok t \<longleftrightarrow> (\<exists>u. f x s = Ok u \<and> fold_result f xs u = Ok t)"
  by (auto split: sum.splits)

lemma fold_result_append_ok:
  "fold_result f (xs @ ys) s = Ok t \<longleftrightarrow> (\<exists>u. fold_result f xs s = Ok u \<and> fold_result f ys u = Ok t)"
  by (induction xs arbitrary: s) (auto split: sum.splits)

subsection \<open>Inheritance\<close>

text \<open>The layer of a built-in profile, and the profiles a layer inherits from, directly or through
  another profile.\<close>

definition profile_layer :: "LoaderHost \<Rightarrow> string \<Rightarrow> RawLayer option" where
  "profile_layer host p = Option.bind (builtin host p) (\<lambda>txt. ok_option (toml host txt))"

inductive inherits :: "LoaderHost \<Rightarrow> RawLayer \<Rightarrow> string \<Rightarrow> bool" for host where
  direct: "p \<in> set (parents_of layer) \<Longrightarrow> inherits host layer p"
| indirect: "p \<in> set (parents_of layer) \<Longrightarrow> profile_layer host p = Some l \<Longrightarrow> inherits host l q \<Longrightarrow>
    inherits host layer q"

lemma parent_layer_profile:
  "parent_layer host source stack p = Ok l \<Longrightarrow> p \<notin> set stack \<and> profile_layer host p = Some l"
  by (auto simp: parent_layer_def profile_layer_def parse_layer_ok ok_option_def split: if_splits option.splits sum.splits)

definition sound_parent :: "LoaderHost \<Rightarrow> string list \<Rightarrow> string \<Rightarrow> bool" where
  "sound_parent host stack q \<longleftrightarrow>
     q \<notin> set stack \<and> (\<exists>l. profile_layer host q = Some l \<and> \<not> inherits host l q)"

lemma merge_sound_parents:
  "merge_layer host layer source stack kind m = Ok m1 \<Longrightarrow> inherits host layer q \<Longrightarrow> sound_parent host stack q"
  "merge_parents host source stack parents m = Ok m2 \<Longrightarrow> p \<in> set parents \<Longrightarrow>
     sound_parent host stack p \<and> (\<forall>l q. profile_layer host p = Some l \<longrightarrow> inherits host l q \<longrightarrow> sound_parent host stack q)"
proof (induction host layer source stack kind m and host source stack parents m
    arbitrary: m1 q and m2 p rule: merge_layer_merge_parents.induct)
  case (1 host layer source stack kind m)
  from 1(2) obtain m' where "merge_parents host source stack (parents_of layer) m = Ok m'"
    by (auto simp: merge_layer.simps split: sum.splits)
  from 1(1) [OF this] 1(3) show ?case by (auto elim: inherits.cases)
next
  case (3 host source stack parent parents m)
  from 3(3) obtain layer m' where s: "parent_layer host source stack parent = Ok layer"
    "merge_layer host layer (''inherited:'' @ parent) (stack @ [parent]) BuiltinProfile m = Ok m'"
    "merge_parents host source stack parents (note_parent parent m') = Ok m2"
    by (auto split: sum.splits)
  have below: "sound_parent host (stack @ [parent]) q" if "inherits host layer q" for q
    using 3(1) [OF s(1) s(2) that] .
  have "sound_parent host stack parent"
    using parent_layer_profile [OF s(1)] below [of parent] by (auto simp: sound_parent_def)
  moreover have "sound_parent host stack q" if "inherits host layer q" for q
    using below [OF that] by (simp add: sound_parent_def)
  ultimately show ?case
    using 3(2) [OF s(1) s(2) s(3)] 3(4) parent_layer_profile [OF s(1)] by auto
qed simp

subsection \<open>Quotas\<close>

lemma add_quotas:
  assumes "\<forall>(d, v) \<in> set qs. parse_bytes_value v \<noteq> None"
  shows "fold_result add_quota qs m =
    Ok (m\<lparr>m_net_quota := fold (\<lambda>(d, v). AList.update (quota_key d) (the (parse_bytes_value v))) qs (m_net_quota m)\<rparr>)"
  using assms
proof (induction qs arbitrary: m)
  case (Cons q qs)
  obtain d v n where q: "q = (d, v)" "parse_bytes_value v = Some n"
    using Cons.prems by (cases q) auto
  then have "add_quota q m = Ok (m\<lparr>m_net_quota := AList.update (quota_key d) n (m_net_quota m)\<rparr>)"
    by (simp add: add_quota_def parse_quota_bytes_def)
  with Cons q show ?case by simp
qed simp

lemma add_quotas_ok:
  "fold_result add_quota qs m = Ok m' \<Longrightarrow> \<forall>(d, v) \<in> set qs. parse_bytes_value v \<noteq> None"
proof (induction qs arbitrary: m)
  case (Cons q qs)
  then show ?case by (auto simp: add_quota_def parse_quota_bytes_def split: sum.splits option.splits)
qed simp

lemma map_of_fold_update:
  "map_of (fold (\<lambda>(d, v). AList.update (f d) (g v)) qs acc) =
     map_of acc ++ map_of (rev (map (\<lambda>(d, v). (f d, g v)) qs))"
proof (induction qs arbitrary: acc)
  case (Cons q qs)
  then show ?case by (cases q) (simp add: update_conv' map_add_def fun_eq_iff split: option.split)
qed simp

section \<open>Properties\<close>

text \<open>
  Property C36 (no layer undoes a denial). When a sequence of layers merges, every denial of
  every layer is in force in the result: denied writes, reads, paths, presets, globs,
  environment names, sockets and network names, the lockdown, the git guard and the denial
  of secrets. Later layers and the profiles they inherit can add to these, never remove.
\<close>

theorem layers_keep_denials:
  assumes "merge_all host layers = Ok m" and "(layer, kind) \<in> set layers"
  shows "layer_denials layer \<union> layer_net_denials layer \<subseteq> denials m"
proof -
  obtain before after where layers: "layers = before @ (layer, kind) # after"
    using assms(2) by (auto dest: split_list)
  from assms(1) obtain a b where a: "fold_result (\<lambda>(layer, kind). merge_into host layer kind) before empty_merged = Ok a"
    and b: "merge_into host layer kind a = Ok b"
    and m: "fold_result (\<lambda>(layer, kind). merge_into host layer kind) after b = Ok m"
    unfolding merge_all_def layers fold_result_append_ok fold_result_Cons_ok by auto
  have step: "keeps_denials s t" if "(case x of (layer, kind) \<Rightarrow> merge_into host layer kind) s = Ok t" for x s t
    using that denial_order.merge_le(1) by (cases x) (auto simp: merge_into_def)
  have am: "m_active_preset a = None"
    using denial_steps.fold_result_le [OF a step] by (simp add: keeps_denials_def empty_merged_def)
  obtain a' where a': "merge_parents host ''merge'' [] (parents_of layer) a = Ok a'"
    "apply_layer host layer kind a' = Ok b"
    using b by (auto simp: merge_into_def merge_layer.simps split: sum.splits)
  have "m_active_preset a' = None"
    using denial_order.merge_le(2) [OF _ a'(1)] am by (simp add: keeps_denials_def)
  then have "layer_denials layer \<union> layer_net_denials layer \<subseteq> denials b"
    using apply_layer_denials [OF a'(2)] by auto
  moreover have "keeps_denials b m" using denial_steps.fold_result_le [OF m step] .
  ultimately show ?thesis by (auto simp: keeps_denials_def)
qed

text \<open>A host for the examples: no environment, no files, no text that parses.\<close>

definition bare_host :: LoaderHost where
  "bare_host =
     \<lparr>env_var = (\<lambda>_. None), uid = 1000, current_dir = None, lstat = (\<lambda>_. Err []), stat = (\<lambda>_. None),
      canon = (\<lambda>_. None), read_dir = (\<lambda>_. Err []), read_text = (\<lambda>_. Err []), glob_with = (\<lambda>_. None),
      toml = (\<lambda>_. Err []), embedded = (\<lambda>_. [])\<rparr>"

definition deny_env_layer :: RawLayer where
  "deny_env_layer = empty_layer\<lparr>layer_filesystem := Some (no_filesystem\<lparr>rf_deny_write := Some (One ''/srv'')\<rparr>)\<rparr>"

definition grant_layer :: RawLayer where
  "grant_layer = empty_layer\<lparr>layer_filesystem := Some (no_filesystem\<lparr>rf_allow_write := Some (One ''/srv'')\<rparr>)\<rparr>"

lemma parentless: "parents_of layer = [] \<Longrightarrow> merge_layer host layer source stack kind m = apply_layer host layer kind m"
  by (simp add: merge_layer.simps)

lemma apply_deny_env_layer:
  "\<not> is_repo kind \<Longrightarrow> apply_layer host deny_env_layer kind m = Ok (m\<lparr>m_deny_write := m_deny_write m @ [''/srv'']\<rparr>)"
  "\<not> is_repo kind \<Longrightarrow> apply_layer host grant_layer kind m = Ok (m\<lparr>m_allow_write := m_allow_write m @ [''/srv'']\<rparr>)"
  by (simp_all add: apply_layer_def deny_env_layer_def grant_layer_def empty_layer_def unsets_lockdown_def
      apply_filesystem_def no_filesystem_def grow_def listed_def replaced_def set_if_some_def
      apply_network_sections_def Let_def)

lemma no_parents: "parents_of deny_env_layer = []" "parents_of grant_layer = []"
  by (simp_all add: parents_of_def deny_env_layer_def grant_layer_def empty_layer_def)

theorem layers_keep_denials_witness:
  "\<exists>m. merge_all bare_host [(deny_env_layer, SystemGlobal), (grant_layer, CliExplicit)] = Ok m \<and>
     DenyWrite ''/srv'' \<in> denials m"
proof -
  let ?m = "empty_merged\<lparr>m_deny_write := [''/srv''], m_allow_write := [''/srv'']\<rparr>"
  have m: "merge_all bare_host [(deny_env_layer, SystemGlobal), (grant_layer, CliExplicit)] = Ok ?m"
    by (simp add: merge_all_def merge_into_def parentless no_parents apply_deny_env_layer empty_merged_def)
  have "DenyWrite ''/srv'' \<in> layer_denials deny_env_layer"
    by (simp add: layer_denials_def deny_env_layer_def filesystem_denials_def no_filesystem_def listed_def)
  then show ?thesis using layers_keep_denials [OF m, of deny_env_layer SystemGlobal] m by auto
qed

text \<open>
  Limits only tighten. Merging a layer, inherited profiles included, never
  raises a ceiling on time, memory, processes, open files or I/O, and the result is at most
  what the layer itself asks for. The ceiling on file size is the exception: outside presets
  it only tightens as well, but a preset of a security level or of an agent sets it to the
  larger of the two values.
\<close>

theorem layers_tighten_limits:
  assumes "merge_layer host layer source stack kind m = Ok m'"
  shows "tighter (cpu_seconds (m_limits m')) (cpu_seconds (m_limits m)) \<and>
    tighter (address_space_bytes (m_limits m')) (address_space_bytes (m_limits m)) \<and>
    tighter (processes (m_limits m')) (processes (m_limits m)) \<and>
    tighter (open_files (m_limits m')) (open_files (m_limits m)) \<and>
    merge_io_rate (io_rate (m_limits m')) (io_rate (m_limits m)) = io_rate (m_limits m') \<and>
    (\<not> is_preset_kind kind \<longrightarrow> tighter (file_size_bytes (m_limits m')) (file_size_bytes (m_limits m))) \<and>
    (\<forall>raw. layer_limits layer = Some raw \<longrightarrow>
       tighter (cpu_seconds (m_limits m')) (rl_cpu_seconds raw) \<and>
       tighter (processes (m_limits m')) (rl_processes raw) \<and>
       (\<not> is_preset_kind kind \<longrightarrow> tighter (file_size_bytes (m_limits m')) (rl_file_size_bytes raw)) \<and>
       (is_preset_kind kind \<and> parents_of layer = [] \<longrightarrow>
          (\<forall>f c. rl_file_size_bytes raw = Some f \<longrightarrow> file_size_bytes (m_limits m) = Some c \<longrightarrow>
             file_size_bytes (m_limits m') = Some (max c f))))"
proof (intro conjI allI impI)
  note all = size_order.merge_le(1) [OF _ _ assms, unfolded tightens_but_size_def]
  note t = limits_absorb_tighter [OF all, simplified]
  show "tighter (cpu_seconds (m_limits m')) (cpu_seconds (m_limits m))"
    "tighter (address_space_bytes (m_limits m')) (address_space_bytes (m_limits m))"
    "tighter (processes (m_limits m')) (processes (m_limits m))"
    "tighter (open_files (m_limits m')) (open_files (m_limits m))"
    using t by (simp_all add: but_size_def)
  show "merge_io_rate (io_rate (m_limits m')) (io_rate (m_limits m)) = io_rate (m_limits m')"
    using arg_cong [OF all, of io_rate] by (simp add: but_size_def limits_merge_strictest_def)
  show "tighter (file_size_bytes (m_limits m')) (file_size_bytes (m_limits m))" if "\<not> is_preset_kind kind"
    using limits_absorb_tighter(5) [OF limit_order.merge_le(1) [OF _ that assms, unfolded tightens_def]] by simp
  fix raw assume raw: "layer_limits layer = Some raw"
  obtain a where a: "merge_parents host source stack (parents_of layer) m = Ok a" "apply_layer host layer kind a = Ok m'"
    using assms by (auto simp: merge_layer.simps split: sum.splits)
  have l: "m_limits m' = merge_limits kind (m_limits a) (to_resource_limits raw)"
    using apply_layer_limits [OF a(2)] raw by simp
  have "limits_merge_strictest (but_size (m_limits m')) (but_size (to_resource_limits raw)) = but_size (m_limits m')"
    by (simp add: l merge_limits_but_size limits_absorb)
  from limits_absorb_tighter [OF this]
  show "tighter (cpu_seconds (m_limits m')) (rl_cpu_seconds raw)" "tighter (processes (m_limits m')) (rl_processes raw)"
    by (simp_all add: but_size_def to_resource_limits_def)
  show "tighter (file_size_bytes (m_limits m')) (rl_file_size_bytes raw)" if "\<not> is_preset_kind kind"
    using limits_absorb_tighter(5) [of "m_limits m'" "to_resource_limits raw"] that
    by (simp add: l merge_limits_plain limits_absorb to_resource_limits_def)
  show "file_size_bytes (m_limits m') = Some (max c f)"
    if "is_preset_kind kind \<and> parents_of layer = []" "rl_file_size_bytes raw = Some f"
      "file_size_bytes (m_limits m) = Some c" for f c
    using that a(1) by (simp add: l merge_limits_def to_resource_limits_def limits_merge_strictest_def)
qed

definition limit_layer :: RawLayer where
  "limit_layer = empty_layer\<lparr>layer_limits := Some (no_raw_limits\<lparr>rl_processes := Some 64,
     rl_file_size_bytes := Some 4096\<rparr>)\<rparr>"

lemma apply_limit_layer:
  "apply_layer host limit_layer kind m = Ok (apply_limits kind (no_raw_limits\<lparr>rl_processes := Some 64,
     rl_file_size_bytes := Some 4096\<rparr>) m)"
  by (simp add: apply_layer_def limit_layer_def empty_layer_def unsets_lockdown_def apply_network_sections_def Let_def)

lemma limit_layer_parents: "parents_of limit_layer = []"
  by (simp add: parents_of_def limit_layer_def empty_layer_def)

theorem layers_tighten_limits_witness:
  "\<exists>m. merge_layer bare_host limit_layer ''preset'' [] Preset
       (empty_merged\<lparr>m_limits := no_limits\<lparr>processes := Some 8, file_size_bytes := Some 1024\<rparr>\<rparr>) = Ok m \<and>
     tighter (processes (m_limits m)) (Some 8) \<and> file_size_bytes (m_limits m) = Some 4096"
proof -
  let ?m = "empty_merged\<lparr>m_limits := no_limits\<lparr>processes := Some 8, file_size_bytes := Some 1024\<rparr>\<rparr>"
  let ?r = "no_raw_limits\<lparr>rl_processes := Some 64, rl_file_size_bytes := Some 4096\<rparr>"
  have m: "merge_layer bare_host limit_layer ''preset'' [] Preset ?m = Ok (apply_limits Preset ?r ?m)"
    by (simp add: parentless limit_layer_parents apply_limit_layer)
  show ?thesis
    using layers_tighten_limits [OF m] m
    by (simp add: limit_layer_parents) (simp add: limit_layer_def)
qed

text \<open>
  Property C37 (the lockdown holds). Once a policy is immutable it stays so under every later
  layer; a layer above the system's precedence that asks to unset it is refused, whatever it
  inherits; and file access granted on the command line is refused with a lockdown violation.
\<close>

theorem lockdown_holds:
  assumes "m_is_immutable m"
  shows "(\<forall>m'. merge_layer host layer source stack kind m = Ok m' \<longrightarrow> m_is_immutable m') \<and>
    (precedence kind > precedence SystemGlobal \<and> unsets_lockdown layer \<longrightarrow>
       \<not> is_ok (merge_layer host layer source stack kind m)) \<and>
    (o_allow_write ov \<noteq> [] \<or> o_allow_read ov \<noteq> [] \<longrightarrow>
       (\<exists>e. apply_overrides ov m = Err (PolicyLockdownViolation e))) \<and>
    (\<forall>m'. apply_overrides ov m = Ok m' \<longrightarrow> m_is_immutable m')"
proof -
  have imm: "m_is_immutable t" if "m_is_immutable s" "denials s \<subseteq> denials t" for s t
    using that by (auto simp: denials_def)
  have "m_is_immutable m'" if "merge_layer host layer source stack kind m = Ok m'" for m'
    using denial_order.merge_le(1) [OF _ _ that] imm [OF assms] by (auto simp: keeps_denials_def)
  moreover have False
    if asm: "precedence kind > precedence SystemGlobal" "unsets_lockdown layer"
      "merge_layer host layer source stack kind m = Ok m'" for m'
  proof -
    obtain a where a: "merge_parents host source stack (parents_of layer) m = Ok a" "apply_layer host layer kind a = Ok m'"
      using asm(3) by (auto simp: merge_layer.simps split: sum.splits)
    have "m_is_immutable a"
      using denial_order.merge_le(2) [OF _ a(1)] imm [OF assms] by (auto simp: keeps_denials_def)
    then show False using a(2) asm(1,2) by (simp add: apply_layer_def)
  qed
  moreover have "\<exists>e. apply_overrides ov m = Err (PolicyLockdownViolation e)"
    if "o_allow_write ov \<noteq> [] \<or> o_allow_read ov \<noteq> []"
    using that assms by (simp add: apply_overrides_def)
  moreover have "m_is_immutable m'" if "apply_overrides ov m = Ok m'" for m'
    using apply_overrides_denials [OF that] imm [OF assms] by blast
  ultimately show ?thesis by (auto simp: is_ok_iff)
qed

theorem lockdown_holds_witness:
  "\<not> is_ok (merge_layer bare_host (empty_layer\<lparr>layer_security := Some \<lparr>rs_immutable = Some False,
       rs_system_log = None, rs_auto_deny_secrets = None, rs_git_guard = None, rs_seccomp_profile = None,
       rs_seccomp_notify = None\<rparr>\<rparr>) ''repo'' [] Repository (empty_merged\<lparr>m_is_immutable := True\<rparr>)) \<and>
   (\<exists>e. apply_overrides (no_overrides\<lparr>o_allow_write := [''/srv'']\<rparr>) (empty_merged\<lparr>m_is_immutable := True\<rparr>) =
      Err (PolicyLockdownViolation e))"
  using lockdown_holds [of "empty_merged\<lparr>m_is_immutable := True\<rparr>" bare_host
      "empty_layer\<lparr>layer_security := Some \<lparr>rs_immutable = Some False, rs_system_log = None,
        rs_auto_deny_secrets = None, rs_git_guard = None, rs_seccomp_profile = None, rs_seccomp_notify = None\<rparr>\<rparr>"
      "''repo''" "[]" Repository "no_overrides\<lparr>o_allow_write := [''/srv'']\<rparr>"]
  by (simp add: unsets_lockdown_def)

definition loosening_layer :: RawLayer where
  "loosening_layer = empty_layer\<lparr>
     layer_security := Some \<lparr>rs_immutable = None, rs_system_log = Some False, rs_auto_deny_secrets = None,
       rs_git_guard = None, rs_seccomp_profile = Some ''default'', rs_seccomp_notify = None\<rparr>,
     layer_filesystem := Some (no_filesystem\<lparr>rf_allow_write := Some (One ''/srv'')\<rparr>)\<rparr>"

text \<open>
  What the lockdown does not stop. Under an immutable policy a later layer
  still grants write access, switches the system log off and replaces the seccomp profile;
  only the flag itself and command-line grants are protected.
\<close>

theorem lockdown_permits_loosening:
  "\<exists>m. merge_layer host loosening_layer ''override'' [] LocalOverride
       (empty_merged\<lparr>m_is_immutable := True, m_system_log := True, m_seccomp_profile := Some ''agent-min''\<rparr>) = Ok m \<and>
     ''/srv'' \<in> set (m_allow_write m) \<and> \<not> m_system_log m \<and> m_seccomp_profile m = Some ''default''"
proof -
  have "parents_of loosening_layer = []" by (simp add: parents_of_def loosening_layer_def empty_layer_def)
  then show ?thesis
    by (simp add: parentless apply_layer_def loosening_layer_def empty_layer_def unsets_lockdown_def
        apply_filesystem_def no_filesystem_def apply_security_def listed_def replaced_def set_if_some_def
        apply_network_sections_def Let_def)
qed

text \<open>
  Inheritance is well-founded. The recursion over inherited profiles always
  returns (every level uses up one of the finitely many built-in profiles). When it succeeds,
  every profile the layer inherits from, directly or through others, is a built-in profile
  with a text that parses, is not one of the profiles under way, and does not inherit from
  itself.
\<close>

theorem inheritance_is_acyclic:
  assumes "merge_layer host layer source stack kind m = Ok m'" and "inherits host layer q"
  shows "q \<notin> set stack \<and> q \<in> set PROFILE_NAMES \<and>
    (\<exists>l. profile_layer host q = Some l \<and> \<not> inherits host l q)"
proof -
  have "q \<in> set PROFILE_NAMES" if "profile_layer host q = Some l" for l
    using that builtin_profile_names [of host q] by (cases "builtin host q") (auto simp: profile_layer_def)
  then show ?thesis
    using merge_sound_parents(1) [OF assms] by (auto simp: sound_parent_def)
qed

definition child_layer :: RawLayer where
  "child_layer = empty_layer\<lparr>layer_metadata := Some (no_metadata\<lparr>rm_extends := Some (One ''strict'')\<rparr>)\<rparr>"

theorem inheritance_is_acyclic_witness:
  "\<exists>m. merge_layer (bare_host\<lparr>toml := (\<lambda>_. Ok empty_layer)\<rparr>) child_layer ''repo'' [] Repository empty_merged = Ok m \<and>
     ''strict'' \<in> set PROFILE_NAMES"
proof -
  let ?h = "bare_host\<lparr>toml := (\<lambda>_. Ok empty_layer)\<rparr>"
  have p: "parents_of child_layer = [''strict'']"
    by (simp add: parents_of_def child_layer_def empty_layer_def no_metadata_def listed_def)
  have q: "parents_of empty_layer = []" by (simp add: parents_of_def empty_layer_def)
  have v: "validate_parent_name ''strict'' = Ok ()" by code_simp
  have b: "builtin ?h ''strict'' = Some []" by (simp add: builtin_def BUILTIN_FILES_def bare_host_def)
  have l: "parent_layer ?h src [] ''strict'' = Ok empty_layer" for src
    by (simp add: parent_layer_def v b) (simp add: parse_layer_def)
  have e: "apply_layer ?h empty_layer k s = Ok s" for k s
    by (simp add: apply_layer_def empty_layer_def unsets_lockdown_def apply_network_sections_def Let_def)
  have m: "merge_layer ?h child_layer ''repo'' [] Repository empty_merged = apply_layer ?h child_layer Repository (note_parent ''strict'' empty_merged)"
    by (simp add: merge_layer.simps p l e q)
  moreover have "\<exists>m. apply_layer ?h child_layer Repository s = Ok m" for s
    by (simp add: apply_layer_def child_layer_def empty_layer_def unsets_lockdown_def apply_network_sections_def Let_def)
  ultimately obtain t where t: "merge_layer ?h child_layer ''repo'' [] Repository empty_merged = Ok t" by metis
  have "inherits ?h child_layer ''strict''" by (rule inherits.direct) (simp add: p)
  from inheritance_is_acyclic [OF t this] t show ?thesis by blast
qed

lemma quota_pairs_keys:
  "map fst (rev (map (\<lambda>(d, v). (quota_key d, g v)) xs)) = rev (map (quota_key \<circ> fst) xs)"
  by (induction xs) auto

lemma sample_quotas:
  "parse_bytes_value ''1'' = Some 1" "parse_bytes_value ''2'' = Some 2"
  "quota_key ''A.org'' = ''a.org''" "quota_key ''a.org'' = ''a.org''" "quota_key ''b.org'' = ''b.org''"
proof -
  show "parse_bytes_value ''1'' = Some 1" "parse_bytes_value ''2'' = Some 2"
    by (simp_all add: parse_bytes_value_def parse_cgroup_memory_def eq_ignore_ascii_case_def
        to_ascii_lowercase_def parse_bytes_with_standard_def trim_def trim_end_matches_def
        trim_start_matches_def is_ascii_ws_def parse_uint_def is_ascii_digit_def digits_val_def digit_val_def)
qed code_simp+

text \<open>
  Quotas and iteration order. The quotas of a layer come from a hash map, whose
  iteration order is unspecified. When the names of the map are distinct after normalization
  the quotas that result do not depend on the order.
\<close>

theorem quotas_order_independent:
  assumes "fold_result add_quota qs m = Ok m1" and "mset qs = mset qs'" and "distinct (map (quota_key \<circ> fst) qs)"
  shows "\<exists>m2. fold_result add_quota qs' m = Ok m2 \<and> map_of (m_net_quota m2) = map_of (m_net_quota m1)"
proof -
  let ?f = "\<lambda>(d, v). (quota_key d, the (parse_bytes_value v))"
  have s: "set qs' = set qs" using assms(2) by (metis mset_eq_setD)
  note ok = add_quotas_ok [OF assms(1)]
  have m1: "m_net_quota m1 = fold (\<lambda>(d, v). AList.update (quota_key d) (the (parse_bytes_value v))) qs (m_net_quota m)"
    using assms(1) add_quotas [OF ok, of m] by auto
  have "mset (map (quota_key \<circ> fst) qs) = mset (map (quota_key \<circ> fst) qs')" using assms(2) by simp
  then have "distinct (map (quota_key \<circ> fst) qs')" using assms(3) mset_eq_imp_distinct_iff by blast
  then have "map_of (rev (map ?f qs)) = map_of (rev (map ?f qs'))"
    using assms(3) s by (subst map_of_inject_set) (simp_all only: quota_pairs_keys distinct_rev set_rev set_map)
  then show ?thesis
    using add_quotas [of qs' m] ok m1 by (simp add: map_of_fold_update s)
qed

theorem quotas_order_independent_witness:
  "\<exists>m. fold_result add_quota [(''b.org'', ''2''), (''A.org'', ''1'')] empty_merged = Ok m \<and>
     map_of (m_net_quota m) ''a.org'' = Some 1"
proof -
  have f: "fold_result add_quota [(''A.org'', ''1''), (''b.org'', ''2'')] empty_merged =
      Ok (empty_merged\<lparr>m_net_quota := [(''a.org'', 1), (''b.org'', 2)]\<rparr>)"
    by (simp add: add_quota_def parse_quota_bytes_def sample_quotas empty_merged_def)
  show ?thesis
    using quotas_order_independent [OF f, of "[(''b.org'', ''2''), (''A.org'', ''1'')]"] by (auto simp: sample_quotas)
qed

text \<open>When two names normalize to the same name, the order decides.\<close>

theorem quota_order_matters:
  "\<exists>ps ps' n1 n2. mset ps = mset ps' \<and> fold_result add_quota ps empty_merged = Ok n1 \<and>
     fold_result add_quota ps' empty_merged = Ok n2 \<and> map_of (m_net_quota n1) \<noteq> map_of (m_net_quota n2)"
proof -
  have f: "fold_result add_quota [(''A.org'', ''1''), (''a.org'', ''2'')] empty_merged =
      Ok (empty_merged\<lparr>m_net_quota := [(''a.org'', 2)]\<rparr>)"
    "fold_result add_quota [(''a.org'', ''2''), (''A.org'', ''1'')] empty_merged =
      Ok (empty_merged\<lparr>m_net_quota := [(''a.org'', 1)]\<rparr>)"
    by (simp_all add: add_quota_def parse_quota_bytes_def sample_quotas empty_merged_def)
  show ?thesis
    by (rule exI [of _ "[(''A.org'', ''1''), (''a.org'', ''2'')]"],
        rule exI [of _ "[(''a.org'', ''2''), (''A.org'', ''1'')]"], unfold f) (simp add: fun_eq_iff)
qed

text \<open>
  The paranoid preset shields the network. Under the paranoid preset no policy
  of the repository, not even through the profiles it inherits, changes anything the network
  is decided by: the mode, the names allowed and denied, address blocks, quotas and ports.
  The built-in profiles must not speak of the network, as the embedded ones do not.
\<close>

theorem paranoid_shields_network:
  assumes "quiet_profiles host" and "m_active_preset m = Some Paranoid" and "is_repo kind"
    and "merge_layer host layer source stack kind m = Ok m'"
  shows "net_view m' = net_view m"
  using net_order.merge_le(1) [OF assms(1) _ assms(4)] assms(2,3) by (simp add: net_kept_def)

definition open_net_layer :: RawLayer where
  "open_net_layer = empty_layer\<lparr>layer_network := Some (no_network\<lparr>rw_mode := Some ''ask''\<rparr>)\<rparr>"

theorem paranoid_shields_network_witness:
  "\<exists>m. merge_layer bare_host open_net_layer ''repo'' [] Repository
       (empty_merged\<lparr>m_active_preset := Some Paranoid, m_network_mode := Some ''off''\<rparr>) = Ok m \<and>
     m_network_mode m = Some ''off''"
proof -
  let ?m = "empty_merged\<lparr>m_active_preset := Some Paranoid, m_network_mode := Some ''off''\<rparr>"
  have "parents_of open_net_layer = []" by (simp add: parents_of_def open_net_layer_def empty_layer_def)
  then have m: "merge_layer bare_host open_net_layer ''repo'' [] Repository ?m = Ok ?m"
    by (simp add: parentless apply_layer_def open_net_layer_def empty_layer_def unsets_lockdown_def Let_def)
  have "quiet_profiles bare_host" by (simp add: quiet_profiles_def bare_host_def)
  from paranoid_shields_network [OF this _ _ m] m show ?thesis by (simp add: net_view_def)
qed

end
