(* ===== verification/Enumerate.thy ===== *)
theory Enumerate
  imports Merge Compiler
begin

text \<open>
  Variables, globs and secret shapes of \<open>src/src/policy/glob_resolve.rs\<close>, and the enumeration
  of project trees of \<open>src/src/policy/loader/resolve.rs\<close>, by which the tier without mounts
  hides secrets: a directory is granted as a whole only if nothing below it is a secret, a
  denied path or a symbolic link; otherwise its files are granted one by one. The directory
  listings, the kinds of files and the matches of a glob come from the host.

  The recursion of the enumeration is cut by the program's own budget of entries, so its
  fuel is the budget plus one; the lemmas show that this is enough, that what is granted
  covers no secret, and that every other file is granted.
\<close>

section \<open>Variables and globs\<close>

definition GLOB_CHARS :: "char list" where
  "GLOB_CHARS = [CHR ''*'', CHR ''?'', CHR ''['']"

record Vars =
  v_project :: path
  v_home :: path
  v_runtime_dir :: "path option"

text \<open>\<open>s.replace(pat, rep)\<close> for a pattern that is not empty.\<close>

function replace_all :: "string \<Rightarrow> string \<Rightarrow> string \<Rightarrow> string" where
  "replace_all pat rep s =
     (if pat = [] then s
      else if prefix pat s then rep @ replace_all pat rep (drop (length pat) s)
      else (case s of [] \<Rightarrow> [] | c # cs \<Rightarrow> c # replace_all pat rep cs))"
  by pat_completeness auto

termination
  by (relation "measure (\<lambda>(pat, rep, s). length s)") (auto simp: prefix_def)

declare replace_all.simps [simp del]

definition substitute_with_agent :: "string \<Rightarrow> Vars \<Rightarrow> path option \<Rightarrow> path" where
  "substitute_with_agent entry vars agent =
     (let s = replace_all ''$HOME'' (v_home vars) (replace_all ''$PROJECT'' (v_project vars) entry);
          s = (case agent of Some a \<Rightarrow> replace_all ''$AGENT'' a s | None \<Rightarrow> s);
          s = (case v_runtime_dir vars of Some r \<Rightarrow> replace_all ''$XDG_RUNTIME_DIR'' r s | None \<Rightarrow> s)
      in case strip_prefix ''~/'' s of
           Some below_home \<Rightarrow> v_home vars @ ''/'' @ below_home
         | None \<Rightarrow> s)"

definition has_glob :: "string \<Rightarrow> bool" where
  "has_glob p = list_ex (\<lambda>c. c \<in> set GLOB_CHARS) p"

definition is_home_or_root :: "LoaderHost \<Rightarrow> Vars \<Rightarrow> bool" where
  "is_home_or_root host vars =
     (path_eq (v_project vars) (v_home vars) \<or> path_parent (v_project vars) = None \<or>
      (case (canon host (v_project vars), canon host (v_home vars)) of
         (Some cp, Some ch) \<Rightarrow> path_eq cp ch \<or> path_parent cp = None
       | _ \<Rightarrow> False))"

definition resolve_entry_with_agent :: "LoaderHost \<Rightarrow> string \<Rightarrow> Vars \<Rightarrow> path option \<Rightarrow> path list" where
  "resolve_entry_with_agent host entry vars agent =
     (let pattern_str = (if has_glob entry \<and> \<not> starts_with entry ''/'' \<and> \<not> starts_with entry ''~'' \<and>
                            \<not> starts_with entry ''$''
                         then ''$PROJECT/'' @ entry else entry);
          substituted = substitute_with_agent pattern_str vars agent
      in if \<not> has_glob substituted then [substituted]
         else if is_home_or_root host vars \<and> (contains_str entry ''**'' \<or> contains_str substituted ''**'')
         then []
         else (case glob_with host substituted of
                 None \<Rightarrow> []
               | Some paths \<Rightarrow> take 50000 paths))"

definition is_secret_shaped :: "path \<Rightarrow> bool" where
  "is_secret_shaped p =
     (case file_name p of
        None \<Rightarrow> False
      | Some name \<Rightarrow>
          (let lower = to_ascii_lowercase name
           in if lower = ''.env'' \<or> starts_with lower ''.env.'' then True
              else if lower = ''config'' \<and>
                      (case Option.bind (path_parent p) file_name of
                         None \<Rightarrow> False
                       | Some n \<Rightarrow> eq_ignore_ascii_case n ''.git'')
              then True
              else ends_with lower ''.pem'' \<or> ends_with lower ''.key'' \<or> ends_with lower ''.p12'' \<or>
                   ends_with lower ''.pfx'' \<or> ends_with lower ''.kdbx''))"

section \<open>Enumeration of a tree\<close>

definition FS_ONLY_ENUMERATION_BUDGET :: nat where
  "FS_ONLY_ENUMERATION_BUDGET = 20000"

datatype Cleanliness = Clean | Dirty

datatype EnumerationError =
    BudgetExceeded
  | EnumIo (enum_operation: string) (enum_path: path) (enum_source: string)

record Enumeration =
  en_out :: "path list"
  en_count :: nat
  en_excluded :: nat

definition is_enumeration_excluded :: "path \<Rightarrow> path list \<Rightarrow> bool" where
  "is_enumeration_excluded p deny_set = (list_ex (path_eq p) deny_set \<or> is_secret_shaped p)"

fun enumerate_tree ::
    "nat \<Rightarrow> LoaderHost \<Rightarrow> path list \<Rightarrow> path \<Rightarrow> Enumeration \<Rightarrow>
     (EnumerationError, Cleanliness \<times> Enumeration) result option" and
  enumerate_entries ::
    "nat \<Rightarrow> LoaderHost \<Rightarrow> path list \<Rightarrow> path \<Rightarrow> (string, path) result list \<Rightarrow> bool \<Rightarrow> Enumeration \<Rightarrow>
     (EnumerationError, bool \<times> Enumeration) result option" where
  "enumerate_tree 0 host deny_set dir st = None"
| "enumerate_tree (Suc n) host deny_set dir st =
     (if en_count st > FS_ONLY_ENUMERATION_BUDGET then Some (Err BudgetExceeded)
      else if is_enumeration_excluded dir deny_set
      then Some (Ok (Dirty, st\<lparr>en_excluded := en_excluded st + 1\<rparr>))
      else (case read_dir host dir of
              Inl e \<Rightarrow> Some (Err (EnumIo ''read_dir'' dir e))
            | Inr entries \<Rightarrow>
                (case enumerate_entries n host deny_set dir entries True st of
                   None \<Rightarrow> None
                 | Some (Inl e) \<Rightarrow> Some (Err e)
                 | Some (Inr (all_clean, st')) \<Rightarrow>
                     if all_clean
                     then Some (Ok (Clean, st'\<lparr>en_out := take (length (en_out st)) (en_out st') @ [dir]\<rparr>))
                     else Some (Ok (Dirty, st')))))"
| "enumerate_entries n host deny_set dir [] all_clean st = Some (Ok (all_clean, st))"
| "enumerate_entries n host deny_set dir (entry # entries) all_clean st =
     (case entry of
        Inl e \<Rightarrow> Some (Err (EnumIo ''directory entry iteration'' dir e))
      | Inr p \<Rightarrow>
          (let st = st\<lparr>en_count := en_count st + 1\<rparr>
           in if en_count st > FS_ONLY_ENUMERATION_BUDGET then Some (Err BudgetExceeded)
              else (case lstat host p of
                      Inl e \<Rightarrow> Some (Err (EnumIo ''symlink_metadata'' p e))
                    | Inr Directory \<Rightarrow>
                        if is_enumeration_excluded p deny_set
                        then enumerate_entries n host deny_set dir entries False
                               (st\<lparr>en_excluded := en_excluded st + 1\<rparr>)
                        else (case enumerate_tree n host deny_set p st of
                                None \<Rightarrow> None
                              | Some (Inl e) \<Rightarrow> Some (Err e)
                              | Some (Inr (Clean, st')) \<Rightarrow>
                                  enumerate_entries n host deny_set dir entries all_clean st'
                              | Some (Inr (Dirty, st')) \<Rightarrow>
                                  enumerate_entries n host deny_set dir entries False st')
                    | Inr Symlink \<Rightarrow> enumerate_entries n host deny_set dir entries False st
                    | Inr _ \<Rightarrow>
                        if is_enumeration_excluded p deny_set
                        then enumerate_entries n host deny_set dir entries False
                               (st\<lparr>en_excluded := en_excluded st + 1\<rparr>)
                        else enumerate_entries n host deny_set dir entries all_clean
                               (st\<lparr>en_out := en_out st @ [p]\<rparr>))))"

declare enumerate_tree.simps [simp del]
declare enumerate_entries.simps(2) [simp del]

text \<open>The call from outside: the budget bounds the depth, the last case never arises.\<close>

definition enumerate_root ::
    "LoaderHost \<Rightarrow> path list \<Rightarrow> path \<Rightarrow> Enumeration \<Rightarrow> (EnumerationError, Enumeration) result" where
  "enumerate_root host deny_set dir st =
     (case enumerate_tree (FS_ONLY_ENUMERATION_BUDGET + 1) host deny_set dir st of
        Some (Inr (_, st')) \<Rightarrow> Ok st'
      | Some (Inl e) \<Rightarrow> Err e
      | None \<Rightarrow> Err BudgetExceeded)"

section \<open>Containment\<close>

definition absolute_for_containment :: "LoaderHost \<Rightarrow> path \<Rightarrow> path \<Rightarrow> path option" where
  "absolute_for_containment host p base =
     (if is_absolute p then Some p
      else if is_absolute base then Some (path_join base p)
      else map_option (\<lambda>cwd. path_join (path_join cwd base) p) (current_dir host))"

definition lexical_for_containment :: "LoaderHost \<Rightarrow> path \<Rightarrow> path \<Rightarrow> path option" where
  "lexical_for_containment host p base = map_option lexical_normalize (absolute_for_containment host p base)"

function containment_walk :: "LoaderHost \<Rightarrow> path \<Rightarrow> string list \<Rightarrow> path option" where
  "containment_walk host cursor unresolved =
     (case canon host cursor of
        Some c \<Rightarrow> Some (lexical_normalize (foldl path_push c (rev unresolved)))
      | None \<Rightarrow>
          (case (file_name cursor, path_parent cursor) of
             (Some name, Some parent) \<Rightarrow>
               if path_eq parent cursor then None
               else containment_walk host parent (unresolved @ [name])
           | _ \<Rightarrow> None))"
  by pat_completeness auto

termination
  by (relation "measure (\<lambda>(host, cursor, unresolved). length (components cursor))")
     (auto simp: path_eq_def file_name_def dest!: path_parent_Some [OF sym] split: if_splits)

declare containment_walk.simps [simp del]

definition normalize_for_containment :: "LoaderHost \<Rightarrow> path \<Rightarrow> path \<Rightarrow> path option" where
  "normalize_for_containment host p base =
     Option.bind (absolute_for_containment host p base)
       (\<lambda>absolute. case canon host absolute of
                     Some c \<Rightarrow> Some c
                   | None \<Rightarrow> containment_walk host absolute [])"

definition paths_overlap :: "path \<Rightarrow> path \<Rightarrow> bool" where
  "paths_overlap left right = (path_starts_with left right \<or> path_starts_with right left)"

section \<open>Masking project reads\<close>

definition is_temp_root :: "path \<Rightarrow> bool" where
  "is_temp_root p = (path_eq p ''/tmp'' \<or> path_eq p ''/var/tmp'' \<or> path_starts_with p ''/dev/'')"

text \<open>\<open>collect::<Option<_>>()\<close>.\<close>

fun all_some :: "'a option list \<Rightarrow> 'a list option" where
  "all_some [] = Some []"
| "all_some (x # xs) = (case x of None \<Rightarrow> None | Some v \<Rightarrow> map_option ((#) v) (all_some xs))"

definition normalized_root :: "LoaderHost \<Rightarrow> path \<Rightarrow> path \<Rightarrow> (path \<times> path) option" where
  "normalized_root host project rt =
     (case (lexical_for_containment host rt project, normalize_for_containment host rt project) of
        (Some l, Some c) \<Rightarrow> Some (l, c)
      | _ \<Rightarrow> None)"

definition read_kept :: "LoaderHost \<Rightarrow> path \<Rightarrow> (path \<times> path) list \<Rightarrow> path \<Rightarrow> bool" where
  "read_kept host project roots p =
     (case (lexical_for_containment host p project, normalize_for_containment host p project) of
        (Some lexical, Some normalized) \<Rightarrow>
          \<not> list_ex (\<lambda>(root_lexical, root_canonical).
               paths_overlap lexical root_lexical \<or> paths_overlap normalized root_canonical) roots
      | _ \<Rightarrow> False)"

fun enumeration_message :: "EnumerationError \<Rightarrow> string" where
  "enumeration_message BudgetExceeded =
     ''fs-only tier: project tree exceeds the '' @ show_nat FS_ONLY_ENUMERATION_BUDGET @
     ''-entry enumeration budget; refusing to run rather than fall back to whole-tree read access''"
| "enumeration_message (EnumIo operation p e) =
     ''fs-only tier: '' @ operation @ '' failed for '' @ quoted p @ '': '' @ e @ ''; refusing to run''"

definition enumerate_step ::
    "LoaderHost \<Rightarrow> path list \<Rightarrow> path \<Rightarrow> Enumeration \<Rightarrow> (LoadError, Enumeration) result" where
  "enumerate_step host deny_set rt st =
     (case enumerate_root host deny_set rt st of
        Inl e \<Rightarrow> Err (Bail (enumeration_message e))
      | Inr st' \<Rightarrow> Ok st')"

definition drop_excluded_root :: "path list \<Rightarrow> path \<Rightarrow> Enumeration \<Rightarrow> Enumeration" where
  "drop_excluded_root deny_set rt st =
     (if is_enumeration_excluded rt deny_set \<and> list_ex (\<lambda>p. path_eq p rt) (en_out st)
      then st\<lparr>en_out := takeWhile (\<lambda>p. \<not> path_eq p rt) (en_out st) @
                        tl (dropWhile (\<lambda>p. \<not> path_eq p rt) (en_out st)),
              en_excluded := en_excluded st + 1\<rparr>
      else st)"

definition mask_project_reads_for_fs_only ::
    "LoaderHost \<Rightarrow> path list \<Rightarrow> path list \<Rightarrow> path list \<Rightarrow> string list \<Rightarrow> path \<Rightarrow>
     (LoadError, path list \<times> string list) result" where
  "mask_project_reads_for_fs_only host reads writes deny_set warns project =
     (let project_roots = filter (\<lambda>p. \<not> is_temp_root p) writes
      in if project_roots = [] then Ok (reads, warns)
         else (let dir_roots = filter (\<lambda>rt. lstat host rt = Ok Directory) project_roots
               in case all_some (map (normalized_root host project) dir_roots) of
                    None \<Rightarrow> Err (Bail ''fs-only tier: could not normalize a project root safely'')
                  | Some roots \<Rightarrow>
                      (let kept = filter (read_kept host project roots) reads;
                           warns = (if length kept \<noteq> length reads
                             then warns @ [''fs-only tier: removed a read rule that covered a write root wholesale (would have defeated secret masking)'']
                             else warns)
                       in case fold_result (enumerate_step host deny_set) dir_roots
                                 \<lparr>en_out = kept, en_count = 0, en_excluded = 0\<rparr> of
                            Inl e \<Rightarrow> Err e
                          | Inr st \<Rightarrow>
                              (let st = fold (drop_excluded_root deny_set) project_roots st
                               in Ok (en_out st,
                                      if en_excluded st > 0
                                      then warns @ [''fs-only tier: '' @ show_nat (en_excluded st) @
                                        '' secret-shaped or denied project entry(s) excluded from read access by tree enumeration'']
                                      else warns)))))"

section \<open>What is below a directory\<close>

definition child :: "LoaderHost \<Rightarrow> path \<Rightarrow> path \<Rightarrow> bool" where
  "child host d p \<longleftrightarrow> (\<exists>es. read_dir host d = Ok es \<and> Ok p \<in> set es)"

text \<open>Everything the walk could reach below \<open>d\<close>, and what it reaches without entering an excluded
  directory.\<close>

inductive below :: "LoaderHost \<Rightarrow> path \<Rightarrow> path \<Rightarrow> bool" for host where
  below_child: "child host d p \<Longrightarrow> below host d p"
| below_step: "child host d q \<Longrightarrow> lstat host q = Ok Directory \<Longrightarrow> below host q p \<Longrightarrow> below host d p"

inductive visible :: "LoaderHost \<Rightarrow> path list \<Rightarrow> path \<Rightarrow> path \<Rightarrow> bool" for host deny_set where
  visible_child: "child host d p \<Longrightarrow> visible host deny_set d p"
| visible_step: "child host d q \<Longrightarrow> lstat host q = Ok Directory \<Longrightarrow> \<not> is_enumeration_excluded q deny_set \<Longrightarrow>
    visible host deny_set q p \<Longrightarrow> visible host deny_set d p"

lemma visible_below: "visible host deny_set d p \<Longrightarrow> below host d p"
  by (induction rule: visible.induct) (auto intro: below.intros)

definition plain_file :: "LoaderHost \<Rightarrow> path \<Rightarrow> bool" where
  "plain_file host p \<longleftrightarrow> lstat host p = Ok RegularFile \<or> lstat host p = Ok OtherFile"

text \<open>Nothing below is excluded or a link.\<close>

definition clean_tree :: "LoaderHost \<Rightarrow> path list \<Rightarrow> path \<Rightarrow> bool" where
  "clean_tree host deny_set d \<longleftrightarrow>
     (\<forall>p. below host d p \<longrightarrow> \<not> is_enumeration_excluded p deny_set \<and> lstat host p \<noteq> Ok Symlink)"

definition tidy :: "LoaderHost \<Rightarrow> path list \<Rightarrow> path \<Rightarrow> bool" where
  "tidy host deny_set p \<longleftrightarrow> \<not> is_enumeration_excluded p deny_set \<and> lstat host p \<noteq> Ok Symlink \<and>
     (lstat host p = Ok Directory \<longrightarrow> clean_tree host deny_set p)"

definition covered :: "LoaderHost \<Rightarrow> path list \<Rightarrow> path \<Rightarrow> bool" where
  "covered host gs f \<longleftrightarrow> (\<exists>g \<in> set gs. g = f \<or> lstat host g = Ok Directory \<and> below host g f)"

lemma clean_tree_children:
  "clean_tree host deny_set d \<longleftrightarrow> (\<forall>p. child host d p \<longrightarrow> tidy host deny_set p)"
proof
  assume "clean_tree host deny_set d"
  then show "\<forall>p. child host d p \<longrightarrow> tidy host deny_set p"
    unfolding clean_tree_def tidy_def by (blast intro: below.intros)
next
  assume t: "\<forall>p. child host d p \<longrightarrow> tidy host deny_set p"
  have "\<not> is_enumeration_excluded p deny_set \<and> lstat host p \<noteq> Ok Symlink" if "below host d p" for p
    using that t unfolding tidy_def clean_tree_def by (cases rule: below.cases) blast+
  then show "clean_tree host deny_set d" by (simp add: clean_tree_def)
qed

lemma covered_mono: "covered host gs f \<Longrightarrow> set gs \<subseteq> set hs \<Longrightarrow> covered host hs f"
  by (auto simp: covered_def)

section \<open>The enumeration\<close>

text \<open>What a successful enumeration of a directory has done: \<open>gs\<close> is what it granted.\<close>

definition tree_done ::
    "LoaderHost \<Rightarrow> path list \<Rightarrow> path \<Rightarrow> Cleanliness \<Rightarrow> path list \<Rightarrow> bool" where
  "tree_done host deny_set dir c gs \<longleftrightarrow>
     (c = Clean \<longleftrightarrow> \<not> is_enumeration_excluded dir deny_set \<and> clean_tree host deny_set dir) \<and>
     (c = Clean \<longrightarrow> gs = [dir]) \<and>
     (\<forall>g \<in> set gs. (g = dir \<or> below host dir g) \<and> tidy host deny_set g) \<and>
     (\<not> is_enumeration_excluded dir deny_set \<longrightarrow>
        (\<forall>f. visible host deny_set dir f \<and> plain_file host f \<and> \<not> is_enumeration_excluded f deny_set \<longrightarrow>
           covered host gs f))"

text \<open>The same for the loop over some entries of a directory.\<close>

definition entries_done ::
    "LoaderHost \<Rightarrow> path list \<Rightarrow> (string, path) result list \<Rightarrow> bool \<Rightarrow> bool \<Rightarrow> path list \<Rightarrow> bool" where
  "entries_done host deny_set es clean0 clean1 gs \<longleftrightarrow>
     (clean1 \<longleftrightarrow> clean0 \<and> (\<forall>p. Ok p \<in> set es \<longrightarrow> tidy host deny_set p)) \<and>
     (\<forall>g \<in> set gs. tidy host deny_set g \<and>
        (\<exists>p. Ok p \<in> set es \<and> (g = p \<or> lstat host p = Ok Directory \<and> below host p g))) \<and>
     (\<forall>p. Ok p \<in> set es \<and> \<not> is_enumeration_excluded p deny_set \<longrightarrow>
        (plain_file host p \<longrightarrow> covered host gs p) \<and>
        (lstat host p = Ok Directory \<longrightarrow>
           (\<forall>f. visible host deny_set p f \<and> plain_file host f \<and> \<not> is_enumeration_excluded f deny_set \<longrightarrow>
              covered host gs f)))"

lemma entries_done_Nil: "entries_done host deny_set [] c c []"
  by (simp add: entries_done_def)

text \<open>One entry: the flag after it, and what it adds.\<close>

definition entry_done :: "LoaderHost \<Rightarrow> path list \<Rightarrow> path \<Rightarrow> bool \<Rightarrow> bool \<Rightarrow> path list \<Rightarrow> bool" where
  "entry_done host deny_set p clean0 clean1 gs \<longleftrightarrow>
     (clean1 \<longleftrightarrow> clean0 \<and> tidy host deny_set p) \<and>
     (\<forall>g \<in> set gs. tidy host deny_set g \<and> (g = p \<or> lstat host p = Ok Directory \<and> below host p g)) \<and>
     (\<not> is_enumeration_excluded p deny_set \<longrightarrow>
        (plain_file host p \<longrightarrow> covered host gs p) \<and>
        (lstat host p = Ok Directory \<longrightarrow>
           (\<forall>f. visible host deny_set p f \<and> plain_file host f \<and> \<not> is_enumeration_excluded f deny_set \<longrightarrow>
              covered host gs f)))"

lemma entries_done_Cons:
  assumes "entry_done host deny_set p c0 c gs" and "entries_done host deny_set es c c1 gs'"
  shows "entries_done host deny_set (Ok p # es) c0 c1 (gs @ gs')"
proof -
  have m: "covered host (gs @ gs') f" if "covered host gs f \<or> covered host gs' f" for f
    using that by (auto intro: covered_mono)
  show ?thesis
    unfolding entries_done_def
  proof (intro conjI allI impI ballI)
    show "c1 \<longleftrightarrow> c0 \<and> (\<forall>q. Ok q \<in> set (Ok p # es) \<longrightarrow> tidy host deny_set q)"
      using assms by (auto simp: entries_done_def entry_done_def)
  next
    fix g assume "g \<in> set (gs @ gs')"
    then show "tidy host deny_set g"
      "\<exists>q. Ok q \<in> set (Ok p # es) \<and> (g = q \<or> lstat host q = Ok Directory \<and> below host q g)"
      using assms by (auto simp: entries_done_def entry_done_def)
  next
    fix q assume "Ok q \<in> set (Ok p # es) \<and> \<not> is_enumeration_excluded q deny_set" "plain_file host q"
    then show "covered host (gs @ gs') q" using assms m by (auto simp: entries_done_def entry_done_def)
  next
    fix q f assume "Ok q \<in> set (Ok p # es) \<and> \<not> is_enumeration_excluded q deny_set" "lstat host q = Ok Directory"
      "visible host deny_set q f \<and> plain_file host f \<and> \<not> is_enumeration_excluded f deny_set"
    then show "covered host (gs @ gs') f" using assms m by (auto simp: entries_done_def entry_done_def)
  qed
qed

lemma tree_done_dir:
  assumes "entries_done host deny_set es True c gs" and "read_dir host dir = Ok es"
    and "\<not> is_enumeration_excluded dir deny_set" and "lstat host dir = Ok Directory"
  shows "tree_done host deny_set dir (if c then Clean else Dirty) (if c then [dir] else gs)"
proof -
  have ch: "child host dir p \<longleftrightarrow> Ok p \<in> set es" for p using assms(2) by (auto simp: child_def)
  have c: "c \<longleftrightarrow> clean_tree host deny_set dir"
    using assms(1) by (auto simp: entries_done_def clean_tree_children ch)
  have g: "(g = dir \<or> below host dir g) \<and> tidy host deny_set g" if gin: "g \<in> set (if c then [dir] else gs)" for g
  proof (cases c)
    case True
    then show ?thesis using gin c assms(3,4) by (auto simp: tidy_def)
  next
    case False
    then have "g \<in> set gs" using gin by simp
    then obtain p where "Ok p \<in> set es" "g = p \<or> lstat host p = Ok Directory \<and> below host p g"
      "tidy host deny_set g"
      using assms(1) unfolding entries_done_def by blast
    then show ?thesis using ch by (auto intro: below.intros)
  qed
  have f: "covered host (if c then [dir] else gs) f"
    if "visible host deny_set dir f" "plain_file host f" "\<not> is_enumeration_excluded f deny_set" for f
  proof (cases c)
    case True
    then show ?thesis using visible_below [OF that(1)] assms(4) by (auto simp: covered_def)
  next
    case False
    from that(1) show ?thesis
    proof (cases rule: visible.cases)
      case visible_child
      then show ?thesis using that assms(1) False ch by (auto simp: entries_done_def)
    next
      case (visible_step q)
      then show ?thesis using that assms(1) False ch by (auto simp: entries_done_def)
    qed
  qed
  show ?thesis unfolding tree_done_def using c g f assms(3) by auto
qed

text \<open>The outcome of a call: counters move forward and stay in the budget, what was granted before
  stays, and what is added is as described.\<close>

definition counts :: "Enumeration \<Rightarrow> Enumeration \<Rightarrow> bool" where
  "counts st st' \<longleftrightarrow> en_count st \<le> en_count st' \<and>
     (en_count st \<le> FS_ONLY_ENUMERATION_BUDGET \<longrightarrow> en_count st' \<le> FS_ONLY_ENUMERATION_BUDGET)"

lemma counts_trans: "counts a b \<Longrightarrow> counts b c \<Longrightarrow> counts a c"
  by (auto simp: counts_def)

definition call_done where
  "call_done st st' P \<longleftrightarrow> counts st st' \<and> (\<exists>gs. en_out st' = en_out st @ gs \<and> P gs)"

text \<open>One entry of the loop, and how the loop goes on.\<close>

lemma enumerate_entry:
  assumes tree: "\<And>p st c st'. enumerate_tree n host deny_set p st = Some (Ok (c, st')) \<Longrightarrow>
      lstat host p = Ok Directory \<Longrightarrow> call_done st st' (tree_done host deny_set p c)"
    and "enumerate_entries n host deny_set dir (entry # es) c0 st = Some (Ok (c1, st'))"
  shows "\<exists>p c st2. entry = Ok p \<and> enumerate_entries n host deny_set dir es c st2 = Some (Ok (c1, st')) \<and>
    call_done st st2 (entry_done host deny_set p c0 c)"
proof -
  note e = assms(2) [unfolded enumerate_entries.simps(2)]
  obtain p where p: "entry = Ok p" using e by (cases entry) auto
  define st1 where "st1 = st\<lparr>en_count := en_count st + 1\<rparr>"
  have b: "\<not> en_count st1 > FS_ONLY_ENUMERATION_BUDGET" using e by (auto simp: p st1_def Let_def)
  obtain k where k: "lstat host p = Ok k" using e b by (cases "lstat host p") (auto simp: p st1_def Let_def)
  note e = e [unfolded p Let_def sum.case, folded st1_def, unfolded k sum.case if_not_P [OF b]]
  have step: ?thesis if "enumerate_entries n host deny_set dir es c st2 = Some (Ok (c1, st'))"
      "en_count st1 \<le> en_count st2" "en_count st2 \<le> FS_ONLY_ENUMERATION_BUDGET" "en_out st2 = en_out st1 @ gs"
      "entry_done host deny_set p c0 c gs" for c st2 gs
  proof -
    have "call_done st st2 (entry_done host deny_set p c0 c)"
      using that by (auto simp: call_done_def counts_def st1_def)
    then show ?thesis using p that(1) by blast
  qed
  consider (sec) "is_enumeration_excluded p deny_set" "k \<noteq> Symlink" | (lnk) "k = Symlink"
    | (reg) "\<not> is_enumeration_excluded p deny_set" "plain_file host p" "k \<noteq> Directory" "k \<noteq> Symlink"
    | (sub) "\<not> is_enumeration_excluded p deny_set" "k = Directory"
    using k by (cases k) (auto simp: plain_file_def)
  then show ?thesis
  proof cases
    case sec
    then have "enumerate_entries n host deny_set dir es False (st1\<lparr>en_excluded := en_excluded st1 + 1\<rparr>) = Some (Ok (c1, st'))"
      using e by (cases k) auto
    then show ?thesis using sec b by (elim step [where gs = "[]"]) (auto simp: entry_done_def tidy_def)
  next
    case lnk
    then have "enumerate_entries n host deny_set dir es False st1 = Some (Ok (c1, st'))" using e by simp
    then show ?thesis using lnk k b by (elim step [where gs = "[]"]) (auto simp: entry_done_def tidy_def plain_file_def)
  next
    case reg
    then have "enumerate_entries n host deny_set dir es c0 (st1\<lparr>en_out := en_out st1 @ [p]\<rparr>) = Some (Ok (c1, st'))"
      using e by (cases k) auto
    then show ?thesis using reg k b by (elim step [where gs = "[p]"]) (auto simp: entry_done_def tidy_def covered_def)
  next
    case sub
    then obtain c st2 where t: "enumerate_tree n host deny_set p st1 = Some (Ok (c, st2))"
      "enumerate_entries n host deny_set dir es (c0 \<and> c = Clean) st2 = Some (Ok (c1, st'))"
      using e by (auto split: option.splits sum.splits Cleanliness.splits)
    obtain gs where g: "counts st1 st2" "en_out st2 = en_out st1 @ gs" "tree_done host deny_set p c gs"
      using tree [OF t(1)] k sub by (auto simp: call_done_def)
    have "entry_done host deny_set p c0 (c0 \<and> c = Clean) gs"
      using g(3) sub k by (auto simp: entry_done_def tree_done_def tidy_def plain_file_def)
    then show ?thesis using g(1,2) b by (intro step [OF t(2)]) (auto simp: counts_def)
  qed
qed

lemma enumerate_entries_done:
  assumes tree: "\<And>p st c st'. enumerate_tree n host deny_set p st = Some (Ok (c, st')) \<Longrightarrow>
      lstat host p = Ok Directory \<Longrightarrow> call_done st st' (tree_done host deny_set p c)"
    and "enumerate_entries n host deny_set dir es c0 st = Some (Ok (c1, st'))"
  shows "call_done st st' (entries_done host deny_set es c0 c1)"
  using assms(2)
proof (induction es arbitrary: c0 st)
  case Nil
  then show ?case by (auto simp: call_done_def counts_def entries_done_Nil)
next
  case (Cons entry es)
  from enumerate_entry [OF tree Cons.prems] obtain p c st2 gs where s: "entry = Ok p"
    "enumerate_entries n host deny_set dir es c st2 = Some (Ok (c1, st'))" "counts st st2"
    "en_out st2 = en_out st @ gs" "entry_done host deny_set p c0 c gs"
    unfolding call_done_def by metis
  obtain gs' where r: "counts st2 st'" "en_out st' = en_out st2 @ gs'" "entries_done host deny_set es c c1 gs'"
    using Cons.IH [OF s(2)] by (auto simp: call_done_def)
  show ?case
    using entries_done_Cons [OF s(5) r(3)] counts_trans [OF s(3) r(1)] s(1,4) r(2) by (auto simp: call_done_def)
qed

lemma enumerate_tree_done:
  "enumerate_tree n host deny_set dir st = Some (Ok (c, st')) \<Longrightarrow> lstat host dir = Ok Directory \<Longrightarrow>
     call_done st st' (tree_done host deny_set dir c)"
proof (induction n arbitrary: dir st c st')
  case 0
  then show ?case by (simp add: enumerate_tree.simps)
next
  case (Suc n)
  show ?case
  proof (cases "is_enumeration_excluded dir deny_set")
    case True
    with Suc.prems have "c = Dirty" "st' = st\<lparr>en_excluded := en_excluded st + 1\<rparr>"
      by (auto simp: enumerate_tree.simps split: if_splits)
    then show ?thesis using True by (auto simp: call_done_def counts_def tree_done_def)
  next
    case False
    with Suc.prems(1) obtain es all_clean st1 where s: "read_dir host dir = Ok es"
      "enumerate_entries n host deny_set dir es True st = Some (Ok (all_clean, st1))"
      and r: "c = (if all_clean then Clean else Dirty)"
        "st' = (if all_clean then st1\<lparr>en_out := take (length (en_out st)) (en_out st1) @ [dir]\<rparr> else st1)"
      by (auto simp: enumerate_tree.simps split: if_splits sum.splits option.splits)
    obtain gs where g: "counts st st1" "en_out st1 = en_out st @ gs" "entries_done host deny_set es True all_clean gs"
      using enumerate_entries_done [OF Suc.IH s(2)] by (auto simp: call_done_def)
    show ?thesis
      using tree_done_dir [OF g(3) s(1) False Suc.prems(2)] g r by (auto simp: call_done_def counts_def)
  qed
qed

text \<open>Fuel: the budget bounds the depth.\<close>

lemma enumerate_entries_total:
  assumes tree: "\<And>p st. n \<ge> 1 \<Longrightarrow> n + en_count st > FS_ONLY_ENUMERATION_BUDGET \<Longrightarrow>
      \<exists>r. enumerate_tree n host deny_set p st = Some r"
    and "n + en_count st \<ge> FS_ONLY_ENUMERATION_BUDGET"
  shows "\<exists>r. enumerate_entries n host deny_set dir es c0 st = Some r"
  using assms(2)
proof (induction es arbitrary: c0 st)
  case (Cons entry es)
  show ?case
  proof (cases "\<exists>p. entry = Ok p \<and> en_count st + 1 \<le> FS_ONLY_ENUMERATION_BUDGET \<and> lstat host p = Ok Directory")
    case True
    then obtain p where p: "entry = Ok p" "en_count st + 1 \<le> FS_ONLY_ENUMERATION_BUDGET" "lstat host p = Ok Directory"
      by blast
    let ?st = "st\<lparr>en_count := en_count st + 1\<rparr>"
    obtain r where r: "enumerate_tree n host deny_set p ?st = Some r"
      using tree [of ?st p] p(2) Cons.prems by fastforce
    have "\<exists>r'. enumerate_entries n host deny_set dir es c1 st' = Some r'" if "r = Ok (c, st')" for c st' c1
    proof -
      have "call_done ?st st' (tree_done host deny_set p c)"
        using enumerate_tree_done [of n host deny_set p ?st c st'] r that p(3) by simp
      then have "en_count ?st \<le> en_count st'" by (simp add: call_done_def counts_def)
      then show ?thesis using Cons.IH [of st'] Cons.prems by simp
    qed
    moreover have "\<exists>r'. enumerate_entries n host deny_set dir es False (?st\<lparr>en_excluded := en_excluded ?st + 1\<rparr>) = Some r'"
      using Cons.IH [of "?st\<lparr>en_excluded := en_excluded ?st + 1\<rparr>"] Cons.prems by simp
    ultimately show ?thesis
      using p r by (cases r) (auto simp: enumerate_entries.simps(2) Let_def split: Cleanliness.split)
  next
    case False
    have "\<exists>r'. enumerate_entries n host deny_set dir es c1 (st\<lparr>en_count := Suc (en_count st), en_out := o1\<rparr>) = Some r'"
      "\<exists>r'. enumerate_entries n host deny_set dir es c1 (st\<lparr>en_count := Suc (en_count st), en_excluded := x1\<rparr>) = Some r'"
      "\<exists>r'. enumerate_entries n host deny_set dir es c1 (st\<lparr>en_count := Suc (en_count st)\<rparr>) = Some r'"
      for c1 o1 x1
      using Cons.IH [of "st\<lparr>en_count := Suc (en_count st), en_out := o1\<rparr>"]
        Cons.IH [of "st\<lparr>en_count := Suc (en_count st), en_excluded := x1\<rparr>"]
        Cons.IH [of "st\<lparr>en_count := Suc (en_count st)\<rparr>"] Cons.prems by simp_all
    then show ?thesis
      using False by (auto simp: enumerate_entries.simps(2) Let_def split: sum.split FileKind.split)
  qed
qed simp

lemma enumerate_tree_total:
  "n \<ge> 1 \<Longrightarrow> n + en_count st > FS_ONLY_ENUMERATION_BUDGET \<Longrightarrow>
     \<exists>r. enumerate_tree n host deny_set dir st = Some r"
proof (induction n arbitrary: dir st)
  case (Suc n)
  have t: "\<exists>r. enumerate_entries n host deny_set dir es True st = Some r" for es
    using Suc.prems by (intro enumerate_entries_total Suc.IH) auto
  show ?case
  proof (cases "read_dir host dir")
    case (Inr es)
    with t [of es] show ?thesis by (auto simp: enumerate_tree.simps split: sum.split)
  qed (simp add: enumerate_tree.simps)
qed simp

text \<open>More fuel changes nothing.\<close>

lemma enumerate_mono:
  "enumerate_tree n host deny_set dir st = Some r \<Longrightarrow> enumerate_tree (Suc n) host deny_set dir st = Some r"
proof (induction n arbitrary: dir st r)
  case 0
  then show ?case by (simp add: enumerate_tree.simps)
next
  case (Suc n)
  have e: "enumerate_entries (Suc n) host deny_set d es c0 s = Some q"
    if "enumerate_entries n host deny_set d es c0 s = Some q" for d es c0 s q
    using that
  proof (induction es arbitrary: c0 s)
    case (Cons entry es)
    show ?case
    proof (cases entry)
      case (Inr p)
      let ?s = "s\<lparr>en_count := en_count s + 1\<rparr>"
      show ?thesis
        using Cons.prems Cons.IH Suc.IH [of p ?s]
        by (cases "enumerate_tree n host deny_set p ?s")
           (auto simp: enumerate_entries.simps(2) Inr Let_def split: if_splits sum.splits FileKind.splits Cleanliness.splits)
    qed (use Cons.prems in \<open>simp add: enumerate_entries.simps(2)\<close>)
  qed simp
  show ?case
    using Suc.prems by (subst enumerate_tree.simps(2), subst (asm) enumerate_tree.simps(2))
      (auto dest: e split: if_splits sum.splits option.splits)
qed

lemma enumerate_fuel:
  "n \<ge> FS_ONLY_ENUMERATION_BUDGET + 1 \<Longrightarrow>
     enumerate_tree n host deny_set dir st = enumerate_tree (FS_ONLY_ENUMERATION_BUDGET + 1) host deny_set dir st"
proof (induction n rule: dec_induct)
  case (step n)
  obtain r where "enumerate_tree (FS_ONLY_ENUMERATION_BUDGET + 1) host deny_set dir st = Some r"
    using enumerate_tree_total [of "FS_ONLY_ENUMERATION_BUDGET + 1" st] by force
  then show ?case using step(3) enumerate_mono by metis
qed simp

section \<open>Paths of the tree\<close>

text \<open>A directory listing names the entries of the directory: the path of an entry is the path
  of the directory joined with a file name.\<close>

definition lists_children :: "LoaderHost \<Rightarrow> bool" where
  "lists_children host \<longleftrightarrow> (\<forall>d p. child host d p \<longrightarrow> (\<exists>name. valid_name name \<and> p = path_join d name))"

lemma foldl_join_comps:
  "\<forall>n \<in> set names. valid_name n \<Longrightarrow> components (foldl path_join d names) = components d @ map Normal names"
  by (induction names rule: rev_induct) (simp_all add: components_push_name)

text \<open>The way down to a path, by names; every directory on it has the path below it.\<close>

lemma below_names:
  assumes "lists_children host" and "below host d p"
  shows "\<exists>names. names \<noteq> [] \<and> (\<forall>n \<in> set names. valid_name n) \<and> p = foldl path_join d names \<and>
    (\<forall>k. 0 < k \<longrightarrow> k < length names \<longrightarrow> lstat host (foldl path_join d (take k names)) = Ok Directory \<and>
       below host (foldl path_join d (take k names)) p)"
  using assms(2)
proof (induction rule: below.induct)
  case (below_child d p)
  then obtain name where "valid_name name" "p = path_join d name" using assms(1) by (auto simp: lists_children_def)
  then show ?case by (intro exI [of _ "[name]"]) auto
next
  case (below_step d q p)
  obtain name where n: "valid_name name" "q = path_join d name"
    using below_step(1) assms(1) by (auto simp: lists_children_def)
  obtain names where ns: "names \<noteq> []" "\<forall>n \<in> set names. valid_name n" "p = foldl path_join q names"
    "\<forall>k. 0 < k \<longrightarrow> k < length names \<longrightarrow> lstat host (foldl path_join q (take k names)) = Ok Directory \<and>
       below host (foldl path_join q (take k names)) p"
    using below_step(4) by blast
  have "lstat host (foldl path_join d (take k (name # names))) = Ok Directory \<and>
      below host (foldl path_join d (take k (name # names))) p" if "0 < k" "k < length (name # names)" for k
    using that n(2) ns(4) below_step(2,3) by (cases k; cases "k = 1") (auto simp: gr0_conv_Suc)
  then show ?case using n ns by (intro exI [of _ "name # names"]) auto
qed

lemma below_starts_with:
  assumes "lists_children host" and "below host d p"
  shows "path_starts_with p d"
  using below_names [OF assms] by (auto simp: path_starts_with_def foldl_join_comps)

text \<open>Containment of paths is reachability in the walk.\<close>

lemma below_between:
  assumes "lists_children host" and "below host d p" and "g = d \<or> below host d g" and "path_starts_with p g"
  shows "p = g \<or> below host g p"
proof (cases "g = d")
  case False
  then have "below host d g" using assms(3) by simp
  from below_names [OF assms(1) this] obtain gs where g: "gs \<noteq> []" "\<forall>n \<in> set gs. valid_name n" "g = foldl path_join d gs"
    by blast
  from below_names [OF assms(1,2)] obtain ns where p: "\<forall>n \<in> set ns. valid_name n" "p = foldl path_join d ns"
    "\<forall>k. 0 < k \<longrightarrow> k < length ns \<longrightarrow> below host (foldl path_join d (take k ns)) p"
    by blast
  have "prefix (map Normal gs) (map Normal ns)"
    using assms(4) g p by (simp add: path_starts_with_def foldl_join_comps)
  then have "prefix gs ns" by (metis component.inject inj_on_def map_mono_prefix prefix_map_rightE injI inj_map_eq_map)
  then obtain rs where rs: "ns = gs @ rs" by (auto simp: prefix_def)
  then show ?thesis using g p by (cases "rs = []") auto
qed (use assms(2) in simp)

lemma enumerate_root_done:
  assumes "lstat host dir = Ok Directory" and "enumerate_root host deny_set dir st = Ok st'"
  obtains c gs where "counts st st'" "en_out st' = en_out st @ gs" "tree_done host deny_set dir c gs"
proof -
  obtain c where "enumerate_tree (FS_ONLY_ENUMERATION_BUDGET + 1) host deny_set dir st = Some (Ok (c, st'))"
    using assms(2) by (auto simp: enumerate_root_def split: option.splits sum.splits)
  from enumerate_tree_done [OF this assms(1)] that show ?thesis by (auto simp: call_done_def)
qed

definition masked :: "LoaderHost \<Rightarrow> path list \<Rightarrow> path \<Rightarrow> bool" where
  "masked host deny_set s \<longleftrightarrow> is_enumeration_excluded s deny_set \<or> lstat host s = Ok Symlink"

lemma granted_not_above:
  assumes "lists_children host" and "tree_done host deny_set dir c gs" and "g \<in> set gs"
    and "below host dir s" and "masked host deny_set s"
    and "lstat host dir = Ok Directory"
  shows "\<not> path_starts_with s g"
proof
  assume "path_starts_with s g"
  moreover have g: "g = dir \<or> below host dir g" "tidy host deny_set g" using assms(2,3) by (auto simp: tree_done_def)
  ultimately have b: "s = g \<or> below host g s" using below_between [OF assms(1,4)] by blast
  have d: "lstat host g = Ok Directory" if bs: "below host g s" "s \<noteq> g"
  proof (cases "g = dir")
    case False
    then have gb: "below host dir g" using g by simp
    obtain ns where ns: "\<forall>n \<in> set ns. valid_name n" "s = foldl path_join dir ns"
      "\<forall>k. 0 < k \<longrightarrow> k < length ns \<longrightarrow> lstat host (foldl path_join dir (take k ns)) = Ok Directory"
      using below_names [OF assms(1,4)] by blast
    obtain gs' where gs': "gs' \<noteq> []" "\<forall>n \<in> set gs'. valid_name n" "g = foldl path_join dir gs'"
      using below_names [OF assms(1) gb] by blast
    obtain rs where rs: "rs \<noteq> []" "\<forall>n \<in> set rs. valid_name n" "s = foldl path_join g rs"
      using below_names [OF assms(1) bs(1)] by blast
    have "map Normal ns = map Normal (gs' @ rs)"
      using ns(1,2) gs' rs foldl_join_comps [of "gs' @ rs" dir] foldl_join_comps [of ns dir] by auto
    then have "ns = gs' @ rs" by (metis component.inject injI inj_map_eq_map)
    then show ?thesis using ns(3) gs' rs by (auto dest: spec [of _ "length gs'"])
  qed (use assms(6) in simp)
  show False
    using b g(2) d assms(5) by (auto simp: tidy_def masked_def clean_tree_def)
qed

section \<open>Masking\<close>

text \<open>What a run over several roots grants is what it grants for each.\<close>

lemma enumerate_steps_done:
  "fold_result (enumerate_step host deny_set) roots st = Ok st' \<Longrightarrow>
   \<forall>rt \<in> set roots. lstat host rt = Ok Directory \<Longrightarrow>
   \<exists>gs. en_out st' = en_out st @ gs \<and>
     (\<forall>g \<in> set gs. \<exists>rt \<in> set roots. \<exists>c hs. tree_done host deny_set rt c hs \<and> g \<in> set hs)"
proof (induction roots arbitrary: st)
  case (Cons rt roots)
  obtain st1 where s: "enumerate_root host deny_set rt st = Ok st1"
    "fold_result (enumerate_step host deny_set) roots st1 = Ok st'"
    using Cons.prems(1) enumerate_step_def [of host deny_set rt st] by (auto simp: and_then_def split: sum.splits)
  obtain c hs where h: "en_out st1 = en_out st @ hs" "tree_done host deny_set rt c hs"
    using enumerate_root_done [OF _ s(1)] Cons.prems(2) by (metis list.set_intros(1))
  obtain gs where g: "en_out st' = en_out st1 @ gs"
    "\<forall>g \<in> set gs. \<exists>rt \<in> set roots. \<exists>c hs. tree_done host deny_set rt c hs \<and> g \<in> set hs"
    using Cons.IH [OF s(2)] Cons.prems(2) by auto
  have "\<exists>rt' \<in> set (rt # roots). \<exists>c hs. tree_done host deny_set rt' c hs \<and> g \<in> set hs" if "g \<in> set (hs @ gs)" for g
  proof (cases "g \<in> set hs")
    case True
    then show ?thesis using h(2) by auto
  next
    case False
    then show ?thesis using that g(2) by auto
  qed
  then show ?case using h(1) g(1) by (intro exI [of _ "hs @ gs"]) auto
qed simp

lemma in_set_tl: "x \<in> set (tl xs) \<Longrightarrow> x \<in> set xs"
  by (cases xs) auto

lemma drop_excluded_subset: "set (en_out (fold (drop_excluded_root deny_set) roots st)) \<subseteq> set (en_out st)"
proof (induction roots arbitrary: st)
  case (Cons rt roots)
  have "set (en_out (drop_excluded_root deny_set rt st)) \<subseteq> set (en_out st)"
    by (auto simp: drop_excluded_root_def dest: set_takeWhileD set_dropWhileD in_set_tl)
  then show ?case using Cons.IH [of "drop_excluded_root deny_set rt st"] by auto
qed simp

lemma all_some_member: "all_some xs = Some ys \<Longrightarrow> Some y \<in> set xs \<Longrightarrow> y \<in> set ys"
  by (induction xs arbitrary: ys) (auto split: option.splits)

lemma all_some_map: "all_some (map f xs) = Some ys \<Longrightarrow> x \<in> set xs \<Longrightarrow> \<exists>y. f x = Some y \<and> y \<in> set ys"
  by (induction xs arbitrary: ys) (auto split: option.splits)

lemma lexical_prefix:
  assumes "has_root p" and "has_root q" and "ParentDir \<notin> set (components q)" and "path_starts_with q p"
  shows "path_starts_with (lexical_normalize q) (lexical_normalize p)"
  using assms
  by (auto simp: path_starts_with_def lexical_normalize_rooted_comps prefix_def resolve_stack_append resolve_stack_no_parent)

text \<open>A read rule that is kept covers nothing below a root.\<close>

lemma kept_not_above:
  assumes "read_kept host project roots g" and "(lexical_normalize d, c) \<in> set roots"
    and "has_root g" and "has_root d" and "ParentDir \<notin> set (components s)"
    and "path_starts_with s d"
  shows "\<not> path_starts_with s g"
proof
  assume g: "path_starts_with s g"
  have np: "ParentDir \<notin> set (components d)" "ParentDir \<notin> set (components g)"
    using g assms(5,6) set_mono_prefix by (auto simp: path_starts_with_def)
  have "path_starts_with g d \<or> path_starts_with d g"
    using prefix_same_cases [of "components g" "components s" "components d"] g assms(6)
    by (auto simp: path_starts_with_def)
  then have "paths_overlap (lexical_normalize g) (lexical_normalize d)"
    using lexical_prefix np assms(3,4) by (auto simp: paths_overlap_def)
  moreover have "lexical_for_containment host g project = Some (lexical_normalize g)"
    using assms(3) by (simp add: lexical_for_containment_def absolute_for_containment_def)
  ultimately show False
    using assms(1,2) by (auto simp: read_kept_def list_ex_iff split: option.splits)
qed

lemma granted_elsewhere:
  assumes "lists_children host" and "tree_done host deny_set rt c gs" and "g \<in> set gs"
    and "\<not> paths_overlap rt d" and "path_starts_with s d"
  shows "\<not> path_starts_with s g"
proof
  assume g: "path_starts_with s g"
  have "path_starts_with g rt"
    using assms(2,3) below_starts_with [OF assms(1)] by (auto simp: tree_done_def)
  then have "path_starts_with s rt" using g path_starts_with_trans by blast
  then show False
    using assms(4,5) prefix_same_cases [of "components rt" "components s" "components d"]
    by (auto simp: path_starts_with_def paths_overlap_def)
qed

lemma enumerate_root_small:
  assumes "enumerate_tree n host deny_set dir st = Some (Ok (c, st'))" and "n \<le> FS_ONLY_ENUMERATION_BUDGET + 1"
  shows "enumerate_root host deny_set dir st = Ok st'"
proof -
  have "enumerate_tree (n + k) host deny_set dir st = Some (Ok (c, st'))" for k
    using assms(1) by (induction k) (simp_all add: enumerate_mono)
  then show ?thesis using assms(2) by (metis le_add_diff_inverse enumerate_root_def option.case sum.case prod.case)
qed

text \<open>What the masking of reads leaves covers no masked path below a write root.\<close>

lemma masking_covers_no_secret:
  assumes "lists_children host"
    and "mask_project_reads_for_fs_only host reads writes deny_set warns project = Ok (reads', warns')"
    and "d \<in> set writes" and "\<not> is_temp_root d" and "lstat host d = Ok Directory"
    and "has_root d" and "ParentDir \<notin> set (components d)"
    and "\<forall>r \<in> set writes. r = d \<or> \<not> paths_overlap r d"
    and "below host d s" and "masked host deny_set s"
  shows "\<not> list_ex (\<lambda>g. has_root g \<and> path_starts_with s g) reads'"
proof -
  let ?pr = "filter (\<lambda>p. \<not> is_temp_root p) writes"
  let ?dr = "filter (\<lambda>rt. lstat host rt = Ok Directory) ?pr"
  have d: "d \<in> set ?dr" using assms(3-5) by simp
  then have ne: "?pr \<noteq> []" by (metis filter.simps(1) empty_iff set_empty)
  obtain roots st where roots: "all_some (map (normalized_root host project) ?dr) = Some roots"
    and st: "fold_result (enumerate_step host deny_set) ?dr
      \<lparr>en_out = filter (read_kept host project roots) reads, en_count = 0, en_excluded = 0\<rparr> = Ok st"
    and r: "reads' = en_out (fold (drop_excluded_root deny_set) ?pr st)"
    using assms(2) ne unfolding mask_project_reads_for_fs_only_def Let_def
    by (auto simp del: filter_filter split: option.splits sum.splits)
  obtain gs where gs: "en_out st = filter (read_kept host project roots) reads @ gs"
    "\<forall>g \<in> set gs. \<exists>rt \<in> set ?dr. \<exists>c hs. tree_done host deny_set rt c hs \<and> g \<in> set hs"
    using enumerate_steps_done [OF st] by auto
  obtain c where c: "(lexical_normalize d, c) \<in> set roots"
    using all_some_map [OF roots d] assms(6)
    by (auto simp: normalized_root_def lexical_for_containment_def absolute_for_containment_def
        split: option.splits)
  obtain ns where ns: "\<forall>n \<in> set ns. valid_name n" "s = foldl path_join d ns"
    using below_names [OF assms(1,9)] by blast
  have s: "ParentDir \<notin> set (components s)" "path_starts_with s d"
    using ns assms(7) by (auto simp: foldl_join_comps path_starts_with_def)
  have "\<not> path_starts_with s g" if "g \<in> set reads'" "has_root g" for g
  proof (cases "g \<in> set gs")
    case True
    then obtain rt c hs where rt: "rt \<in> set ?dr" "tree_done host deny_set rt c hs" "g \<in> set hs" using gs(2) by blast
    then show ?thesis
      using assms(8) granted_not_above [OF assms(1) rt(2,3), of s] granted_elsewhere [OF assms(1) rt(2,3) _ s(2)]
        assms(5,9,10) by auto
  next
    case False
    have "g \<in> set (en_out st)" using that(1) r drop_excluded_subset by blast
    then have "read_kept host project roots g" using gs(1) False by auto
    from kept_not_above [OF this c that(2) assms(6) s] show ?thesis .
  qed
  then show ?thesis by (auto simp: list_ex_iff)
qed

section \<open>An example\<close>

text \<open>A project with a source file, an environment file and a directory that is clean.\<close>

definition project_host :: LoaderHost where
  "project_host = \<lparr>env_var = (\<lambda>_. None), uid = 1000, current_dir = Some ''/p'',
     lstat = (\<lambda>p. if p \<in> {''/p'', ''/p/lib''} then Ok Directory
                  else if p \<in> {''/p/main.rs'', ''/p/.env'', ''/p/lib/x.rs''} then Ok RegularFile else Err ''not found''),
     stat = (\<lambda>p. if p \<in> {''/p'', ''/p/lib''} then Some Directory
                 else if p \<in> {''/p/main.rs'', ''/p/.env'', ''/p/lib/x.rs''} then Some RegularFile else None),
     canon = (\<lambda>p. if p \<in> {''/'', ''/p'', ''/p/lib''} then Some p else None),
     read_dir = (\<lambda>p. if p = ''/p'' then Ok [Ok ''/p/main.rs'', Ok ''/p/.env'', Ok ''/p/lib'']
                     else if p = ''/p/lib'' then Ok [Ok ''/p/lib/x.rs''] else Err ''not a directory''),
     read_text = (\<lambda>_. Err ''not found''), glob_with = (\<lambda>_. Some []), toml = (\<lambda>_. Err ''empty''), embedded = (\<lambda>_. [])\<rparr>"

definition nothing_enumerated :: Enumeration where
  "nothing_enumerated = \<lparr>en_out = [], en_count = 0, en_excluded = 0\<rparr>"

lemma project_children: "child project_host d p \<longleftrightarrow>
    d = ''/p'' \<and> p \<in> {''/p/main.rs'', ''/p/.env'', ''/p/lib''} \<or> d = ''/p/lib'' \<and> p = ''/p/lib/x.rs''"
  by (auto simp: child_def project_host_def)

lemma project_lists_children: "lists_children project_host"
proof -
  have n: "path_join ''/p'' ''main.rs'' = ''/p/main.rs''" "path_join ''/p'' ''.env'' = ''/p/.env''"
    "path_join ''/p'' ''lib'' = ''/p/lib''" "path_join ''/p/lib'' ''x.rs'' = ''/p/lib/x.rs''"
    "valid_name ''main.rs''" "valid_name ''.env''" "valid_name ''lib''" "valid_name ''x.rs''"
    by code_simp+
  have "\<exists>name. valid_name name \<and> p = path_join d name" if c: "child project_host d p" for d p
  proof -
    have "\<exists>name \<in> {''main.rs'', ''.env'', ''lib'', ''x.rs''}. p = path_join d name"
      using c unfolding project_children by (elim disjE conjE insertE) (simp_all add: n)
    then show ?thesis using n(5-8) by (elim bexE insertE) (blast, blast, blast, blast, simp)
  qed
  then show ?thesis by (simp add: lists_children_def)
qed

lemma project_enumerated:
  "enumerate_tree 3 project_host [] ''/p'' \<lparr>en_out = out, en_count = 0, en_excluded = 0\<rparr> =
     Some (Ok (Dirty, \<lparr>en_out = out @ [''/p/main.rs'', ''/p/lib''], en_count = 4, en_excluded = 1\<rparr>))"
proof -
  have x: "\<not> is_enumeration_excluded ''/p'' []" "\<not> is_enumeration_excluded ''/p/main.rs'' []"
    "is_enumeration_excluded ''/p/.env'' []" "\<not> is_enumeration_excluded ''/p/lib'' []"
    "\<not> is_enumeration_excluded ''/p/lib/x.rs'' []"
    by code_simp+
  have l: "lstat project_host ''/p/main.rs'' = Ok RegularFile" "lstat project_host ''/p/.env'' = Ok RegularFile"
    "lstat project_host ''/p/lib'' = Ok Directory" "lstat project_host ''/p/lib/x.rs'' = Ok RegularFile"
    "read_dir project_host ''/p'' = Ok [Ok ''/p/main.rs'', Ok ''/p/.env'', Ok ''/p/lib'']"
    "read_dir project_host ''/p/lib'' = Ok [Ok ''/p/lib/x.rs'']"
    by (simp_all add: project_host_def)
  show ?thesis
    by (simp add: numeral_3_eq_3 enumerate_tree.simps enumerate_entries.simps x l Let_def FS_ONLY_ENUMERATION_BUDGET_def)
qed

lemma project_masked:
  "\<exists>warns'. mask_project_reads_for_fs_only project_host [''/usr''] [''/p''] [] [] ''/p'' =
     Ok ([''/usr'', ''/p/main.rs'', ''/p/lib''], warns')"
proof -
  let ?st = "\<lparr>en_out = [''/usr'', ''/p/main.rs'', ''/p/lib''], en_count = 4, en_excluded = 1\<rparr>"
  have e: "enumerate_tree 3 project_host [] ''/p'' \<lparr>en_out = [''/usr''], en_count = 0, en_excluded = 0\<rparr> = Some (Ok (Dirty, ?st))"
    using project_enumerated [of "[''/usr'']"] by simp
  have r: "enumerate_root project_host [] ''/p'' \<lparr>en_out = [''/usr''], en_count = 0, en_excluded = 0\<rparr> = Ok ?st"
    by (rule enumerate_root_small [OF e]) (simp add: FS_ONLY_ENUMERATION_BUDGET_def)
  have parts: "filter (\<lambda>p. \<not> is_temp_root p) [''/p''] = [''/p'']"
    "filter (\<lambda>rt. lstat project_host rt = Ok Directory) [''/p''] = [''/p'']"
    "all_some (map (normalized_root project_host ''/p'') [''/p'']) = Some [(''/p'', ''/p'')]"
    "filter (read_kept project_host ''/p'' [(''/p'', ''/p'')]) [''/usr''] = [''/usr'']"
    "\<not> is_enumeration_excluded ''/p'' []"
    by code_simp+
  have s: "enumerate_step project_host [] ''/p'' \<lparr>en_out = [''/usr''], en_count = 0, en_excluded = 0\<rparr> = Ok ?st"
    using r by (simp add: enumerate_step_def)
  show ?thesis
    unfolding mask_project_reads_for_fs_only_def parts Let_def by (simp only: option.case parts fold_result.simps s) (simp add: drop_excluded_root_def parts)
qed

section \<open>Properties\<close>

text \<open>
  Property C35 (the enumeration ends). Whatever the host's directories are, cyclic ones
  included, the walk returns with one more unit of fuel than the budget of entries, and
  more fuel never changes what it returns.
\<close>

theorem enumeration_always_returns:
  "\<exists>r. \<forall>k. enumerate_tree (FS_ONLY_ENUMERATION_BUDGET + 1 + k) host deny_set dir st = Some r"
proof -
  obtain r where "enumerate_tree (FS_ONLY_ENUMERATION_BUDGET + 1) host deny_set dir st = Some r"
    using enumerate_tree_total [of "FS_ONLY_ENUMERATION_BUDGET + 1" st] by force
  then show ?thesis using enumerate_fuel by (metis le_add1)
qed

text \<open>
  The enumeration masks secrets. When the walk over a directory succeeds, it keeps
  what was granted before and adds grants such that no granted path covers a masked path
  below the directory (a denied path, a path of a secret's shape, or a symbolic link), and
  every other file that is not inside an excluded directory is covered by a grant; the
  entries counted stay within the budget.
\<close>

theorem enumeration_masks_secrets:
  assumes "lists_children host" and "lstat host dir = Ok Directory"
    and "en_count st \<le> FS_ONLY_ENUMERATION_BUDGET"
    and "enumerate_root host deny_set dir st = Ok st'"
  shows "en_count st' \<le> FS_ONLY_ENUMERATION_BUDGET \<and>
    (\<exists>gs. en_out st' = en_out st @ gs \<and>
      (\<forall>s. below host dir s \<and> masked host deny_set s \<longrightarrow> \<not> list_ex (path_starts_with s) gs) \<and>
      (\<not> is_enumeration_excluded dir deny_set \<longrightarrow>
        (\<forall>f. visible host deny_set dir f \<and> plain_file host f \<and> \<not> is_enumeration_excluded f deny_set \<longrightarrow>
           list_ex (path_starts_with f) gs)))"
proof -
  obtain c gs where g: "counts st st'" "en_out st' = en_out st @ gs" "tree_done host deny_set dir c gs"
    using enumerate_root_done [OF assms(2,4)] .
  have "\<not> list_ex (path_starts_with s) gs" if "below host dir s \<and> masked host deny_set s" for s
    using granted_not_above [OF assms(1) g(3) _ _ _ assms(2)] that by (auto simp: list_ex_iff)
  moreover have "list_ex (path_starts_with f) gs"
    if "\<not> is_enumeration_excluded dir deny_set"
      "visible host deny_set dir f \<and> plain_file host f \<and> \<not> is_enumeration_excluded f deny_set" for f
  proof -
    have "covered host gs f" using g(3) that by (auto simp: tree_done_def)
    then obtain g where "g \<in> set gs" "g = f \<or> below host g f" by (auto simp: covered_def)
    then have "path_starts_with f g" using below_starts_with [OF assms(1)] by auto
    then show ?thesis using \<open>g \<in> set gs\<close> by (auto simp: list_ex_iff)
  qed
  ultimately show ?thesis using g(1,2) assms(3) by (auto simp: counts_def)
qed

theorem enumeration_masks_secrets_witness:
  "enumerate_root project_host [] ''/p'' nothing_enumerated =
     Ok \<lparr>en_out = [''/p/main.rs'', ''/p/lib''], en_count = 4, en_excluded = 1\<rparr> \<and>
   below project_host ''/p'' ''/p/.env'' \<and> masked project_host [] ''/p/.env'' \<and>
   \<not> list_ex (path_starts_with ''/p/.env'') [''/p/main.rs'', ''/p/lib'']"
proof -
  have r: "enumerate_root project_host [] ''/p'' nothing_enumerated =
     Ok \<lparr>en_out = [''/p/main.rs'', ''/p/lib''], en_count = 4, en_excluded = 1\<rparr>"
    using enumerate_root_small [OF project_enumerated, of "[]"]
    by (simp add: FS_ONLY_ENUMERATION_BUDGET_def nothing_enumerated_def)
  have b: "below project_host ''/p'' ''/p/.env''" by (rule below_child) (simp add: project_children)
  have m: "masked project_host [] ''/p/.env''" by code_simp
  have "lstat project_host ''/p'' = Ok Directory" by (simp add: project_host_def)
  from enumeration_masks_secrets [OF project_lists_children this _ r] b m r show ?thesis
    by (auto simp: nothing_enumerated_def)
qed

end
