(* ===== verification/Resolve.thy ===== *)
theory Resolve
  imports Enumerate
begin

text \<open>
  From a merged policy to the policy that is compiled: \<open>build_policy\<close> of
  \<open>src/src/policy/loader/resolve.rs\<close> and the final checks of \<open>src/src/policy/checker.rs\<close>.
  Entries are expanded to paths, denied paths are subtracted from what is allowed, sockets are
  added and removed, and write roots that are system directories or missing are refused or
  dropped.

  The lemmas show what survives: every write root exists, is no system directory, and is
  outside the paths denied, sockets that are allowed by name apart; and every denied path
  that exists becomes a mask.
\<close>

section \<open>Expanding entries\<close>

definition PACKAGE_CACHE_PATHS :: "string list" where
  "PACKAGE_CACHE_PATHS =
     [''.npm'', ''.cache/pip'', ''.cache/uv'', ''.cache/yarn'', ''.cargo/registry'', ''.cargo/git'',
      ''go/pkg/mod'', ''.cache/ms-playwright'', ''.cache/puppeteer'', ''.cache/huggingface'',
      ''.cache/transformers'', ''.cache/torch'']"

definition resolve_package_cache_paths :: "path \<Rightarrow> path list" where
  "resolve_package_cache_paths home = map (path_join home) PACKAGE_CACHE_PATHS"

definition resolve_runtime_dir :: "LoaderHost \<Rightarrow> path option" where
  "resolve_runtime_dir host =
     (case env_var host ''XDG_RUNTIME_DIR'' of
        Some val \<Rightarrow> if val \<noteq> [] then Some val else Some (''/run/user/'' @ show_nat (uid host))
      | None \<Rightarrow> Some (''/run/user/'' @ show_nat (uid host)))"

text \<open>\<open>BTreeSet::insert\<close> on paths, which are ordered and equal by their components.\<close>

definition insert_path :: "path \<Rightarrow> path list \<Rightarrow> path list" where
  "insert_path p ps = insort_insert_key components p ps"

definition resolve_item ::
    "LoaderHost \<Rightarrow> Vars \<Rightarrow> path option \<Rightarrow> string \<Rightarrow> path list \<Rightarrow> (LoadError, path list) result" where
  "resolve_item host vars agent e out =
     (if contains_str e ''$AGENT'' \<and> agent = None
      then Err (Bail (''policy path '' @ quoted e @ '' requires an agent context for $AGENT''))
      else Ok (fold insert_path (resolve_entry_with_agent host e vars agent) out))"

definition resolve_list ::
    "LoaderHost \<Rightarrow> string list \<Rightarrow> Vars \<Rightarrow> path option \<Rightarrow> (LoadError, path list) result" where
  "resolve_list host entries vars agent = fold_result (resolve_item host vars agent) entries []"

definition is_env_char :: "char \<Rightarrow> bool" where
  "is_env_char c =
     (let n = (of_char c :: nat)
      in 48 \<le> n \<and> n \<le> 57 \<or> 65 \<le> n \<and> n \<le> 90 \<or> 97 \<le> n \<and> n \<le> 122 \<or> c = CHR ''_'')"

definition is_env_pattern :: "string \<Rightarrow> bool" where
  "is_env_pattern pattern =
     (let pre = (if ends_with pattern ''*'' then butlast pattern else pattern)
      in \<not> (pre = [] \<or> pattern = ''*'' \<or> CHR ''='' \<in> set pattern \<or> CHR 0x00 \<in> set pattern \<or>
            list_ex (\<lambda>c. \<not> is_env_char c) pre \<or> CHR ''*'' \<in> set pattern \<and> \<not> ends_with pattern ''*''))"

definition normalize_env_patterns :: "string list \<Rightarrow> string list" where
  "normalize_env_patterns patterns = sort (remdups (filter is_env_pattern patterns))"

section \<open>Denied paths\<close>

definition preset_entries :: "string list \<Rightarrow> string list" where
  "preset_entries ps = concat (map (\<lambda>p. case resolve_preset p of Some paths \<Rightarrow> paths | None \<Rightarrow> []) ps)"

definition preset_warnings :: "string list \<Rightarrow> string list" where
  "preset_warnings ps =
     map (\<lambda>p. ''unknown deny_preset '' @ quoted p) (filter (\<lambda>p. resolve_preset p = None) ps)"

definition all_deny_entries :: "MergedPolicy \<Rightarrow> string list" where
  "all_deny_entries m =
     m_deny_paths m @ m_deny_read m @ m_deny_write m @ m_deny_unix_sockets m @
     preset_entries (m_deny_preset m) @ m_deny_glob m"

definition deny_one ::
    "LoaderHost \<Rightarrow> path option \<Rightarrow> path \<Rightarrow> path list \<times> DenyEntry list \<Rightarrow> path list \<times> DenyEntry list" where
  "deny_one host agent p = (\<lambda>(deny_set, entries).
     if (case agent of Some a \<Rightarrow> path_eq p a | None \<Rightarrow> False) \<or> list_ex (path_eq p) deny_set
     then (deny_set, entries)
     else (insert_path p deny_set,
           (case lstat host p of
              Inl _ \<Rightarrow> entries
            | Inr k \<Rightarrow> entries @ [\<lparr>deny_path = p, deny_is_dir = (k = Directory)\<rparr>])))"

definition deny_entry ::
    "LoaderHost \<Rightarrow> Vars \<Rightarrow> path option \<Rightarrow> string \<Rightarrow> path list \<times> DenyEntry list \<Rightarrow>
     (LoadError, path list \<times> DenyEntry list) result" where
  "deny_entry host vars agent e st =
     and_then (resolve_list host [e] vars agent) (\<lambda>paths. Ok (fold (deny_one host agent) paths st))"

text \<open>\<open>retain\<close> of the paths outside the denied ones.\<close>

definition subtract_paths :: "path list \<Rightarrow> path list \<Rightarrow> path list" where
  "subtract_paths denied ps = filter (\<lambda>p. \<not> list_ex (eq_or_under p) denied) ps"

section \<open>Final checks\<close>

definition home_write_warning :: "path \<Rightarrow> string" where
  "home_write_warning w =
     ''allow_write includes $HOME '' @ quoted w @ '' '' @ [CHR 0xE2, CHR 0x80, CHR 0x94] @
     '' user files and configuration are mutable''"

definition home_read_warning :: string where
  "home_read_warning =
     ''allow_read includes $HOME itself '' @ [CHR 0xE2, CHR 0x80, CHR 0x94] @
     '' all user secrets are readable regardless of display_only_deny''"

definition check_write_root ::
    "LoaderHost \<Rightarrow> string \<Rightarrow> path \<Rightarrow> string list \<Rightarrow> (LoadError, string list) result" where
  "check_write_root host meta w warns =
     (if canonical_or host w \<in> set SYSTEM_WRITE_ROOTS
      then Err (Bail (''fail-closed: allow_write includes dangerous system path '' @ quoted w @ '' (exit 125)''))
      else (case home_var host of
              Some h \<Rightarrow>
                if path_eq (canonical_or host w) h \<and> \<not> contains_str meta ''yolo''
                then Ok (warns @ [home_write_warning w]) else Ok warns
            | None \<Rightarrow> Ok warns))"

definition path_exists :: "LoaderHost \<Rightarrow> path \<Rightarrow> bool" where
  "path_exists host p = (stat host p \<noteq> None)"

definition covered_by_ancestor :: "LoaderHost \<Rightarrow> path list \<Rightarrow> path \<Rightarrow> bool" where
  "covered_by_ancestor host roots p =
     list_ex (\<lambda>rt. case (canon host p, canon host rt) of
                     (Some p_canon, Some r_canon) \<Rightarrow> path_starts_with p_canon r_canon
                   | _ \<Rightarrow> path_starts_with p rt) roots"

definition missing_warnings :: "LoaderHost \<Rightarrow> path list \<Rightarrow> string list" where
  "missing_warnings host ws =
     map (\<lambda>p. ''allow_write path '' @ quoted p @ '' does not exist; dropped'')
       (filter (\<lambda>p. \<not> path_exists host p \<and> \<not> covered_by_ancestor host (filter (path_exists host) ws) p) ws)"

definition check :: "LoaderHost \<Rightarrow> Policy \<Rightarrow> (LoadError, Policy) result" where
  "check host pol =
     and_then (fold_result (check_write_root host (meta_name (metadata pol))) (allow_write pol) (warnings pol))
       (\<lambda>warns.
          let warns = (case home_var host of
                         Some h \<Rightarrow>
                           if list_ex (\<lambda>p. case canon host p of Some c \<Rightarrow> path_eq c h | None \<Rightarrow> False) (allow_read pol)
                           then warns @ [home_read_warning] else warns
                       | None \<Rightarrow> warns)
          in Ok (pol\<lparr>allow_write := filter (path_exists host) (allow_write pol),
                     warnings := warns @ missing_warnings host (allow_write pol)\<rparr>))"

section \<open>Building the policy\<close>

definition lock_caches :: "path \<Rightarrow> bool \<Rightarrow> path list \<times> path list \<times> path list \<Rightarrow> path list \<times> path list \<times> path list" where
  "lock_caches home read_only = (\<lambda>(reads, writes, denied).
     if read_only
     then fold (\<lambda>cache (reads, writes, denied).
                  (push_unique path_eq cache reads, filter (\<lambda>p. \<not> eq_or_under p cache) writes,
                   push_unique path_eq cache denied))
            (resolve_package_cache_paths home) (reads, writes, denied)
     else (reads, writes, denied))"

definition add_sockets :: "LoaderHost \<Rightarrow> string list \<Rightarrow> Vars \<Rightarrow> path option \<Rightarrow> path list \<Rightarrow> path list" where
  "add_sockets host entries vars agent ps =
     (if entries = [] then ps
      else (case resolve_list host entries vars agent of
              Inl _ \<Rightarrow> ps
            | Inr socks \<Rightarrow> fold (push_unique path_eq) socks ps))"

definition remove_sockets :: "LoaderHost \<Rightarrow> string list \<Rightarrow> Vars \<Rightarrow> path option \<Rightarrow> path list \<Rightarrow> path list" where
  "remove_sockets host entries vars agent ps =
     (if entries = [] then ps
      else (case resolve_list host entries vars agent of
              Inl _ \<Rightarrow> ps
            | Inr socks \<Rightarrow> subtract_paths socks ps))"

definition effective_name :: "string \<Rightarrow> bool \<Rightarrow> PolicyMetadata \<Rightarrow> string" where
  "effective_name profile custom md =
     (if meta_name md = [] then (if custom then ''custom:'' @ profile else profile) else meta_name md)"

definition effective_seccomp :: "string option \<Rightarrow> (LoadError, SeccompProfile) result" where
  "effective_seccomp prof =
     (case prof of
        None \<Rightarrow> Ok ProfileDefault
      | Some name \<Rightarrow>
          (case seccomp_profile_parse name of
             Some sp \<Rightarrow> Ok sp
           | None \<Rightarrow> Err (Bail (''unknown seccomp_profile '' @ quoted name @
                                ''; known profiles: default, agent-min''))))"

text \<open>The paths that are resolved for a policy: reads, writes, denied writes, denied reads,
  read-only mounts, the denied entries, and the warnings.\<close>

record ResolvedPaths =
  rp_reads :: "path list"
  rp_writes :: "path list"
  rp_deny_write :: "path list"
  rp_deny_read :: "path list"
  rp_mounts :: "path list"
  rp_entries :: "DenyEntry list"
  rp_warnings :: "string list"

definition resolve_paths ::
    "LoaderHost \<Rightarrow> Vars \<Rightarrow> Tier \<Rightarrow> MergedPolicy \<Rightarrow> path option \<Rightarrow> (LoadError, ResolvedPaths) result" where
  "resolve_paths host vars tier m agent =
     and_then (resolve_list host (m_allow_write m) vars agent) (\<lambda>writes.
     and_then (resolve_list host (m_allow_read m) vars agent) (\<lambda>reads.
     and_then (resolve_list host (m_deny_write m) vars agent) (\<lambda>deny_write.
     and_then (resolve_list host (m_deny_read m) vars agent) (\<lambda>deny_read.
     and_then (resolve_list host (m_ro_mounts m) vars agent) (\<lambda>mounts.
       case lock_caches (v_home vars) (m_read_only_caches m)
              (fold (push_unique path_eq) mounts reads, writes, deny_write) of
         (reads, writes, deny_write) \<Rightarrow>
           and_then (fold_result (deny_entry host vars agent) (all_deny_entries m) ([], [])) (\<lambda>(deny_set, entries).
             let writes = subtract_paths deny_write writes;
                 reads = subtract_paths deny_read reads;
                 warns = preset_warnings (m_deny_preset m)
             in and_then (if tier = TierFsOnly
                          then mask_project_reads_for_fs_only host reads writes deny_set warns (v_project vars)
                          else Ok (reads, warns)) (\<lambda>(reads, warns).
                  let finish = (\<lambda>ps. dedup_paths (sort_paths
                                  (remove_sockets host (m_deny_unix_sockets m) vars agent
                                     (add_sockets host (m_allow_unix_sockets m) vars agent ps))))
                  in Ok \<lparr>rp_reads = finish reads, rp_writes = finish writes, rp_deny_write = deny_write,
                         rp_deny_read = deny_read, rp_mounts = mounts, rp_entries = entries,
                         rp_warnings = warns\<rparr>)))))))"

definition assemble_policy :: "string \<Rightarrow> bool \<Rightarrow> MergedPolicy \<Rightarrow> ResolvedPaths \<Rightarrow> SeccompProfile \<Rightarrow> Policy" where
  "assemble_policy profile custom m rp sp =
     \<lparr>policy_name = effective_name profile custom (m_metadata m), metadata = m_metadata m,
      limits = m_limits m, allow_write = rp_writes rp, allow_read = rp_reads rp,
      deny_write = rp_deny_write rp, deny_read = rp_deny_read rp, deny_resolved = rp_entries rp,
      environment = \<lparr>pass_through = normalize_env_patterns (m_pass_through m),
                     env_deny = normalize_env_patterns (m_deny_env m)\<rparr>,
      deny_network = (m_deny_network m \<noteq> []), network_mode = m_network_mode m,
      network_allow = m_network_allow m, allow_cidr = m_allow_cidr m, net_quota = m_net_quota m,
      net_bind_ports = m_net_bind_ports m, net_connect_ports = m_net_connect_ports m,
      allow_unix_sockets = m_allow_unix_sockets m, deny_unix_sockets = m_deny_unix_sockets m,
      seccomp_profile = sp, seccomp_notify = m_seccomp_notify m, cgroup = m_cgroup m,
      cpu_max = m_cpu_max m, io_priority = m_io_priority m, dev_allow = m_dev_allow m,
      oslog = m_oslog m, lpac = m_lpac m, is_immutable = m_is_immutable m,
      system_log = m_system_log m, auto_deny_secrets = m_auto_deny_secrets m,
      secret_proxies = m_secret_proxies m, ro_mounts = rp_mounts rp, git_guard = m_git_guard m,
      snapshot = m_snapshot m, read_only_caches = m_read_only_caches m, shadow = m_shadow m,
      tmpfs_tmp = (case m_tmpfs_tmp m of Some t \<Rightarrow> t | None \<Rightarrow> True),
      warnings = rp_warnings rp\<rparr>"

definition build_policy ::
    "LoaderHost \<Rightarrow> string \<Rightarrow> bool \<Rightarrow> path \<Rightarrow> path \<Rightarrow> Tier \<Rightarrow> MergedPolicy \<Rightarrow> path option \<Rightarrow> (LoadError, Policy) result" where
  "build_policy host profile custom project home tier m agent =
     (let vars = \<lparr>v_project = project, v_home = home, v_runtime_dir = resolve_runtime_dir host\<rparr>
      in and_then (resolve_paths host vars tier m agent) (\<lambda>rp.
         and_then (effective_seccomp (m_seccomp_profile m)) (\<lambda>sp.
           check host (assemble_policy profile custom m rp sp))))"
section \<open>Lemmas on lists of paths\<close>

text \<open>Sets of paths are compared by components.\<close>

definition has_path :: "path list \<Rightarrow> path \<Rightarrow> bool" where
  "has_path ps p \<longleftrightarrow> components p \<in> components ` set ps"

lemma has_path_eq: "has_path ps p \<longleftrightarrow> list_ex (path_eq p) ps"
  by (auto simp: has_path_def list_ex_iff path_eq_def)

lemma has_path_simps [simp]:
  "\<not> has_path [] p" "has_path (x # xs) p \<longleftrightarrow> path_eq p x \<or> has_path xs p"
  "has_path (xs @ ys) p \<longleftrightarrow> has_path xs p \<or> has_path ys p"
  by (auto simp: has_path_def path_eq_def)

lemma has_path_member: "p \<in> set ps \<Longrightarrow> has_path ps p"
  by (simp add: has_path_def)

lemma set_insert_path: "set (insert_path p ps) \<subseteq> insert p (set ps)"
  by (auto simp: insert_path_def insort_insert_key_def set_insort_key)

lemma has_path_insert [simp]: "has_path (insert_path p ps) q \<longleftrightarrow> path_eq q p \<or> has_path ps q"
  by (auto simp: has_path_def insert_path_def insort_insert_key_def set_insort_key path_eq_def)

lemma has_path_fold_insert [simp]: "has_path (fold insert_path qs ps) p \<longleftrightarrow> has_path qs p \<or> has_path ps p"
  by (induction qs arbitrary: ps) auto

lemma set_fold_insert_path: "set (fold insert_path qs ps) \<subseteq> set qs \<union> set ps"
  using set_insert_path by (induction qs arbitrary: ps) (simp, fastforce)

lemma has_path_push [simp]: "has_path (push_unique path_eq p ps) q \<longleftrightarrow> path_eq q p \<or> has_path ps q"
  by (auto simp: push_unique_def has_path_def path_eq_def list_ex_iff)

lemma has_path_fold_push [simp]: "has_path (fold (push_unique path_eq) qs ps) p \<longleftrightarrow> has_path qs p \<or> has_path ps p"
  by (induction qs arbitrary: ps) auto

lemma has_path_finish [simp]: "has_path (dedup_paths (sort_paths ps)) p \<longleftrightarrow> has_path ps p"
  using dedup_paths_comps [of "sort_paths ps"] by (simp add: has_path_def sort_paths_def)

lemma set_finish: "set (dedup_paths (sort_paths ps)) \<subseteq> set ps"
  using dedup_paths_set [of "sort_paths ps"] by (simp add: sort_paths_def)

lemma path_eq_trans_starts:
  "path_eq p q \<Longrightarrow> path_starts_with q r \<longleftrightarrow> path_starts_with p r"
  "path_eq p q \<Longrightarrow> path_starts_with r q \<longleftrightarrow> path_starts_with r p"
  by (simp_all add: path_eq_def path_starts_with_def)

section \<open>Lemmas on expansion\<close>

text \<open>An expansion that succeeds holds the paths of its entries, and only those.\<close>

lemma resolve_items:
  "fold_result (resolve_item host vars agent) es out = Ok ps \<Longrightarrow>
     (has_path ps p \<longleftrightarrow> has_path out p \<or> (\<exists>e \<in> set es. has_path (resolve_entry_with_agent host e vars agent) p)) \<and>
     (\<forall>e \<in> set es. contains_str e ''$AGENT'' \<longrightarrow> agent \<noteq> None)"
proof (induction es arbitrary: out)
  case (Cons e es)
  then obtain out' where o: "resolve_item host vars agent e out = Ok out'"
    "fold_result (resolve_item host vars agent) es out' = Ok ps"
    by (auto simp: and_then_def split: sum.splits)
  then have "out' = fold insert_path (resolve_entry_with_agent host e vars agent) out"
    "contains_str e ''$AGENT'' \<longrightarrow> agent \<noteq> None"
    by (auto simp: resolve_item_def split: if_splits)
  then show ?case using Cons.IH [OF o(2)] by auto
qed simp

lemma resolve_list_paths:
  "resolve_list host es vars agent = Ok ps \<Longrightarrow>
     has_path ps p \<longleftrightarrow> (\<exists>e \<in> set es. has_path (resolve_entry_with_agent host e vars agent) p)"
  using resolve_items [of host vars agent es "[]" ps p] by (simp add: resolve_list_def)

text \<open>The paths an entry of a list stands for, as they are spelled.\<close>

definition stands_for :: "LoaderHost \<Rightarrow> Vars \<Rightarrow> path option \<Rightarrow> string list \<Rightarrow> path \<Rightarrow> bool" where
  "stands_for host vars agent es p \<longleftrightarrow> (\<exists>e \<in> set es. p \<in> set (resolve_entry_with_agent host e vars agent))"

lemma resolve_list_spelled:
  assumes "resolve_list host es vars agent = Ok ps" and "p \<in> set ps"
  shows "stands_for host vars agent es p"
proof -
  have "\<forall>p \<in> set ps. stands_for host vars agent es p"
  proof (rule fold_result_inv [OF assms(1) [unfolded resolve_list_def]])
    fix e out out'
    assume "e \<in> set es" "\<forall>p \<in> set out. stands_for host vars agent es p" "resolve_item host vars agent e out = Ok out'"
    then show "\<forall>p \<in> set out'. stands_for host vars agent es p"
      using set_fold_insert_path [of "resolve_entry_with_agent host e vars agent" out]
      by (auto simp: resolve_item_def stands_for_def split: if_splits)
  qed simp
  then show ?thesis using assms(2) by blast
qed

lemma resolve_list_iff_agent:
  "(\<exists>ps. resolve_list host es vars agent = Ok ps) \<longleftrightarrow> (\<forall>e \<in> set es. contains_str e ''$AGENT'' \<longrightarrow> agent \<noteq> None)"
proof -
  have "\<exists>ps. fold_result (resolve_item host vars agent) es out = Ok ps"
    if "\<forall>e \<in> set es. contains_str e ''$AGENT'' \<longrightarrow> agent \<noteq> None" for out
    using that by (induction es arbitrary: out) (auto simp: resolve_item_def)
  then show ?thesis using resolve_items unfolding resolve_list_def by blast
qed

section \<open>Lemmas on denied entries\<close>

definition is_agent :: "path option \<Rightarrow> path \<Rightarrow> bool" where
  "is_agent agent p \<longleftrightarrow> (case agent of Some a \<Rightarrow> path_eq p a | None \<Rightarrow> False)"

text \<open>What the two results hold after some paths were denied.\<close>

definition denied_inv :: "LoaderHost \<Rightarrow> path list \<times> DenyEntry list \<Rightarrow> bool" where
  "denied_inv host st \<longleftrightarrow>
     (\<forall>d \<in> set (snd st). has_path (fst st) (deny_path d) \<and> lstat host (deny_path d) = Ok Directory = deny_is_dir d \<and>
        is_ok (lstat host (deny_path d))) \<and>
     (\<forall>p \<in> set (fst st). is_ok (lstat host p) \<longrightarrow> (\<exists>d \<in> set (snd st). deny_path d = p)) \<and>
     distinct (map components (fst st))"

lemma is_agent_eq: "path_eq p q \<Longrightarrow> is_agent agent p \<longleftrightarrow> is_agent agent q"
  by (auto simp: is_agent_def path_eq_def split: option.splits)

lemma deny_one_unfold:
  "deny_one host agent p st =
     (if is_agent agent p \<or> has_path (fst st) p then st
      else (insert_path p (fst st),
            case lstat host p of Inl _ \<Rightarrow> snd st
            | Inr k \<Rightarrow> snd st @ [\<lparr>deny_path = p, deny_is_dir = (k = Directory)\<rparr>]))"
  by (cases st; cases "lstat host p") (auto simp: deny_one_def is_agent_def has_path_eq split: option.splits)

lemma insert_path_new:
  "\<not> has_path ps p \<Longrightarrow> set (insert_path p ps) = insert p (set ps)"
  "distinct (map components ps) \<Longrightarrow> distinct (map components (insert_path p ps))"
proof -
  have "distinct (map components (insort_key components p qs)) \<longleftrightarrow> components p \<notin> components ` set qs \<and> distinct (map components qs)" for qs
    by (induction qs) (auto simp: set_insort_key)
  then show "distinct (map components ps) \<Longrightarrow> distinct (map components (insert_path p ps))"
    by (auto simp: insert_path_def insort_insert_key_def)
qed (auto simp: insert_path_def insort_insert_key_def set_insort_key has_path_def)

lemma deny_one_inv: "denied_inv host st \<Longrightarrow> denied_inv host (deny_one host agent p st)"
  by (cases "lstat host p") (auto simp: deny_one_unfold denied_inv_def insert_path_new)

lemma deny_one_set:
  "has_path (fst (deny_one host agent p st)) q \<longleftrightarrow> has_path (fst st) q \<or> path_eq q p \<and> \<not> is_agent agent q"
proof -
  have "path_eq q p \<Longrightarrow> has_path (fst st) p \<longleftrightarrow> has_path (fst st) q" by (simp add: has_path_def path_eq_def)
  then show ?thesis using is_agent_eq [of q p agent] by (auto simp: deny_one_unfold)
qed

lemma deny_many:
  "has_path (fst (fold (deny_one host agent) ps st)) q \<longleftrightarrow> has_path (fst st) q \<or> has_path ps q \<and> \<not> is_agent agent q"
  "denied_inv host st \<Longrightarrow> denied_inv host (fold (deny_one host agent) ps st)"
  by (induction ps arbitrary: st) (auto simp: deny_one_set deny_one_inv)

lemma deny_entries:
  "fold_result (deny_entry host vars agent) es st = Ok st' \<Longrightarrow> denied_inv host st \<Longrightarrow>
     denied_inv host st' \<and>
     (\<forall>q. has_path (fst st') q \<longleftrightarrow> has_path (fst st) q \<or>
        (\<exists>e \<in> set es. has_path (resolve_entry_with_agent host e vars agent) q) \<and> \<not> is_agent agent q)"
proof (induction es arbitrary: st)
  case (Cons e es)
  obtain st1 where s: "deny_entry host vars agent e st = Ok st1" "fold_result (deny_entry host vars agent) es st1 = Ok st'"
    using Cons.prems(1) by (auto split: sum.splits)
  then obtain ps where r: "resolve_list host [e] vars agent = Ok ps"
    "fold_result (deny_entry host vars agent) es (fold (deny_one host agent) ps st) = Ok st'"
    by (auto simp: deny_entry_def)
  show ?case
    using Cons.IH [OF r(2) deny_many(2) [OF Cons.prems(2)]] resolve_list_paths [OF r(1)]
    by (auto simp: deny_many(1))
qed simp

lemma denied_inv_empty: "denied_inv host ([], [])"
  by (simp add: denied_inv_def)

lemma is_denied_entry:
  assumes "denied_inv host st" and "has_path (fst st) q" and "\<And>p. path_eq p q \<Longrightarrow> is_ok (lstat host p)"
  shows "\<exists>d \<in> set (snd st). path_eq (deny_path d) q"
  using assms by (auto simp: denied_inv_def has_path_def path_eq_def) (metis (no_types, lifting))

section \<open>Lemmas on the policy\<close>

lemma lock_caches_result:
  assumes "lock_caches home ro (reads, writes, denied) = (reads', writes', denied')"
  shows "set writes' \<subseteq> set writes" "has_path denied p \<Longrightarrow> has_path denied' p"
    "ro \<Longrightarrow> c \<in> set (resolve_package_cache_paths home) \<Longrightarrow> has_path denied' c"
proof -
  let ?f = "\<lambda>cache (reads, writes, denied).
     (push_unique path_eq cache reads, filter (\<lambda>p. \<not> eq_or_under p cache) writes, push_unique path_eq cache denied)"
  have *: "set w' \<subseteq> set w \<and> (\<forall>p. has_path d' p \<longleftrightarrow> has_path cs p \<or> has_path d p)"
    if "fold ?f cs (r, w, d) = (r', w', d')" for cs r w d r' w' d'
    using that by (induction cs arbitrary: r w d) fastforce+
  show "set writes' \<subseteq> set writes" "has_path denied p \<Longrightarrow> has_path denied' p"
    "ro \<Longrightarrow> c \<in> set (resolve_package_cache_paths home) \<Longrightarrow> has_path denied' c"
    using assms * [of "resolve_package_cache_paths home" reads writes denied reads' writes' denied']
    by (auto simp: lock_caches_def has_path_member split: if_splits)
qed

lemma subtract_paths_set: "p \<in> set (subtract_paths ds ps) \<longleftrightarrow> p \<in> set ps \<and> \<not> list_ex (path_starts_with p) ds"
  by (auto simp: subtract_paths_def list_ex_iff)

text \<open>The paths a list of entries stands for.\<close>

definition names_path :: "LoaderHost \<Rightarrow> Vars \<Rightarrow> path option \<Rightarrow> string list \<Rightarrow> path \<Rightarrow> bool" where
  "names_path host vars agent es p \<longleftrightarrow> (\<exists>e \<in> set es. has_path (resolve_entry_with_agent host e vars agent) p)"

lemma stands_for_names: "stands_for host vars agent es p \<Longrightarrow> names_path host vars agent es p"
  unfolding stands_for_def names_path_def by (blast intro: has_path_member)

lemma names_path_append [simp]:
  "names_path host vars agent (xs @ ys) p \<longleftrightarrow> names_path host vars agent xs p \<or> names_path host vars agent ys p"
  by (auto simp: names_path_def)

lemma add_sockets_set:
  "p \<in> set (add_sockets host es vars agent ps) \<Longrightarrow> p \<in> set ps \<or> names_path host vars agent es p"
  using subsetD [OF conjunct2 [OF fold_push_unique_set], of p path_eq _ ps]
  by (auto simp: add_sockets_def names_path_def split: if_splits sum.splits
      dest: has_path_member simp flip: resolve_list_paths)

lemma remove_sockets_set:
  assumes "p \<in> set (remove_sockets host es vars agent ps)" and "\<exists>ds. resolve_list host es vars agent = Ok ds"
  shows "p \<in> set ps" "names_path host vars agent es d \<Longrightarrow> \<not> path_starts_with p d"
proof -
  obtain ds where ds: "resolve_list host es vars agent = Ok ds" using assms(2) by blast
  show "p \<in> set ps"
    using assms(1) ds by (auto simp: remove_sockets_def subtract_paths_set split: if_splits)
  assume d: "names_path host vars agent es d"
  then have "es \<noteq> []" by (auto simp: names_path_def)
  then have "\<not> list_ex (path_starts_with p) ds"
    using assms(1) ds by (simp add: remove_sockets_def subtract_paths_set)
  moreover have "has_path ds d" using d resolve_list_paths [OF ds] by (simp add: names_path_def)
  ultimately show "\<not> path_starts_with p d"
    by (auto simp: has_path_eq list_ex_iff dest: path_eq_trans_starts(2))
qed

lemma deny_entries_agent:
  "fold_result (deny_entry host vars agent) es st = Ok st' \<Longrightarrow> e \<in> set es \<Longrightarrow> contains_str e ''$AGENT'' \<Longrightarrow> agent \<noteq> None"
proof (induction es arbitrary: st)
  case (Cons a es)
  obtain st1 where s: "deny_entry host vars agent a st = Ok st1" "fold_result (deny_entry host vars agent) es st1 = Ok st'"
    using Cons.prems(1) by (auto split: sum.splits)
  have "\<exists>ps. resolve_list host [a] vars agent = Ok ps" using s(1) by (auto simp: deny_entry_def)
  then show ?case using Cons.IH [OF s(2)] Cons.prems(2,3) by (auto simp: resolve_list_iff_agent)
qed simp

text \<open>What \<open>resolve_paths\<close> goes through when it succeeds.\<close>

lemma resolve_paths_ok:
  assumes "resolve_paths host vars tier m agent = Ok rp"
  obtains writes reads reads' deny_set warns where
    "\<And>w. w \<in> set writes \<Longrightarrow> stands_for host vars agent (m_allow_write m) w"
    "\<And>d. names_path host vars agent (m_deny_write m) d \<Longrightarrow> has_path (rp_deny_write rp) d"
    "fold_result (deny_entry host vars agent) (all_deny_entries m) ([], []) = Ok (deny_set, rp_entries rp)"
    "(if tier = TierFsOnly
      then mask_project_reads_for_fs_only host reads (subtract_paths (rp_deny_write rp) writes) deny_set
             (preset_warnings (m_deny_preset m)) (v_project vars)
      else Ok (reads, preset_warnings (m_deny_preset m))) = Ok (reads', warns)"
    "rp_reads rp = dedup_paths (sort_paths (remove_sockets host (m_deny_unix_sockets m) vars agent
       (add_sockets host (m_allow_unix_sockets m) vars agent reads')))"
    "rp_writes rp = dedup_paths (sort_paths (remove_sockets host (m_deny_unix_sockets m) vars agent
       (add_sockets host (m_allow_unix_sockets m) vars agent (subtract_paths (rp_deny_write rp) writes))))"
    "\<exists>ds. resolve_list host (m_deny_unix_sockets m) vars agent = Ok ds"
proof -
  obtain writes0 reads0 dw0 dr mounts where l: "resolve_list host (m_allow_write m) vars agent = Ok writes0"
    "resolve_list host (m_allow_read m) vars agent = Ok reads0" "resolve_list host (m_deny_write m) vars agent = Ok dw0"
    "resolve_list host (m_deny_read m) vars agent = Ok dr" "resolve_list host (m_ro_mounts m) vars agent = Ok mounts"
    using assms unfolding resolve_paths_def and_then_Inr by blast
  obtain reads writes dw where lc:
    "lock_caches (v_home vars) (m_read_only_caches m) (fold (push_unique path_eq) mounts reads0, writes0, dw0) = (reads, writes, dw)"
    by (metis prod_cases3)
  let ?finish = "\<lambda>ps. dedup_paths (sort_paths (remove_sockets host (m_deny_unix_sockets m) vars agent
         (add_sockets host (m_allow_unix_sockets m) vars agent ps)))"
  obtain deny_set entries reads' warns where
    r: "fold_result (deny_entry host vars agent) (all_deny_entries m) ([], []) = Ok (deny_set, entries)"
      "(if tier = TierFsOnly
        then mask_project_reads_for_fs_only host (subtract_paths dr reads) (subtract_paths dw writes) deny_set
               (preset_warnings (m_deny_preset m)) (v_project vars)
        else Ok (subtract_paths dr reads, preset_warnings (m_deny_preset m))) = Ok (reads', warns)"
    and rp: "rp_entries rp = entries" "rp_deny_write rp = dw"
      "rp_reads rp = ?finish reads'" "rp_writes rp = ?finish (subtract_paths dw writes)"
    using assms unfolding resolve_paths_def Let_def l and_then_simps lc prod.case by (auto simp del: fold_result.simps)
  have w: "stands_for host vars agent (m_allow_write m) w" if "w \<in> set writes" for w
    using that lock_caches_result(1) [OF lc] resolve_list_spelled [OF l(1), of w] by auto
  have d: "has_path dw q" if "names_path host vars agent (m_deny_write m) q" for q
    using that lock_caches_result(2) [OF lc] resolve_list_paths [OF l(3), of q] by (auto simp: names_path_def)
  have "\<forall>e \<in> set (m_deny_unix_sockets m). contains_str e ''$AGENT'' \<longrightarrow> agent \<noteq> None"
    using deny_entries_agent [OF r(1)] by (auto simp: all_deny_entries_def)
  then have "\<exists>ds. resolve_list host (m_deny_unix_sockets m) vars agent = Ok ds" by (simp add: resolve_list_iff_agent)
  then show thesis
    using w d r rp by (intro that [of writes deny_set "subtract_paths dr reads" reads' warns]) auto
qed

lemma check_write_root_ok:
  "check_write_root host meta w warns = Ok v \<Longrightarrow> canonical_or host w \<notin> set SYSTEM_WRITE_ROOTS"
  by (auto simp: check_write_root_def split: if_splits)

lemma check_writes:
  "fold_result (check_write_root host meta) ws warns = Ok warns' \<Longrightarrow>
     \<forall>w \<in> set ws. canonical_or host w \<notin> set SYSTEM_WRITE_ROOTS"
proof (induction ws arbitrary: warns)
  case (Cons w ws)
  obtain v where "check_write_root host meta w warns = Ok v" "fold_result (check_write_root host meta) ws v = Ok warns'"
    using Cons.prems by (auto split: sum.splits)
  then show ?case using Cons.IH check_write_root_ok by auto
qed simp

lemma check_ok:
  assumes "check host pol = Ok pol'"
  shows "allow_write pol' = filter (path_exists host) (allow_write pol)"
    "\<forall>w \<in> set (allow_write pol'). canonical_or host w \<notin> set SYSTEM_WRITE_ROOTS"
    "\<exists>ws warns. pol' = pol\<lparr>allow_write := ws, warnings := warns\<rparr>"
  using assms check_writes unfolding check_def Let_def by auto

definition loader_vars :: "LoaderHost \<Rightarrow> path \<Rightarrow> path \<Rightarrow> Vars" where
  "loader_vars host project home = \<lparr>v_project = project, v_home = home, v_runtime_dir = resolve_runtime_dir host\<rparr>"

lemma build_policy_ok:
  assumes "build_policy host profile custom project home tier m agent = Ok pol"
  obtains rp sp where "resolve_paths host (loader_vars host project home) tier m agent = Ok rp"
    "effective_seccomp (m_seccomp_profile m) = Ok sp"
    "check host (assemble_policy profile custom m rp sp) = Ok pol"
  using assms by (auto simp: build_policy_def loader_vars_def Let_def)

text \<open>The write roots, reads and denied entries of a policy that was built.\<close>

lemma built_writes:
  assumes "build_policy host profile custom project home tier m agent = Ok pol" and "w \<in> set (allow_write pol)"
  defines "named \<equiv> names_path host (loader_vars host project home) agent"
  shows "path_exists host w" "canonical_or host w \<notin> set SYSTEM_WRITE_ROOTS"
    "named (m_allow_unix_sockets m) w \<or> named (m_allow_write m) w \<and> \<not> list_ex (path_starts_with w) (deny_write pol)"
    "named (m_deny_unix_sockets m) d \<Longrightarrow> \<not> path_starts_with w d"
    "named (m_deny_write m) d \<Longrightarrow> has_path (deny_write pol) d"
proof -
  obtain rp sp where b: "resolve_paths host (loader_vars host project home) tier m agent = Ok rp"
    "check host (assemble_policy profile custom m rp sp) = Ok pol"
    using build_policy_ok [OF assms(1)] by blast
  have w: "w \<in> set (rp_writes rp)" "path_exists host w"
    using check_ok(1) [OF b(2)] assms(2) by (auto simp: assemble_policy_def)
  then show "path_exists host w" by simp
  show "canonical_or host w \<notin> set SYSTEM_WRITE_ROOTS" using check_ok(2) [OF b(2)] assms(2) by blast
  have dw: "deny_write pol = rp_deny_write rp" using check_ok(3) [OF b(2)] by (auto simp: assemble_policy_def)
  obtain writes where r: "\<And>w. w \<in> set writes \<Longrightarrow> named (m_allow_write m) w"
    "\<And>d. named (m_deny_write m) d \<Longrightarrow> has_path (rp_deny_write rp) d"
    "rp_writes rp = dedup_paths (sort_paths (remove_sockets host (m_deny_unix_sockets m) (loader_vars host project home) agent
       (add_sockets host (m_allow_unix_sockets m) (loader_vars host project home) agent
         (subtract_paths (rp_deny_write rp) writes))))"
    "\<exists>ds. resolve_list host (m_deny_unix_sockets m) (loader_vars host project home) agent = Ok ds"
    using resolve_paths_ok [OF b(1)] stands_for_names unfolding named_def by metis
  have s: "w \<in> set (remove_sockets host (m_deny_unix_sockets m) (loader_vars host project home) agent
       (add_sockets host (m_allow_unix_sockets m) (loader_vars host project home) agent
         (subtract_paths (rp_deny_write rp) writes)))"
    using w(1) set_finish unfolding r(3) by blast
  from remove_sockets_set(1) [OF s r(4)] add_sockets_set
  show "named (m_allow_unix_sockets m) w \<or> named (m_allow_write m) w \<and> \<not> list_ex (path_starts_with w) (deny_write pol)"
    using r(1) unfolding dw named_def by (fastforce simp: subtract_paths_set)
  show "\<not> path_starts_with w d" if "named (m_deny_unix_sockets m) d"
    using remove_sockets_set(2) [OF s r(4)] that unfolding named_def .
  show "has_path (deny_write pol) d" if "named (m_deny_write m) d" using r(2) that dw by simp
qed

lemma built_entries:
  assumes "build_policy host profile custom project home tier m agent = Ok pol"
  obtains deny_set where
    "fold_result (deny_entry host (loader_vars host project home) agent) (all_deny_entries m) ([], []) =
       Ok (deny_set, deny_resolved pol)"
proof -
  obtain rp sp where b: "resolve_paths host (loader_vars host project home) tier m agent = Ok rp"
    "check host (assemble_policy profile custom m rp sp) = Ok pol"
    using build_policy_ok [OF assms(1)] by blast
  have "deny_resolved pol = rp_entries rp" using check_ok(3) [OF b(2)] by (auto simp: assemble_policy_def)
  then show thesis using resolve_paths_ok [OF b(1)] that by metis
qed

text \<open>What is left after the sockets were added and removed.\<close>

lemma finished_member:
  assumes "p \<in> set (dedup_paths (sort_paths (remove_sockets host ds vars agent (add_sockets host es vars agent ps))))"
    and "\<exists>qs. resolve_list host ds vars agent = Ok qs" and "\<not> names_path host vars agent es p"
  shows "p \<in> set ps"
  using set_finish remove_sockets_set(1) [OF _ assms(2)] add_sockets_set assms(1,3) by blast


section \<open>An example\<close>

definition project_merged :: MergedPolicy where
  "project_merged = empty_merged\<lparr>m_allow_write := [''$PROJECT'', ''$PROJECT/gone''], m_allow_read := [''/usr'', ''$PROJECT''],
     m_deny_write := [''$PROJECT/lib''], m_deny_read := [''$PROJECT/.env'']\<rparr>"

lemma project_built:
  "case build_policy project_host ''default'' False ''/p'' ''/home/u'' TierFull project_merged None of
     Inl _ \<Rightarrow> False
   | Inr pol \<Rightarrow> allow_write pol = [''/p''] \<and> allow_read pol = [''/p'', ''/usr''] \<and> deny_write pol = [''/p/lib''] \<and>
       deny_resolved pol = [\<lparr>deny_path = ''/p/.env'', deny_is_dir = False\<rparr>, \<lparr>deny_path = ''/p/lib'', deny_is_dir = True\<rparr>]"
  by code_simp

definition masked_merged :: MergedPolicy where
  "masked_merged = empty_merged\<lparr>m_allow_write := [''$PROJECT''], m_allow_read := [''/usr'']\<rparr>"

lemma masked_resolved:
  defines "v \<equiv> loader_vars project_host ''/p'' ''/home/u''"
  shows "resolve_list project_host (m_allow_write masked_merged) v None = Ok [''/p'']"
    "resolve_list project_host (m_allow_read masked_merged) v None = Ok [''/usr'']"
    "resolve_list project_host (m_deny_write masked_merged) v None = Ok []"
    "resolve_list project_host (m_deny_read masked_merged) v None = Ok []"
    "resolve_list project_host (m_ro_mounts masked_merged) v None = Ok []"
    "all_deny_entries masked_merged = []" "preset_warnings (m_deny_preset masked_merged) = []"
    "lock_caches ''/home/u'' (m_read_only_caches masked_merged) ([''/usr''], [''/p''], []) = ([''/usr''], [''/p''], [])"
    "subtract_paths [] [''/p''] = [''/p'']" "subtract_paths [] [''/usr''] = [''/usr'']"
    "dedup_paths (sort_paths [''/p'']) = [''/p'']"
    "dedup_paths (sort_paths [''/usr'', ''/p/main.rs'', ''/p/lib'']) = [''/p/lib'', ''/p/main.rs'', ''/usr'']"
    "add_sockets project_host (m_allow_unix_sockets masked_merged) v None ps = ps"
    "remove_sockets project_host (m_deny_unix_sockets masked_merged) v None ps = ps"
    "v_home v = ''/home/u''" "v_project v = ''/p''"
proof -
  show "add_sockets project_host (m_allow_unix_sockets masked_merged) v None ps = ps"
    "remove_sockets project_host (m_deny_unix_sockets masked_merged) v None ps = ps"
    "v_home v = ''/home/u''" "v_project v = ''/p''"
    by (simp_all add: add_sockets_def remove_sockets_def masked_merged_def empty_merged_def v_def loader_vars_def)
qed (unfold v_def, code_simp+)

lemma masked_built:
  "case build_policy project_host ''default'' False ''/p'' ''/home/u'' TierFsOnly masked_merged None of
     Inl _ \<Rightarrow> False
   | Inr pol \<Rightarrow> allow_write pol = [''/p''] \<and> allow_read pol = [''/p/lib'', ''/p/main.rs'', ''/usr'']"
proof -
  let ?v = "loader_vars project_host ''/p'' ''/home/u''"
  obtain warns where m: "mask_project_reads_for_fs_only project_host [''/usr''] [''/p''] [] [] ''/p'' =
      Ok ([''/usr'', ''/p/main.rs'', ''/p/lib''], warns)"
    using project_masked by blast
  obtain rp where rp: "resolve_paths project_host ?v TierFsOnly masked_merged None = Ok rp"
    "rp_writes rp = [''/p'']" "rp_reads rp = [''/p/lib'', ''/p/main.rs'', ''/usr'']"
    unfolding resolve_paths_def masked_resolved and_then_simps Let_def by (simp add: masked_resolved m)
  have c: "check_write_root project_host meta ''/p'' ws = Ok ws" for meta ws
    by (simp add: check_write_root_def canonical_or_def home_var_def project_host_def SYSTEM_WRITE_ROOTS_def)
  have s: "effective_seccomp (m_seccomp_profile masked_merged) = Ok ProfileDefault"
    by (simp add: effective_seccomp_def masked_merged_def empty_merged_def)
  show ?thesis
    unfolding build_policy_def loader_vars_def [symmetric] Let_def rp and_then_simps s check_def
    by (simp add: assemble_policy_def rp c path_exists_def) (simp add: project_host_def)
qed

section \<open>The home directory and the repository\<close>

text \<open>
  The check that keeps a policy of the repository from granting the home directory compares
  the entry before variables and the tilde are expanded. The entry with a slash after the tilde
  passes it, and stands for the home directory.
\<close>

theorem repository_reaches_home:
  assumes "canon host ''~/'' = None" and "home_var host = Some h" and "has_root h"
    and "has_root (v_home vars)" and "\<not> has_glob (v_home vars)"
  shows "check_repo_write host ''~/'' = Ok () \<and>
    (\<exists>p. resolve_entry_with_agent host ''~/'' vars agent = [p] \<and> path_eq p (v_home vars))"
proof -
  have r: "replace_all (CHR ''$'' # pat) rep ''~/'' = ''~/''" for pat rep
    by (simp add: replace_all.simps)
  have s: "substitute_with_agent ''~/'' vars agent = v_home vars @ ''/''"
    by (auto simp: substitute_with_agent_def r strip_prefix_def Let_def split: option.splits)
  have "v_home vars \<noteq> []" using assms(4) by auto
  then have c: "path_eq (v_home vars @ ''/'') (v_home vars)"
    using lead_comps_append_sep [of "v_home vars" "CHR ''/''" "[]"] tail_comps_append_sep [of "CHR ''/''" "v_home vars" "[]"]
    by (simp add: path_eq_def components_def)
  have "\<not> has_root ''~/''" by code_simp
  then have "\<not> path_eq ''~/'' h" using assms(3) by (auto simp: path_eq_def has_root_iff)
  moreover have "''~/'' \<notin> set SYSTEM_WRITE_ROOTS" by code_simp
  ultimately have "check_repo_write host ''~/'' = Ok ()"
    using assms(1,2) by (simp add: check_repo_write_def canonical_or_def)
  moreover have "\<not> has_glob ''~/''" "\<not> has_glob (v_home vars @ ''/'')"
    using assms(5) by (auto simp: has_glob_def GLOB_CHARS_def)
  ultimately show ?thesis using s c by (simp add: resolve_entry_with_agent_def Let_def)
qed

section \<open>Properties\<close>

text \<open>
  Property C34 (what a policy lets write). Every write root of a policy that was built exists;
  its canonical form is none of the paths listed in \<open>SYSTEM_WRITE_ROOTS\<close> (a path below one of them
  is not excluded by this); it is below no path that an entry of the denied sockets stands
  for; and either an entry of the allowed sockets stands for it, in which case the denied writes do
  not bear on it, or it comes from an entry that grants writes and is below no path that an entry of
  the denied writes stands for.
\<close>

theorem built_writes_respect_denials:
  assumes "build_policy host profile custom project home tier m agent = Ok pol" and "w \<in> set (allow_write pol)"
  defines "named \<equiv> names_path host (loader_vars host project home) agent"
  shows "path_exists host w \<and> canonical_or host w \<notin> set SYSTEM_WRITE_ROOTS \<and>
    (\<forall>d. named (m_deny_unix_sockets m) d \<longrightarrow> \<not> path_starts_with w d) \<and>
    (named (m_allow_unix_sockets m) w \<or>
     named (m_allow_write m) w \<and> (\<forall>d. named (m_deny_write m) d \<longrightarrow> \<not> path_starts_with w d))"
proof -
  have "\<not> path_starts_with w d" if "named (m_deny_write m) d" "\<not> list_ex (path_starts_with w) (deny_write pol)" for d
    using built_writes(5) [OF assms(1,2)] that path_eq_trans_starts(2) unfolding named_def
    by (fastforce simp: has_path_eq list_ex_iff)
  then show ?thesis using built_writes [OF assms(1,2)] unfolding named_def by blast
qed

theorem built_writes_respect_denials_witness:
  "\<exists>pol. build_policy project_host ''default'' False ''/p'' ''/home/u'' TierFull project_merged None = Ok pol \<and>
     ''/p'' \<in> set (allow_write pol) \<and> path_exists project_host ''/p'' \<and> canonical_or project_host ''/p'' \<notin> set SYSTEM_WRITE_ROOTS"
proof -
  obtain pol where "build_policy project_host ''default'' False ''/p'' ''/home/u'' TierFull project_merged None = Ok pol"
    "''/p'' \<in> set (allow_write pol)"
    using project_built by (auto split: sum.splits)
  with built_writes_respect_denials [OF this] show ?thesis by blast
qed

text \<open>
  Denied paths become masks. Each path that an entry denied by the merged policy
  stands for, in whatever section it was denied, is among the resolved denied paths if it
  exists and is not the agent's own root; and each resolved denied path stands for such an
  entry, exists, and is marked as a directory exactly when it is one.
\<close>

theorem denied_paths_become_masks:
  assumes "build_policy host profile custom project home tier m agent = Ok pol"
  defines "named \<equiv> names_path host (loader_vars host project home) agent (all_deny_entries m)"
  shows "(\<forall>p. named p \<and> \<not> is_agent agent p \<and> (\<forall>q. path_eq q p \<longrightarrow> is_ok (lstat host q)) \<longrightarrow>
      (\<exists>d \<in> set (deny_resolved pol). path_eq (deny_path d) p)) \<and>
    (\<forall>d \<in> set (deny_resolved pol). named (deny_path d) \<and> \<not> is_agent agent (deny_path d) \<and>
      is_ok (lstat host (deny_path d)) \<and> deny_is_dir d = (lstat host (deny_path d) = Ok Directory))"
proof -
  obtain deny_set where e: "fold_result (deny_entry host (loader_vars host project home) agent) (all_deny_entries m) ([], []) =
       Ok (deny_set, deny_resolved pol)"
    using built_entries [OF assms(1)] .
  have i: "denied_inv host (deny_set, deny_resolved pol)"
    and s: "has_path deny_set q \<longleftrightarrow> named q \<and> \<not> is_agent agent q" for q
    using deny_entries [OF e denied_inv_empty] by (auto simp: named_def names_path_def)
  have "\<exists>d \<in> set (deny_resolved pol). path_eq (deny_path d) p"
    if "named p" "\<not> is_agent agent p" "\<forall>q. path_eq q p \<longrightarrow> is_ok (lstat host q)" for p
    using is_denied_entry [OF i, of p] s that by simp
  moreover have "named (deny_path d) \<and> \<not> is_agent agent (deny_path d) \<and>
      is_ok (lstat host (deny_path d)) \<and> deny_is_dir d = (lstat host (deny_path d) = Ok Directory)"
    if "d \<in> set (deny_resolved pol)" for d
    using i s that by (auto simp: denied_inv_def)
  ultimately show ?thesis by blast
qed

theorem denied_paths_become_masks_witness:
  "\<exists>pol. build_policy project_host ''default'' False ''/p'' ''/home/u'' TierFull project_merged None = Ok pol \<and>
     \<lparr>deny_path = ''/p/.env'', deny_is_dir = False\<rparr> \<in> set (deny_resolved pol) \<and>
     names_path project_host (loader_vars project_host ''/p'' ''/home/u'') None (all_deny_entries project_merged) ''/p/.env''"
proof -
  obtain pol where b: "build_policy project_host ''default'' False ''/p'' ''/home/u'' TierFull project_merged None = Ok pol"
    "\<lparr>deny_path = ''/p/.env'', deny_is_dir = False\<rparr> \<in> set (deny_resolved pol)"
    using project_built by (auto split: sum.splits)
  then show ?thesis using denied_paths_become_masks [OF b(1)] by fastforce
qed

text \<open>
  An agent variable needs an agent. When no agent is selected and an entry that
  grants or denies mentions the agent's root, no policy is built; only entries of allowed
  sockets are skipped instead.
\<close>

theorem agent_variable_refused:
  assumes "e \<in> set (m_allow_write m @ m_allow_read m @ m_ro_mounts m @ all_deny_entries m)"
    and "contains_str e ''$AGENT''"
  shows "\<exists>err. build_policy host profile custom project home tier m None = Err err"
proof (cases "build_policy host profile custom project home tier m None")
  case (Inr pol)
  obtain rp where r: "resolve_paths host (loader_vars host project home) tier m None = Ok rp"
    using build_policy_ok [OF Inr] by blast
  have n: "\<not> is_ok (resolve_list host es (loader_vars host project home) None)" if "e \<in> set es" for es
    using resolve_list_iff_agent [of host es "loader_vars host project home" None] assms(2) that by (auto simp: is_ok_iff)
  have "e \<notin> set (all_deny_entries m)"
    using resolve_paths_ok [OF r] deny_entries_agent [OF _ _ assms(2)] by metis
  moreover have "is_ok (resolve_list host (m_allow_write m) (loader_vars host project home) None)"
    "is_ok (resolve_list host (m_allow_read m) (loader_vars host project home) None)"
    "is_ok (resolve_list host (m_ro_mounts m) (loader_vars host project home) None)"
    using r unfolding resolve_paths_def and_then_Inr is_ok_iff by blast+
  ultimately show ?thesis using assms(1) n by auto
qed auto

theorem agent_variable_refused_witness:
  "\<exists>err. build_policy project_host ''default'' False ''/p'' ''/home/u'' TierFull
     (project_merged\<lparr>m_deny_glob := [''$AGENT/*.log'']\<rparr>) None = Err err"
proof -
  have c: "contains_str ''$AGENT/*.log'' ''$AGENT''" by code_simp
  show ?thesis by (rule agent_variable_refused [OF _ c]) (simp add: all_deny_entries_def)
qed

text \<open>
  A policy without mounts hides secrets. On the tier that can only restrict
  paths, take a write root of the built policy that is a rooted directory without parent
  components, not a temporary directory, not an allowed socket, and not overlapping another
  path that write entries stand for. Then no rooted read rule of the policy, other than an
  allowed socket, covers a path below that root that has the shape of a secret, is a
  symbolic link, or is denied by any entry and is not the agent's root.
\<close>

lemma fs_only_policy_hides_secrets:
  assumes "lists_children host" and "build_policy host profile custom project home TierFsOnly m agent = Ok pol"
    and "d \<in> set (allow_write pol)" and "\<not> is_temp_root d" and "lstat host d = Ok Directory"
    and "has_root d" and "ParentDir \<notin> set (components d)"
    and "below host d s" and "g \<in> set (allow_read pol)" and "has_root g"
  defines "named \<equiv> names_path host (loader_vars host project home) agent"
  assumes "\<not> named (m_allow_unix_sockets m) d" and "\<not> named (m_allow_unix_sockets m) g"
    and "\<forall>r. stands_for host (loader_vars host project home) agent (m_allow_write m) r \<longrightarrow> r = d \<or> \<not> paths_overlap r d"
    and "is_secret_shaped s \<or> lstat host s = Ok Symlink \<or> named (all_deny_entries m) s \<and> \<not> is_agent agent s"
  shows "\<not> path_starts_with s g"
proof -
  let ?v = "loader_vars host project home"
  obtain rp sp where b: "resolve_paths host ?v TierFsOnly m agent = Ok rp"
    "check host (assemble_policy profile custom m rp sp) = Ok pol"
    using build_policy_ok [OF assms(2)] by blast
  obtain writes deny_set reads reads' warns where r:
    "\<And>w. w \<in> set writes \<Longrightarrow> stands_for host ?v agent (m_allow_write m) w"
    "fold_result (deny_entry host ?v agent) (all_deny_entries m) ([], []) = Ok (deny_set, rp_entries rp)"
    "mask_project_reads_for_fs_only host reads (subtract_paths (rp_deny_write rp) writes) deny_set
       (preset_warnings (m_deny_preset m)) (v_project ?v) = Ok (reads', warns)"
    "rp_reads rp = dedup_paths (sort_paths (remove_sockets host (m_deny_unix_sockets m) ?v agent
       (add_sockets host (m_allow_unix_sockets m) ?v agent reads')))"
    "rp_writes rp = dedup_paths (sort_paths (remove_sockets host (m_deny_unix_sockets m) ?v agent
       (add_sockets host (m_allow_unix_sockets m) ?v agent (subtract_paths (rp_deny_write rp) writes))))"
    "\<exists>ds. resolve_list host (m_deny_unix_sockets m) ?v agent = Ok ds"
    using resolve_paths_ok [OF b(1)] unfolding named_def by (metis (full_types))
  have d: "d \<in> set (subtract_paths (rp_deny_write rp) writes)"
    using finished_member [OF _ r(6), of d "m_allow_unix_sockets m"] check_ok(1) [OF b(2)] assms(3,12) r(5)
    unfolding named_def by (auto simp: assemble_policy_def)
  have g: "g \<in> set reads'"
    using finished_member [OF _ r(6), of g "m_allow_unix_sockets m"] check_ok(3) [OF b(2)] assms(9,13) r(4)
    unfolding named_def by (auto simp: assemble_policy_def)
  have o: "\<forall>w \<in> set (subtract_paths (rp_deny_write rp) writes). w = d \<or> \<not> paths_overlap w d"
    using r(1) assms(14) by (auto simp: subtract_paths_set)
  have "has_path deny_set s \<longleftrightarrow> named (all_deny_entries m) s \<and> \<not> is_agent agent s"
    using deny_entries [OF r(2) denied_inv_empty] by (auto simp: named_def names_path_def)
  then have "masked host deny_set s"
    using assms(15) by (auto simp: masked_def is_enumeration_excluded_def has_path_eq)
  from masking_covers_no_secret [OF assms(1) r(3) d assms(4-7) o assms(8) this] g assms(10)
  show ?thesis by (auto simp: list_ex_iff)
qed

end
