(* ===== verification/Loader.thy ===== *)
theory Loader
  imports Resolve
begin

text \<open>
  The layered loader \<open>LayeredPolicyLoader::load\<close> of \<open>src/src/policy/loader/merge.rs\<close>: seven tiers
  of policy, from the system's file to the command line, merged in order and built into one
  policy. The loader also creates the directories an agent needs; how the filesystem changes
  by that is the record \<open>HostEffects\<close>, and the tiers after it see the changed host. Warnings
  printed on the terminal are left out.

  The lemmas show that the files consulted are regular files that were read and parsed, that
  they are merged in the order of precedence, and that what any of them denies is in force in
  the policy that is built.
\<close>

section \<open>Options\<close>

record PolicyLoadOptions =
  lo_agent :: "string option"
  lo_preset :: "SecurityPreset option"
  lo_branch :: "string option"
  lo_git_tag :: "string option"
  lo_project_policy :: "path option"
  lo_system_policy :: "path option"
  lo_user_policy :: "path option"
  lo_include_system_policy :: bool
  lo_include_user_policy :: bool
  lo_include_project_policy :: bool
  lo_include_fragments :: bool
  lo_include_local_override :: bool
  lo_require_signed :: bool
  lo_overrides :: PolicyOverrides

definition default_load_options :: PolicyLoadOptions where
  "default_load_options =
     \<lparr>lo_agent = None, lo_preset = None, lo_branch = None, lo_git_tag = None, lo_project_policy = None,
      lo_system_policy = None, lo_user_policy = None, lo_include_system_policy = True,
      lo_include_user_policy = True, lo_include_project_policy = True, lo_include_fragments = True,
      lo_include_local_override = True, lo_require_signed = False, lo_overrides = no_overrides\<rparr>"

record LayeredPolicyLoader =
  ld_system_policy_path :: "path option"
  ld_user_policy_path :: "path option"
  ld_load_system_policy :: bool
  ld_load_user_policy :: bool
  ld_load_fragments :: bool
  ld_load_local_override :: bool
  ld_require_signed :: bool

definition new_loader :: LayeredPolicyLoader where
  "new_loader =
     \<lparr>ld_system_policy_path = None, ld_user_policy_path = None, ld_load_system_policy = True,
      ld_load_user_policy = True, ld_load_fragments = True, ld_load_local_override = True,
      ld_require_signed = False\<rparr>"

section \<open>Files\<close>

definition is_usable_file :: "LoaderHost \<Rightarrow> path \<Rightarrow> bool" where
  "is_usable_file host p = (lstat host p = Ok RegularFile)"

definition failed :: "string \<Rightarrow> LoadError" where
  "failed msg = PolicyFailure (CompilationFailed msg)"

definition read_layer_file :: "LoaderHost \<Rightarrow> path \<Rightarrow> bool \<Rightarrow> (LoadError, string) result" where
  "read_layer_file host p require_signed =
     (if \<not> is_usable_file host p
      then Err (failed (''fail-closed: policy file '' @ quoted p @ '' must be a regular file and not a symlink''))
      else (case read_text host p of
              Inl e \<Rightarrow> Err (failed (''failed to read policy file '' @ p @ '': '' @ e))
            | Inr txt \<Rightarrow> Ok txt))"

definition default_system_policy_path :: "path option" where
  "default_system_policy_path = Some ''/etc/vetto/policy.toml''"

definition default_user_policy_path :: "LoaderHost \<Rightarrow> path \<Rightarrow> path option" where
  "default_user_policy_path host home =
     (let dot_vetto_config = path_join home ''.vetto/config.toml'';
          dot_vetto_policy = path_join home ''.vetto/policy.toml'';
          config_policy = path_join home ''.config/vetto/policy.toml''
      in if is_usable_file host dot_vetto_config then Some dot_vetto_config
         else if is_usable_file host dot_vetto_policy then Some dot_vetto_policy
         else (case env_var host ''XDG_CONFIG_HOME'' of
                 Some xdg \<Rightarrow>
                   if is_usable_file host (path_join xdg ''vetto/policy.toml'')
                   then Some (path_join xdg ''vetto/policy.toml'') else Some config_policy
               | None \<Rightarrow> Some config_policy))"

definition same_file_path :: "LoaderHost \<Rightarrow> path \<Rightarrow> path \<Rightarrow> bool option" where
  "same_file_path host left right =
     (case (canon host left, canon host right) of
        (Some l, Some r) \<Rightarrow> Some (path_eq l r)
      | _ \<Rightarrow> None)"

text \<open>\<open>Path::extension\<close>: what follows the last dot of the file name, unless nothing precedes it.\<close>

definition path_extension :: "path \<Rightarrow> string option" where
  "path_extension p =
     (case file_name p of
        None \<Rightarrow> None
      | Some name \<Rightarrow>
          (let ext = rev (takeWhile (\<lambda>c. c \<noteq> CHR ''.'') (rev name));
               stem = butlast (take (length name - length ext) name)
           in if CHR ''.'' \<in> set name \<and> stem \<noteq> [] then Some ext else None))"

text \<open>Read, parse and merge one file.\<close>

definition load_file ::
    "LoaderHost \<Rightarrow> bool \<Rightarrow> string list \<Rightarrow> path \<times> string \<times> PolicySourceKind \<Rightarrow> MergedPolicy \<Rightarrow>
     (LoadError, MergedPolicy) result" where
  "load_file host require_signed stack = (\<lambda>(p, label, kind) m.
     and_then (read_layer_file host p require_signed) (\<lambda>txt.
       case parse_layer host txt label of
         Inl e \<Rightarrow> Err (PolicyFailure e)
       | Inr layer \<Rightarrow> merge_layer host layer label stack kind m))"

definition load_files ::
    "LoaderHost \<Rightarrow> bool \<Rightarrow> string list \<Rightarrow> (path \<times> string \<times> PolicySourceKind) list \<Rightarrow> MergedPolicy \<Rightarrow>
     (LoadError, MergedPolicy) result" where
  "load_files host require_signed stack files m =
     fold_result (\<lambda>f m. load_file host (m_require_signed m \<or> require_signed) stack f m) files m"

section \<open>Which files the tiers read\<close>

definition system_files :: "LoaderHost \<Rightarrow> LayeredPolicyLoader \<Rightarrow> PolicyLoadOptions \<Rightarrow> (path \<times> string \<times> PolicySourceKind) list" where
  "system_files host ld opts =
     (if ld_load_system_policy ld \<and> lo_include_system_policy opts
      then (let sys_path = (case lo_system_policy opts of
                              Some p \<Rightarrow> Some p
                            | None \<Rightarrow> (case ld_system_policy_path ld of
                                         Some p \<Rightarrow> Some p
                                       | None \<Rightarrow> default_system_policy_path))
            in case sys_path of
                 Some p \<Rightarrow> if stat host p = Some RegularFile then [(p, ''system:'' @ p, SystemGlobal)] else []
               | None \<Rightarrow> [])
      else [])"

definition user_files ::
    "LoaderHost \<Rightarrow> LayeredPolicyLoader \<Rightarrow> PolicyLoadOptions \<Rightarrow> path \<Rightarrow> (path \<times> string \<times> PolicySourceKind) list" where
  "user_files host ld opts home =
     (if ld_load_user_policy ld \<and> lo_include_user_policy opts
      then (let user_path = (case lo_user_policy opts of
                               Some p \<Rightarrow> Some p
                             | None \<Rightarrow> (case ld_user_policy_path ld of
                                          Some p \<Rightarrow> Some p
                                        | None \<Rightarrow> default_user_policy_path host home))
            in case user_path of
                 Some p \<Rightarrow> if stat host p = Some RegularFile then [(p, ''user:'' @ p, UserGlobal)] else []
               | None \<Rightarrow> [])
      else [])"

text \<open>The policy of the repository: the path named by the options, or the first candidate that
  is a regular file.\<close>

definition project_policy_path :: "LoaderHost \<Rightarrow> PolicyLoadOptions \<Rightarrow> path \<Rightarrow> path option" where
  "project_policy_path host opts project =
     (case lo_project_policy opts of
        Some p \<Rightarrow> Some p
      | None \<Rightarrow> find (is_usable_file host)
                  [path_join project ''.vetto/policy.toml'', path_join project ''policy.toml'', path_join project ''vetto.toml''])"

definition project_path :: "LoaderHost \<Rightarrow> PolicyLoadOptions \<Rightarrow> path \<Rightarrow> path option" where
  "project_path host opts project =
     (if lo_include_project_policy opts then project_policy_path host opts project else None)"

definition project_files :: "LoaderHost \<Rightarrow> PolicyLoadOptions \<Rightarrow> path \<Rightarrow> (path \<times> string \<times> PolicySourceKind) list" where
  "project_files host opts project =
     (case project_path host opts project of Some p \<Rightarrow> [(p, p, Repository)] | None \<Rightarrow> [])"

definition is_fragment :: "LoaderHost \<Rightarrow> path \<Rightarrow> bool" where
  "is_fragment host p = (is_usable_file host p \<and> path_extension p = Some ''toml'')"

definition fragment_files ::
    "LoaderHost \<Rightarrow> LayeredPolicyLoader \<Rightarrow> PolicyLoadOptions \<Rightarrow> path \<Rightarrow> (path \<times> string \<times> PolicySourceKind) list" where
  "fragment_files host ld opts project =
     (if lo_include_project_policy opts \<and> ld_load_fragments ld \<and> lo_include_fragments opts
      then (let fragments_dir = path_join project ''.vetto/policy.d''
            in if stat host fragments_dir = Some Directory
               then (case read_dir host fragments_dir of
                       Inl _ \<Rightarrow> []
                     | Inr entries \<Rightarrow>
                         map (\<lambda>p. (p, p, RepositoryFragment))
                           (sort_paths (filter (is_fragment host) [p. Inr p \<leftarrow> entries])))
               else [])
      else [])"

definition override_files ::
    "LoaderHost \<Rightarrow> LayeredPolicyLoader \<Rightarrow> PolicyLoadOptions \<Rightarrow> path \<Rightarrow> (path \<times> string \<times> PolicySourceKind) list" where
  "override_files host ld opts project =
     (if ld_load_local_override ld \<and> lo_include_local_override opts
      then (case find (is_usable_file host) [path_join project ''.vetto.override.toml'', path_join project ''.vetto/local.toml''] of
              Some p \<Rightarrow> [(p, ''override:'' @ p, LocalOverride)]
            | None \<Rightarrow> [])
      else [])"

definition custom_files ::
    "LoaderHost \<Rightarrow> PolicyLoadOptions \<Rightarrow> path \<Rightarrow> path option \<Rightarrow> (path \<times> string \<times> PolicySourceKind) list" where
  "custom_files host opts project custom_path =
     (case custom_path of
        None \<Rightarrow> []
      | Some p \<Rightarrow>
          if (case project_path host opts project of
                Some q \<Rightarrow> same_file_path host q p = Some True
              | None \<Rightarrow> False)
          then [] else [(p, ''cli:'' @ p, CliExplicit)])"

section \<open>Directories of agents\<close>

datatype SetupStep = MakeDir string | WriteIfMissing string string

record HostEffects =
  create_dir_all :: "path \<Rightarrow> LoaderHost \<Rightarrow> LoaderHost"
  write_file :: "path \<Rightarrow> string \<Rightarrow> LoaderHost \<Rightarrow> LoaderHost"

fun setup_step :: "HostEffects \<Rightarrow> path \<Rightarrow> SetupStep \<Rightarrow> LoaderHost \<Rightarrow> LoaderHost" where
  "setup_step fx home (MakeDir d) host = create_dir_all fx (path_join home d) host"
| "setup_step fx home (WriteIfMissing f contents) host =
     (if path_exists host (path_join home f) then host else write_file fx (path_join home f) contents host)"

definition AGENT_SETUP_1 :: "(string \<times> SetupStep list) list" where
  "AGENT_SETUP_1 =
     [(''codex'', [MakeDir ''.config/codex'', MakeDir ''.codex/plugins'',
         MakeDir ''.codex/skills'', MakeDir ''.local/share/codex'']),
      (''claude'', [MakeDir ''.claude/plugins'', MakeDir ''.claude/skills'',
         MakeDir ''.config/claude'', MakeDir ''.config/claude-code'',
         MakeDir ''.local/share/claude'', WriteIfMissing ''.claude.json'' ''{}'']),
      (''antigravity'', [MakeDir ''.gemini/antigravity/plugins'', MakeDir ''.gemini/config/plugins'',
         MakeDir ''.gemini/config/skills'']),
      (''opencode'', [MakeDir ''.local/share/opencode/log'', MakeDir ''.local/state/opencode'',
         MakeDir ''.config/opencode'', MakeDir ''.config/opencode/plugins'',
         MakeDir ''.local/share/opencode/plugins'']),
      (''smolagents'', [MakeDir ''.cache/huggingface'', MakeDir ''.cache/transformers'',
         MakeDir ''.cache/torch'']),
      (''amp'', [MakeDir ''.amp'', MakeDir ''.config/amp'', MakeDir ''.local/share/amp'']),
      (''omp'', [MakeDir ''.config/omp'', MakeDir ''.omp'']),
      (''zcode'', [MakeDir ''.zcode'', MakeDir ''.config/zcode'']),
      (''kimi'', [MakeDir ''.kimi'', MakeDir ''.config/kimi'']),
      (''grok'', [MakeDir ''.grok'', MakeDir ''.config/grok'']),
      (''hermes'', [MakeDir ''.hermes'', MakeDir ''.config/hermes'']),
      (''kilo'', [MakeDir ''.kilo'', MakeDir ''.config/kilo'']),
      (''pi'', [MakeDir ''.pi'', MakeDir ''.config/pi'']),
      (''command_code'', [MakeDir ''.command-code'', MakeDir ''.config/command-code'']),
      (''freebuff'', [MakeDir ''.freebuff'', MakeDir ''.config/freebuff'']),
      (''deepseek_harness'', [MakeDir ''.deepseek'', MakeDir ''.config/deepseek''])]"

definition AGENT_SETUP_2 :: "(string \<times> SetupStep list) list" where
  "AGENT_SETUP_2 =
     [(''omnigent'', [MakeDir ''.omnigent'', MakeDir ''.config/omnigent'']),
      (''crewai'', [MakeDir ''.crewai'', MakeDir ''.config/crewai'']),
      (''autogen'', [MakeDir ''.autogen'', MakeDir ''.autogenstudio'', MakeDir ''.config/autogen'']),
      (''aider'', [MakeDir ''.aider'', MakeDir ''.config/aider'',
         WriteIfMissing ''.aider.conf.yml'' []]),
      (''cursor'', [MakeDir ''.config/Cursor'', MakeDir ''.cursor/plugins'',
         MakeDir ''.cursor/skills'']),
      (''cline'', [MakeDir ''.cline'', MakeDir ''.config/cline'']),
      (''windsurf'', [MakeDir ''.codeium'', MakeDir ''.windsurf'', MakeDir ''.config/windsurf'']),
      (''goose'', [MakeDir ''.config/goose'', MakeDir ''.goose/plugins'',
         MakeDir ''.goose/skills'']),
      (''openhands'', [MakeDir ''.openhands'', MakeDir ''.config/openhands'',
         MakeDir ''.openhands/plugins'', MakeDir ''.openhands/skills'']),
      (''devin'', [MakeDir ''.devin'', MakeDir ''.config/devin'', MakeDir ''.devin/plugins'',
         MakeDir ''.devin/skills'']),
      (''copilot'', [MakeDir ''.config/github-copilot'', MakeDir ''.copilot/plugins'',
         MakeDir ''.copilot/skills'']),
      (''custom'', [MakeDir ''.config/vetto/agents/custom/plugins'',
         MakeDir ''.config/vetto/agents/custom/skills'']),
      (''swebench'', [MakeDir ''.swebench'']),
      (''qwen_code'', [MakeDir ''.qwen'', MakeDir ''.config/qwen'']),
      (''roo_code'', [MakeDir ''.roo'', MakeDir ''.config/roo'']),
      (''browser_use'', [MakeDir ''.browser-use'', MakeDir ''.config/browser-use''])]"

definition BROWSER_SETUP :: "SetupStep list" where
  "BROWSER_SETUP = [MakeDir ''.cache/ms-playwright'', MakeDir ''.cache/puppeteer'']"

definition COMMON_SETUP :: "SetupStep list" where
  "COMMON_SETUP = [MakeDir ''.npm/_npx'', MakeDir ''.cache/uv'', MakeDir ''.local/share/uv'', MakeDir ''.bun/install/cache'',
     MakeDir ''.cache/ms-playwright'', MakeDir ''.cache/puppeteer'']"

definition agent_setup :: "string \<Rightarrow> SetupStep list" where
  "agent_setup agent =
     (case canonical_agent_name agent of
        None \<Rightarrow> []
      | Some c \<Rightarrow> (case map_of (AGENT_SETUP_1 @ AGENT_SETUP_2) c of Some steps \<Rightarrow> steps | None \<Rightarrow> []))"

definition prepare_agent ::
    "HostEffects \<Rightarrow> path \<Rightarrow> string option \<Rightarrow> LoaderHost \<Rightarrow> (LoadError, path option \<times> LoaderHost) result" where
  "prepare_agent fx home agent host =
     (let host = fold (setup_step fx home) BROWSER_SETUP host
      in case agent of
           None \<Rightarrow> Ok (None, host)
         | Some a \<Rightarrow>
             (case agent_root home a of
                Inl e \<Rightarrow> Err (failed e)
              | Inr p \<Rightarrow>
                  Ok (Some p, fold (setup_step fx home) (agent_setup a @ COMMON_SETUP) (create_dir_all fx p host))))"

section \<open>The loader\<close>

definition initial_merged :: "string \<Rightarrow> bool \<Rightarrow> MergedPolicy" where
  "initial_merged profile custom =
     empty_merged\<lparr>m_metadata := default_metadata\<lparr>meta_name := (if custom then ''custom:'' @ profile else profile)\<rparr>\<rparr>"

definition profile_tier ::
    "LoaderHost \<Rightarrow> string \<Rightarrow> bool \<Rightarrow> MergedPolicy \<Rightarrow> (LoadError, string list \<times> MergedPolicy) result" where
  "profile_tier host profile custom m =
     (case builtin host profile of
        None \<Rightarrow>
          if custom then Ok ([], m)
          else Err (failed (''unknown profile '' @ quoted profile @ ''; known profiles: '' @ join_with '', '' PROFILE_NAMES))
      | Some txt \<Rightarrow>
          (case parse_layer host txt profile of
             Inl e \<Rightarrow> Err (PolicyFailure e)
           | Inr base \<Rightarrow>
               and_then (merge_layer host base profile [profile] BuiltinProfile
                 (if layer_environment base = None \<and> m_pass_through m = []
                  then m\<lparr>m_pass_through := DEFAULT_ENV_PASSTHROUGH\<rparr> else m))
                 (\<lambda>m. Ok ([profile], m))))"

definition preset_tier ::
    "LoaderHost \<Rightarrow> string list \<Rightarrow> PolicyLoadOptions \<Rightarrow> MergedPolicy \<Rightarrow> (LoadError, MergedPolicy) result" where
  "preset_tier host stack opts m =
     (case lo_preset opts of
        None \<Rightarrow> Ok m
      | Some preset \<Rightarrow>
          merge_layer host (preset_layer host preset (lo_agent opts)) (''preset:'' @ preset_as_str preset) stack Preset
            (m\<lparr>m_active_preset := Some preset\<rparr>))"

definition agent_tier ::
    "LoaderHost \<Rightarrow> string list \<Rightarrow> PolicyLoadOptions \<Rightarrow> MergedPolicy \<Rightarrow> (LoadError, MergedPolicy) result" where
  "agent_tier host stack opts m =
     (case lo_agent opts of
        None \<Rightarrow> Ok m
      | Some agent \<Rightarrow>
          (case agent_builtin host agent of
             None \<Rightarrow> Err (failed (''unknown agent '' @ quoted agent @ ''; known agents: '' @
                                  join_with '', '' AGENT_PROFILE_NAMES))
           | Some txt \<Rightarrow>
               (case parse_layer host txt (''agent:'' @ agent) of
                  Inl e \<Rightarrow> Err (PolicyFailure e)
                | Inr layer \<Rightarrow> merge_layer host layer (''agent:'' @ agent) stack AgentPreset m)))"

definition check_project_symlink :: "LoaderHost \<Rightarrow> PolicyLoadOptions \<Rightarrow> (LoadError, unit) result" where
  "check_project_symlink host opts =
     (case lo_project_policy opts of
        Some p \<Rightarrow>
          if lo_include_project_policy opts \<and> lstat host p = Ok Symlink
          then Err (failed (''project policy file '' @ quoted p @ '' must not be a symlink''))
          else Ok ()
      | None \<Rightarrow> Ok ())"

definition late_files ::
    "LoaderHost \<Rightarrow> LayeredPolicyLoader \<Rightarrow> PolicyLoadOptions \<Rightarrow> path \<Rightarrow> path option \<Rightarrow> (path \<times> string \<times> PolicySourceKind) list" where
  "late_files host ld opts project custom_path =
     project_files host opts project @ fragment_files host ld opts project @
     override_files host ld opts project @ custom_files host opts project custom_path"

definition finish_load ::
    "LoaderHost \<Rightarrow> string \<Rightarrow> bool \<Rightarrow> path \<Rightarrow> path \<Rightarrow> Tier \<Rightarrow> path option \<Rightarrow> MergedPolicy \<Rightarrow> (LoadError, Policy) result" where
  "finish_load host profile custom project home tier agent m =
     (let m = deduplicate m
      in if m_allow_write m = []
         then Err (failed ''effective policy has no filesystem.allow_write roots'')
         else build_policy host profile custom project home tier m agent)"

definition load ::
    "HostEffects \<Rightarrow> LoaderHost \<Rightarrow> LayeredPolicyLoader \<Rightarrow> string \<Rightarrow> path option \<Rightarrow> path \<Rightarrow> path \<Rightarrow> Tier \<Rightarrow>
     PolicyLoadOptions \<Rightarrow> (LoadError, Policy) result" where
  "load fx host ld profile custom_path project home tier opts =
     (let req_signed = lo_require_signed opts \<or> ld_require_signed ld;
          custom = (custom_path \<noteq> None)
      in and_then (load_files host req_signed [] (system_files host ld opts @ user_files host ld opts home)
                     (initial_merged profile custom)) (\<lambda>m.
         and_then (profile_tier host profile custom m) (\<lambda>(stack, m).
         and_then (preset_tier host stack opts m) (\<lambda>m.
         and_then (prepare_agent fx home (lo_agent opts) host) (\<lambda>(agent, host).
         and_then (agent_tier host stack opts m) (\<lambda>m.
         and_then (check_project_symlink host opts) (\<lambda>_.
         and_then (load_files host req_signed stack (late_files host ld opts project custom_path) m) (\<lambda>m.
         and_then (apply_overrides (lo_overrides opts) m) (\<lambda>m.
           finish_load host profile custom project home tier agent m)))))))))"

definition load_with_options ::
    "HostEffects \<Rightarrow> LoaderHost \<Rightarrow> string \<Rightarrow> path option \<Rightarrow> path \<Rightarrow> path \<Rightarrow> Tier \<Rightarrow> PolicyLoadOptions \<Rightarrow>
     (LoadError, Policy) result" where
  "load_with_options fx host profile custom_path project home tier opts =
     load fx host new_loader profile custom_path project home tier opts"

definition load_profile ::
    "HostEffects \<Rightarrow> LoaderHost \<Rightarrow> string \<Rightarrow> path option \<Rightarrow> path \<Rightarrow> path \<Rightarrow> Tier \<Rightarrow> (LoadError, Policy) result" where
  "load_profile fx host profile custom_path project home tier =
     load_with_options fx host profile custom_path project home tier
       (default_load_options\<lparr>lo_include_project_policy := False, lo_include_system_policy := False,
          lo_include_user_policy := False, lo_include_fragments := False, lo_include_local_override := False\<rparr>)"

section \<open>Lemmas on files\<close>

text \<open>A policy file: a regular file whose text was read and parsed.\<close>

definition file_layer :: "LoaderHost \<Rightarrow> path \<Rightarrow> string \<Rightarrow> RawLayer \<Rightarrow> bool" where
  "file_layer host p label layer \<longleftrightarrow>
     is_usable_file host p \<and> (\<exists>txt. read_text host p = Ok txt \<and> parse_layer host txt label = Ok layer)"

lemma file_layer_unique: "file_layer host p label l1 \<Longrightarrow> file_layer host p label l2 \<Longrightarrow> l1 = l2"
  by (auto simp: file_layer_def)

lemma load_file_ok:
  "load_file host req stack (p, label, kind) m = Ok m' \<longleftrightarrow>
     (\<exists>layer. file_layer host p label layer \<and> merge_layer host layer label stack kind m = Ok m')"
  by (auto simp: load_file_def read_layer_file_def file_layer_def split: sum.splits)

text \<open>Every file of a list that was loaded was merged at some moment, and the rest after it.\<close>

lemma load_files_split:
  assumes "load_files host req stack files m = Ok m'" and "(p, label, kind) \<in> set files"
  obtains layer a b gs where "file_layer host p label layer" "merge_layer host layer label stack kind a = Ok b"
    "load_files host req stack gs b = Ok m'"
proof -
  let ?f = "\<lambda>f m. load_file host (m_require_signed m \<or> req) stack f m"
  obtain xs ys where fs: "files = xs @ (p, label, kind) # ys" using assms(2) by (auto dest: split_list)
  obtain a b where "?f (p, label, kind) a = Ok b" "fold_result ?f ys b = Ok m'"
    using assms(1) unfolding load_files_def fs fold_result_append_ok fold_result_Cons_ok by blast
  then show thesis using that by (auto simp: load_file_ok load_files_def)
qed

section \<open>The course of a load\<close>

text \<open>The merged policy \<open>m\<close> that a load arrives at, with the agent's root and the host as the later
  tiers see it.\<close>

definition loaded_from ::
    "HostEffects \<Rightarrow> LoaderHost \<Rightarrow> LayeredPolicyLoader \<Rightarrow> string \<Rightarrow> path option \<Rightarrow> path \<Rightarrow> path \<Rightarrow> PolicyLoadOptions \<Rightarrow>
     path option \<Rightarrow> LoaderHost \<Rightarrow> MergedPolicy \<Rightarrow> bool" where
  "loaded_from fx host ld profile custom_path project home opts agent host' m \<longleftrightarrow>
     (\<exists>early stack prof pre ag late over.
        load_files host (lo_require_signed opts \<or> ld_require_signed ld) []
          (system_files host ld opts @ user_files host ld opts home) (initial_merged profile (custom_path \<noteq> None)) = Ok early \<and>
        profile_tier host profile (custom_path \<noteq> None) early = Ok (stack, prof) \<and>
        preset_tier host stack opts prof = Ok pre \<and>
        prepare_agent fx home (lo_agent opts) host = Ok (agent, host') \<and>
        agent_tier host' stack opts pre = Ok ag \<and> check_project_symlink host' opts = Ok () \<and>
        load_files host' (lo_require_signed opts \<or> ld_require_signed ld) stack
          (late_files host' ld opts project custom_path) ag = Ok late \<and>
        apply_overrides (lo_overrides opts) late = Ok over \<and> m = deduplicate over)"

lemma load_ok:
  "load fx host ld profile custom_path project home tier opts = Ok pol \<longleftrightarrow>
     (\<exists>agent host' m. loaded_from fx host ld profile custom_path project home opts agent host' m \<and>
        m_allow_write m \<noteq> [] \<and>
        build_policy host' profile (custom_path \<noteq> None) project home tier m agent = Ok pol)"
  unfolding load_def loaded_from_def Let_def and_then_Inr finish_load_def
  by (simp split: prod.splits if_splits) blast

lemma loaded_prepared:
  "loaded_from fx host ld profile custom_path project home opts agent host' m \<Longrightarrow>
     prepare_agent fx home (lo_agent opts) host = Ok (agent, host')"
  unfolding loaded_from_def by blast

text \<open>A layer that comes from a file the loader consults: the first two tiers see the host as it
  was, the later ones the host prepared for the agent.\<close>

definition consulted ::
    "HostEffects \<Rightarrow> LoaderHost \<Rightarrow> LayeredPolicyLoader \<Rightarrow> path option \<Rightarrow> path \<Rightarrow> path \<Rightarrow> PolicyLoadOptions \<Rightarrow>
     path \<Rightarrow> RawLayer \<Rightarrow> PolicySourceKind \<Rightarrow> bool" where
  "consulted fx host ld custom_path project home opts f layer kind \<longleftrightarrow>
     (\<exists>label. (f, label, kind) \<in> set (system_files host ld opts @ user_files host ld opts home) \<and>
        file_layer host f label layer) \<or>
     (\<exists>label agent host'. prepare_agent fx home (lo_agent opts) host = Ok (agent, host') \<and>
        (f, label, kind) \<in> set (late_files host' ld opts project custom_path) \<and> file_layer host' f label layer)"

section \<open>What survives a load\<close>

text \<open>The interface for statements that hold of the whole load: an order on merged policies that
  each step respects, and a property of layers that a merge establishes and the order keeps.\<close>

locale load_order = preorder_steps le for le :: "MergedPolicy \<Rightarrow> MergedPolicy \<Rightarrow> bool" +
  fixes holds :: "RawLayer \<Rightarrow> MergedPolicy \<Rightarrow> bool"
  assumes merge_le: "merge_layer host layer source stack kind m = Ok m' \<Longrightarrow> le m m'"
    and merge_holds: "merge_layer host layer source stack kind m = Ok m' \<Longrightarrow> holds layer m'"
    and holds_mono: "holds layer m \<Longrightarrow> le m m' \<Longrightarrow> holds layer m'"
    and pass_le: "le m (m\<lparr>m_pass_through := xs\<rparr>)"
    and preset_le: "le m (m\<lparr>m_active_preset := x\<rparr>)"
    and overrides_le: "apply_overrides ov m = Ok m' \<Longrightarrow> le m m'"
    and dedup_le: "le m (deduplicate m)"
begin

lemma load_files_le: "load_files host req stack files m = Ok m' \<Longrightarrow> le m m'"
  unfolding load_files_def by (erule fold_result_le) (auto simp: load_file_ok split_paired_all dest: merge_le)

lemma load_files_holds:
  assumes "load_files host req stack files m = Ok m'" and "(p, label, kind) \<in> set files" and "file_layer host p label layer"
  shows "holds layer m'"
  using load_files_split [OF assms(1,2)] file_layer_unique [OF assms(3)] merge_holds holds_mono load_files_le by metis

lemma profile_tier_le: "profile_tier host profile custom m = Ok (stack, m') \<Longrightarrow> le m m'"
  by (auto simp: profile_tier_def le_refl split: option.splits sum.splits if_splits dest!: merge_le intro: le_trans pass_le)

lemma preset_tier_le: "preset_tier host stack opts m = Ok m' \<Longrightarrow> le m m'"
  by (auto simp: preset_tier_def le_refl split: option.splits dest!: merge_le intro: le_trans preset_le)

lemma agent_tier_le: "agent_tier host stack opts m = Ok m' \<Longrightarrow> le m m'"
  by (auto simp: agent_tier_def le_refl split: option.splits sum.splits dest!: merge_le)

lemma load_holds:
  assumes "loaded_from fx host ld profile custom_path project home opts agent host' m"
    and "consulted fx host ld custom_path project home opts f layer kind"
  shows "holds layer m"
proof -
  obtain early stack prof pre ag late over where l:
    "load_files host (lo_require_signed opts \<or> ld_require_signed ld) []
       (system_files host ld opts @ user_files host ld opts home) (initial_merged profile (custom_path \<noteq> None)) = Ok early"
    "profile_tier host profile (custom_path \<noteq> None) early = Ok (stack, prof)"
    "preset_tier host stack opts prof = Ok pre"
    "prepare_agent fx home (lo_agent opts) host = Ok (agent, host')"
    "agent_tier host' stack opts pre = Ok ag"
    "load_files host' (lo_require_signed opts \<or> ld_require_signed ld) stack
       (late_files host' ld opts project custom_path) ag = Ok late"
    "apply_overrides (lo_overrides opts) late = Ok over" "m = deduplicate over"
    using assms(1) unfolding loaded_from_def by (elim exE conjE)
  have late: "le late m" using overrides_le [OF l(7)] dedup_le le_trans l(8) by blast
  have early: "le early m"
    using profile_tier_le [OF l(2)] preset_tier_le [OF l(3)] agent_tier_le [OF l(5)] load_files_le [OF l(6)] late
    by (blast intro: le_trans)
  from assms(2) show ?thesis
    unfolding consulted_def
  proof (elim disjE exE conjE)
    fix label assume "(f, label, kind) \<in> set (system_files host ld opts @ user_files host ld opts home)" "file_layer host f label layer"
    then show ?thesis using load_files_holds [OF l(1)] early holds_mono by blast
  next
    fix label agent' host'' assume "prepare_agent fx home (lo_agent opts) host = Ok (agent', host'')"
      "(f, label, kind) \<in> set (late_files host'' ld opts project custom_path)" "file_layer host'' f label layer"
    then have "holds layer late" using l(4) load_files_holds [OF l(6)] by auto
    then show ?thesis using late holds_mono by blast
  qed
qed

end

lemma merge_layer_denials:
  assumes "merge_layer host layer source stack kind m = Ok m'"
  shows "denials m \<subseteq> denials m'" "layer_denials layer \<subseteq> denials m'"
proof -
  obtain a where "merge_parents host source stack (parents_of layer) m = Ok a" "apply_layer host layer kind a = Ok m'"
    using assms by (auto simp: merge_layer.simps split: sum.splits)
  then show "denials m \<subseteq> denials m'" "layer_denials layer \<subseteq> denials m'"
    using denial_order.merge_le(1) [OF _ _ assms] apply_layer_denials by (auto simp: keeps_denials_def)
qed

interpretation load_denials: load_order "\<lambda>m m'. denials m \<subseteq> denials m'" "\<lambda>layer m. layer_denials layer \<subseteq> denials m"
  by unfold_locales
     (auto simp: deduplicate_denials dest: merge_layer_denials apply_overrides_denials, simp_all add: denials_def)

text \<open>The limits a layer asks for, the size of files apart.\<close>

definition limits_bound :: "RawLayer \<Rightarrow> ResourceLimits \<Rightarrow> bool" where
  "limits_bound layer l \<longleftrightarrow>
     (\<forall>raw. layer_limits layer = Some raw \<longrightarrow>
        limits_merge_strictest (but_size l) (but_size (to_resource_limits raw)) = but_size l)"

lemma merge_layer_limits_bound:
  assumes "merge_layer host layer source stack kind m = Ok m'"
  shows "limits_bound layer (m_limits m')"
proof -
  obtain a where "apply_layer host layer kind a = Ok m'"
    using assms by (auto simp: merge_layer.simps split: sum.splits)
  from apply_layer_limits [OF this] show ?thesis
    by (auto simp: limits_bound_def merge_limits_but_size limits_absorb)
qed

lemma overrides_limits:
  assumes "apply_overrides ov m = Ok m'"
  shows "tightens_but_size m m'"
proof -
  have "m_limits m' = (case o_limits ov of None \<Rightarrow> m_limits m | Some lims \<Rightarrow> limits_merge_strictest (m_limits m) lims)"
    using assms by (auto simp: apply_overrides_def split: if_splits)
  moreover have "but_size (limits_merge_strictest a b) = limits_merge_strictest (but_size a) (but_size b)" for a b
    by (simp add: but_size_def limits_merge_strictest_def)
  ultimately show ?thesis
    by (auto simp: tightens_but_size_def limits_absorb limits_merge.merge_idem split: option.splits)
qed

interpretation load_limits: load_order tightens_but_size "\<lambda>layer m. limits_bound layer (m_limits m)"
proof unfold_locales
  show "tightens_but_size m m'" if "merge_layer host layer source stack kind m = Ok m'" for host layer source stack kind m m'
    using size_order.merge_le(1) [OF _ _ that] by simp
  show "limits_bound layer (m_limits m')" if "limits_bound layer (m_limits m)" "tightens_but_size m m'" for layer m m'
    using that limits_order_trans unfolding limits_bound_def tightens_but_size_def by blast
qed (auto simp: tightens_but_size_def deduplicate_def limits_merge.merge_idem
      dest: merge_layer_limits_bound overrides_limits [unfolded tightens_but_size_def])

section \<open>Lemmas on the policy that is loaded\<close>

lemma built_fields:
  assumes "build_policy host profile custom project home tier m agent = Ok pol"
  shows "limits pol = m_limits m" "is_immutable pol = m_is_immutable m" "git_guard pol = m_git_guard m"
    "auto_deny_secrets pol = m_auto_deny_secrets m" "allow_unix_sockets pol = m_allow_unix_sockets m"
    "env_deny (environment pol) = normalize_env_patterns (m_deny_env m)"
proof -
  obtain rp sp where "check host (assemble_policy profile custom m rp sp) = Ok pol"
    using build_policy_ok [OF assms] by blast
  from check_ok(3) [OF this]
  show "limits pol = m_limits m" "is_immutable pol = m_is_immutable m" "git_guard pol = m_git_guard m"
    "auto_deny_secrets pol = m_auto_deny_secrets m" "allow_unix_sockets pol = m_allow_unix_sockets m"
    "env_deny (environment pol) = normalize_env_patterns (m_deny_env m)"
    by (auto simp: assemble_policy_def)
qed

lemma set_normalize_env_patterns: "set (normalize_env_patterns ps) = {p \<in> set ps. is_env_pattern p}"
  by (auto simp: normalize_env_patterns_def)

text \<open>The entries a denial adds to the paths that are denied.\<close>

fun denial_entries :: "denial \<Rightarrow> string list" where
  "denial_entries (DenyWrite e) = [e]"
| "denial_entries (DenyRead e) = [e]"
| "denial_entries (DenyPath e) = [e]"
| "denial_entries (DenyGlob e) = [e]"
| "denial_entries (DenySocket e) = [e]"
| "denial_entries (DenyPreset name) = preset_entries [name]"
| "denial_entries _ = []"

lemma denial_entries_denied: "d \<in> denials m \<Longrightarrow> set (denial_entries d) \<subseteq> set (all_deny_entries m)"
  by (auto simp: denials_def all_deny_entries_def preset_entries_def)

lemma denials_members:
  "DenyWrite e \<in> denials m \<longleftrightarrow> e \<in> set (m_deny_write m)" "DenyEnv e \<in> denials m \<longleftrightarrow> e \<in> set (m_deny_env m)"
  "Lockdown \<in> denials m \<longleftrightarrow> m_is_immutable m" "GitGuard \<in> denials m \<longleftrightarrow> m_git_guard m"
  "AutoDeny \<in> denials m \<longleftrightarrow> m_auto_deny_secrets m" "DenySocket e \<in> denials m \<longleftrightarrow> e \<in> set (m_deny_unix_sockets m)"
  by (auto simp: denials_def)

lemma loaded_denials:
  assumes "load fx host ld profile custom_path project home tier opts = Ok pol"
    and "prepare_agent fx home (lo_agent opts) host = Ok (agent, host')"
  obtains m where "loaded_from fx host ld profile custom_path project home opts agent host' m"
    "build_policy host' profile (custom_path \<noteq> None) project home tier m agent = Ok pol"
  using assms loaded_prepared unfolding load_ok by fastforce

text \<open>Whatever a consulted file denies, in any section, is among the denied paths if it exists.\<close>

lemma loaded_denied_path:
  assumes "load fx host ld profile custom_path project home tier opts = Ok pol"
    and "prepare_agent fx home (lo_agent opts) host = Ok (agent, host')"
    and "consulted fx host ld custom_path project home opts f layer kind"
    and "d \<in> layer_denials layer" and "names_path host' (loader_vars host' project home) agent (denial_entries d) p"
    and "\<not> is_agent agent p" and "\<forall>q. path_eq q p \<longrightarrow> is_ok (lstat host' q)"
  shows "\<exists>e \<in> set (deny_resolved pol). path_eq (deny_path e) p"
proof -
  obtain m where m: "loaded_from fx host ld profile custom_path project home opts agent host' m"
    "build_policy host' profile (custom_path \<noteq> None) project home tier m agent = Ok pol"
    using loaded_denials [OF assms(1,2)] .
  have "d \<in> denials m" using load_denials.load_holds [OF m(1) assms(3)] assms(4) by blast
  then have n: "names_path host' (loader_vars host' project home) agent (all_deny_entries m) p"
    using denial_entries_denied assms(5) unfolding names_path_def by blast
  obtain deny_set where e: "fold_result (deny_entry host' (loader_vars host' project home) agent) (all_deny_entries m) ([], []) =
       Ok (deny_set, deny_resolved pol)"
    using built_entries [OF m(2)] .
  have "denied_inv host' (deny_set, deny_resolved pol)" "has_path deny_set p"
    using deny_entries [OF e denied_inv_empty] n assms(6) by (auto simp: names_path_def)
  from is_denied_entry [OF this(1), of p] this(2) assms(7) show ?thesis by simp
qed

lemma merge_parents_stack:
  "merge_parents host source stack parents m = Ok m' \<Longrightarrow> set parents \<inter> set stack = {}"
proof (induction parents arbitrary: m)
  case (Cons p ps)
  then obtain l a where "parent_layer host source stack p = Ok l" "merge_parents host source stack ps (note_parent p a) = Ok m'"
    by (auto split: sum.splits)
  then show ?case using Cons.IH parent_layer_builtin by fastforce
qed simp

section \<open>An example\<close>

text \<open>A machine with a policy of the organisation that denies writes to a directory of the project,
  and the default profile that lets the project be written.\<close>

definition org_layer :: RawLayer where
  "org_layer = empty_layer\<lparr>layer_filesystem := Some (no_filesystem\<lparr>rf_deny_write := Some (One ''$PROJECT/lib'')\<rparr>)\<rparr>"

definition base_layer :: RawLayer where
  "base_layer = empty_layer\<lparr>layer_filesystem := Some (no_filesystem\<lparr>rf_allow_write := Some (Many [''$PROJECT'', ''$PROJECT/lib''])\<rparr>)\<rparr>"

definition extending_layer :: RawLayer where
  "extending_layer = empty_layer\<lparr>layer_metadata := Some (no_metadata\<lparr>rm_extends := Some (Many [''default''])\<rparr>)\<rparr>"

definition org_host :: LoaderHost where
  "org_host = project_host\<lparr>
     lstat := (\<lambda>p. if p = ''/etc/vetto/policy.toml'' then Ok RegularFile
                   else if path_eq p ''/p/lib'' then Ok Directory else lstat project_host p),
     stat := (\<lambda>p. if p = ''/etc/vetto/policy.toml'' then Some RegularFile else stat project_host p),
     read_text := (\<lambda>p. if p = ''/etc/vetto/policy.toml'' then Ok ''org'' else Err ''not found''),
     toml := (\<lambda>t. if t = ''org'' then Ok org_layer else if t = ''init'' then Ok extending_layer else Ok base_layer),
     embedded := (\<lambda>_. ''base'')\<rparr>"

definition no_effects :: HostEffects where
  "no_effects = \<lparr>create_dir_all = (\<lambda>_ h. h), write_file = (\<lambda>_ _ h. h)\<rparr>"

definition org_early :: MergedPolicy where
  "org_early = (initial_merged ''default'' False)\<lparr>m_deny_write := [''$PROJECT/lib'']\<rparr>"

definition org_merged :: MergedPolicy where
  "org_merged = org_early\<lparr>m_allow_write := [''$PROJECT'', ''$PROJECT/lib''], m_pass_through := DEFAULT_ENV_PASSTHROUGH\<rparr>"

lemma org_files:
  "system_files org_host new_loader default_load_options @ user_files org_host new_loader default_load_options ''/home/u'' =
     [(''/etc/vetto/policy.toml'', ''system:/etc/vetto/policy.toml'', SystemGlobal)]"
  "late_files org_host new_loader default_load_options ''/p'' None = []"
  by code_simp+

lemma org_tiers:
  "load_files org_host False [] [(''/etc/vetto/policy.toml'', ''system:/etc/vetto/policy.toml'', SystemGlobal)]
     (initial_merged ''default'' False) = Ok org_early"
  "profile_tier org_host ''default'' False org_early = Ok ([''default''], org_merged)"
  by code_simp+

lemma no_effects_id: "fold (setup_step no_effects home) steps host = host"
proof (induction steps)
  case (Cons s steps)
  then show ?case by (cases s) (simp_all add: no_effects_def)
qed simp

lemma org_loaded_from:
  "loaded_from no_effects org_host new_loader ''default'' None ''/p'' ''/home/u'' default_load_options None org_host org_merged"
proof -
  have d: "deduplicate org_merged = org_merged" "apply_overrides no_overrides org_merged = Ok org_merged" by code_simp+
  have o: "lo_overrides default_load_options = no_overrides" "lo_preset default_load_options = None"
    "lo_agent default_load_options = None" "lo_project_policy default_load_options = None"
    "lo_require_signed default_load_options = False" "ld_require_signed new_loader = False"
    by (simp_all add: default_load_options_def new_loader_def)
  have n: "load_files h r st [] m = Ok m" for h r st m by (simp add: load_files_def)
  have pr: "prepare_agent no_effects ''/home/u'' None org_host = Ok (None, org_host)"
    by (simp add: prepare_agent_def no_effects_id)
  show ?thesis
    unfolding loaded_from_def org_files o preset_tier_def agent_tier_def check_project_symlink_def n option.case
    by (rule exI [of _ org_early], rule exI [of _ "[''default'']"], (rule exI [of _ org_merged])+)
       (simp add: org_tiers d pr)
qed

lemma org_loaded:
  "case load no_effects org_host new_loader ''default'' None ''/p'' ''/home/u'' TierFull default_load_options of
     Inl _ \<Rightarrow> False
   | Inr pol \<Rightarrow> allow_write pol = [''/p''] \<and> allow_read pol = [] \<and> deny_write pol = [''/p/lib''] \<and> deny_read pol = [] \<and>
       deny_resolved pol = [\<lparr>deny_path = ''/p/lib'', deny_is_dir = True\<rparr>] \<and> limits pol = no_limits \<and> cgroup pol = None"
proof -
  let ?rp = "\<lparr>rp_reads = [], rp_writes = [''/p''], rp_deny_write = [''/p/lib''], rp_deny_read = [], rp_mounts = [],
    rp_entries = [\<lparr>deny_path = ''/p/lib'', deny_is_dir = True\<rparr>], rp_warnings = []\<rparr>"
  have rp: "resolve_paths org_host (loader_vars org_host ''/p'' ''/home/u'') TierFull org_merged None = Ok ?rp"
    by code_simp
  have c: "check_write_root org_host meta ''/p'' ws = Ok ws" for meta ws
    by (simp add: check_write_root_def canonical_or_def home_var_def org_host_def project_host_def SYSTEM_WRITE_ROOTS_def)
  have e: "home_var org_host = None" "path_exists org_host ''/p''"
    by (simp_all add: home_var_def path_exists_def org_host_def project_host_def)
  have s: "effective_seccomp (m_seccomp_profile org_merged) = Ok ProfileDefault" "m_limits org_merged = no_limits" "m_cgroup org_merged = None"
    by (simp_all add: effective_seccomp_def org_merged_def org_early_def initial_merged_def empty_merged_def)
  obtain pol where p: "build_policy org_host ''default'' False ''/p'' ''/home/u'' TierFull org_merged None = Ok pol"
    "allow_write pol = [''/p''] \<and> allow_read pol = [] \<and> deny_write pol = [''/p/lib''] \<and> deny_read pol = [] \<and>
       deny_resolved pol = [\<lparr>deny_path = ''/p/lib'', deny_is_dir = True\<rparr>] \<and> limits pol = no_limits \<and> cgroup pol = None"
    unfolding build_policy_def loader_vars_def [symmetric] Let_def rp and_then_simps s check_def
    by (simp add: assemble_policy_def c e s)
  have "load no_effects org_host new_loader ''default'' None ''/p'' ''/home/u'' TierFull default_load_options = Ok pol"
    unfolding load_ok
    by (intro exI conjI, rule org_loaded_from) (simp_all add: p(1), simp add: org_merged_def)
  then show ?thesis using p by simp
qed

section \<open>Properties\<close>

text \<open>
  Property C32 (policy files bind). When a load succeeds, every policy file it consults, from the
  system's to the one on the command line, binds the result whatever the other layers say, in
  these parts: no write root lies below a path the file denies writes to, unless it is a socket
  allowed by name; none lies below a socket the file denies; every path that an entry it
  denies stands for (writes, reads, paths, sockets, globs or a preset's) is among the denied
  paths of the policy if it exists and is not the agent's own root; the environment names it
  denies are denied; the lockdown, the git guard and the denial of secrets it asks for are on;
  and no resource limit is looser than it asks for, the size of files apart. Nothing is said here
  of its network section, its cgroup values and its CPU quota.
\<close>

theorem policy_files_bind:
  assumes "load fx host ld profile custom_path project home tier opts = Ok pol"
    and "prepare_agent fx home (lo_agent opts) host = Ok (agent, host')"
    and "consulted fx host ld custom_path project home opts f layer kind"
  defines "named \<equiv> names_path host' (loader_vars host' project home) agent"
  shows "(\<forall>e d. DenyWrite e \<in> layer_denials layer \<and> named [e] d \<longrightarrow>
      (\<forall>w \<in> set (allow_write pol). path_starts_with w d \<longrightarrow> named (allow_unix_sockets pol) w)) \<and>
    (\<forall>e d. DenySocket e \<in> layer_denials layer \<and> named [e] d \<longrightarrow>
      (\<forall>w \<in> set (allow_write pol). \<not> path_starts_with w d)) \<and>
    (\<forall>x p. x \<in> layer_denials layer \<and> named (denial_entries x) p \<and> \<not> is_agent agent p \<and>
      (\<forall>q. path_eq q p \<longrightarrow> is_ok (lstat host' q)) \<longrightarrow> (\<exists>d \<in> set (deny_resolved pol). path_eq (deny_path d) p)) \<and>
    (\<forall>e. DenyEnv e \<in> layer_denials layer \<and> is_env_pattern e \<longrightarrow> e \<in> set (env_deny (environment pol))) \<and>
    (Lockdown \<in> layer_denials layer \<longrightarrow> is_immutable pol) \<and>
    (GitGuard \<in> layer_denials layer \<longrightarrow> git_guard pol) \<and>
    (AutoDeny \<in> layer_denials layer \<longrightarrow> auto_deny_secrets pol) \<and>
    limits_bound layer (limits pol)"
proof -
  obtain m where m: "loaded_from fx host ld profile custom_path project home opts agent host' m"
    "build_policy host' profile (custom_path \<noteq> None) project home tier m agent = Ok pol"
    using loaded_denials [OF assms(1,2)] .
  have d: "x \<in> denials m" if "x \<in> layer_denials layer" for x
    using load_denials.load_holds [OF m(1) assms(3)] that by blast
  have "named (allow_unix_sockets pol) w"
    if e: "DenyWrite e \<in> layer_denials layer" "named [e] q" and w: "w \<in> set (allow_write pol)" "path_starts_with w q" for e q w
  proof -
    have "named (m_deny_write m) q"
      using d [OF e(1)] e(2) by (auto simp: denials_members named_def names_path_def)
    then have "has_path (deny_write pol) q" using built_writes(5) [OF m(2) w(1)] by (simp add: named_def)
    then have "list_ex (path_starts_with w) (deny_write pol)"
      using w(2) path_eq_trans_starts(2) by (fastforce simp: has_path_eq list_ex_iff)
    then show ?thesis using built_writes(3) [OF m(2) w(1)] by (simp add: named_def built_fields [OF m(2)])
  qed
  moreover have "\<not> path_starts_with w q"
    if "DenySocket e \<in> layer_denials layer" "named [e] q" "w \<in> set (allow_write pol)" for e q w
  proof -
    have "named (m_deny_unix_sockets m) q"
      using d [OF that(1)] that(2) by (auto simp: denials_members named_def names_path_def)
    then show ?thesis using built_writes(4) [OF m(2) that(3)] by (simp add: named_def)
  qed
  moreover have "\<exists>d \<in> set (deny_resolved pol). path_eq (deny_path d) p"
    if "x \<in> layer_denials layer" "named (denial_entries x) p" "\<not> is_agent agent p"
      "\<forall>q. path_eq q p \<longrightarrow> is_ok (lstat host' q)" for x p
    using loaded_denied_path [OF assms(1-3) that(1) _ that(3,4)] that(2) by (simp add: named_def)
  moreover have "limits_bound layer (limits pol)"
    using load_limits.load_holds [OF m(1) assms(3)] by (simp add: built_fields [OF m(2)])
  moreover have "e \<in> set (env_deny (environment pol))" if "DenyEnv e \<in> layer_denials layer" "is_env_pattern e" for e
    using d [OF that(1)] that(2) by (simp add: built_fields [OF m(2)] denials_members set_normalize_env_patterns)
  moreover have "Lockdown \<in> layer_denials layer \<longrightarrow> is_immutable pol" "GitGuard \<in> layer_denials layer \<longrightarrow> git_guard pol"
    "AutoDeny \<in> layer_denials layer \<longrightarrow> auto_deny_secrets pol"
    using d [of Lockdown] d [of GitGuard] d [of AutoDeny] by (auto simp: built_fields [OF m(2)] denials_members)
  ultimately show ?thesis by blast
qed

lemma org_prepared:
  "prepare_agent no_effects ''/home/u'' (lo_agent default_load_options) org_host = Ok (None, org_host)"
  by (simp add: prepare_agent_def no_effects_id default_load_options_def)

lemma org_consulted:
  "consulted no_effects org_host new_loader None ''/p'' ''/home/u'' default_load_options ''/etc/vetto/policy.toml'' org_layer SystemGlobal"
proof -
  have "file_layer org_host ''/etc/vetto/policy.toml'' ''system:/etc/vetto/policy.toml'' org_layer"
    by (simp add: file_layer_def is_usable_file_def org_host_def parse_layer_def)
  then show ?thesis unfolding consulted_def org_files by auto
qed

theorem policy_files_bind_witness:
  "\<exists>pol. load no_effects org_host new_loader ''default'' None ''/p'' ''/home/u'' TierFull default_load_options = Ok pol \<and>
     DenyWrite ''$PROJECT/lib'' \<in> layer_denials org_layer \<and> limits_bound org_layer (limits pol)"
proof -
  obtain pol where p: "load no_effects org_host new_loader ''default'' None ''/p'' ''/home/u'' TierFull default_load_options = Ok pol"
    using org_loaded by (auto split: sum.splits)
  have "DenyWrite ''$PROJECT/lib'' \<in> layer_denials org_layer"
    by (simp add: layer_denials_def org_layer_def filesystem_denials_def listed_def empty_layer_def no_filesystem_def)
  with policy_files_bind [OF p org_prepared org_consulted] p show ?thesis by blast
qed

lemma fragment_usable:
  "(g, l, kind) \<in> set (map (\<lambda>p. (p, p, RepositoryFragment)) (sort_paths (filter (is_fragment host) xs))) \<Longrightarrow>
   is_usable_file host g"
  by (auto simp: is_fragment_def sort_paths_def)

lemma find_usable: "find (is_usable_file host) ps = Some p \<Longrightarrow> is_usable_file host p"
  by (auto simp: find_Some_iff)

text \<open>
  Property C33 (a policy file that cannot be used stops the load). The loader settles on a list
  of files: the system's and the user's file whose path leads to a regular file, the repository's
  policy, its fragments, the local override and the policy of the command line. If one of
  them is a symbolic link or no regular file, cannot be read, or does not parse, no policy
  comes out: no listed file is skipped. Of the files that are merged after the agent's layer (the
  repository's policy, fragments, override and the command line's), only a repository policy named
  by the options and the policy of the command line can be a link or no regular file: a
  default candidate, a fragment or an override that is a link is not listed, and so passed over.
\<close>

theorem unusable_policy_file_refused:
  assumes "prepare_agent fx home (lo_agent opts) host = Ok (agent, host')"
  shows "((\<exists>kind. (f, label, kind) \<in> set (system_files host ld opts @ user_files host ld opts home)) \<and>
        (\<forall>layer. \<not> file_layer host f label layer) \<or>
      (\<exists>kind. (f, label, kind) \<in> set (late_files host' ld opts project custom_path)) \<and>
        (\<forall>layer. \<not> file_layer host' f label layer) \<longrightarrow>
      (\<exists>err. load fx host ld profile custom_path project home tier opts = Err err)) \<and>
    (\<forall>g l kind. (g, l, kind) \<in> set (late_files host' ld opts project custom_path) \<longrightarrow>
      is_usable_file host' g \<or> lo_project_policy opts = Some g \<and> kind = Repository \<or>
      custom_path = Some g \<and> kind = CliExplicit)"
proof (intro conjI impI allI)
  assume bad: "(\<exists>kind. (f, label, kind) \<in> set (system_files host ld opts @ user_files host ld opts home)) \<and>
        (\<forall>layer. \<not> file_layer host f label layer) \<or>
      (\<exists>kind. (f, label, kind) \<in> set (late_files host' ld opts project custom_path)) \<and>
        (\<forall>layer. \<not> file_layer host' f label layer)"
  show "\<exists>err. load fx host ld profile custom_path project home tier opts = Err err"
  proof (cases "load fx host ld profile custom_path project home tier opts")
    case (Inr pol)
    obtain m where m: "loaded_from fx host ld profile custom_path project home opts agent host' m"
      using loaded_denials [OF Inr assms(1)] .
    obtain r early stack late ag m0 where l: "load_files host r [] (system_files host ld opts @ user_files host ld opts home) m0 = Ok early"
      "load_files host' r stack (late_files host' ld opts project custom_path) ag = Ok late"
      using m unfolding loaded_from_def by blast
    show ?thesis using bad load_files_split [OF l(1)] load_files_split [OF l(2)] by metis
  qed auto
next
  fix g l kind
  assume "(g, l, kind) \<in> set (late_files host' ld opts project custom_path)"
  then consider "(g, l, kind) \<in> set (project_files host' opts project)" | "(g, l, kind) \<in> set (fragment_files host' ld opts project)"
    | "(g, l, kind) \<in> set (override_files host' ld opts project)" | "(g, l, kind) \<in> set (custom_files host' opts project custom_path)"
    by (auto simp: late_files_def)
  then show "is_usable_file host' g \<or> lo_project_policy opts = Some g \<and> kind = Repository \<or>
      custom_path = Some g \<and> kind = CliExplicit"
  proof cases
    case 1
    then show ?thesis
      using find_usable by (auto simp: project_files_def project_path_def project_policy_path_def split: option.splits if_splits)
  next
    case 2
    then show ?thesis
      unfolding fragment_files_def Let_def
      by (simp only: list.set(1) empty_iff split: if_splits sum.splits) (blast dest: fragment_usable)+
  next
    case 3
    then show ?thesis
      unfolding override_files_def
      by (simp only: list.set empty_iff insert_iff prod.inject split: option.splits if_splits)
        (auto dest: find_usable simp del: find.simps)
  next
    case 4
    then show ?thesis by (auto simp: custom_files_def split: option.splits if_splits)
  qed
qed

theorem unusable_policy_file_refused_witness:
  "\<exists>err. load no_effects (org_host\<lparr>lstat := (\<lambda>p. if p = ''/etc/vetto/policy.toml'' then Ok Symlink else lstat org_host p)\<rparr>)
     new_loader ''default'' None ''/p'' ''/home/u'' TierFull default_load_options = Err err"
proof -
  let ?h = "org_host\<lparr>lstat := (\<lambda>p. if p = ''/etc/vetto/policy.toml'' then Ok Symlink else lstat org_host p)\<rparr>"
  have p: "prepare_agent no_effects ''/home/u'' (lo_agent default_load_options) ?h = Ok (None, ?h)"
    by (simp add: prepare_agent_def no_effects_id default_load_options_def)
  have "(''/etc/vetto/policy.toml'', ''system:/etc/vetto/policy.toml'', SystemGlobal) \<in>
      set (system_files ?h new_loader default_load_options)"
    by code_simp
  moreover have "\<not> file_layer ?h ''/etc/vetto/policy.toml'' label layer" for label layer
    by (simp add: file_layer_def is_usable_file_def)
  ultimately have "\<exists>kind. (''/etc/vetto/policy.toml'', ''system:/etc/vetto/policy.toml'', kind) \<in>
      set (system_files ?h new_loader default_load_options @ user_files ?h new_loader default_load_options ''/home/u'') \<and>
      (\<forall>layer. \<not> file_layer ?h ''/etc/vetto/policy.toml'' ''system:/etc/vetto/policy.toml'' layer)"
    by auto
  with unusable_policy_file_refused [OF p, of "''/etc/vetto/policy.toml''" "''system:/etc/vetto/policy.toml''" new_loader
      "''/p''" None "''default''" TierFull]
  show ?thesis by blast
qed

text \<open>
  The active profile cannot be extended. The name of the active profile stays on
  the stack of profiles under way for the rest of the load, so a policy of the repository, a
  fragment, an override or a policy of the command line that extends it is refused as a
  cycle.
\<close>

theorem active_profile_not_extended:
  assumes "builtin host profile = Some txt" and "prepare_agent fx home (lo_agent opts) host = Ok (agent, host')"
    and "(f, label, kind) \<in> set (late_files host' ld opts project custom_path)"
    and "file_layer host' f label layer" and "profile \<in> set (parents_of layer)"
  shows "\<exists>err. load fx host ld profile custom_path project home tier opts = Err err"
proof (cases "load fx host ld profile custom_path project home tier opts")
  case (Inr pol)
  obtain m where m: "loaded_from fx host ld profile custom_path project home opts agent host' m"
    using loaded_denials [OF Inr assms(2)] .
  obtain r early prof stack late ag where l: "profile_tier host profile (custom_path \<noteq> None) early = Ok (stack, prof)"
    "load_files host' r stack (late_files host' ld opts project custom_path) ag = Ok late"
    using m unfolding loaded_from_def by blast
  have "profile \<in> set stack" using l(1) assms(1) by (auto simp: profile_tier_def split: sum.splits)
  moreover obtain a b where "merge_layer host' layer label stack kind a = Ok b"
    using load_files_split [OF l(2) assms(3)] file_layer_unique [OF assms(4)] by metis
  ultimately show ?thesis
    using merge_parents_stack assms(5) by (fastforce simp: merge_layer.simps split: sum.splits)
qed auto

definition init_host :: LoaderHost where
  "init_host = org_host\<lparr>
     lstat := (\<lambda>p. if p = ''/p/policy.toml'' then Ok RegularFile else lstat org_host p),
     read_text := (\<lambda>p. if p = ''/p/policy.toml'' then Ok ''init'' else read_text org_host p)\<rparr>"

theorem active_profile_not_extended_witness:
  "\<exists>err. load no_effects init_host new_loader ''default'' None ''/p'' ''/home/u'' TierFull default_load_options = Err err"
proof -
  have "builtin init_host ''default'' = Some ''base''" by code_simp
  moreover have "prepare_agent no_effects ''/home/u'' (lo_agent default_load_options) init_host = Ok (None, init_host)"
    by (simp add: prepare_agent_def no_effects_id default_load_options_def)
  moreover have "(''/p/policy.toml'', ''/p/policy.toml'', Repository) \<in> set (late_files init_host new_loader default_load_options ''/p'' None)"
    by code_simp
  moreover have "file_layer init_host ''/p/policy.toml'' ''/p/policy.toml'' extending_layer"
    by (simp add: file_layer_def is_usable_file_def init_host_def org_host_def parse_layer_def)
  moreover have "''default'' \<in> set (parents_of extending_layer)" by code_simp
  ultimately show ?thesis by (rule active_profile_not_extended)
qed

end
