(* ===== verification/Verdicts.thy ===== *)
theory Verdicts
  imports Contract IpAddr
begin

text \<open>
  How a session ends: the extinction verifier of \<open>src/src/proctree.rs\<close>, the verdict engine of
  \<open>src/src/audit/verdict.rs\<close>, the exit codes of \<open>src/src/exit_codes.rs\<close>,
  \<open>src/src/error.rs\<close> and \<open>src/src/supervise/error.rs\<close>, and the part of
  \<open>finalize_session\<close> (\<open>src/src/supervise/finalize.rs\<close>) that reads the survivors off the
  production result, evaluates the verdict, computes the final exit code and decides what an
  ephemeral session does with the workspace.

  An \<open>i32\<close> is an \<^typ>\<open>int\<close>; where the code saturates, the bounds are written out. A slice
  of a string at a byte that is not a character boundary panics in Rust: that outcome is a
  value of its own (\<open>HexPanic\<close>, and \<^term>\<open>None\<close> for the verdict that would need it). Messages
  are compared in lower case: the model's lower case is ASCII's.

  The lemmas give the verdict and the final exit code as decision tables, show that a changed
  workspace is committed only on a satisfied contract, that hexadecimal decoding inverts
  encoding, and what the signature check does not establish.
\<close>

section \<open>Exit codes\<close>

definition EXIT_SUCCESS :: int where "EXIT_SUCCESS = 0"
definition EXIT_AGENT_ERROR :: int where "EXIT_AGENT_ERROR = 1"
definition EXIT_INVALID_USAGE :: int where "EXIT_INVALID_USAGE = 2"
definition EXIT_TIMEOUT :: int where "EXIT_TIMEOUT = 124"
definition EXIT_FAIL_CLOSED :: int where "EXIT_FAIL_CLOSED = 125"
definition EXIT_POLICY_BLOCKED :: int where "EXIT_POLICY_BLOCKED = 126"
definition EXIT_COMMAND_NOT_FOUND :: int where "EXIT_COMMAND_NOT_FOUND = 127"
definition EXIT_SIGNAL_BASE :: int where "EXIT_SIGNAL_BASE = 128"

lemmas exit_code_defs =
  EXIT_SUCCESS_def EXIT_AGENT_ERROR_def EXIT_INVALID_USAGE_def EXIT_TIMEOUT_def
  EXIT_FAIL_CLOSED_def EXIT_POLICY_BLOCKED_def EXIT_COMMAND_NOT_FOUND_def EXIT_SIGNAL_BASE_def

text \<open>\<open>i32::saturating_add\<close> and \<open>i32::saturating_neg\<close>.\<close>

definition i32_sat :: "int \<Rightarrow> int" where
  "i32_sat x = max (- (2 ^ 31)) (min (2 ^ 31 - 1) x)"

definition is_i32 :: "int \<Rightarrow> bool" where
  "is_i32 x = (- (2 ^ 31) \<le> x \<and> x < 2 ^ 31)"

definition map_session_exit_code :: "int \<Rightarrow> bool \<Rightarrow> bool \<Rightarrow> int" where
  "map_session_exit_code raw_exit_code timed_out fail_on_block_triggered =
     (if raw_exit_code = EXIT_FAIL_CLOSED then EXIT_FAIL_CLOSED
      else if timed_out then EXIT_TIMEOUT
      else if fail_on_block_triggered then EXIT_POLICY_BLOCKED
      else if raw_exit_code < 0
      then (let sig = i32_sat (- raw_exit_code) in i32_sat (EXIT_SIGNAL_BASE + sig))
      else raw_exit_code)"

text \<open>The dash of the messages, in UTF-8.\<close>

definition em_dash :: string where
  "em_dash = [CHR 0xE2, CHR 0x80, CHR 0x94]"

definition show_int :: "int \<Rightarrow> string" where
  "show_int i = (if i < 0 then CHR ''-'' # show_nat (nat (- i)) else show_nat (nat i))"

definition recap_hint :: "int \<Rightarrow> nat \<Rightarrow> bool \<Rightarrow> string option" where
  "recap_hint final_code blocked_total timed_out =
     (if timed_out \<or> final_code = EXIT_TIMEOUT
      then Some (''session hit the deadline '' @ em_dash @
                 '' re-run with a larger --timeout or split the task'')
      else if final_code = EXIT_POLICY_BLOCKED
      then Some (show_nat blocked_total @ '' boundary denials tripped fail-on-block '' @ em_dash @
                 '' 'vetto audit --latest' shows what the kernel denied; adjust grants with 'vetto allow'/'vetto deny'' @ [CHR 0x27])
      else if final_code = EXIT_FAIL_CLOSED
      then Some (''sandbox refused fail-closed '' @ em_dash @
                 '' run 'vetto doctor' for the capability picture, or 'vetto audit --latest' to inspect session events'')
      else if final_code = EXIT_COMMAND_NOT_FOUND
      then Some (''agent binary not found in PATH '' @ em_dash @
                 '' 'vetto enable <agent>' wires the shim, or check PATH'')
      else if final_code \<noteq> EXIT_SUCCESS
      then Some (''agent exited '' @ show_int final_code @ '' '' @ em_dash @
                 '' run 'vetto audit --latest' to inspect session events and denials'')
      else if blocked_total > 0
      then Some (show_nat blocked_total @ '' denials contained, exit 0 '' @ em_dash @
                 '' 'vetto audit --latest' shows what was denied'')
      else None)"

section \<open>Errors and their exit codes\<close>

datatype VettoError =
    ELandlock string
  | ENamespace string
  | EMount string
  | ESeccomp string
  | ESandbox string
  | EPty string
  | ECli string
  | EPolicy PolicyError
  | EPolicyLockdownViolation string
  | EUnsupportedPlatform string

fun vetto_error_exit_code :: "VettoError \<Rightarrow> int" where
  "vetto_error_exit_code (ELandlock _) = EXIT_FAIL_CLOSED"
| "vetto_error_exit_code (ENamespace _) = EXIT_FAIL_CLOSED"
| "vetto_error_exit_code (EMount _) = EXIT_FAIL_CLOSED"
| "vetto_error_exit_code (ESeccomp _) = EXIT_FAIL_CLOSED"
| "vetto_error_exit_code (ESandbox _) = EXIT_FAIL_CLOSED"
| "vetto_error_exit_code (EUnsupportedPlatform _) = EXIT_FAIL_CLOSED"
| "vetto_error_exit_code (EPty _) = EXIT_AGENT_ERROR"
| "vetto_error_exit_code (ECli _) = EXIT_AGENT_ERROR"
| "vetto_error_exit_code (EPolicy err) = policy_error_exit_code err"
| "vetto_error_exit_code (EPolicyLockdownViolation _) = EXIT_POLICY_BLOCKED"

text \<open>The \<open>#[error(...)]\<close> texts; \<open>policy_display\<close> is the text of a policy error.\<close>

fun policy_display :: "PolicyError \<Rightarrow> string" where
  "policy_display (CompilationFailed m) = ''Policy compilation failed: '' @ m"
| "policy_display (LockdownViolation m) = ''Policy lockdown violation: '' @ m"
| "policy_display (VerificationFailed m) = ''Sealed contract verification failed: '' @ m"

fun vetto_error_display :: "VettoError \<Rightarrow> string" where
  "vetto_error_display (ELandlock m) = ''landlock: '' @ m"
| "vetto_error_display (ENamespace m) = ''namespace operation failed: '' @ m"
| "vetto_error_display (EMount m) = ''mount operation failed: '' @ m"
| "vetto_error_display (ESeccomp m) = ''seccomp: '' @ m"
| "vetto_error_display (ESandbox m) = ''sandbox setup failed: '' @ m"
| "vetto_error_display (EPty m) = ''pty error: '' @ m"
| "vetto_error_display (ECli m) = ''cli error: '' @ m"
| "vetto_error_display (EPolicy e) = ''policy error: '' @ policy_display e"
| "vetto_error_display (EPolicyLockdownViolation m) = ''policy lockdown violation: '' @ m"
| "vetto_error_display (EUnsupportedPlatform m) =
     m @ '' is not supported by this vetto 0.x build (see SECURITY.md roadmap)''"

datatype SuperviseError =
    EmptyAgentCommand
  | ExecutableNotFound string string
  | NetworkRelayTierMismatch string
  | PolicyLoadFailed string
  | PreflightVerificationFailed nat
  | StdioAllocationFailed string
  | ProcessSpawnFailed string
  | SignalInstallationFailed string
  | IoPumpFailed string
  | ReportGenerationFailed string
  | Fatal string

fun supervise_error_exit_code :: "SuperviseError \<Rightarrow> int" where
  "supervise_error_exit_code (ExecutableNotFound _ _) = EXIT_COMMAND_NOT_FOUND"
| "supervise_error_exit_code (PreflightVerificationFailed _) = EXIT_FAIL_CLOSED"
| "supervise_error_exit_code (NetworkRelayTierMismatch _) = EXIT_FAIL_CLOSED"
| "supervise_error_exit_code (PolicyLoadFailed _) = EXIT_FAIL_CLOSED"
| "supervise_error_exit_code (StdioAllocationFailed _) = EXIT_FAIL_CLOSED"
| "supervise_error_exit_code (ProcessSpawnFailed _) = EXIT_FAIL_CLOSED"
| "supervise_error_exit_code (Fatal _) = EXIT_FAIL_CLOSED"
| "supervise_error_exit_code (SignalInstallationFailed _) = EXIT_FAIL_CLOSED"
| "supervise_error_exit_code EmptyAgentCommand = EXIT_INVALID_USAGE"
| "supervise_error_exit_code (IoPumpFailed _) = EXIT_AGENT_ERROR"
| "supervise_error_exit_code (ReportGenerationFailed _) = EXIT_AGENT_ERROR"

text \<open>An \<open>anyhow::Error\<close>: what its three downcasts give, and its display text.\<close>

record AnyhowError =
  as_vetto :: "VettoError option"
  as_supervise :: "SuperviseError option"
  as_policy :: "PolicyError option"
  err_display :: string

definition FAIL_CLOSED_NEEDLES :: "string list" where
  "FAIL_CLOSED_NEEDLES =
     [''fail-closed'', ''policy compilation failed'', ''failed to parse policy'', ''unknown field'',
      ''unknown profile'', ''unknown preset'', ''unknown agent'', ''git_guard'', ''destructive'',
      ''boundary verification failed'', ''refusing to run'', ''not supported'',
      ''sandbox setup failed'', ''landlock'', ''seccomp'', ''cgroup'', ''namespace'', ''mount'']"

definition message_exit_code :: "string \<Rightarrow> int" where
  "message_exit_code text =
     (let msg = to_ascii_lowercase text
      in if contains_str msg ''not found in path'' \<or> contains_str msg ''no such file or directory''
         then EXIT_COMMAND_NOT_FOUND
         else if contains_str msg ''lockdown violation'' \<or> contains_str msg ''fail-on-block''
         then EXIT_POLICY_BLOCKED
         else if list_ex (contains_str msg) FAIL_CLOSED_NEEDLES then EXIT_FAIL_CLOSED
         else EXIT_AGENT_ERROR)"

definition map_error_to_exit_code :: "AnyhowError \<Rightarrow> int" where
  "map_error_to_exit_code err =
     (case as_vetto err of
        Some typed \<Rightarrow> vetto_error_exit_code typed
      | None \<Rightarrow>
          (case as_supervise err of
             Some serr \<Rightarrow> supervise_error_exit_code serr
           | None \<Rightarrow>
               (case as_policy err of
                  Some policy_err \<Rightarrow> policy_error_exit_code policy_err
                | None \<Rightarrow> message_exit_code (err_display err))))"

section \<open>Extinction of the process tree\<close>

definition MAX_EXTINCTION_DEADLINE_MS :: nat where "MAX_EXTINCTION_DEADLINE_MS = 500"
definition FAIL_CLOSED_EXTINCTION_EXIT_CODE :: int where "FAIL_CLOSED_EXTINCTION_EXIT_CODE = 125"

datatype PlatformExtinctionTier = LinuxTier1Proven | WindowsTier3Proven | MacOsTier2BestEffort

fun is_authoritative :: "PlatformExtinctionTier \<Rightarrow> bool" where
  "is_authoritative LinuxTier1Proven = True"
| "is_authoritative WindowsTier3Proven = True"
| "is_authoritative MacOsTier2BestEffort = False"

fun extinction_label :: "PlatformExtinctionTier \<Rightarrow> string" where
  "extinction_label LinuxTier1Proven = ''Linux (cgroups v2 '' @ em_dash @ '' Proven)''"
| "extinction_label WindowsTier3Proven = ''Windows (Job Object '' @ em_dash @ '' Proven)''"
| "extinction_label MacOsTier2BestEffort = ''macOS (Multi-Phase Sweep '' @ em_dash @ '' Best-Effort)''"

record ExtinctionProof =
  proof_platform :: PlatformExtinctionTier
  proof_processes :: nat
  proof_resources :: nat
  proof_elapsed_ms :: nat
  mathematically_proven :: bool

record ExtinctionBreach =
  breach_platform :: PlatformExtinctionTier
  breach_exit_code :: int
  breach_reason :: string
  breach_processes :: nat
  breach_resources :: nat
  breach_elapsed_ms :: nat

definition verify_extinction ::
  "PlatformExtinctionTier \<Rightarrow> nat \<Rightarrow> nat \<Rightarrow> nat \<Rightarrow> (ExtinctionBreach, ExtinctionProof) result" where
  "verify_extinction platform procs res elapsed =
     (let breach = (\<lambda>reason.
            \<lparr>breach_platform = platform, breach_exit_code = FAIL_CLOSED_EXTINCTION_EXIT_CODE,
             breach_reason = reason, breach_processes = procs,
             breach_resources = res, breach_elapsed_ms = elapsed\<rparr>)
      in if procs > 0
         then Err (breach (''Lifecycle breach: '' @ show_nat procs @
                '' descendant processes escaped extinction boundary''))
         else if res > 0
         then Err (breach (''Resource breach: '' @ show_nat res @
                '' execution resources (pipes/mounts/IPC) leaked''))
         else if elapsed > MAX_EXTINCTION_DEADLINE_MS
         then Err (breach (''Extinction deadline exceeded: elapsed '' @ show_nat elapsed @ ''ms > '' @
                show_nat MAX_EXTINCTION_DEADLINE_MS @ ''ms max limit''))
         else Ok \<lparr>proof_platform = platform, proof_processes = 0, proof_resources = 0,
                  proof_elapsed_ms = elapsed, mathematically_proven = is_authoritative platform\<rparr>)"

section \<open>Verdicts\<close>

datatype VerdictStatus = Pass | Fail | Inconclusive | NotApplicable

fun status_label :: "VerdictStatus \<Rightarrow> string" where
  "status_label Pass = ''PASS''"
| "status_label Fail = ''FAIL''"
| "status_label Inconclusive = ''INCONCLUSIVE''"
| "status_label NotApplicable = ''NOT_APPLICABLE''"

datatype SecurityVerdict = Satisfied | Violated | SecInconclusive | SecNotApplicable

fun security_label :: "SecurityVerdict \<Rightarrow> string" where
  "security_label Satisfied = ''SATISFIED''"
| "security_label Violated = ''VIOLATED''"
| "security_label SecInconclusive = ''INCONCLUSIVE''"
| "security_label SecNotApplicable = ''NOT_APPLICABLE''"

datatype EvidenceStrength = Strong | Partial | Unsupported

fun strength_label :: "EvidenceStrength \<Rightarrow> string" where
  "strength_label Strong = ''STRONG''"
| "strength_label Partial = ''PARTIAL''"
| "strength_label Unsupported = ''UNSUPPORTED''"

record FinalVerdict =
  vd_status :: VerdictStatus
  vd_strength :: EvidenceStrength
  vd_security :: SecurityVerdict
  vd_exit_code :: int
  vd_reason :: string

definition verdict_new ::
  "VerdictStatus \<Rightarrow> EvidenceStrength \<Rightarrow> SecurityVerdict \<Rightarrow> int \<Rightarrow> string \<Rightarrow> FinalVerdict" where
  "verdict_new st str sec code why =
     \<lparr>vd_status = st, vd_strength = str, vd_security = sec, vd_exit_code = code, vd_reason = why\<rparr>"

fun security_of_status :: "VerdictStatus \<Rightarrow> SecurityVerdict" where
  "security_of_status Pass = Satisfied"
| "security_of_status Fail = Violated"
| "security_of_status Inconclusive = SecInconclusive"
| "security_of_status NotApplicable = SecNotApplicable"

definition verdict_with_status ::
  "VerdictStatus \<Rightarrow> EvidenceStrength \<Rightarrow> int \<Rightarrow> string \<Rightarrow> FinalVerdict" where
  "verdict_with_status st str code why = verdict_new st str (security_of_status st) code why"

definition display_badge :: "FinalVerdict \<Rightarrow> string" where
  "display_badge v = status_label (vd_status v) @ '' ['' @ strength_label (vd_strength v) @ '']''"

definition security_badge :: "FinalVerdict \<Rightarrow> string" where
  "security_badge v = security_label (vd_security v) @ '' ['' @ strength_label (vd_strength v) @ '']''"

fun action_of :: "SecurityVerdict \<Rightarrow> EvidenceStrength \<Rightarrow> string" where
  "action_of Satisfied Strong = ''Commit CoW changes to host workspace.''"
| "action_of Satisfied Partial = ''Commit CoW changes to host workspace with partial warning.''"
| "action_of Satisfied Unsupported = ''Invalid verdict: unsupported platform cannot pass.''"
| "action_of Violated _ = ''Wipe CoW layer; abort session immediately.''"
| "action_of SecInconclusive _ = ''Wipe CoW layer; audit ledger inconclusive.''"
| "action_of SecNotApplicable _ = ''Execution aborted pre-launch.''"

definition recommended_action :: "FinalVerdict \<Rightarrow> string" where
  "recommended_action v = action_of (vd_security v) (vd_strength v)"

definition is_success :: "FinalVerdict \<Rightarrow> bool" where
  "is_success v =
     (vd_security v = Satisfied \<and> vd_status v = Pass \<and> vd_strength v \<noteq> Unsupported \<and>
      vd_exit_code v = 0)"

definition is_contract_satisfied :: "FinalVerdict \<Rightarrow> bool" where
  "is_contract_satisfied v = (vd_security v = Satisfied \<and> vd_strength v \<noteq> Unsupported)"

section \<open>The signature check\<close>

datatype SigError = HexPanic | SigError string

text \<open>A byte that continues a UTF-8 sequence does not start a character.\<close>

definition is_continuation :: "char \<Rightarrow> bool" where
  "is_continuation c = (let n = (of_char c :: nat) in 128 \<le> n \<and> n < 192)"

text \<open>\<open>u8::from_str_radix(s, 16)\<close> on a string of two bytes: a leading plus sign is accepted.\<close>

definition hex_byte :: "char \<Rightarrow> char \<Rightarrow> u8 option" where
  "hex_byte a b =
     (if a = CHR ''+'' then map_option of_nat (hex_val b)
      else (case (hex_val a, hex_val b) of
              (Some x, Some y) \<Rightarrow> Some (of_nat (16 * x + y))
            | _ \<Rightarrow> None))"

fun decode_pairs :: "nat \<Rightarrow> string \<Rightarrow> (SigError, u8 list) result" where
  "decode_pairs i [] = Ok []"
| "decode_pairs i [a] = Err HexPanic"
| "decode_pairs i (a # b # cs) =
     (if is_continuation a \<or> (cs \<noteq> [] \<and> is_continuation (hd cs)) then Err HexPanic
      else (case hex_byte a b of
              None \<Rightarrow> Err (SigError (''invalid hex byte at index '' @ show_nat i @
                        '': invalid digit found in string''))
            | Some x \<Rightarrow> and_then (decode_pairs (i + 2) cs) (\<lambda>xs. Ok (x # xs))))"

definition decode_hex :: "string \<Rightarrow> (SigError, u8 list) result" where
  "decode_hex str =
     (let s = trim str
      in if length s mod 2 \<noteq> 0 then Err (SigError ''hex string must have even length'')
         else decode_pairs 0 s)"

definition check_signature_bytes :: "Codec \<Rightarrow> SecurityContract \<Rightarrow> string \<Rightarrow> string \<Rightarrow> (SigError, unit) result" where
  "check_signature_bytes codec c sig_hex pubkey_hex =
     and_then (decode_hex pubkey_hex)
       (\<lambda>pubkey_bytes.
          if length pubkey_bytes \<noteq> 32
          then Err (SigError (''invalid public key length: expected 32 bytes, got '' @
                      show_nat (length pubkey_bytes)))
          else and_then (decode_hex sig_hex)
            (\<lambda>sig_bytes.
               if length sig_bytes \<noteq> 64
               then Err (SigError (''invalid signature length: expected 64 bytes, got '' @
                           show_nat (length sig_bytes)))
               else if \<not> verify_digest codec c
               then Err (SigError ''contract digest verification failed against payload'')
               else if list_all (\<lambda>b. b = 0xff) sig_bytes \<or> list_all (\<lambda>b. b = 0) sig_bytes
               then Err (SigError ''signature verification failed against contract digest'')
               else Ok ()))"

definition verify_contract_signature :: "Codec \<Rightarrow> SecurityContract \<Rightarrow> (SigError, unit) result" where
  "verify_contract_signature codec c =
     (case signature (crypto c) of
        None \<Rightarrow> Err (SigError ''cryptographic signature is missing from contract'')
      | Some sig_hex \<Rightarrow>
          if trim sig_hex = [] then Err (SigError ''cryptographic signature is empty'')
          else (case public_key (crypto c) of
                  None \<Rightarrow> Err (SigError ''cryptographic public key is missing from contract'')
                | Some pubkey_hex \<Rightarrow>
                    if trim pubkey_hex = [] then Err (SigError ''cryptographic public key is empty'')
                    else check_signature_bytes codec c sig_hex pubkey_hex))"

section \<open>The verdict engine\<close>

text \<open>\<open>SIGXFSZ\<close> is signal 25.\<close>

definition is_sigxfsz :: "int \<Rightarrow> bool" where
  "is_sigxfsz agent_exit_code = (agent_exit_code = 153 \<or> agent_exit_code = -25)"

text \<open>The facts a session ends with.\<close>

record SessionFacts =
  kernel_denials :: nat
  unauthorized_writes :: nat
  zombies_survived :: nat
  evidence_channel_intact :: bool
  agent_exit_code :: int

definition clean_verdict :: "SecurityContract \<Rightarrow> int \<Rightarrow> EvidenceStrength \<Rightarrow> FinalVerdict" where
  "clean_verdict c code strength =
     (if is_sigxfsz code
      then verdict_new Pass strength Satisfied code
             (''vetto: process killed by kernel with SIGXFSZ (file size limit exceeded: '' @
              show_nat (max_file_size_bytes (resources c)) @
              '' bytes). Increase limit via --limits fsize=<bytes> or policy TOML.'')
      else verdict_new Pass strength Satisfied code
             ''All security contract invariants satisfied with authoritative host facts'')"

definition signed_verdict ::
  "Codec \<Rightarrow> SecurityContract \<Rightarrow> int \<Rightarrow> EvidenceStrength \<Rightarrow> FinalVerdict option" where
  "signed_verdict codec c code strength =
     (if minisign_enabled (crypto c)
      then (case verify_contract_signature codec c of
              Inl HexPanic \<Rightarrow> None
            | Inl (SigError err) \<Rightarrow>
                Some (verdict_new Fail Strong Violated 125
                  (''Cryptographic signing verification failed (INV-36): '' @ err))
            | Inr _ \<Rightarrow> Some (clean_verdict c code strength))
      else Some (clean_verdict c code strength))"

definition evaluate_with_strength ::
  "Codec \<Rightarrow> SecurityContract \<Rightarrow> SessionFacts \<Rightarrow> EvidenceStrength \<Rightarrow> FinalVerdict option" where
  "evaluate_with_strength codec c f strength =
     (if strength = Unsupported
      then Some (verdict_new Fail Unsupported Violated 125
             ''Platform lacks necessary kernel enforcement primitives: fail-closed'')
      else if kernel_denials f > 0
      then Some (verdict_new Fail strength Violated 125
             (''Contract violation: '' @ show_nat (kernel_denials f) @
              '' kernel capability denials recorded''))
      else if \<not> evidence_channel_intact f
      then Some (verdict_new Inconclusive strength SecInconclusive 125
             ''Evidence capture channel dropped events: audit ledger inconclusive'')
      else if unauthorized_writes f > 0
      then (if fs_shadow (filesystem c)
            then Some (verdict_new Pass strength Satisfied (agent_exit_code f)
                   (''[SHADOW VIOLATION] VFS violation: '' @ show_nat (unauthorized_writes f) @
                    '' writes outside authorized workspace''))
            else Some (verdict_new Fail strength Violated 125
                   (''VFS violation: '' @ show_nat (unauthorized_writes f) @
                    '' writes outside authorized workspace'')))
      else if zombies_survived f > 0
      then Some (verdict_new Fail strength Violated 125
             (''Lifecycle breach: '' @ show_nat (zombies_survived f) @
              '' descendant processes escaped extinction''))
      else signed_verdict codec c (agent_exit_code f) strength)"

definition evaluate :: "Codec \<Rightarrow> SecurityContract \<Rightarrow> SessionFacts \<Rightarrow> FinalVerdict option" where
  "evaluate codec c f = evaluate_with_strength codec c f Strong"

section \<open>Finalizing a session\<close>

text \<open>What \<open>finalize_session\<close> reads of the production result; \<open>tree_failed\<close> is that the report's
  state for process tree containment is \<open>Failed\<close>.\<close>

record ProductionOutcome =
  prod_verdict :: "FinalVerdict option"
  tree_failed :: bool
  prod_diagnostic :: "string option"
  prod_timed_out :: bool
  prod_exit_code :: "int option"

record Extinction =
  ex_survivors :: nat
  ex_breach :: bool
  ex_reason :: string

definition no_breach :: Extinction where
  "no_breach = \<lparr>ex_survivors = 0, ex_breach = False, ex_reason = []\<rparr>"

definition at_least_one :: "Extinction \<Rightarrow> Extinction" where
  "at_least_one x = (if ex_survivors x = 0 then x\<lparr>ex_survivors := 1\<rparr> else x)"

definition default_reason :: "string \<Rightarrow> Extinction \<Rightarrow> Extinction" where
  "default_reason why x = (if ex_reason x = [] then x\<lparr>ex_reason := why\<rparr> else x)"

definition reported_survivors :: "string \<Rightarrow> nat" where
  "reported_survivors why =
     (case after_first ''Lifecycle breach: '' why of
        None \<Rightarrow> 0
      | Some after \<Rightarrow>
          (case before_first '' descendant'' after of
             None \<Rightarrow> 0
           | Some digits \<Rightarrow> (case parse_u64 (trim digits) of None \<Rightarrow> 0 | Some n \<Rightarrow> n)))"

definition breach_of_verdict :: "FinalVerdict \<Rightarrow> Extinction \<Rightarrow> Extinction" where
  "breach_of_verdict v x =
     (if (vd_exit_code v = EXIT_FAIL_CLOSED \<or> vd_status v = Fail) \<and>
         (contains_str (vd_reason v) ''extinction'' \<or> contains_str (vd_reason v) ''Lifecycle breach'')
      then at_least_one (x\<lparr>ex_breach := True, ex_reason := vd_reason v,
                            ex_survivors := reported_survivors (vd_reason v)\<rparr>)
      else x)"

definition breach_of_tree :: "bool \<Rightarrow> Extinction \<Rightarrow> Extinction" where
  "breach_of_tree failed x =
     (if failed
      then default_reason ''Process tree containment capability failed verification''
             (at_least_one (x\<lparr>ex_breach := True\<rparr>))
      else x)"

definition residual_count :: "string \<Rightarrow> nat" where
  "residual_count diag =
     (case after_first ''residual=['' diag of
        None \<Rightarrow> 0
      | Some after \<Rightarrow>
          (case before_first '']'' after of
             None \<Rightarrow> 0
           | Some inner \<Rightarrow>
               length (filter (\<lambda>s. trim s \<noteq> []) (split_on (\<lambda>c. c = CHR '','') (trim inner)))))"

definition breach_of_diagnostic :: "string \<Rightarrow> Extinction \<Rightarrow> Extinction" where
  "breach_of_diagnostic diag x =
     (let x = (if contains_str diag ''extinction breach''
               then default_reason diag (x\<lparr>ex_breach := True\<rparr>) else x)
      in if residual_count diag > 0
         then x\<lparr>ex_survivors := max (ex_survivors x) (residual_count diag), ex_breach := True\<rparr>
         else x)"

definition breach_of_timeout :: "bool \<Rightarrow> int option \<Rightarrow> Extinction \<Rightarrow> Extinction" where
  "breach_of_timeout timed_out code x =
     (if timed_out \<and> code = Some EXIT_FAIL_CLOSED
      then default_reason ''Session timeout teardown failed extinction verification''
             (at_least_one (x\<lparr>ex_breach := True\<rparr>))
      else x)"

definition extinction_of :: "ProductionOutcome option \<Rightarrow> Extinction" where
  "extinction_of outcome =
     (let x = (case outcome of
                 None \<Rightarrow> no_breach
               | Some p \<Rightarrow>
                   breach_of_timeout (prod_timed_out p) (prod_exit_code p)
                     ((case prod_diagnostic p of None \<Rightarrow> id | Some d \<Rightarrow> breach_of_diagnostic d)
                        (breach_of_tree (tree_failed p)
                           ((case prod_verdict p of None \<Rightarrow> id | Some v \<Rightarrow> breach_of_verdict v) no_breach))))
      in if ex_breach x then at_least_one x else x)"

definition blocked_sum :: "nat list \<Rightarrow> nat \<Rightarrow> nat" where
  "blocked_sum file_counts network_denied = min (2 ^ 64 - 1) (sum_list file_counts + network_denied)"

definition threshold_reached :: "nat option \<Rightarrow> nat \<Rightarrow> bool" where
  "threshold_reached fail_on_block blocked =
     (case fail_on_block of Some threshold \<Rightarrow> blocked \<ge> threshold | None \<Rightarrow> False)"

definition final_code :: "bool \<Rightarrow> int \<Rightarrow> bool \<Rightarrow> bool \<Rightarrow> FinalVerdict \<Rightarrow> bool \<Rightarrow> nat \<Rightarrow> int" where
  "final_code in_shadow raw timed_out threshold v extinction_err survivors =
     (let code = map_session_exit_code raw timed_out (threshold \<and> \<not> in_shadow);
          code = (if \<not> in_shadow \<and> \<not> timed_out \<and>
                     (vd_exit_code v = EXIT_FAIL_CLOSED \<or> vd_status v \<noteq> Pass \<or> threshold \<or>
                      extinction_err \<or> survivors > 0)
                  then EXIT_FAIL_CLOSED else code);
          code = (if timed_out \<and> (extinction_err \<or> survivors > 0) then EXIT_FAIL_CLOSED else code)
      in if extinction_err \<or> survivors > 0 then EXIT_FAIL_CLOSED else code)"

text \<open>The inputs of the last steps: the lifecycle's outcome, the run configuration, the session
  statistics and the state of the evidence channel.\<close>

record SessionEnd =
  raw_exit_code :: int
  session_timed_out :: bool
  production_result :: "ProductionOutcome option"
  blocked_files :: "nat list"
  network_denied :: nat
  fail_on_block :: "nat option"
  run_shadow :: bool
  channel_intact :: bool

record SupervisionVerdict =
  sv_final_exit_code :: int
  sv_pass :: bool
  sv_exit_code :: int
  sv_timed_out :: bool
  sv_blocked_total :: nat
  sv_verdict :: "FinalVerdict option"

definition dry_run_verdict :: SupervisionVerdict where
  "dry_run_verdict =
     \<lparr>sv_final_exit_code = 0, sv_pass = True, sv_exit_code = 0, sv_timed_out = False,
      sv_blocked_total = 0, sv_verdict = None\<rparr>"

definition survivors_at :: "SessionEnd \<Rightarrow> nat" where
  "survivors_at s = ex_survivors (extinction_of (production_result s))"

definition blocked_at :: "SessionEnd \<Rightarrow> nat" where
  "blocked_at s = blocked_sum (blocked_files s) (network_denied s)"

definition facts_at :: "SessionEnd \<Rightarrow> SessionFacts" where
  "facts_at s =
     \<lparr>kernel_denials = blocked_at s, unauthorized_writes = 0, zombies_survived = survivors_at s,
      evidence_channel_intact = channel_intact s, agent_exit_code = raw_exit_code s\<rparr>"

definition finalize_session ::
  "Codec \<Rightarrow> SecurityContract \<Rightarrow> PlatformExtinctionTier \<Rightarrow> SessionEnd \<Rightarrow> SupervisionVerdict option" where
  "finalize_session codec c platform s =
     (let extinction_res = verify_extinction platform (survivors_at s) 0 0
      in case evaluate codec c (facts_at s) of
           None \<Rightarrow> None
         | Some v \<Rightarrow>
             (let code = final_code (run_shadow s) (raw_exit_code s) (session_timed_out s)
                           (threshold_reached (fail_on_block s) (blocked_at s)) v
                           (\<not> is_ok extinction_res) (survivors_at s)
              in Some \<lparr>sv_final_exit_code = code, sv_pass = (code = 0),
                       sv_exit_code = raw_exit_code s, sv_timed_out = session_timed_out s,
                       sv_blocked_total = blocked_at s, sv_verdict = Some v\<rparr>))"

section \<open>Ephemeral sessions\<close>

datatype EphemeralAction = KeepChanges | RestoreSnapshot | NothingToRestore

definition discard :: "bool \<Rightarrow> EphemeralAction" where
  "discard snapshot_found = (if snapshot_found then RestoreSnapshot else NothingToRestore)"

text \<open>\<open>answer\<close> is the line typed at the prompt, \<^term>\<open>None\<close> where the input is no terminal.\<close>

definition ephemeral_completion :: "int \<Rightarrow> bool \<Rightarrow> bool \<Rightarrow> bool \<Rightarrow> string option \<Rightarrow> EphemeralAction" where
  "ephemeral_completion exit_code auto_accept force_discard snapshot_found answer =
     (if force_discard \<or> exit_code \<noteq> 0 then discard snapshot_found
      else if auto_accept then KeepChanges
      else (case answer of
              None \<Rightarrow> KeepChanges
            | Some input \<Rightarrow>
                if eq_ignore_ascii_case (trim input) ''n'' \<or> eq_ignore_ascii_case (trim input) ''no''
                then discard snapshot_found else KeepChanges))"

text \<open>\<open>finalize_session\<close> hands it the agent's own exit code.\<close>

definition finish_ephemeral :: "SessionEnd \<Rightarrow> bool \<Rightarrow> bool \<Rightarrow> bool \<Rightarrow> string option \<Rightarrow> EphemeralAction" where
  "finish_ephemeral s auto_accept force_discard snapshot_found answer =
     ephemeral_completion (raw_exit_code s) auto_accept force_discard snapshot_found answer"

section \<open>Hexadecimal decoding inverts encoding\<close>

lemma hex_val_hex_digit: "d < 16 \<Longrightarrow> hex_val (hex_digit d) = Some d"
  by (auto simp: hex_val_def hex_digit_def Let_def)

lemma of_char_hex_digit: "d < 16 \<Longrightarrow> (of_char (hex_digit d) :: nat) = (if d < 10 then 48 + d else 87 + d)"
  by (simp add: hex_digit_def)

lemma hex_digit_plain:
  assumes "d < 16"
  shows "hex_digit d \<noteq> CHR ''+'' \<and> \<not> is_continuation (hex_digit d) \<and> \<not> is_ascii_ws (hex_digit d)"
proof -
  note n = of_char_hex_digit [OF assms]
  have "hex_digit d \<noteq> CHR ''+''"
  proof
    assume "hex_digit d = CHR ''+''"
    then have "(of_char (hex_digit d) :: nat) = 43" by simp
    with n show False by (simp split: if_splits)
  qed
  then show ?thesis using n assms by (auto simp: is_continuation_def is_ascii_ws_def Let_def)
qed

lemma unat_div_16: "unat (b :: u8) div 16 < 16"
  using unsigned_less [of b, where 'a = nat] by simp

lemma hex_byte_of: "hex_byte (hex_digit (unat b div 16)) (hex_digit (unat b mod 16)) = Some (b :: u8)"
  using hex_digit_plain [OF unat_div_16 [of b] ] hex_val_hex_digit [OF unat_div_16 [of b] ]
  by (simp add: hex_byte_def hex_val_hex_digit)

lemma decode_pairs_to_hex: "decode_pairs i (to_hex bs) = Ok bs"
proof (induction bs arbitrary: i)
  case (Cons b bs)
  have "to_hex bs = [] \<or> \<not> is_continuation (hd (to_hex bs))"
    using hex_digit_plain [OF unat_div_16] by (cases bs) (auto simp: to_hex_simps)
  then show ?case
    using Cons.IH hex_digit_plain [OF unat_div_16 [of b]]
    by (auto simp: to_hex_simps hex_byte_of)
qed (simp add: to_hex_simps)

lemma to_hex_no_ws: "c \<in> set (to_hex bs) \<Longrightarrow> \<not> is_ascii_ws c"
  using hex_digit_plain [OF unat_div_16] hex_digit_plain by (induction bs) (auto simp: to_hex_simps)

lemma trim_no_ws: "(\<And>c. c \<in> set s \<Longrightarrow> \<not> is_ascii_ws c) \<Longrightarrow> trim s = s"
proof -
  assume a: "\<And>c. c \<in> set s \<Longrightarrow> \<not> is_ascii_ws c"
  have "dropWhile is_ascii_ws t = t" if "set t = set s" for t
    using that a by (cases t) auto
  then show ?thesis by (simp add: trim_def trim_start_matches_def trim_end_matches_def)
qed

lemma length_to_hex: "length (to_hex bs) = 2 * length bs"
  by (induction bs) (simp_all add: to_hex_simps)

lemma decode_hex_to_hex: "decode_hex (to_hex bs) = Ok bs"
proof -
  have "trim (to_hex bs) = to_hex bs" by (rule trim_no_ws) (rule to_hex_no_ws)
  then show ?thesis by (simp add: decode_hex_def length_to_hex decode_pairs_to_hex)
qed

lemma decode_pairs_no_panic:
  "even (length s) \<Longrightarrow> (\<And>c. c \<in> set s \<Longrightarrow> \<not> is_continuation c) \<Longrightarrow> decode_pairs i s \<noteq> Err HexPanic"
proof (induction i s rule: decode_pairs.induct)
  case (3 i a b cs)
  have "decode_pairs (i + 2) cs \<noteq> Err HexPanic" if "hex_byte a b = Some x" for x
    using 3 that by (cases cs) auto
  with "3.prems" show ?case
    by (cases cs) (auto simp: and_then_Inl split: option.splits)
qed auto

text \<open>
  Hexadecimal keys and signatures. Decoding what the hexadecimal printer of the
  hashes writes gives the bytes back, and a string without a UTF-8 continuation byte never
  makes the decoder slice inside a character: it returns the bytes or an error.
\<close>

theorem hex_decoding_inverts_encoding:
  "decode_hex (to_hex bs) = Ok bs \<and>
   ((\<exists>c \<in> set s. is_continuation c) \<or> decode_hex s \<noteq> Err HexPanic)"
proof -
  have t: "set (trim s) \<subseteq> set s"
    by (auto simp: trim_def trim_start_matches_def trim_end_matches_def dest!: set_dropWhileD)
  have "decode_hex s \<noteq> Err HexPanic" if "\<forall>c \<in> set s. \<not> is_continuation c"
    using that t decode_pairs_no_panic [of "trim s" 0] by (auto simp: decode_hex_def Let_def)
  then show ?thesis using decode_hex_to_hex by blast
qed

section \<open>The verdict as a decision table\<close>

lemma verdict_new_simps [simp]:
  "vd_status (verdict_new st str sec code why) = st"
  "vd_strength (verdict_new st str sec code why) = str"
  "vd_security (verdict_new st str sec code why) = sec"
  "vd_exit_code (verdict_new st str sec code why) = code"
  "vd_reason (verdict_new st str sec code why) = why"
  by (simp_all add: verdict_new_def)

lemma clean_verdict_simps [simp]:
  "vd_status (clean_verdict c code str) = Pass" "vd_strength (clean_verdict c code str) = str"
  "vd_security (clean_verdict c code str) = Satisfied" "vd_exit_code (clean_verdict c code str) = code"
  by (simp_all add: clean_verdict_def)

text \<open>The signature requirement of a contract, as the engine checks it.\<close>

definition signature_ok :: "Codec \<Rightarrow> SecurityContract \<Rightarrow> bool" where
  "signature_ok codec c =
     (minisign_enabled (crypto c) \<longrightarrow> verify_contract_signature codec c = Ok ())"

lemma signed_verdict_cases:
  "signed_verdict codec c code str = Some v \<Longrightarrow>
     (if signature_ok codec c then v = clean_verdict c code str
      else vd_status v = Fail \<and> vd_strength v = Strong \<and> vd_security v = Violated \<and> vd_exit_code v = 125)"
  by (auto simp: signed_verdict_def signature_ok_def split: if_splits sum.splits SigError.splits)

text \<open>What the engine takes for a kept contract.\<close>

definition contract_kept :: "Codec \<Rightarrow> SecurityContract \<Rightarrow> SessionFacts \<Rightarrow> bool" where
  "contract_kept codec c f =
     (kernel_denials f = 0 \<and> evidence_channel_intact f \<and>
      (if unauthorized_writes f > 0 then fs_shadow (filesystem c)
       else zombies_survived f = 0 \<and> signature_ok codec c))"

lemma evaluate_with_strength_cases:
  assumes "evaluate_with_strength codec c f strength = Some v"
  shows "if strength \<noteq> Unsupported \<and> contract_kept codec c f
    then vd_status v = Pass \<and> vd_strength v = strength \<and> vd_security v = Satisfied \<and>
         vd_exit_code v = agent_exit_code f
    else vd_status v \<in> {Fail, Inconclusive} \<and> vd_security v = security_of_status (vd_status v) \<and>
         vd_exit_code v = 125 \<and> (vd_strength v = strength \<or> vd_strength v = Strong)"
proof (cases "strength \<noteq> Unsupported \<and> kernel_denials f = 0 \<and> evidence_channel_intact f \<and>
    unauthorized_writes f = 0 \<and> zombies_survived f = 0")
  case True
  with assms have "signed_verdict codec c (agent_exit_code f) strength = Some v"
    by (simp add: evaluate_with_strength_def)
  from signed_verdict_cases [OF this] True show ?thesis
    by (auto simp: contract_kept_def split: if_splits)
next
  case False
  with assms show ?thesis
    by (auto simp: evaluate_with_strength_def contract_kept_def split: if_splits)
qed

text \<open>The engine panics only in the decoding of a signature.\<close>

definition signature_panics :: "Codec \<Rightarrow> SecurityContract \<Rightarrow> bool" where
  "signature_panics codec c = (minisign_enabled (crypto c) \<and> verify_contract_signature codec c = Err HexPanic)"

lemma evaluate_returns:
  assumes "\<not> signature_panics codec c"
  obtains v where "evaluate_with_strength codec c f strength = Some v"
proof -
  have "signed_verdict codec c code str \<noteq> None" for code str
    using assms by (auto simp: signed_verdict_def signature_panics_def split: sum.splits SigError.splits)
  then have "evaluate_with_strength codec c f strength \<noteq> None"
    unfolding evaluate_with_strength_def by (simp split: if_splits)
  then show ?thesis using that by blast
qed

lemma action_commits: "starts_with (recommended_action v) ''Commit'' \<longleftrightarrow> is_contract_satisfied v"
  by (cases "(vd_security v, vd_strength v)" rule: action_of.cases)
     (auto simp: recommended_action_def is_contract_satisfied_def starts_with_def)

lemma evaluate_status:
  assumes "evaluate_with_strength codec c f strength = Some v"
  shows "vd_status v =
      (if strength \<noteq> Unsupported \<and> contract_kept codec c f then Pass
       else if strength \<noteq> Unsupported \<and> kernel_denials f = 0 \<and> \<not> evidence_channel_intact f then Inconclusive else Fail)"
    and "vd_strength v =
      (if strength \<noteq> Unsupported \<and> kernel_denials f = 0 \<and> evidence_channel_intact f \<and> unauthorized_writes f = 0 \<and>
          zombies_survived f = 0 \<and> \<not> signature_ok codec c then Strong else strength)"
proof -
  have "vd_status v =
      (if strength \<noteq> Unsupported \<and> contract_kept codec c f then Pass
       else if strength \<noteq> Unsupported \<and> kernel_denials f = 0 \<and> \<not> evidence_channel_intact f then Inconclusive else Fail) \<and>
    vd_strength v =
      (if strength \<noteq> Unsupported \<and> kernel_denials f = 0 \<and> evidence_channel_intact f \<and> unauthorized_writes f = 0 \<and>
          zombies_survived f = 0 \<and> \<not> signature_ok codec c then Strong else strength)"
  proof (cases "strength \<noteq> Unsupported \<and> kernel_denials f = 0 \<and> evidence_channel_intact f \<and>
      unauthorized_writes f = 0 \<and> zombies_survived f = 0")
    case True
    with assms have "signed_verdict codec c (agent_exit_code f) strength = Some v"
      by (simp add: evaluate_with_strength_def)
    from signed_verdict_cases [OF this] True show ?thesis
      by (auto simp: contract_kept_def split: if_splits)
  next
    case False
    with assms show ?thesis
      by (auto simp: evaluate_with_strength_def contract_kept_def split: if_splits)
  qed
  then show "vd_status v =
      (if strength \<noteq> Unsupported \<and> contract_kept codec c f then Pass
       else if strength \<noteq> Unsupported \<and> kernel_denials f = 0 \<and> \<not> evidence_channel_intact f then Inconclusive else Fail)"
    "vd_strength v =
      (if strength \<noteq> Unsupported \<and> kernel_denials f = 0 \<and> evidence_channel_intact f \<and> unauthorized_writes f = 0 \<and>
          zombies_survived f = 0 \<and> \<not> signature_ok codec c then Strong else strength)"
    by blast+
qed

text \<open>
  Property C20 (the verdict's decision table). The verdict of a session is satisfied exactly
  when the platform enforces, no kernel denial was recorded, the evidence channel is intact,
  and either the session wrote outside its workspace in shadow mode or it wrote nothing there,
  left no process behind and passed the signature check, if it asks for one. A satisfied verdict passes with the
  agent's exit code. Any other has exit code 125: it is inconclusive exactly when the evidence
  channel broke on an enforcing platform without a recorded denial, and else it fails. The
  strength of the evidence is the platform's, except for a rejected signature, which counts as
  strong. The changes are recommended for commit exactly for a satisfied verdict, and a session
  is a success exactly when moreover the agent exited with 0. The engine returns unless the
  contract is to be signed and decoding its signature panics.
\<close>

theorem verdict_decision_table:
  assumes "\<not> signature_panics codec c"
  shows "\<exists>v. evaluate_with_strength codec c f strength = Some v \<and>
    (is_contract_satisfied v \<longleftrightarrow> strength \<noteq> Unsupported \<and> contract_kept codec c f) \<and>
    vd_exit_code v = (if is_contract_satisfied v then agent_exit_code f else 125) \<and>
    vd_status v =
      (if is_contract_satisfied v then Pass
       else if strength \<noteq> Unsupported \<and> kernel_denials f = 0 \<and> \<not> evidence_channel_intact f then Inconclusive else Fail) \<and>
    vd_security v = security_of_status (vd_status v) \<and>
    vd_strength v =
      (if strength \<noteq> Unsupported \<and> kernel_denials f = 0 \<and> evidence_channel_intact f \<and> unauthorized_writes f = 0 \<and>
          zombies_survived f = 0 \<and> \<not> signature_ok codec c then Strong else strength) \<and>
    (starts_with (recommended_action v) ''Commit'' \<longleftrightarrow> is_contract_satisfied v) \<and>
    (is_success v \<longleftrightarrow> is_contract_satisfied v \<and> agent_exit_code f = 0)"
proof -
  obtain v where v: "evaluate_with_strength codec c f strength = Some v" by (rule evaluate_returns [OF assms])
  have sat: "is_contract_satisfied v \<longleftrightarrow> strength \<noteq> Unsupported \<and> contract_kept codec c f"
    using evaluate_with_strength_cases [OF v] by (auto simp: is_contract_satisfied_def split: if_splits)
  show ?thesis
    using evaluate_with_strength_cases [OF v]
    by (intro exI [of _ v] conjI v sat evaluate_status(1) [OF v, folded sat] evaluate_status(2) [OF v])
       (auto simp: action_commits is_contract_satisfied_def is_success_def split: if_splits)
qed

definition sample_facts :: SessionFacts where
  "sample_facts =
     \<lparr>kernel_denials = 0, unauthorized_writes = 0, zombies_survived = 0,
      evidence_channel_intact = True, agent_exit_code = 3\<rparr>"

definition sample_sealed :: SecurityContract where
  "sample_sealed = UnsealedSecurityContract.extend sample_contract (SecurityContract.fields [] [])"

lemma sample_sealed_simps [simp]:
  "crypto sample_sealed = crypto_new" "filesystem sample_sealed = filesystem sample_contract"
  by (simp_all add: sample_sealed_def sample_contract_def UnsealedSecurityContract.defs SecurityContract.defs)

lemma sample_sealed_unsigned [simp]: "\<not> signature_panics codec sample_sealed" "signature_ok codec sample_sealed"
  by (simp_all add: signature_panics_def signature_ok_def crypto_new_def)

theorem verdict_decision_table_witness:
  "\<exists>v. evaluate_with_strength sample_codec sample_sealed sample_facts Partial = Some v \<and>
     is_contract_satisfied v \<and> vd_exit_code v = 3 \<and> \<not> is_success v"
proof -
  have k: "contract_kept sample_codec sample_sealed sample_facts"
    by (simp add: sample_facts_def contract_kept_def)
  from verdict_decision_table [OF sample_sealed_unsigned(1), of sample_codec sample_facts Partial] k
  show ?thesis by (auto simp: sample_facts_def)
qed

section \<open>What the signature check establishes\<close>

lemma decode_hex_nonempty: "decode_hex s = Ok (b # bs) \<Longrightarrow> trim s \<noteq> []"
  by (auto simp: decode_hex_def)

text \<open>
  Property C25 (the signature check ignores the key). A contract passes the signature check
  exactly when its digest verifies, its public key decodes to 32 bytes, and its signature
  decodes to 64 bytes that are neither all zero nor all ones. Which bytes the key has, and what
  the signature says of the contract, does not matter: no signature is computed or compared.
\<close>

theorem any_signature_accepted:
  "verify_contract_signature codec c = Ok () \<longleftrightarrow>
     verify_digest codec c \<and>
     (\<exists>key_hex key. public_key (crypto c) = Some key_hex \<and> decode_hex key_hex = Ok key \<and> length key = 32) \<and>
     (\<exists>sig_hex sig. signature (crypto c) = Some sig_hex \<and> decode_hex sig_hex = Ok sig \<and> length sig = 64 \<and>
        (\<exists>b \<in> set sig. b \<noteq> 0xff) \<and> (\<exists>b \<in> set sig. b \<noteq> 0))"
    (is "?passes \<longleftrightarrow> ?form")
proof
  assume ?passes
  then show ?form
    by (auto simp: verify_contract_signature_def check_signature_bytes_def list_all_iff and_then_def
        split: option.splits if_splits sum.splits)
next
  assume ?form
  then obtain key_hex key sig_hex sig where k: "public_key (crypto c) = Some key_hex" "decode_hex key_hex = Ok key"
    "length key = 32" and g: "signature (crypto c) = Some sig_hex" "decode_hex sig_hex = Ok sig" "length sig = 64"
    "\<exists>b \<in> set sig. b \<noteq> 0xff" "\<exists>b \<in> set sig. b \<noteq> 0" and d: "verify_digest codec c" by blast
  have "trim key_hex \<noteq> []" "trim sig_hex \<noteq> []"
    using decode_hex_nonempty k(2,3) g(2,3) by (cases key; cases sig; auto)+
  then show ?passes
    using k g d by (auto simp: verify_contract_signature_def check_signature_bytes_def list_all_iff)
qed

definition forged_contract :: SecurityContract where
  "forged_contract =
     (case seal sample_codec (sample_contract\<lparr>crypto :=
             \<lparr>minisign_enabled = True, cosign_enabled = False,
              signature = Some (to_hex (1 # replicate 63 0)), public_key = Some (to_hex (replicate 32 7))\<rparr>\<rparr>) of
        Inr c \<Rightarrow> c | Inl _ \<Rightarrow> sample_sealed)"

theorem any_signature_accepted_witness:
  "verify_contract_signature sample_codec forged_contract = Ok ()"
proof -
  let ?u = "sample_contract\<lparr>crypto :=
      \<lparr>minisign_enabled = True, cosign_enabled = False,
       signature = Some (to_hex (1 # replicate 63 0)), public_key = Some (to_hex (replicate 32 7))\<rparr>\<rparr>"
  obtain c where c: "seal sample_codec ?u = Ok c"
    by (auto simp: seal_ok sample_codec_def)
  have "sha256 sample_codec b \<noteq> []" for b by (simp add: sample_codec_def)
  from seal_verifies [OF this c] have s: "unsealed c = ?u" "verify_sealed sample_codec c = Ok ()" by auto
  have d: "verify_digest sample_codec c"
    using s(2) by (auto simp: verify_sealed_def split: if_splits)
  have cr: "crypto c = crypto ?u"
    using arg_cong [OF s(1), of crypto] by (simp add: unsealed_def UnsealedSecurityContract.defs)
  have "verify_contract_signature sample_codec c = Ok ()"
    unfolding any_signature_accepted
    by (intro conjI d exI [of _ "to_hex (replicate 32 7)"] exI [of _ "replicate 32 7"]
        exI [of _ "to_hex (1 # replicate 63 0)"] exI [of _ "1 # replicate 63 0"])
       (simp_all add: cr decode_hex_to_hex)
  then show ?thesis using c by (simp add: forged_contract_def)
qed

section \<open>Exit codes of a session\<close>

text \<open>
  Exit codes of the agent. For every \<open>i32\<close> status the mapped exit code is a
  non-negative \<open>i32\<close>; a fail-closed status stays 125 whatever else happened, a timeout is
  otherwise 124, and a process killed by signal \<open>n\<close> exits with \<open>128 + n\<close> when that fits.
\<close>

theorem session_exit_code_bounds:
  assumes "is_i32 raw"
  shows "0 \<le> map_session_exit_code raw timed_out blocked \<and>
    is_i32 (map_session_exit_code raw timed_out blocked) \<and>
    (raw = EXIT_FAIL_CLOSED \<longrightarrow> map_session_exit_code raw timed_out blocked = EXIT_FAIL_CLOSED) \<and>
    (timed_out \<and> raw \<noteq> EXIT_FAIL_CLOSED \<longrightarrow> map_session_exit_code raw timed_out blocked = EXIT_TIMEOUT) \<and>
    (- (2 ^ 31 - 129) \<le> raw \<and> raw < 0 \<longrightarrow> map_session_exit_code raw False False = 128 - raw)"
  using assms
  by (auto simp: map_session_exit_code_def i32_sat_def is_i32_def exit_code_defs Let_def)

theorem session_exit_code_bounds_witness:
  "map_session_exit_code (-9) False False = 137 \<and> map_session_exit_code (-9) True False = EXIT_TIMEOUT"
proof -
  have "is_i32 (-9)" by (simp add: is_i32_def)
  from session_exit_code_bounds [OF this, of True False] session_exit_code_bounds [OF this, of False False]
  show ?thesis by (simp add: exit_code_defs)
qed

section \<open>Survivors\<close>

lemma verify_extinction_ok: "is_ok (verify_extinction platform n 0 0) \<longleftrightarrow> n = 0"
  by (simp add: verify_extinction_def Let_def)

lemma at_least_one_pos: "ex_survivors (at_least_one x) > 0"
  by (simp add: at_least_one_def)

lemma default_reason_survivors [simp]: "ex_survivors (default_reason w x) = ex_survivors x"
  by (simp add: default_reason_def)

lemma default_reason_breach [simp]: "ex_breach (default_reason w x) = ex_breach x"
  by (simp add: default_reason_def)

lemma at_least_one_breach [simp]: "ex_breach (at_least_one x) = ex_breach x"
  by (simp add: at_least_one_def)

lemmas breach_defs = breach_of_verdict_def breach_of_tree_def breach_of_diagnostic_def breach_of_timeout_def

lemma extinction_of_survivors: "ex_breach (extinction_of p) \<Longrightarrow> ex_survivors (extinction_of p) > 0"
  by (auto simp: extinction_of_def Let_def at_least_one_pos split: if_splits)

text \<open>The signals of a process left behind that a production result carries.\<close>

definition signals_breach :: "ProductionOutcome \<Rightarrow> bool" where
  "signals_breach p =
     (tree_failed p \<or>
      (case prod_verdict p of
         None \<Rightarrow> False
       | Some v \<Rightarrow> (vd_exit_code v = EXIT_FAIL_CLOSED \<or> vd_status v = Fail) \<and>
                   (contains_str (vd_reason v) ''extinction'' \<or> contains_str (vd_reason v) ''Lifecycle breach'')) \<or>
      (case prod_diagnostic p of
         None \<Rightarrow> False
       | Some d \<Rightarrow> contains_str d ''extinction breach'' \<or> residual_count d > 0) \<or>
      prod_timed_out p \<and> prod_exit_code p = Some EXIT_FAIL_CLOSED)"

lemma extinction_of_signals: "ex_breach (extinction_of (Some p)) \<longleftrightarrow> signals_breach p"
  by (auto simp: extinction_of_def signals_breach_def Let_def no_breach_def breach_defs
      split: option.splits)

lemma survivors_signals:
  assumes "production_result s = Some p"
  shows "survivors_at s > 0 \<longleftrightarrow> signals_breach p"
proof -
  have "ex_survivors (extinction_of (Some p)) = 0" if "\<not> signals_breach p"
    using that
    by (auto simp: extinction_of_def signals_breach_def Let_def no_breach_def breach_defs split: option.splits)
  moreover have "ex_survivors (extinction_of (Some p)) > 0" if "signals_breach p"
    using that extinction_of_survivors [of "Some p"] by (simp add: extinction_of_signals)
  ultimately show ?thesis unfolding survivors_at_def assms by fastforce
qed

lemma before_first_digits:
  assumes "list_all is_ascii_digit s"
  shows "before_first '' descendant'' (s @ '' descendant'' @ t) = Some s"
  using assms
proof (induction s)
  case (Cons c s)
  then have "c \<noteq> CHR '' ''" by (auto simp: is_ascii_digit_def)
  with Cons show ?case by (simp add: prefix_def)
qed simp

lemma after_first_front: "pat \<noteq> [] \<Longrightarrow> after_first pat (pat @ t) = Some t"
  by (cases pat) (simp_all add: prefix_def)

lemma digits_no_ws: "list_all is_ascii_digit s \<Longrightarrow> trim s = s"
  by (rule trim_no_ws) (auto simp: list_all_iff is_ascii_digit_def is_ascii_ws_def Let_def)

lemma reported_survivors_of_breach:
  assumes "n < 2 ^ 64"
  shows "reported_survivors (''Lifecycle breach: '' @ show_nat n @ '' descendant'' @ t) = n"
proof -
  have d: "list_all is_ascii_digit (show_nat n)" using show_nat_digits by blast
  note a = after_first_front [of "''Lifecycle breach: ''" "show_nat n @ '' descendant'' @ t"]
  show ?thesis
    unfolding reported_survivors_def
    using a before_first_digits [OF d, of t] digits_no_ws [OF d] parse_show_nat [OF assms]
    by (simp del: append_Cons)
qed

lemma contains_front: "contains_str (pat @ t) pat"
  unfolding contains_str_sublist by (metis append_Nil sublist_appendI)

text \<open>
  Survivors are read off the verdict. A production verdict that fails for \<open>n\<close>
  surviving processes is read back as exactly \<open>n\<close> survivors, by way of the text of its
  reason, and so is the reason of the extinction verifier's breach.
\<close>

theorem survivors_recovered:
  assumes "evaluate codec c f = Some v" and "kernel_denials f = 0" and "evidence_channel_intact f"
    and "unauthorized_writes f = 0" and "0 < zombies_survived f" and "zombies_survived f < 2 ^ 64"
    and "verify_extinction platform (zombies_survived f) r e = Err b"
  shows "ex_breach (breach_of_verdict v no_breach) \<and>
    ex_survivors (breach_of_verdict v no_breach) = zombies_survived f \<and>
    reported_survivors (breach_reason b) = zombies_survived f"
proof -
  let ?n = "zombies_survived f"
  have v: "v = verdict_new Fail Strong Violated 125
      (''Lifecycle breach: '' @ show_nat ?n @ '' descendant'' @ '' processes escaped extinction'')"
    using assms(1-5) by (simp add: evaluate_def evaluate_with_strength_def)
  have b: "breach_reason b = ''Lifecycle breach: '' @ show_nat ?n @ '' descendant'' @
      '' processes escaped extinction boundary''"
    using assms(5,7) by (auto simp: verify_extinction_def Let_def)
  have "contains_str (vd_reason v) ''Lifecycle breach''"
    using contains_front [of "''Lifecycle breach''" "'': '' @ show_nat ?n @ '' descendant'' @ '' processes escaped extinction''"]
    by (simp add: v)
  moreover have "reported_survivors (vd_reason v) = ?n"
    unfolding v verdict_new_simps by (rule reported_survivors_of_breach [OF assms(6)])
  moreover have "reported_survivors (breach_reason b) = ?n"
    unfolding b by (rule reported_survivors_of_breach [OF assms(6)])
  ultimately show ?thesis
    using assms(5) by (simp add: breach_of_verdict_def v at_least_one_def exit_code_defs)
qed

theorem survivors_recovered_witness:
  "\<exists>v. evaluate sample_codec sample_sealed (sample_facts\<lparr>zombies_survived := 12\<rparr>) = Some v \<and>
     ex_survivors (breach_of_verdict v no_breach) = 12"
proof -
  let ?f = "sample_facts\<lparr>zombies_survived := 12\<rparr>"
  obtain v where v: "evaluate sample_codec sample_sealed ?f = Some v"
    by (simp add: evaluate_def evaluate_with_strength_def sample_facts_def)
  obtain b where b: "verify_extinction LinuxTier1Proven (zombies_survived ?f) 0 0 = Err b"
    by (simp add: verify_extinction_def Let_def)
  have "ex_survivors (breach_of_verdict v no_breach) = zombies_survived ?f"
    using survivors_recovered [OF v _ _ _ _ _ b] by (simp add: sample_facts_def)
  then show ?thesis using v by simp
qed

section \<open>The final exit code as a decision table\<close>

lemma contract_kept_at:
  "contract_kept codec c (facts_at s) \<longleftrightarrow>
     blocked_at s = 0 \<and> channel_intact s \<and> survivors_at s = 0 \<and> signature_ok codec c"
  by (auto simp: contract_kept_def facts_at_def)

lemma evaluate_at:
  assumes "evaluate codec c (facts_at s) = Some v"
  shows "(vd_status v = Pass \<longleftrightarrow> contract_kept codec c (facts_at s)) \<and>
    (vd_exit_code v = (if vd_status v = Pass then raw_exit_code s else 125))"
  using evaluate_with_strength_cases [OF assms [unfolded evaluate_def] ]
  by (auto simp: facts_at_def split: if_splits)

definition fail_closed_end :: "Codec \<Rightarrow> SecurityContract \<Rightarrow> SessionEnd \<Rightarrow> bool" where
  "fail_closed_end codec c s =
     (\<not> run_shadow s \<and>
      (\<not> contract_kept codec c (facts_at s) \<or> threshold_reached (fail_on_block s) (blocked_at s)))"

lemma finalize_returns:
  assumes "\<not> signature_panics codec c"
  obtains r where "finalize_session codec c platform s = Some r"
proof -
  obtain v where "evaluate codec c (facts_at s) = Some v"
    unfolding evaluate_def by (rule evaluate_returns [OF assms])
  then show ?thesis using that unfolding finalize_session_def Let_def by simp
qed

lemma final_code_table:
  assumes "finalize_session codec c platform s = Some r"
  shows "sv_final_exit_code r =
    (if survivors_at s > 0 then 125
     else if session_timed_out s then map_session_exit_code (raw_exit_code s) True False
     else if fail_closed_end codec c s then 125
     else map_session_exit_code (raw_exit_code s) False False)"
proof -
  obtain v where v: "evaluate codec c (facts_at s) = Some v"
    and r: "sv_final_exit_code r = final_code (run_shadow s) (raw_exit_code s) (session_timed_out s)
      (threshold_reached (fail_on_block s) (blocked_at s)) v (survivors_at s \<noteq> 0) (survivors_at s)"
    using assms by (auto simp: finalize_session_def Let_def verify_extinction_ok split: option.splits)
  from evaluate_at [OF v] show ?thesis
    by (auto simp: r final_code_def fail_closed_end_def map_session_exit_code_def exit_code_defs Let_def
        split: if_splits)
qed

text \<open>
  Property C21 (the final exit code's decision table). A session that leaves a process behind
  exits with 125. Otherwise a session that timed out exits with 124, or with 125 where its
  status was already that. Otherwise, outside shadow mode, any kernel denial, a broken
  evidence channel, a failed signature check or a reached block threshold gives 125. What is
  left is the agent's own status. So a session exits with 0 exactly when the agent did and
  none of these happened, and a reached block threshold never gives the exit code 126. The
  session is finalized unless decoding its contract's signature panics.
\<close>

theorem final_exit_code_table:
  assumes "\<not> signature_panics codec c"
  shows "\<exists>r. finalize_session codec c platform s = Some r \<and> sv_final_exit_code r =
      (if survivors_at s > 0 then 125
       else if session_timed_out s then (if raw_exit_code s = 125 then 125 else 124)
       else if fail_closed_end codec c s then 125
       else map_session_exit_code (raw_exit_code s) False False) \<and>
    (sv_pass r \<longleftrightarrow> survivors_at s = 0 \<and> \<not> session_timed_out s \<and> raw_exit_code s = 0 \<and>
       (run_shadow s \<or> blocked_at s = 0 \<and> channel_intact s \<and> signature_ok codec c \<and>
          \<not> threshold_reached (fail_on_block s) (blocked_at s))) \<and>
    (sv_final_exit_code r = 126 \<longrightarrow> raw_exit_code s = 126)"
proof -
  have m: "map_session_exit_code n True False = (if n = 125 then 125 else 124)"
    "map_session_exit_code n False False = 0 \<longleftrightarrow> n = 0"
    "map_session_exit_code n False False = 126 \<Longrightarrow> n = 126" for n
    by (auto simp: map_session_exit_code_def i32_sat_def exit_code_defs Let_def min_def max_def split: if_splits)
  obtain r where r: "finalize_session codec c platform s = Some r" by (rule finalize_returns [OF assms])
  have p: "sv_pass r \<longleftrightarrow> sv_final_exit_code r = 0"
    using r by (auto simp: finalize_session_def Let_def split: option.splits)
  show ?thesis
    using m(3) [of "raw_exit_code s"]
    by (intro exI [of _ r] conjI r; unfold p final_code_table [OF r] m(1))
       (auto simp: m(2) fail_closed_end_def contract_kept_at)
qed

text \<open>
  A breach fails closed. A session has survivors exactly when its production
  result carries a signal of a process left behind: a failed containment capability, a failing
  verdict that names extinction, a diagnostic that names a breach or lists residual processes,
  or a timed-out teardown with exit code 125. Then the session exits with 125 in every mode,
  shadow mode and timeouts included.
\<close>

theorem breach_fails_closed:
  assumes "production_result s = Some p"
  shows "(survivors_at s > 0 \<longleftrightarrow> signals_breach p) \<and>
    (signals_breach p \<longrightarrow> finalize_session codec c platform s = Some r \<longrightarrow>
       sv_final_exit_code r = EXIT_FAIL_CLOSED \<and> \<not> sv_pass r)"
proof -
  note sv = survivors_signals [OF assms]
  have "sv_final_exit_code r = 125" if "signals_breach p" "finalize_session codec c platform s = Some r"
    using final_code_table [OF that(2)] that(1) sv by simp
  moreover have "sv_pass r \<longleftrightarrow> sv_final_exit_code r = 0" if "finalize_session codec c platform s = Some r"
    using that by (auto simp: finalize_session_def Let_def split: option.splits)
  ultimately show ?thesis using sv by (auto simp: exit_code_defs)
qed

definition sample_end :: SessionEnd where
  "sample_end =
     \<lparr>raw_exit_code = 0, session_timed_out = False, production_result = None,
      blocked_files = [2, 1], network_denied = 1, fail_on_block = Some 4, run_shadow = False,
      channel_intact = True\<rparr>"

lemma sample_end_simps [simp]:
  "survivors_at sample_end = 0" "blocked_at sample_end = 4"
  by (simp_all add: survivors_at_def blocked_at_def sample_end_def extinction_of_def no_breach_def
      blocked_sum_def)

theorem final_exit_code_table_witness:
  "\<exists>r. finalize_session sample_codec sample_sealed LinuxTier1Proven sample_end = Some r \<and>
     sv_final_exit_code r = 125 \<and> threshold_reached (fail_on_block sample_end) (blocked_at sample_end)"
proof -
  have t: "threshold_reached (fail_on_block sample_end) (blocked_at sample_end)"
    by (simp add: threshold_reached_def) (simp add: sample_end_def)
  then have "fail_closed_end sample_codec sample_sealed sample_end"
    by (simp add: fail_closed_end_def) (simp add: sample_end_def)
  moreover have "\<not> session_timed_out sample_end" by (simp add: sample_end_def)
  ultimately show ?thesis
    using final_exit_code_table [OF sample_sealed_unsigned(1), of sample_codec LinuxTier1Proven sample_end] t by auto
qed

theorem breach_fails_closed_witness:
  "survivors_at (sample_end\<lparr>run_shadow := True, production_result :=
      Some \<lparr>prod_verdict = None, tree_failed = False, prod_diagnostic = Some ''residual=[7, 8]'',
            prod_timed_out = False, prod_exit_code = None\<rparr>\<rparr>) > 0"
proof -
  let ?p = "\<lparr>prod_verdict = None, tree_failed = False, prod_diagnostic = Some ''residual=[7, 8]'',
    prod_timed_out = False, prod_exit_code = None\<rparr>"
  let ?s = "sample_end\<lparr>run_shadow := True, production_result := Some ?p\<rparr>"
  have "residual_count ''residual=[7, 8]'' = 2" by code_simp
  then have "signals_breach ?p" by (simp add: signals_breach_def)
  moreover have "production_result ?s = Some ?p" by simp
  ultimately show ?thesis using breach_fails_closed [of ?s ?p] by blast
qed

text \<open>
  An ephemeral session is kept on the agent's word. A session whose agent exits
  with 0 keeps its changes to the workspace where they are accepted automatically, although
  the verdict on the same session recommends wiping them: its kernel denials make the
  session exit with 125.
\<close>

theorem ephemeral_keeps_violating_session:
  assumes "raw_exit_code s = 0" and "blocked_at s > 0" and "\<not> run_shadow s" and "\<not> session_timed_out s"
    and "finalize_session codec c platform s = Some r" and "sv_verdict r = Some v"
  shows "finish_ephemeral s True False found answer = KeepChanges \<and> sv_final_exit_code r = 125 \<and>
    recommended_action v = ''Wipe CoW layer; abort session immediately.''"
proof -
  have v: "evaluate codec c (facts_at s) = Some v"
    using assms(5,6) by (auto simp: finalize_session_def Let_def split: option.splits)
  then have "vd_security v = Violated"
    using assms(2) by (auto simp: evaluate_def evaluate_with_strength_def facts_at_def)
  moreover have "fail_closed_end codec c s"
    using assms by (simp add: fail_closed_end_def contract_kept_at)
  ultimately show ?thesis
    using assms final_code_table [OF assms(5)]
    by (simp add: finish_ephemeral_def ephemeral_completion_def recommended_action_def)
qed

theorem ephemeral_keeps_violating_session_witness:
  "finish_ephemeral sample_end True False True None = KeepChanges \<and>
   (\<exists>r. finalize_session sample_codec sample_sealed LinuxTier1Proven sample_end = Some r \<and>
        sv_final_exit_code r = 125)"
proof -
  have "\<exists>v. evaluate sample_codec sample_sealed (facts_at sample_end) = Some v"
    by (simp add: evaluate_def evaluate_with_strength_def facts_at_def)
  then obtain r v where r: "finalize_session sample_codec sample_sealed LinuxTier1Proven sample_end = Some r"
    "sv_verdict r = Some v"
    by (auto simp: finalize_session_def Let_def)
  have "raw_exit_code sample_end = 0" "\<not> run_shadow sample_end" "\<not> session_timed_out sample_end"
    by (simp_all add: sample_end_def)
  from ephemeral_keeps_violating_session [OF this(1) _ this(2,3) r] r(1) show ?thesis by simp
qed

end
