(* ===== verification/Ledger.thy ===== *)
theory Ledger
  imports Verdicts "HOL-Library.List_Lexorder" "HOL-Library.Char_ord" "HOL-Library.Countable"
begin

text \<open>
  The audit ledger of \<open>src/src/audit/ledger.rs\<close> and the records it holds
  (\<open>src/src/audit/record.rs\<close>): one JSON object per line, each linked to the one before by the
  hash of the previous hash, the sequence number and the record's text.

  JSON text (\<open>serde_json\<close>) and SHA-256 (\<open>sha2\<close>) are third-party code: they are the fields of
  \<open>Serde\<close>, and \<open>serde_ok\<close> states what is documented of them: parsing the text of a value
  without floats, nested less than 128 deep, gives the value with its object keys in order and
  the last of equal keys; the text of an object is UTF-8 on one line between braces; a digest
  has 32 bytes. Floats are left out of that law, since \<open>serde_json\<close> parses them exactly only
  with a feature that the build does not enable. A \<open>serde_json::Value\<close> object is a list of
  keys and values, sorted where the code holds a map (a \<open>BTreeMap\<close>).

  The file is its contents. A failing write is outside the model, and so are \<open>2 ^ 64\<close> or more
  records in one file: sequence numbers are counted without a bound.

  The lemmas show that what the ledger writes verifies, that reopening an open ledger goes on
  where it stopped and a closed one is refused, and that two accepted ledgers with one last
  hash hold the same records unless the hash collides on the strings hashed for them.
\<close>

section \<open>JSON values\<close>

datatype json =
    JNull
  | JBool bool
  | JPosInt nat
  | JNegInt int
  | JFloat f64
  | JString string
  | JArray "json list"
  | JObject "(string \<times> json) list"

type_synonym json_map = "(string \<times> json) list"

text \<open>\<open>Map::insert\<close>, \<open>get\<close> and \<open>remove\<close> on the sorted list.\<close>

fun map_insert :: "string \<Rightarrow> json \<Rightarrow> json_map \<Rightarrow> json_map" where
  "map_insert k v [] = [(k, v)]"
| "map_insert k v ((k', v') # m) =
     (if k < k' then (k, v) # (k', v') # m
      else if k = k' then (k, v) # m
      else (k', v') # map_insert k v m)"

definition map_remove :: "string \<Rightarrow> json_map \<Rightarrow> json_map" where
  "map_remove k m = filter (\<lambda>p. fst p \<noteq> k) m"

definition json_map_of :: "json_map \<Rightarrow> json_map" where
  "json_map_of kvs = foldl (\<lambda>m p. map_insert (fst p) (snd p) m) [] kvs"

text \<open>The \<open>Value\<close> of a serialized structure: every object a map.\<close>

primrec to_value :: "json \<Rightarrow> json" where
  "to_value JNull = JNull"
| "to_value (JBool b) = JBool b"
| "to_value (JPosInt n) = JPosInt n"
| "to_value (JNegInt i) = JNegInt i"
| "to_value (JFloat x) = JFloat x"
| "to_value (JString s) = JString s"
| "to_value (JArray vs) = JArray (map to_value vs)"
| "to_value (JObject kvs) = JObject (json_map_of (map (map_prod id to_value) kvs))"

primrec json_depth :: "json \<Rightarrow> nat" where
  "json_depth JNull = 0"
| "json_depth (JBool b) = 0"
| "json_depth (JPosInt n) = 0"
| "json_depth (JNegInt i) = 0"
| "json_depth (JFloat x) = 0"
| "json_depth (JString s) = 0"
| "json_depth (JArray vs) = Suc (foldr max (map json_depth vs) 0)"
| "json_depth (JObject kvs) = Suc (foldr max (map snd (map (map_prod id json_depth) kvs)) 0)"

primrec exact_json :: "json \<Rightarrow> bool" where
  "exact_json JNull = True"
| "exact_json (JBool b) = True"
| "exact_json (JPosInt n) = (n < 2 ^ 64)"
| "exact_json (JNegInt i) = (- (2 ^ 63) \<le> i \<and> i < 0)"
| "exact_json (JFloat x) = False"
| "exact_json (JString s) = True"
| "exact_json (JArray vs) = list_all id (map exact_json vs)"
| "exact_json (JObject kvs) = list_all id (map snd (map (map_prod id exact_json) kvs))"

definition wf_json :: "json \<Rightarrow> bool" where
  "wf_json v = (exact_json v \<and> json_depth v < 128)"

fun as_str_json :: "json \<Rightarrow> string option" where
  "as_str_json (JString s) = Some s"
| "as_str_json _ = None"

text \<open>\<open>as_u64\<close>: a number of the first kind is a \<open>u64\<close>.\<close>

fun as_u64 :: "json \<Rightarrow> nat option" where
  "as_u64 (JPosInt n) = (if n < 2 ^ 64 then Some n else None)"
| "as_u64 _ = None"

definition get_str :: "string \<Rightarrow> json_map \<Rightarrow> string option" where
  "get_str k m = Option.bind (map_of m k) as_str_json"

definition get_u64 :: "string \<Rightarrow> json_map \<Rightarrow> nat option" where
  "get_u64 k m = Option.bind (map_of m k) as_u64"

definition contains_key :: "string \<Rightarrow> json_map \<Rightarrow> bool" where
  "contains_key k m = (map_of m k \<noteq> None)"

section \<open>Text files\<close>

fun is_cont :: "string \<Rightarrow> nat \<Rightarrow> bool" where
  "is_cont s 0 = True"
| "is_cont [] (Suc n) = False"
| "is_cont (c # cs) (Suc n) = (is_continuation c \<and> is_cont cs n)"

text \<open>The length of the well-formed UTF-8 sequence at the head, 0 where there is none.\<close>

definition utf8_seq :: "string \<Rightarrow> nat" where
  "utf8_seq s =
     (case s of
        [] \<Rightarrow> 0
      | c # cs \<Rightarrow>
          (let n = (of_char c :: nat); second = (case cs of [] \<Rightarrow> 0 | d # _ \<Rightarrow> (of_char d :: nat))
           in if n < 128 then 1
              else if 194 \<le> n \<and> n \<le> 223 \<and> is_cont cs 1 then 2
              else if 224 \<le> n \<and> n \<le> 239 \<and> is_cont cs 2 \<and> (n = 224 \<longrightarrow> 160 \<le> second) \<and>
                      (n = 237 \<longrightarrow> second < 160) then 3
              else if 240 \<le> n \<and> n \<le> 244 \<and> is_cont cs 3 \<and> (n = 240 \<longrightarrow> 144 \<le> second) \<and>
                      (n = 244 \<longrightarrow> second < 144) then 4
              else 0))"

function utf8_valid :: "string \<Rightarrow> bool" where
  "utf8_valid s =
     (if s = [] then True
      else if utf8_seq s = 0 then False
      else utf8_valid (drop (utf8_seq s) s))"
  by pat_completeness auto

termination
  by (relation "measure length") auto

declare utf8_valid.simps [simp del]

text \<open>\<open>BufRead::lines\<close>: pieces between line feeds, less a final carriage return; nothing after the
  last line feed is no line.\<close>

definition newline :: char where "newline = CHR 0x0A"
definition carriage_return :: char where "carriage_return = CHR 0x0D"

definition strip_cr :: "string \<Rightarrow> string" where
  "strip_cr l = (if l \<noteq> [] \<and> last l = carriage_return then butlast l else l)"

definition str_lines :: "string \<Rightarrow> string list" where
  "str_lines content =
     (let pieces = split_on (\<lambda>c. c = newline) content
      in if last pieces = []
         then map strip_cr (butlast pieces)
         else map strip_cr (butlast pieces) @ [last pieces])"

section \<open>Third-party code\<close>

record Serde =
  js_print :: "json \<Rightarrow> string"
  js_parse :: "string \<Rightarrow> (string, json) result"
  js_sha256 :: "u8 list \<Rightarrow> u8 list"

definition json_line :: "string \<Rightarrow> bool" where
  "json_line s =
     (utf8_valid s \<and> newline \<notin> set s \<and> (\<exists>t. s = ''{'' @ t @ ''}''))"

definition serde_ok :: "Serde \<Rightarrow> bool" where
  "serde_ok J =
     ((\<forall>v. wf_json v \<longrightarrow> js_parse J (js_print J v) = Ok (to_value v)) \<and>
      (\<forall>kvs. json_line (js_print J (JObject kvs))) \<and>
      (\<forall>b. length (js_sha256 J b) = 32))"

section \<open>Records\<close>

datatype RecordType = SessionInit | SyscallDenial | FsMutation | ResourceSample | TreeExtinction | SessionVerdict

fun record_type_name :: "RecordType \<Rightarrow> string" where
  "record_type_name SessionInit = ''SESSION_INIT''"
| "record_type_name SyscallDenial = ''SYSCALL_DENIAL''"
| "record_type_name FsMutation = ''FS_MUTATION''"
| "record_type_name ResourceSample = ''RESOURCE_SAMPLE''"
| "record_type_name TreeExtinction = ''TREE_EXTINCTION''"
| "record_type_name SessionVerdict = ''SESSION_VERDICT''"

datatype TierClassification = Tier1Linux | Tier2Macos | Tier3Windows

fun tier_name :: "TierClassification \<Rightarrow> string" where
  "tier_name Tier1Linux = ''TIER_1_LINUX''"
| "tier_name Tier2Macos = ''TIER_2_MACOS''"
| "tier_name Tier3Windows = ''TIER_3_WINDOWS''"

datatype SyscallActionTaken = Blocked | Audited

fun action_name :: "SyscallActionTaken \<Rightarrow> string" where
  "action_name Blocked = ''BLOCKED''"
| "action_name Audited = ''AUDITED''"

datatype FsMutationType = Created | Modified | Deleted

fun mutation_name :: "FsMutationType \<Rightarrow> string" where
  "mutation_name Created = ''CREATED''"
| "mutation_name Modified = ''MODIFIED''"
| "mutation_name Deleted = ''DELETED''"

datatype AuditPayload =
    SessionInitPayload string string string TierClassification
  | SyscallDenialPayload string string string SyscallActionTaken
  | FsMutationPayload string FsMutationType string
  | ResourceSamplePayload f64 nat nat
  | TreeExtinctionPayload string nat int nat bool
  | SessionVerdictPayload string string int string

text \<open>A signed integer and a float as \<open>serde_json\<close> holds them.\<close>

definition json_int :: "int \<Rightarrow> json" where
  "json_int i = (if i < 0 then JNegInt i else JPosInt (nat i))"

definition json_f64 :: "f64 \<Rightarrow> json" where
  "json_f64 x = (case x of Fin _ \<Rightarrow> JFloat x | _ \<Rightarrow> JNull)"

fun payload_fields :: "AuditPayload \<Rightarrow> (string \<times> json) list" where
  "payload_fields (SessionInitPayload platform kernel_release agent tier) =
     [(''platform'', JString platform), (''kernel_release'', JString kernel_release),
      (''agent_name'', JString agent), (''tier'', JString (tier_name tier))]"
| "payload_fields (SyscallDenialPayload syscall_name target_path lsm_backend action) =
     [(''syscall_name'', JString syscall_name), (''target_path'', JString target_path),
      (''lsm_backend'', JString lsm_backend), (''action_taken'', JString (action_name action))]"
| "payload_fields (FsMutationPayload relative_path mutation digest) =
     [(''relative_path'', JString relative_path), (''mutation_type'', JString (mutation_name mutation)),
      (''sha256_digest'', JString digest)]"
| "payload_fields (ResourceSamplePayload cpu memory pids) =
     [(''cpu_percent'', json_f64 cpu), (''memory_rss_bytes'', JPosInt memory), (''pid_count'', JPosInt pids)]"
| "payload_fields (TreeExtinctionPayload tier survivors signal elapsed clean) =
     [(''tier'', JString tier), (''survivors'', JPosInt survivors), (''signal_sent'', json_int signal),
      (''elapsed_ms'', JPosInt elapsed), (''clean'', JBool clean)]"
| "payload_fields (SessionVerdictPayload verdict strength code digest) =
     [(''verdict'', JString verdict), (''evidence_strength'', JString strength),
      (''exit_code'', json_int code), (''root_dag_digest'', JString digest)]"

record VettoAuditRecord =
  timestamp_utc :: string
  rec_type :: RecordType
  rec_session_id :: string
  rec_contract_digest :: string
  rec_payload :: AuditPayload

definition record_fields :: "VettoAuditRecord \<Rightarrow> (string \<times> json) list" where
  "record_fields r =
     [(''timestamp_utc'', JString (timestamp_utc r)),
      (''record_type'', JString (record_type_name (rec_type r))),
      (''session_id'', JString (rec_session_id r)),
      (''contract_digest'', JString (rec_contract_digest r)),
      (''payload'', JObject (payload_fields (rec_payload r)))]"

text \<open>The constructors; \<open>now\<close> is the clock's RFC 3339 text.\<close>

definition audit_record :: "string \<Rightarrow> RecordType \<Rightarrow> string \<Rightarrow> string \<Rightarrow> AuditPayload \<Rightarrow> VettoAuditRecord" where
  "audit_record now ty sid digest payload =
     \<lparr>timestamp_utc = now, rec_type = ty, rec_session_id = sid, rec_contract_digest = digest,
      rec_payload = payload\<rparr>"

definition session_init where
  "session_init now sid digest platform kernel_release agent tier =
     audit_record now SessionInit sid digest (SessionInitPayload platform kernel_release agent tier)"

definition syscall_denial where
  "syscall_denial now sid digest syscall_name target_path lsm_backend action =
     audit_record now SyscallDenial sid digest
       (SyscallDenialPayload syscall_name target_path lsm_backend action)"

definition fs_mutation where
  "fs_mutation now sid digest relative_path mutation sha =
     audit_record now FsMutation sid digest (FsMutationPayload relative_path mutation sha)"

definition resource_sample where
  "resource_sample now sid digest cpu memory pids =
     audit_record now ResourceSample sid digest (ResourceSamplePayload cpu memory pids)"

definition tree_extinction where
  "tree_extinction now sid digest tier survivors signal elapsed clean =
     audit_record now TreeExtinction sid digest (TreeExtinctionPayload tier survivors signal elapsed clean)"

definition session_verdict :: "string \<Rightarrow> string \<Rightarrow> string \<Rightarrow> FinalVerdict \<Rightarrow> string \<Rightarrow> VettoAuditRecord" where
  "session_verdict now sid digest v root_dag_digest =
     audit_record now SessionVerdict sid digest
       (SessionVerdictPayload (status_label (vd_status v)) (strength_label (vd_strength v))
          (vd_exit_code v) root_dag_digest)"

definition to_audit_export :: "FinalVerdict \<Rightarrow> json" where
  "to_audit_export v =
     to_value (JObject
       [(''status'', JString (status_label (vd_status v))),
        (''strength'', JString (strength_label (vd_strength v))),
        (''security_verdict'', JString (security_label (vd_security v))),
        (''exit_code'', json_int (vd_exit_code v)),
        (''reason'', JString (vd_reason v)),
        (''badge'', JString (display_badge v)),
        (''security_badge'', JString (security_badge v)),
        (''is_success'', JBool (is_success v)),
        (''is_contract_satisfied'', JBool (is_contract_satisfied v)),
        (''recommended_action'', JString (recommended_action v))])"

section \<open>Writing the ledger\<close>

definition GENESIS_HASH :: string where "GENESIS_HASH = ''GENESIS''"

definition manual_hex_hash :: "Serde \<Rightarrow> string \<Rightarrow> string" where
  "manual_hex_hash J data = to_hex (js_sha256 J (map of_char data))"

record AuditLedger =
  led_file :: string
  led_seq :: nat
  led_prev_hash :: string

definition linked_text :: "string \<Rightarrow> string \<Rightarrow> string \<Rightarrow> string" where
  "linked_text a b payload_json = a @ '':'' @ b @ '':'' @ payload_json"

text \<open>A written event: the line of its envelope, and the hash.\<close>

definition event_hash :: "Serde \<Rightarrow> json_map \<Rightarrow> string \<Rightarrow> nat \<Rightarrow> string" where
  "event_hash J event prev n =
     manual_hex_hash J (linked_text prev (show_nat n) (js_print J (to_value (JObject event))))"

definition event_envelope :: "nat \<Rightarrow> string \<Rightarrow> string \<Rightarrow> json_map \<Rightarrow> json" where
  "event_envelope n prev hash event =
     JObject ([(''seq'', JPosInt n), (''prev_hash'', JString prev), (''hash'', JString hash)] @ event)"

definition append_line :: "Serde \<Rightarrow> json \<Rightarrow> string \<Rightarrow> string" where
  "append_line J v content = content @ js_print J v @ [newline]"

definition record_event :: "Serde \<Rightarrow> json_map \<Rightarrow> AuditLedger \<Rightarrow> AuditLedger \<times> string" where
  "record_event J event l =
     (let current_hash = event_hash J event (led_prev_hash l) (led_seq l);
          envelope = event_envelope (led_seq l) (led_prev_hash l) current_hash event
      in (l\<lparr>led_file := append_line J envelope (led_file l), led_prev_hash := current_hash,
            led_seq := led_seq l + 1\<rparr>, current_hash))"

definition record_audit_record :: "Serde \<Rightarrow> VettoAuditRecord \<Rightarrow> AuditLedger \<Rightarrow> AuditLedger \<times> string" where
  "record_audit_record J r l = record_event J (record_fields r) l"

definition closing_signature :: "Serde \<Rightarrow> string \<Rightarrow> string" where
  "closing_signature J prev = manual_hex_hash J (''CLOSE:'' @ prev)"

definition signature_envelope :: "nat \<Rightarrow> string \<Rightarrow> string \<Rightarrow> json" where
  "signature_envelope n prev sig =
     JObject [(''seq'', JPosInt n), (''prev_hash'', JString prev), (''signature'', JString sig)]"

text \<open>\<open>sign_and_close\<close> consumes the ledger: the file's contents are left, with the signature.\<close>

definition sign_and_close :: "Serde \<Rightarrow> AuditLedger \<Rightarrow> string \<times> string" where
  "sign_and_close J l =
     (let sig = closing_signature J (led_prev_hash l)
      in (append_line J (signature_envelope (led_seq l) (led_prev_hash l) sig) (led_file l), sig))"

section \<open>Verifying a ledger file\<close>

record LedgerCorruption =
  line_number :: nat
  bad_seq :: "nat option"
  expected_hash :: "string option"
  actual_hash :: "string option"
  corruption_reason :: string

record LedgerVerificationResult =
  is_valid :: bool
  records_verified :: nat
  last_seq :: "nat option"
  last_hash :: "string option"
  has_terminal_record :: bool
  has_signature :: bool
  corruption :: "LedgerCorruption option"

text \<open>The file as \<open>File::open\<close> finds it.\<close>

datatype LedgerFile = NotFound | OpenError string | Contents string

text \<open>The variables of the loop.\<close>

record Scan =
  sc_prev :: string
  sc_seq :: nat
  sc_signed :: bool
  sc_terminal :: bool
  sc_verified :: nat
  sc_last :: "string option"
  sc_line :: nat

definition scan_start :: Scan where
  "scan_start =
     \<lparr>sc_prev = GENESIS_HASH, sc_seq = 0, sc_signed = False, sc_terminal = False, sc_verified = 0,
      sc_last = None, sc_line = 0\<rparr>"

definition seq_before :: "nat \<Rightarrow> nat option" where
  "seq_before n = (if n > 0 then Some (n - 1) else None)"

definition scan_result :: "bool \<Rightarrow> Scan \<Rightarrow> LedgerCorruption option \<Rightarrow> LedgerVerificationResult" where
  "scan_result valid st c =
     \<lparr>is_valid = valid, records_verified = sc_verified st, last_seq = seq_before (sc_seq st),
      last_hash = sc_last st, has_terminal_record = sc_terminal st, has_signature = sc_signed st,
      corruption = c\<rparr>"

definition corrupt :: "Scan \<Rightarrow> nat option \<Rightarrow> string option \<Rightarrow> string option \<Rightarrow> string \<Rightarrow> LedgerVerificationResult" where
  "corrupt st n expect got why =
     scan_result False st
       (Some \<lparr>line_number = sc_line st, bad_seq = n, expected_hash = expect, actual_hash = got,
              corruption_reason = why\<rparr>)"

text \<open>A line that is a signature envelope.\<close>

definition check_signature :: "Serde \<Rightarrow> json_map \<Rightarrow> Scan \<Rightarrow> LedgerVerificationResult + Scan" where
  "check_signature J obj st =
     (case get_str ''prev_hash'' obj of
        None \<Rightarrow> Inl (corrupt st (Some (sc_seq st)) None None ''Missing prev_hash in signature envelope'')
      | Some prev_hash \<Rightarrow>
          (case get_u64 ''seq'' obj of
             None \<Rightarrow> Inl (corrupt st (Some (sc_seq st)) None None ''Missing seq in signature envelope'')
           | Some n \<Rightarrow>
               if prev_hash \<noteq> sc_prev st \<or> n \<noteq> sc_seq st
               then Inl (corrupt st (Some n) (Some (sc_prev st)) (Some prev_hash)
                      (''Signature envelope mismatch: expected seq='' @ show_nat (sc_seq st) @
                       '', prev_hash='' @ [CHR 0x27] @ sc_prev st @ [CHR 0x27] @ '', got seq='' @
                       show_nat n @ '', prev_hash='' @ [CHR 0x27] @ prev_hash @ [CHR 0x27]))
               else (let expected_sig = closing_signature J (sc_prev st);
                         actual_sig = (case get_str ''signature'' obj of None \<Rightarrow> [] | Some s \<Rightarrow> s)
                     in if actual_sig \<noteq> expected_sig
                        then Inl ((corrupt st (Some (sc_seq st)) (Some expected_sig) (Some actual_sig)
                               ''Signature envelope hash mismatch'')
                               \<lparr>last_hash := Some (sc_prev st), has_signature := False\<rparr>)
                        else Inr (st\<lparr>sc_signed := True\<rparr>))))"

text \<open>A line that is a record.\<close>

definition note_terminal :: "json_map \<Rightarrow> Scan \<Rightarrow> Scan" where
  "note_terminal obj st =
     (if get_str ''record_type'' obj = Some ''SESSION_VERDICT'' then st\<lparr>sc_terminal := True\<rparr> else st)"

definition payload_text :: "Serde \<Rightarrow> json_map \<Rightarrow> string" where
  "payload_text J obj =
     js_print J (JObject (map_remove ''hash'' (map_remove ''prev_hash'' (map_remove ''seq'' obj))))"

definition check_link :: "Serde \<Rightarrow> string \<Rightarrow> nat \<Rightarrow> string \<Rightarrow> string \<Rightarrow> Scan \<Rightarrow> LedgerVerificationResult + Scan" where
  "check_link J payload_json n prev_hash hash st =
     (if n \<noteq> sc_seq st
      then Inl (corrupt st (Some n) None None
             (''Sequence break: expected '' @ show_nat (sc_seq st) @ '', got '' @ show_nat n))
      else if prev_hash \<noteq> sc_prev st
      then Inl (corrupt st (Some n) (Some (sc_prev st)) (Some prev_hash)
             (''Hash chain break: prev_hash does not match previous entry'' @ [CHR 0x27] @ ''s hash''))
      else (let recomputed = manual_hex_hash J (linked_text prev_hash (show_nat n) payload_json);
                recomputed_alt = manual_hex_hash J (linked_text (show_nat n) prev_hash payload_json)
            in if recomputed \<noteq> hash \<and> recomputed_alt \<noteq> hash
               then Inl (corrupt st (Some n) (Some recomputed) (Some hash)
                      ''Cryptographic hash mismatch: record payload was tampered'')
               else Inr (st\<lparr>sc_prev := hash, sc_last := Some hash, sc_seq := sc_seq st + 1,
                            sc_verified := sc_verified st + 1\<rparr>)))"

definition check_record :: "Serde \<Rightarrow> json_map \<Rightarrow> Scan \<Rightarrow> LedgerVerificationResult + Scan" where
  "check_record J obj st0 =
     (let st = note_terminal obj st0
      in case get_u64 ''seq'' obj of
           None \<Rightarrow> Inl (corrupt st None None None
                     (''Record missing '' @ [CHR 0x27] @ ''seq'' @ [CHR 0x27] @ '' field''))
         | Some n \<Rightarrow>
             (case get_str ''prev_hash'' obj of
                None \<Rightarrow> Inl (corrupt st (Some n) None None
                          (''Record missing '' @ [CHR 0x27] @ ''prev_hash'' @ [CHR 0x27] @ '' field''))
              | Some prev_hash \<Rightarrow>
                  (case get_str ''hash'' obj of
                     None \<Rightarrow> Inl (corrupt st (Some n) None None
                               (''Record missing '' @ [CHR 0x27] @ ''hash'' @ [CHR 0x27] @ '' field''))
                   | Some hash \<Rightarrow> check_link J (payload_text J obj) n prev_hash hash st)))"

text \<open>One line, after the line counter went up: \<open>Inl\<close> returns from the function.\<close>

definition check_line :: "Serde \<Rightarrow> string \<Rightarrow> Scan \<Rightarrow> LedgerVerificationResult + Scan" where
  "check_line J line st =
     (let trimmed = trim line
      in if trimmed = [] then Inr st
         else if sc_signed st
         then Inl (corrupt st (Some (sc_seq st)) None None
                ''Extraneous record found after signature envelope'')
         else (case js_parse J trimmed of
                 Inl e \<Rightarrow> Inl (corrupt st (Some (sc_seq st)) None None (''JSON parse error: '' @ e))
               | Inr (JObject obj) \<Rightarrow>
                   if \<not> contains_key ''hash'' obj \<and> contains_key ''signature'' obj
                   then check_signature J obj st
                   else check_record J obj st
               | Inr _ \<Rightarrow> Inl (corrupt st (Some (sc_seq st)) None None ''Record is not a JSON object'')))"

definition scan_end :: "Scan \<Rightarrow> LedgerVerificationResult" where
  "scan_end st =
     (let valid = (sc_seq st > 0 \<and> (sc_terminal st \<or> sc_signed st))
      in if valid then scan_result True st None
         else if sc_seq st = 0
         then corrupt (st\<lparr>sc_line := 0\<rparr>) None None None ''Empty ledger: 0 records found''
         else corrupt st (Some (sc_seq st - 1)) None None
                ''Missing terminal record (SESSION_VERDICT) or signature envelope'')"

definition invalid_utf8 :: string where
  "invalid_utf8 = ''stream did not contain valid UTF-8''"

fun scan_lines :: "Serde \<Rightarrow> string list \<Rightarrow> Scan \<Rightarrow> (string, LedgerVerificationResult) result" where
  "scan_lines J [] st = Ok (scan_end st)"
| "scan_lines J (l # ls) st =
     (if \<not> utf8_valid l then Err invalid_utf8
      else (case check_line J l (st\<lparr>sc_line := sc_line st + 1\<rparr>) of
              Inl r \<Rightarrow> Ok r
            | Inr st' \<Rightarrow> scan_lines J ls st'))"

fun verify_file_detailed :: "Serde \<Rightarrow> LedgerFile \<Rightarrow> (string, LedgerVerificationResult) result" where
  "verify_file_detailed J NotFound =
     Ok (corrupt scan_start None None None ''File not found'')"
| "verify_file_detailed J (OpenError e) = Err e"
| "verify_file_detailed J (Contents content) = scan_lines J (str_lines content) scan_start"

definition verify_file :: "Serde \<Rightarrow> LedgerFile \<Rightarrow> (string, bool) result" where
  "verify_file J f = and_then (verify_file_detailed J f) (\<lambda>r. Ok (is_valid r))"

section \<open>Opening a ledger\<close>

text \<open>\<open>Corrupted\<close> stands for the \<open>anyhow::bail!\<close> of a corrupted file, \<open>LedgerIo\<close> for an I/O error.\<close>

datatype LedgerError = LedgerClosed | Corrupted string | LedgerIo string

definition tolerated :: "LedgerVerificationResult \<Rightarrow> bool" where
  "tolerated r =
     (is_valid r \<or>
      (case corruption r of
         None \<Rightarrow> True
       | Some c \<Rightarrow> contains_str (corruption_reason c) ''Missing terminal record''))"

definition resume :: "string \<Rightarrow> LedgerVerificationResult \<Rightarrow> AuditLedger" where
  "resume content r =
     \<lparr>led_file = content,
      led_seq = (case last_seq r of Some s \<Rightarrow> s + 1 | None \<Rightarrow> 0),
      led_prev_hash = (case last_hash r of Some h \<Rightarrow> h | None \<Rightarrow> GENESIS_HASH)\<rparr>"

definition fresh_ledger :: AuditLedger where
  "fresh_ledger = \<lparr>led_file = [], led_seq = 0, led_prev_hash = GENESIS_HASH\<rparr>"

definition open_ledger :: "Serde \<Rightarrow> LedgerFile \<Rightarrow> (LedgerError, AuditLedger) result" where
  "open_ledger J f =
     (case f of
        OpenError e \<Rightarrow> Err (LedgerIo e)
      | NotFound \<Rightarrow> Ok fresh_ledger
      | Contents content \<Rightarrow>
          if content = [] then Ok fresh_ledger
          else (case verify_file_detailed J f of
                  Inl e \<Rightarrow> Err (LedgerIo e)
                | Inr r \<Rightarrow>
                    if has_signature r \<or> has_terminal_record r then Err LedgerClosed
                    else if \<not> tolerated r
                    then (case corruption r of
                            Some c \<Rightarrow> Err (Corrupted (''Cannot open corrupted audit ledger: '' @ corruption_reason c))
                          | None \<Rightarrow> Ok (resume content r))
                    else Ok (resume content r)))"

section \<open>Lemmas on JSON maps\<close>

lemma map_of_map_insert: "map_of (map_insert k v m) = (map_of m)(k \<mapsto> v)"
  by (induction k v m rule: map_insert.induct) (auto simp: fun_eq_iff)

lemma keys_map_insert: "fst ` set (map_insert k v m) = insert k (fst ` set m)"
  by (induction k v m rule: map_insert.induct) auto

abbreviation sorted_map :: "json_map \<Rightarrow> bool" where
  "sorted_map m \<equiv> sorted_wrt (<) (map fst m)"

lemma sorted_map_insert: "sorted_map m \<Longrightarrow> sorted_map (map_insert k v m)"
proof (induction k v m rule: map_insert.induct)
  case (2 k v k' v' m)
  have "fst ` set (map_insert k v m) = insert k (fst ` set m)" by (rule keys_map_insert)
  with 2 show ?case by (auto simp: not_less_iff_gr_or_eq)
qed simp

lemma map_insert_front: "\<forall>x \<in> fst ` set m. k < x \<Longrightarrow> map_insert k v m = (k, v) # m"
  by (cases m) auto

lemma map_remove_insert_same: "map_remove k (map_insert k v m) = map_remove k m"
  by (induction k v m rule: map_insert.induct) (auto simp: map_remove_def)

lemma map_remove_insert_other:
  "sorted_map m \<Longrightarrow> k \<noteq> k' \<Longrightarrow> map_remove k (map_insert k' v m) = map_insert k' v (map_remove k m)"
proof (induction m)
  case (Cons p m)
  obtain a b where p: "p = (a, b)" by (cases p)
  show ?case
  proof (cases "k' < a")
    case True
    have "\<forall>x \<in> fst ` set (map_remove k (p # m)). k' < x"
      using Cons.prems True by (auto simp: map_remove_def p)
    from map_insert_front [OF this] True Cons.prems(2) show ?thesis
      by (simp add: p map_remove_def)
  next
    case False
    with Cons show ?thesis by (auto simp: p map_remove_def)
  qed
qed (simp add: map_remove_def)

lemma json_map_of_snoc: "json_map_of (kvs @ [p]) = map_insert (fst p) (snd p) (json_map_of kvs)"
  by (simp add: json_map_of_def)

lemma sorted_json_map_of: "sorted_map (json_map_of kvs)"
  by (induction kvs rule: rev_induct) (simp_all add: json_map_of_snoc sorted_map_insert json_map_of_def)

lemma map_of_json_map_of: "map_of (json_map_of kvs) = map_of (rev kvs)"
proof (induction kvs rule: rev_induct)
  case (snoc p kvs)
  then show ?case by (cases p) (simp add: json_map_of_snoc map_of_map_insert)
qed (simp add: json_map_of_def)

lemma map_remove_json_map_of: "map_remove k (json_map_of kvs) = json_map_of (filter (\<lambda>p. fst p \<noteq> k) kvs)"
proof (induction kvs rule: rev_induct)
  case (snoc p kvs)
  then show ?case
    by (auto simp: json_map_of_snoc map_remove_insert_same
        map_remove_insert_other [OF sorted_json_map_of])
qed (simp add: json_map_of_def map_remove_def)

section \<open>Lemmas on lines\<close>

definition unlines :: "string list \<Rightarrow> string" where
  "unlines ls = concat (map (\<lambda>l. l @ [newline]) ls)"

lemma unlines_snoc: "unlines (ls @ [l]) = unlines ls @ l @ [newline]"
  by (simp add: unlines_def)

lemma split_unlines:
  "(\<And>l. l \<in> set ls \<Longrightarrow> newline \<notin> set l) \<Longrightarrow> split_on (\<lambda>c. c = newline) (unlines ls) = ls @ [[]]"
proof (induction ls)
  case (Cons l ls)
  have "list_all (\<lambda>c. \<not> c = newline) l" using Cons.prems by (auto simp: list_all_iff)
  from split_on_no_sep [OF this] Cons show ?case by (simp add: unlines_def split_on_append_sep)
qed (simp add: unlines_def)

lemma json_lineE:
  assumes "json_line s"
  shows "utf8_valid s" "newline \<notin> set s" "trim s = s" "s \<noteq> []" "strip_cr s = s"
proof -
  obtain t where t: "s = ''{'' @ t @ ''}''" using assms by (auto simp: json_line_def)
  show "utf8_valid s" "newline \<notin> set s" using assms by (auto simp: json_line_def)
  show "trim s = s"
    by (simp add: t trim_def trim_start_matches_def trim_end_matches_def is_ascii_ws_def)
  show "s \<noteq> []" "strip_cr s = s" by (simp_all add: t strip_cr_def carriage_return_def)
qed

lemma str_lines_unlines: "(\<And>l. l \<in> set ls \<Longrightarrow> json_line l) \<Longrightarrow> str_lines (unlines ls) = ls"
  using json_lineE(2,5) by (simp add: str_lines_def split_unlines) (simp add: map_idI)

lemma serde_print_line: "serde_ok J \<Longrightarrow> json_line (js_print J (JObject kvs))"
  by (simp add: serde_ok_def)

lemma serde_parse_print: "serde_ok J \<Longrightarrow> wf_json v \<Longrightarrow> js_parse J (js_print J v) = Ok (to_value v)"
  by (simp add: serde_ok_def)

section \<open>A written event is accepted\<close>

definition reserved_keys :: "string set" where
  "reserved_keys = {''seq'', ''prev_hash'', ''hash''}"

text \<open>An event the ledger can hold: a value that survives its text, without the envelope's keys.\<close>

definition event_ok :: "json_map \<Rightarrow> bool" where
  "event_ok e = (wf_json (JObject e) \<and> fst ` set e \<inter> reserved_keys = {})"

definition event_map :: "json_map \<Rightarrow> json_map" where
  "event_map e = json_map_of (map (map_prod id to_value) e)"

definition is_verdict :: "json_map \<Rightarrow> bool" where
  "is_verdict e = (get_str ''record_type'' (event_map e) = Some ''SESSION_VERDICT'')"

definition envelope_map :: "nat \<Rightarrow> string \<Rightarrow> string \<Rightarrow> json_map \<Rightarrow> json_map" where
  "envelope_map n prev h e =
     json_map_of ([(''seq'', JPosInt n), (''prev_hash'', JString prev), (''hash'', JString h)] @
       map (map_prod id to_value) e)"

lemma to_value_envelope: "to_value (event_envelope n prev h e) = JObject (envelope_map n prev h e)"
  by (simp add: event_envelope_def envelope_map_def)

lemma map_of_event_none:
  "event_ok e \<Longrightarrow> k \<in> reserved_keys \<Longrightarrow> map_of (rev (map (map_prod id to_value) e)) k = None"
  unfolding map_of_eq_None_iff by (force simp: event_ok_def)

lemma envelope_map_get:
  assumes "event_ok e"
  shows "map_of (envelope_map n prev h e) ''seq'' = Some (JPosInt n)"
    "map_of (envelope_map n prev h e) ''prev_hash'' = Some (JString prev)"
    "map_of (envelope_map n prev h e) ''hash'' = Some (JString h)"
    "map_of (envelope_map n prev h e) ''record_type'' = map_of (event_map e) ''record_type''"
  using map_of_event_none [OF assms]
  by (simp_all add: envelope_map_def event_map_def map_of_json_map_of map_add_def reserved_keys_def
      split: option.splits)

lemma payload_text_envelope:
  assumes "event_ok e"
  shows "payload_text J (envelope_map n prev h e) = js_print J (to_value (JObject e))"
proof -
  have "filter (\<lambda>p. fst p \<noteq> k) (map (map_prod id to_value) e) = map (map_prod id to_value) e"
    if "k \<in> reserved_keys" for k
    using that assms by (intro filter_True) (force simp: event_ok_def)
  then show ?thesis
    by (simp add: payload_text_def envelope_map_def map_remove_json_map_of reserved_keys_def)
qed

lemma wf_envelope: "event_ok e \<Longrightarrow> n < 2 ^ 64 \<Longrightarrow> wf_json (event_envelope n prev h e)"
  by (simp add: event_ok_def wf_json_def event_envelope_def)

text \<open>What the loop knows after the records of a ledger.\<close>

definition scan_of :: "AuditLedger \<Rightarrow> bool \<Rightarrow> Scan" where
  "scan_of l terminal =
     \<lparr>sc_prev = led_prev_hash l, sc_seq = led_seq l, sc_signed = False, sc_terminal = terminal,
      sc_verified = led_seq l, sc_last = (if led_seq l = 0 then None else Some (led_prev_hash l)),
      sc_line = led_seq l\<rparr>"

definition count_line :: "Scan \<Rightarrow> Scan" where
  "count_line st = st\<lparr>sc_line := sc_line st + 1\<rparr>"

definition event_line :: "Serde \<Rightarrow> json_map \<Rightarrow> AuditLedger \<Rightarrow> string" where
  "event_line J e l =
     js_print J (event_envelope (led_seq l) (led_prev_hash l) (event_hash J e (led_prev_hash l) (led_seq l)) e)"

lemma record_event_file:
  "led_file (fst (record_event J e l)) = led_file l @ event_line J e l @ [newline]"
  "led_seq (fst (record_event J e l)) = led_seq l + 1"
  "led_prev_hash (fst (record_event J e l)) = event_hash J e (led_prev_hash l) (led_seq l)"
  "snd (record_event J e l) = event_hash J e (led_prev_hash l) (led_seq l)"
  by (simp_all add: record_event_def Let_def append_line_def event_line_def)

lemma check_event_line:
  assumes "serde_ok J" and "event_ok e" and "led_seq l < 2 ^ 64"
  shows "check_line J (event_line J e l) (count_line (scan_of l t)) =
    Inr (scan_of (fst (record_event J e l)) (t \<or> is_verdict e))"
proof -
  let ?n = "led_seq l" and ?p = "led_prev_hash l"
  let ?h = "event_hash J e ?p ?n"
  let ?m = "envelope_map ?n ?p ?h e"
  have line: "json_line (event_line J e l)"
    unfolding event_line_def event_envelope_def by (rule serde_print_line [OF assms(1)])
  have parse: "js_parse J (event_line J e l) = Ok (JObject ?m)"
    unfolding event_line_def serde_parse_print [OF assms(1) wf_envelope [OF assms(2,3)] ]
    by (simp add: to_value_envelope)
  note g = envelope_map_get [OF assms(2), of ?n ?p ?h]
  have gets: "get_u64 ''seq'' ?m = Some ?n" "get_str ''prev_hash'' ?m = Some ?p"
    "get_str ''hash'' ?m = Some ?h" "contains_key ''hash'' ?m"
    "get_str ''record_type'' ?m = get_str ''record_type'' (event_map e)"
    using g assms(3) by (simp_all add: get_u64_def get_str_def contains_key_def)
  have "check_line J (event_line J e l) (count_line (scan_of l t)) =
      check_record J ?m (count_line (scan_of l t))"
    using json_lineE [OF line] parse gets by (simp add: check_line_def count_line_def scan_of_def)
  also have "\<dots> = check_link J (js_print J (to_value (JObject e))) ?n ?p ?h
      (note_terminal ?m (count_line (scan_of l t)))"
    using gets by (simp add: check_record_def payload_text_envelope [OF assms(2)] del: to_value.simps)
  also have "note_terminal ?m (count_line (scan_of l t)) = count_line (scan_of l (t \<or> is_verdict e))"
    by (simp add: note_terminal_def gets is_verdict_def count_line_def scan_of_def)
  also have "check_link J (js_print J (to_value (JObject e))) ?n ?p ?h
      (count_line (scan_of l (t \<or> is_verdict e))) = Inr (scan_of (fst (record_event J e l)) (t \<or> is_verdict e))"
    by (simp add: check_link_def count_line_def scan_of_def record_event_file event_hash_def Let_def
        del: to_value.simps)
  finally show ?thesis .
qed

fun scan_fold :: "Serde \<Rightarrow> string list \<Rightarrow> Scan \<Rightarrow> Scan option" where
  "scan_fold J [] st = Some st"
| "scan_fold J (l # ls) st =
     (if \<not> utf8_valid l then None
      else (case check_line J l (count_line st) of Inl _ \<Rightarrow> None | Inr st' \<Rightarrow> scan_fold J ls st'))"

lemma scan_lines_append:
  "scan_fold J ls st = Some st' \<Longrightarrow> scan_lines J (ls @ ls') st = scan_lines J ls' st'"
  by (induction ls arbitrary: st) (auto simp: count_line_def split: if_splits sum.splits)

lemma scan_fold_append:
  "scan_fold J (ls @ ls') st = Option.bind (scan_fold J ls st) (scan_fold J ls')"
  by (induction ls arbitrary: st) (auto split: sum.splits)

definition write_events :: "Serde \<Rightarrow> json_map list \<Rightarrow> AuditLedger \<Rightarrow> AuditLedger" where
  "write_events J es l = fold (\<lambda>e l. fst (record_event J e l)) es l"

lemma write_events_snoc: "write_events J (es @ [e]) l = fst (record_event J e (write_events J es l))"
  by (simp add: write_events_def)

lemma write_events_append: "write_events J (es @ es') l = write_events J es' (write_events J es l)"
  by (simp add: write_events_def)

lemma write_events_seq: "led_seq (write_events J es l) = led_seq l + length es"
  by (induction es arbitrary: l) (simp_all add: write_events_def record_event_file)

definition has_verdict :: "json_map list \<Rightarrow> bool" where
  "has_verdict es = list_ex is_verdict es"

text \<open>The invariant between the written ledger and the loop that verifies it.\<close>

lemma written_scan:
  assumes "serde_ok J" and "\<And>e. e \<in> set es \<Longrightarrow> event_ok e" and "length es < 2 ^ 64"
  shows "\<exists>ls. led_file (write_events J es fresh_ledger) = unlines ls \<and> (\<forall>l \<in> set ls. json_line l) \<and>
    length ls = length es \<and>
    scan_fold J ls scan_start = Some (scan_of (write_events J es fresh_ledger) (has_verdict es))"
  using assms(2,3)
proof (induction es rule: rev_induct)
  case Nil
  show ?case
    by (intro exI [of _ "[]"])
       (simp add: write_events_def fresh_ledger_def unlines_def scan_start_def scan_of_def has_verdict_def)
next
  case (snoc e es)
  let ?l = "write_events J es fresh_ledger"
  obtain ls where ls: "led_file ?l = unlines ls" "\<forall>l \<in> set ls. json_line l" "length ls = length es"
    "scan_fold J ls scan_start = Some (scan_of ?l (has_verdict es))"
    using snoc by auto
  let ?line = "event_line J e ?l"
  have line: "json_line ?line"
    unfolding event_line_def event_envelope_def by (rule serde_print_line [OF assms(1)])
  have "led_seq ?l < 2 ^ 64" using snoc.prems by (simp add: write_events_seq fresh_ledger_def)
  from check_event_line [OF assms(1) _ this, of e "has_verdict es"] snoc.prems
  have "scan_fold J [?line] (scan_of ?l (has_verdict es)) =
      Some (scan_of (fst (record_event J e ?l)) (has_verdict (es @ [e])))"
    using json_lineE(1) [OF line] by (simp add: has_verdict_def)
  then have "scan_fold J (ls @ [?line]) scan_start =
      Some (scan_of (write_events J (es @ [e]) fresh_ledger) (has_verdict (es @ [e])))"
    using ls(4) by (simp add: scan_fold_append write_events_snoc)
  moreover have "led_file (write_events J (es @ [e]) fresh_ledger) = unlines (ls @ [?line])"
    by (simp add: write_events_snoc record_event_file ls(1) unlines_snoc)
  ultimately show ?case using ls(2,3) line by (intro exI [of _ "ls @ [?line]"]) auto
qed

lemma verify_written:
  assumes "serde_ok J" and "\<And>e. e \<in> set es \<Longrightarrow> event_ok e" and "length es < 2 ^ 64"
    and "\<And>l. l \<in> set ls' \<Longrightarrow> json_line l"
  shows "verify_file_detailed J (Contents (led_file (write_events J es fresh_ledger) @ unlines ls')) =
    scan_lines J ls' (scan_of (write_events J es fresh_ledger) (has_verdict es))"
proof -
  obtain ls where ls: "led_file (write_events J es fresh_ledger) = unlines ls" "\<forall>l \<in> set ls. json_line l"
    "scan_fold J ls scan_start = Some (scan_of (write_events J es fresh_ledger) (has_verdict es))"
    using written_scan [OF assms(1-3)] by blast
  have "str_lines (unlines ls @ unlines ls') = ls @ ls'"
    using str_lines_unlines [of "ls @ ls'"] ls(2) assms(4) by (auto simp: unlines_def)
  then show ?thesis by (simp add: ls(1) scan_lines_append [OF ls(3)])
qed

section \<open>A written ledger verifies\<close>

lemma check_closing_line:
  assumes "serde_ok J" and "led_seq l < 2 ^ 64"
  shows "check_line J (js_print J (signature_envelope (led_seq l) prev sig)) (count_line (scan_of l t)) =
    check_signature J (json_map_of [(''seq'', JPosInt (led_seq l)), (''prev_hash'', JString prev), (''signature'', JString sig)])
      (count_line (scan_of l t))"
proof -
  let ?v = "signature_envelope (led_seq l) prev sig"
  have line: "json_line (js_print J ?v)"
    unfolding signature_envelope_def by (rule serde_print_line [OF assms(1)])
  have "wf_json ?v" using assms(2) by (simp add: signature_envelope_def wf_json_def)
  from serde_parse_print [OF assms(1) this] json_lineE [OF line] show ?thesis
    by (simp add: check_line_def signature_envelope_def count_line_def scan_of_def contains_key_def
        map_of_json_map_of)
qed

lemma get_signature_envelope:
  "get_u64 ''seq'' (json_map_of [(''seq'', JPosInt n), (''prev_hash'', JString prev), (''signature'', JString sig)]) =
     (if n < 2 ^ 64 then Some n else None)"
  "get_str ''prev_hash'' (json_map_of [(''seq'', JPosInt n), (''prev_hash'', JString prev), (''signature'', JString sig)]) =
     Some prev"
  "get_str ''signature'' (json_map_of [(''seq'', JPosInt n), (''prev_hash'', JString prev), (''signature'', JString sig)]) =
     Some sig"
  by (simp_all add: get_u64_def get_str_def map_of_json_map_of)

lemma verify_written_open:
  assumes "serde_ok J" and "\<And>e. e \<in> set es \<Longrightarrow> event_ok e" and "length es < 2 ^ 64"
  shows "verify_file_detailed J (Contents (led_file (write_events J es fresh_ledger))) =
    Ok (scan_end (scan_of (write_events J es fresh_ledger) (has_verdict es)))"
  using verify_written [OF assms, of "[]"] by (simp add: unlines_def)

lemma verify_written_closed:
  assumes "serde_ok J" and "\<And>e. e \<in> set es \<Longrightarrow> event_ok e" and "length es < 2 ^ 64"
  shows "verify_file_detailed J (Contents (fst (sign_and_close J (write_events J es fresh_ledger)))) =
    Ok (scan_end ((count_line (scan_of (write_events J es fresh_ledger) (has_verdict es)))\<lparr>sc_signed := True\<rparr>))"
proof -
  let ?l = "write_events J es fresh_ledger"
  let ?sig = "closing_signature J (led_prev_hash ?l)"
  let ?line = "js_print J (signature_envelope (led_seq ?l) (led_prev_hash ?l) ?sig)"
  have line: "json_line ?line"
    unfolding signature_envelope_def by (rule serde_print_line [OF assms(1)])
  have n: "led_seq ?l < 2 ^ 64" using assms(3) by (simp add: write_events_seq fresh_ledger_def)
  have "check_line J ?line (count_line (scan_of ?l (has_verdict es))) =
      Inr ((count_line (scan_of ?l (has_verdict es)))\<lparr>sc_signed := True\<rparr>)"
    unfolding check_closing_line [OF assms(1) n]
    using n by (simp add: check_signature_def get_signature_envelope Let_def)
      (simp add: count_line_def scan_of_def)
  then have "scan_lines J [?line] (scan_of ?l (has_verdict es)) =
      Ok (scan_end ((count_line (scan_of ?l (has_verdict es)))\<lparr>sc_signed := True\<rparr>))"
    using json_lineE(1) [OF line] by (simp add: count_line_def)
  then show ?thesis
    using verify_written [OF assms, of "[?line]"] line
    by (simp add: sign_and_close_def append_line_def unlines_def Let_def)
qed

text \<open>
  Property C22 (what the ledger writes verifies). The events are JSON objects that the
  serializer gives back unchanged (integers within 64 bits, no floats, nested less than 128
  deep) and that use none of the keys \<open>seq\<close>, \<open>prev_hash\<close> and \<open>hash\<close>; there are fewer than 2^64 of
  them. The file that a fresh ledger holds after any sequence of such events verifies as far as
  it goes: every record is counted, its last hash is the ledger's, it bears no signature, and it
  is valid exactly when one of the events is a session verdict. Closed with a signature, it is
  valid exactly when there was at least one event, and then it is signed and reported sound.
\<close>

theorem written_ledger_verifies:
  assumes "serde_ok J" and "\<And>e. e \<in> set es \<Longrightarrow> event_ok e" and "length es < 2 ^ 64"
    and "l = write_events J es fresh_ledger"
  shows "(\<exists>r. verify_file_detailed J (Contents (led_file l)) = Ok r \<and> records_verified r = length es \<and>
       (is_valid r \<longleftrightarrow> has_verdict es) \<and>
       last_hash r = (if es = [] then None else Some (led_prev_hash l)) \<and> \<not> has_signature r) \<and>
    (\<exists>r. verify_file_detailed J (Contents (fst (sign_and_close J l))) = Ok r \<and>
       records_verified r = length es \<and> (is_valid r \<longleftrightarrow> es \<noteq> []) \<and>
       (is_valid r \<longrightarrow> has_signature r \<and> corruption r = None))"
proof -
  have n: "led_seq l = length es" by (simp add: assms(4) write_events_seq fresh_ledger_def)
  have v: "has_verdict [] = False" by (simp add: has_verdict_def)
  let ?r = "scan_end (scan_of l (has_verdict es))"
  let ?s = "scan_end ((count_line (scan_of l (has_verdict es)))\<lparr>sc_signed := True\<rparr>)"
  have "verify_file_detailed J (Contents (led_file l)) = Ok ?r"
    "verify_file_detailed J (Contents (fst (sign_and_close J l))) = Ok ?s"
    unfolding assms(4) using assms(1-3) by (intro verify_written_open verify_written_closed; blast)+
  moreover have "records_verified ?r = length es \<and> (is_valid ?r \<longleftrightarrow> has_verdict es) \<and>
      last_hash ?r = (if es = [] then None else Some (led_prev_hash l)) \<and> \<not> has_signature ?r"
    "records_verified ?s = length es \<and> (is_valid ?s \<longleftrightarrow> es \<noteq> []) \<and>
      (is_valid ?s \<longrightarrow> has_signature ?s \<and> corruption ?s = None)"
    using n v by (auto simp: scan_end_def scan_of_def scan_result_def corrupt_def count_line_def Let_def)
  ultimately show ?thesis by blast
qed

section \<open>Opening a ledger again\<close>

lemma led_file_nonempty: "es \<noteq> [] \<Longrightarrow> led_file (write_events J es l) \<noteq> []"
  by (cases es rule: rev_exhaust) (simp_all add: write_events_snoc record_event_file)

lemma resume_scan:
  "led_seq l > 0 \<Longrightarrow> resume (led_file l) (scan_end (scan_of l t)) = l"
  by (simp add: resume_def scan_end_def scan_of_def scan_result_def corrupt_def seq_before_def Let_def)

lemma missing_terminal_text:
  "contains_str ''Missing terminal record (SESSION_VERDICT) or signature envelope'' ''Missing terminal record''"
  by (simp add: contains_str_def prefix_def)

text \<open>
  Reopening a ledger. A ledger that was left without a verdict and without a
  signature is reopened in exactly the state it was left in, so that events recorded then are
  those of one uninterrupted ledger. One that holds a verdict or was closed with a signature
  is refused as closed.
\<close>

theorem ledger_reopens_where_it_stopped:
  assumes "serde_ok J" and "\<And>e. e \<in> set es \<Longrightarrow> event_ok e" and "length es < 2 ^ 64" and "es \<noteq> []"
    and "l = write_events J es fresh_ledger"
  shows "open_ledger J (Contents (led_file l)) = (if has_verdict es then Err LedgerClosed else Ok l) \<and>
    open_ledger J (Contents (fst (sign_and_close J l))) = Err LedgerClosed \<and>
    write_events J es' l = write_events J (es @ es') fresh_ledger"
proof -
  have n: "led_seq l = length es" "led_seq l > 0"
    using assms(4) by (simp_all add: assms(5) write_events_seq fresh_ledger_def)
  have f: "led_file l \<noteq> []" unfolding assms(5) by (rule led_file_nonempty [OF assms(4)])
  have "open_ledger J (Contents (led_file l)) = (if has_verdict es then Err LedgerClosed else Ok l)"
  proof (cases "has_verdict es")
    case True
    then show ?thesis
      using f n by (simp add: open_ledger_def verify_written_open [OF assms(1-3), folded assms(5)]
          del: verify_file_detailed.simps)
        (simp add: scan_end_def scan_of_def scan_result_def corrupt_def Let_def)
  next
    case False
    let ?r = "scan_end (scan_of l False)"
    have r: "\<not> has_signature ?r" "\<not> has_terminal_record ?r" "tolerated ?r"
      using n(2) missing_terminal_text
      by (simp_all add: scan_end_def scan_of_def scan_result_def corrupt_def tolerated_def Let_def)
    show ?thesis
      using f False r resume_scan [OF n(2), of False]
      by (simp add: open_ledger_def verify_written_open [OF assms(1-3), folded assms(5)]
          del: verify_file_detailed.simps)
  qed
  moreover have "open_ledger J (Contents (fst (sign_and_close J l))) = Err LedgerClosed"
  proof -
    have "has_signature (scan_end ((count_line (scan_of l t))\<lparr>sc_signed := True\<rparr>))" for t
      by (simp add: scan_end_def scan_result_def corrupt_def Let_def)
    moreover have "fst (sign_and_close J l) \<noteq> []"
      by (simp add: sign_and_close_def append_line_def Let_def)
    ultimately show ?thesis
      by (simp add: open_ledger_def verify_written_closed [OF assms(1-3), folded assms(5)]
          del: verify_file_detailed.simps)
  qed
  ultimately show ?thesis by (simp add: assms(5) write_events_append)
qed

text \<open>
  Property C26 (a corrupted ledger can be opened). A reason that quotes the file decides whether
  corruption is tolerated: append to an open ledger a signature envelope whose previous hash
  is the text \<open>Missing terminal record\<close>; the file is reported as corrupted, and opened as if it
  only lacked its verdict.
\<close>

theorem corrupted_ledger_is_opened:
  assumes "serde_ok J" and "\<And>e. e \<in> set es \<Longrightarrow> event_ok e" and "length es < 2 ^ 64" and "es \<noteq> []"
    and "\<not> has_verdict es" and "l = write_events J es fresh_ledger"
    and "led_prev_hash l \<noteq> ''Missing terminal record''"
    and "forged = append_line J (signature_envelope (led_seq l) ''Missing terminal record'' sig) (led_file l)"
  shows "(\<exists>r. verify_file_detailed J (Contents forged) = Ok r \<and> \<not> is_valid r \<and>
       (\<exists>c. corruption r = Some c \<and> expected_hash c = Some (led_prev_hash l))) \<and>
    open_ledger J (Contents forged) = Ok (l\<lparr>led_file := forged\<rparr>)"
proof -
  let ?p = "''Missing terminal record''"
  let ?line = "js_print J (signature_envelope (led_seq l) ?p sig)"
  have n: "led_seq l < 2 ^ 64" "led_seq l > 0"
    using assms(3,4) by (simp_all add: assms(6) write_events_seq fresh_ledger_def)
  have line: "json_line ?line"
    unfolding signature_envelope_def by (rule serde_print_line [OF assms(1)])
  obtain c where c: "check_line J ?line (count_line (scan_of l False)) =
      Inl (scan_result False (count_line (scan_of l False)) (Some c))"
    "expected_hash c = Some (led_prev_hash l)"
    "sublist ?p (corruption_reason c)"
    unfolding check_closing_line [OF assms(1) n(1)]
    using n(1) assms(7)
    by (simp add: check_signature_def get_signature_envelope corrupt_def count_line_def scan_of_def
        sublist_append del: append_Cons)
  let ?r = "scan_result False (count_line (scan_of l False)) (Some c)"
  have ver: "verify_file_detailed J (Contents forged) = Ok ?r"
    using verify_written [OF assms(1-3), of "[?line]", folded assms(6)] line json_lineE(1) [OF line] c(1) assms(5)
    by (simp add: assms(8) append_line_def unlines_def count_line_def)
  have "tolerated ?r" using c(3) by (simp add: tolerated_def scan_result_def contains_str_sublist)
  moreover have "\<not> has_signature ?r" "\<not> has_terminal_record ?r"
    by (simp_all add: scan_result_def count_line_def scan_of_def)
  moreover have "resume forged ?r = l\<lparr>led_file := forged\<rparr>"
    using n(2) by (simp add: resume_def scan_result_def count_line_def scan_of_def seq_before_def)
  moreover have "forged \<noteq> []" by (simp add: assms(8) append_line_def)
  ultimately have "open_ledger J (Contents forged) = Ok (l\<lparr>led_file := forged\<rparr>)"
    by (simp add: open_ledger_def ver del: verify_file_detailed.simps)
  then show ?thesis using ver c(2) by (auto simp: scan_result_def)
qed

section \<open>Hash chains\<close>

text \<open>
  The interface of a hash chain: \<open>link p n t\<close> are the texts whose hash may stand for record \<open>t\<close>
  with number \<open>n\<close> behind hash \<open>p\<close>. From well-formed hashes and numbers, a text belongs to one
  record, number and previous hash only.
\<close>

fun chain :: "('h \<Rightarrow> nat \<Rightarrow> 't \<Rightarrow> 'd set) \<Rightarrow> ('d \<Rightarrow> 'h) \<Rightarrow> 'h \<Rightarrow> nat \<Rightarrow> ('t \<times> 'h) list \<Rightarrow> bool" where
  "chain link H p n [] = True"
| "chain link H p n ((t, h) # rs) = (h \<in> H ` link p n t \<and> chain link H h (Suc n) rs)"

fun chain_texts :: "('h \<Rightarrow> nat \<Rightarrow> 't \<Rightarrow> 'd set) \<Rightarrow> 'h \<Rightarrow> nat \<Rightarrow> ('t \<times> 'h) list \<Rightarrow> 'd set" where
  "chain_texts link p n [] = {}"
| "chain_texts link p n ((t, h) # rs) = link p n t \<union> chain_texts link h (Suc n) rs"

definition chain_tip :: "'h \<Rightarrow> ('t \<times> 'h) list \<Rightarrow> 'h" where
  "chain_tip p rs = (if rs = [] then p else snd (last rs))"

lemma chain_append:
  "chain link H p n (rs @ rs') \<longleftrightarrow> chain link H p n rs \<and> chain link H (chain_tip p rs) (n + length rs) rs'"
  by (induction link H p n rs rule: chain.induct) (auto simp: chain_tip_def)

lemma chain_texts_append:
  "chain_texts link p n (rs @ rs') =
     chain_texts link p n rs \<union> chain_texts link (chain_tip p rs) (n + length rs) rs'"
  by (induction link p n rs rule: chain_texts.induct) (auto simp: chain_tip_def)

locale hash_chain =
  fixes link :: "'h \<Rightarrow> nat \<Rightarrow> 't \<Rightarrow> 'd set" and good :: "'h \<Rightarrow> bool" and limit :: nat and genesis :: 'h
  assumes link_inj: "good p \<Longrightarrow> good p' \<Longrightarrow> n < limit \<Longrightarrow> n' < limit \<Longrightarrow>
      d \<in> link p n t \<Longrightarrow> d \<in> link p' n' t' \<Longrightarrow> p = p' \<and> n = n' \<and> t = t'"
    and good_genesis: "good genesis"
begin

lemma good_tip:
  assumes "\<And>d. good (H d)" and "chain link H genesis 0 rs"
  shows "good (chain_tip genesis rs)"
proof (cases rs rule: rev_exhaust)
  case (snoc rs' x)
  then have "snd x \<in> range H"
    using assms(2) by (cases x) (auto simp: chain_append)
  then show ?thesis using assms(1) snoc by (auto simp: chain_tip_def)
qed (simp add: chain_tip_def good_genesis)

text \<open>A chain is determined by its last hash, where the hash does not collide on its texts.\<close>

lemma tip_determines_chain:
  assumes "\<And>d. good (H d)"
    and "chain link H genesis 0 rs" and "chain link H genesis 0 rs'"
    and "inj_on H (chain_texts link genesis 0 rs \<union> chain_texts link genesis 0 rs')"
    and "length rs \<le> limit" and "length rs' \<le> limit"
    and "rs \<noteq> []" and "rs' \<noteq> []" and "chain_tip genesis rs = chain_tip genesis rs'"
  shows "rs = rs'"
  using assms(2-9)
proof (induction rs arbitrary: rs' rule: rev_induct)
  case (snoc x rs)
  obtain t h where x: "x = (t, h)" by (cases x)
  obtain rs0 y where rs': "rs' = rs0 @ [y]" using snoc.prems(7) by (cases rs' rule: rev_exhaust) auto
  obtain t' h' where y: "y = (t', h')" by (cases y)
  have hh: "h = h'" using snoc.prems(8) by (simp add: chain_tip_def rs' x y)
  note c = snoc.prems(1) [unfolded x chain_append] and c' = snoc.prems(2) [unfolded rs' y chain_append]
  obtain d where d: "d \<in> link (chain_tip genesis rs) (length rs) t" "h = H d" using c by auto
  obtain d' where d': "d' \<in> link (chain_tip genesis rs0) (length rs0) t'" "h' = H d'" using c' by auto
  have "d = d'"
    using snoc.prems(3) d d' hh
    by (auto simp: inj_on_def chain_texts_append rs' x y)
  moreover have "good (chain_tip genesis rs)" "good (chain_tip genesis rs0)"
    using good_tip [of H rs] good_tip [of H rs0] assms(1) c c' by blast+
  moreover have "length rs < limit" "length rs0 < limit" using snoc.prems(4,5) rs' by auto
  ultimately have same: "chain_tip genesis rs = chain_tip genesis rs0" "length rs = length rs0" "t = t'"
    using link_inj d(1) d'(1) by blast+
  have "inj_on H (chain_texts link genesis 0 rs \<union> chain_texts link genesis 0 rs0)"
    by (rule inj_on_subset [OF snoc.prems(3)]) (auto simp: chain_texts_append rs')
  then have "rs = rs0"
  proof (cases "rs = []")
    case True
    then show ?thesis using same(2) by simp
  next
    case False
    have "length rs \<le> limit" "length rs0 \<le> limit" using snoc.prems(4,5) rs' by auto
    moreover have "rs0 \<noteq> []" using False same(2) by auto
    moreover have "chain link H genesis 0 rs" "chain link H genesis 0 rs0" using c c' by blast+
    moreover assume "inj_on H (chain_texts link genesis 0 rs \<union> chain_texts link genesis 0 rs0)"
    ultimately show ?thesis using snoc.IH [of rs0] False same(1) by blast
  qed
  then show ?case using same hh by (simp add: rs' x y)
qed simp

end

subsection \<open>The ledger's chain\<close>

definition link_texts :: "string \<Rightarrow> nat \<Rightarrow> string \<Rightarrow> string set" where
  "link_texts prev n payload_json =
     {linked_text prev (show_nat n) payload_json, linked_text (show_nat n) prev payload_json}"

definition good_hash :: "string \<Rightarrow> bool" where
  "good_hash h = (h = GENESIS_HASH \<or> length h = 64 \<and> CHR '':'' \<notin> set h)"

lemma show_nat_length: "n < 10 ^ Suc k \<Longrightarrow> length (show_nat n) \<le> Suc k"
proof (induction k arbitrary: n)
  case (Suc k)
  show ?case
  proof (cases "n < 10")
    case False
    have "n div 10 < 10 ^ Suc k" using Suc.prems by (simp add: div_less_iff_less_mult mult.commute)
    from Suc.IH [OF this] False show ?thesis by (simp add: show_nat.simps [of n])
  qed (simp add: show_nat.simps [of n])
next
  case 0
  then show ?case by (simp add: show_nat.simps [of n])
qed

lemma show_nat_no_colon: "CHR '':'' \<notin> set (show_nat n)"
  using show_nat_digits [of n] by (auto simp: list_all_iff is_ascii_digit_def)

lemma show_nat_inject: "show_nat n = show_nat m \<Longrightarrow> n = m"
  using show_nat_digits [of n] show_nat_digits [of m] by metis

lemma show_nat_not_good:
  assumes "n < 2 ^ 64"
  shows "\<not> good_hash (show_nat n)"
proof -
  have "n < 10 ^ Suc 19" using assms by simp
  from show_nat_length [OF this] have "length (show_nat n) \<noteq> 64" by simp
  moreover have "show_nat n \<noteq> GENESIS_HASH"
    using show_nat_digits [of n] by (auto simp: GENESIS_HASH_def is_ascii_digit_def)
  ultimately show ?thesis by (simp add: good_hash_def)
qed

lemma split_colon:
  assumes "CHR '':'' \<notin> set a" and "CHR '':'' \<notin> set a'" and "a @ '':'' @ s = a' @ '':'' @ s'"
  shows "a = a' \<and> s = s'"
proof -
  have "takeWhile (\<lambda>c. c \<noteq> CHR '':'') (b @ '':'' @ u) = b" if "CHR '':'' \<notin> set b" for b u
    using that by (induction b) auto
  then have "a = a'" using assms by metis
  with assms(3) show ?thesis by simp
qed

lemma linked_text_inject:
  assumes "CHR '':'' \<notin> set a" "CHR '':'' \<notin> set a'" "CHR '':'' \<notin> set b" "CHR '':'' \<notin> set b'"
    and "linked_text a b t = linked_text a' b' t'"
  shows "a = a' \<and> b = b' \<and> t = t'"
  using split_colon [OF assms(1,2), of "b @ '':'' @ t" "b' @ '':'' @ t'"]
    split_colon [OF assms(3,4), of t t'] assms(5) by (auto simp: linked_text_def)

lemma good_hash_no_colon: "good_hash h \<Longrightarrow> CHR '':'' \<notin> set h"
  by (auto simp: good_hash_def GENESIS_HASH_def)

interpretation ledger_chain: hash_chain link_texts good_hash "2 ^ 64" GENESIS_HASH
proof
  fix p p' :: string and n n' :: nat and d t t' :: string
  assume a: "good_hash p" "good_hash p'" "n < 2 ^ 64" "n' < 2 ^ 64"
    and d: "d \<in> link_texts p n t" "d \<in> link_texts p' n' t'"
  note c = good_hash_no_colon [OF a(1)] good_hash_no_colon [OF a(2)] show_nat_no_colon
  have ne: "p \<noteq> show_nat n'" "p' \<noteq> show_nat n" using a show_nat_not_good by metis+
  consider "linked_text p (show_nat n) t = linked_text p' (show_nat n') t'"
    | "linked_text p (show_nat n) t = linked_text (show_nat n') p' t'"
    | "linked_text (show_nat n) p t = linked_text p' (show_nat n') t'"
    | "linked_text (show_nat n) p t = linked_text (show_nat n') p' t'"
    using d unfolding link_texts_def by blast
  then show "p = p' \<and> n = n' \<and> t = t'"
  proof cases
    case 1
    from linked_text_inject [OF c(1,2) c(3) c(3) 1] show ?thesis by (blast dest: show_nat_inject)
  next
    case 2
    from linked_text_inject [OF c(1) c(3) c(3) c(2) 2] ne show ?thesis by blast
  next
    case 3
    from linked_text_inject [OF c(3) c(2) c(1) c(3) 3] ne show ?thesis by blast
  next
    case 4
    from linked_text_inject [OF c(3) c(3) c(1,2) 4] show ?thesis by (blast dest: show_nat_inject)
  qed
qed (simp add: good_hash_def)

section \<open>An accepted file holds a chain\<close>

text \<open>The records of a file, as text and hash: the reference the verifier is measured against.\<close>

definition line_record :: "Serde \<Rightarrow> string \<Rightarrow> (string \<times> string) option" where
  "line_record J line =
     (if trim line = [] then None
      else (case js_parse J (trim line) of
              Inr (JObject obj) \<Rightarrow>
                if \<not> contains_key ''hash'' obj \<and> contains_key ''signature'' obj then None
                else map_option (\<lambda>h. (payload_text J obj, h)) (get_str ''hash'' obj)
            | _ \<Rightarrow> None))"

definition ledger_records :: "Serde \<Rightarrow> string list \<Rightarrow> (string \<times> string) list" where
  "ledger_records J ls = List.map_filter (line_record J) ls"

abbreviation ledger_link :: "Serde \<Rightarrow> string \<Rightarrow> nat \<Rightarrow> (string \<times> string) list \<Rightarrow> bool" where
  "ledger_link J \<equiv> chain link_texts (manual_hex_hash J)"

lemma note_terminal_simps [simp]:
  "sc_prev (note_terminal obj st) = sc_prev st" "sc_seq (note_terminal obj st) = sc_seq st"
  "sc_last (note_terminal obj st) = sc_last st"
  by (simp_all add: note_terminal_def)

lemma get_u64_bound: "get_u64 k m = Some n \<Longrightarrow> n < 2 ^ 64"
  by (auto simp: get_u64_def Option.bind_eq_Some_conv elim!: as_u64.elims split: if_splits)

lemma check_link_ok:
  assumes "check_link J t n p h st = Inr st'"
  shows "n = sc_seq st \<and> h \<in> manual_hex_hash J ` link_texts (sc_prev st) (sc_seq st) t \<and>
    sc_prev st' = h \<and> sc_seq st' = Suc (sc_seq st) \<and> sc_last st' = Some h"
  using assms by (auto simp: check_link_def link_texts_def Let_def split: if_splits)

lemma check_record_ok:
  assumes "check_record J obj st = Inr st'"
  shows "\<exists>h. get_str ''hash'' obj = Some h \<and> sc_seq st < 2 ^ 64 \<and>
    h \<in> manual_hex_hash J ` link_texts (sc_prev st) (sc_seq st) (payload_text J obj) \<and>
    sc_prev st' = h \<and> sc_seq st' = Suc (sc_seq st) \<and> sc_last st' = Some h"
proof -
  obtain n p h where g: "get_u64 ''seq'' obj = Some n" "get_str ''hash'' obj = Some h"
    "check_link J (payload_text J obj) n p h (note_terminal obj st) = Inr st'"
    using assms by (auto simp: check_record_def Let_def split: option.splits)
  show ?thesis using check_link_ok [OF g(3)] get_u64_bound [OF g(1)] g(2) by auto
qed

lemma check_signature_ok:
  "check_signature J obj st = Inr st' \<Longrightarrow>
     sc_prev st' = sc_prev st \<and> sc_seq st' = sc_seq st \<and> sc_last st' = sc_last st"
  by (auto simp: check_signature_def Let_def split: option.splits if_splits)

lemma check_line_ok:
  assumes "check_line J l st = Inr st'"
  shows "case line_record J l of
      None \<Rightarrow> sc_prev st' = sc_prev st \<and> sc_seq st' = sc_seq st \<and> sc_last st' = sc_last st
    | Some (t, h) \<Rightarrow> sc_seq st < 2 ^ 64 \<and> h \<in> manual_hex_hash J ` link_texts (sc_prev st) (sc_seq st) t \<and>
        sc_prev st' = h \<and> sc_seq st' = Suc (sc_seq st) \<and> sc_last st' = Some h"
proof (cases "trim l = []")
  case True
  then show ?thesis using assms by (simp add: check_line_def line_record_def)
next
  case False
  then obtain obj where p: "js_parse J (trim l) = Inr (JObject obj)"
    using assms by (auto simp: check_line_def Let_def split: if_splits sum.splits json.splits)
  show ?thesis
  proof (cases "\<not> contains_key ''hash'' obj \<and> contains_key ''signature'' obj")
    case True
    with assms False p have "check_signature J obj st = Inr st'"
      by (auto simp: check_line_def Let_def split: if_splits)
    from check_signature_ok [OF this] True False p show ?thesis by (simp add: line_record_def)
  next
    case sig: False
    with assms False p have "check_record J obj st = Inr st'"
      by (auto simp: check_line_def Let_def split: if_splits)
    from check_record_ok [OF this] sig False p show ?thesis by (auto simp: line_record_def)
  qed
qed

lemma scan_fold_chain:
  assumes "scan_fold J ls st = Some st'" and "sc_seq st \<le> 2 ^ 64"
  shows "ledger_link J (sc_prev st) (sc_seq st) (ledger_records J ls) \<and>
    sc_last st' = (if ledger_records J ls = [] then sc_last st
                   else Some (chain_tip (sc_prev st) (ledger_records J ls))) \<and>
    sc_seq st' = sc_seq st + length (ledger_records J ls) \<and>
    sc_seq st + length (ledger_records J ls) \<le> 2 ^ 64"
  using assms
proof (induction ls arbitrary: st)
  case Nil
  then show ?case by (simp add: ledger_records_def map_filter_simps)
next
  case (Cons l ls)
  obtain u where u: "check_line J l (count_line st) = Inr u" "scan_fold J ls u = Some st'"
    using Cons.prems(1) by (auto split: if_splits sum.splits)
  have cl: "sc_prev (count_line st) = sc_prev st" "sc_seq (count_line st) = sc_seq st"
    "sc_last (count_line st) = sc_last st"
    by (simp_all add: count_line_def)
  note ok = check_line_ok [OF u(1), unfolded cl]
  show ?case
  proof (cases "line_record J l")
    case None
    then have same: "sc_prev u = sc_prev st" "sc_seq u = sc_seq st" "sc_last u = sc_last st" using ok by auto
    have "ledger_records J (l # ls) = ledger_records J ls"
      by (simp add: ledger_records_def map_filter_simps None)
    then show ?thesis using Cons.IH [OF u(2)] Cons.prems(2) same by simp
  next
    case (Some th)
    obtain t h where th: "th = (t, h)" by (cases th)
    have "ledger_records J (l # ls) = (t, h) # ledger_records J ls"
      by (simp add: ledger_records_def map_filter_simps Some th)
    moreover have s: "sc_seq st < 2 ^ 64" "h \<in> manual_hex_hash J ` link_texts (sc_prev st) (sc_seq st) t"
      "sc_prev u = h" "sc_seq u = Suc (sc_seq st)" "sc_last u = Some h"
      using ok Some th by auto
    moreover have "sc_seq u \<le> 2 ^ 64" using s by simp
    from Cons.IH [OF u(2) this] have "ledger_link J h (Suc (sc_seq st)) (ledger_records J ls)"
      "sc_last st' = Some (chain_tip (sc_prev st) ((t, h) # ledger_records J ls))"
      "sc_seq st' = Suc (sc_seq st + length (ledger_records J ls))"
      "Suc (sc_seq st + length (ledger_records J ls)) \<le> 2 ^ 64"
      using s by (auto simp: chain_tip_def)
    ultimately show ?thesis by simp
  qed
qed

lemma invalid_results [simp]:
  "\<not> is_valid (corrupt st n a b w)" "\<not> is_valid (corrupt st n a b w\<lparr>last_hash := h, has_signature := g\<rparr>)"
  by (simp_all add: corrupt_def scan_result_def)

lemma check_line_invalid: "check_line J l st = Inl r \<Longrightarrow> \<not> is_valid r"
  by (auto simp: check_line_def check_signature_def check_record_def check_link_def Let_def
      split: if_splits sum.splits option.splits json.splits)

lemma scan_lines_valid:
  "scan_lines J ls st = Ok r \<Longrightarrow> is_valid r \<Longrightarrow> \<exists>st'. scan_fold J ls st = Some st' \<and> r = scan_end st'"
  by (induction ls arbitrary: st)
     (auto simp: count_line_def split: if_splits sum.splits dest: check_line_invalid)

lemma scan_end_valid:
  "is_valid (scan_end st) \<Longrightarrow> sc_seq st > 0 \<and> last_hash (scan_end st) = sc_last st \<and>
     records_verified (scan_end st) = sc_verified st"
  by (auto simp: scan_end_def scan_result_def Let_def split: if_splits)

lemma valid_file_chain:
  assumes "verify_file_detailed J (Contents f) = Ok r" and "is_valid r"
  shows "ledger_link J GENESIS_HASH 0 (ledger_records J (str_lines f)) \<and>
    ledger_records J (str_lines f) \<noteq> [] \<and> length (ledger_records J (str_lines f)) \<le> 2 ^ 64 \<and>
    last_hash r = Some (chain_tip GENESIS_HASH (ledger_records J (str_lines f)))"
proof -
  obtain st where st: "scan_fold J (str_lines f) scan_start = Some st" "r = scan_end st"
    using assms scan_lines_valid [of J "str_lines f" scan_start r] by auto
  have "sc_seq scan_start = 0" "sc_prev scan_start = GENESIS_HASH" by (simp_all add: scan_start_def)
  with scan_fold_chain [OF st(1)] scan_end_valid [of st] assms(2) st(2) show ?thesis by auto
qed

lemma manual_hex_hash_good: "serde_ok J \<Longrightarrow> good_hash (manual_hex_hash J d)"
proof -
  assume "serde_ok J"
  then have "length (manual_hex_hash J d) = 64"
    by (simp add: manual_hex_hash_def length_to_hex serde_ok_def)
  moreover have "CHR '':'' \<notin> set (to_hex bs)" for bs
  proof (induction bs)
    case (Cons b bs)
    have "CHR '':'' \<noteq> hex_digit k" if "k < 16" for k
    proof
      assume "CHR '':'' = hex_digit k"
      then have "(of_char (hex_digit k) :: nat) = of_char (CHR '':'')" by simp
      then show False unfolding of_char_hex_digit [OF that] by (simp split: if_splits)
    qed
    with Cons unat_div_16 [of b] show ?case by (simp add: to_hex_simps)
  qed (simp add: to_hex_simps)
  ultimately show ?thesis by (simp add: good_hash_def manual_hex_hash_def)
qed

text \<open>The texts whose hashes stand for the records of a file.\<close>

definition hashed_texts :: "Serde \<Rightarrow> string \<Rightarrow> string set" where
  "hashed_texts J f = chain_texts link_texts GENESIS_HASH 0 (ledger_records J (str_lines f))"

text \<open>
  Property C8 (tampering shows in the last hash). Two valid ledger files with the same last
  hash hold the same records in the same order, hashes included, unless SHA-256 collides on
  two of the texts hashed for them: no record can be changed, dropped, added or moved. The
  verifier's second accepted order of the hashed parts does not weaken this.
\<close>

theorem last_hash_binds_all_records:
  assumes "serde_ok J"
    and "verify_file_detailed J (Contents f) = Ok r" and "is_valid r"
    and "verify_file_detailed J (Contents f') = Ok r'" and "is_valid r'"
    and "last_hash r = last_hash r'"
    and "inj_on (\<lambda>s. js_sha256 J (map of_char s)) (hashed_texts J f \<union> hashed_texts J f')"
  shows "ledger_records J (str_lines f) = ledger_records J (str_lines f')"
proof -
  note v = valid_file_chain [OF assms(2,3)] and v' = valid_file_chain [OF assms(4,5)]
  have "inj_on (manual_hex_hash J) (hashed_texts J f \<union> hashed_texts J f')"
    using assms(7) by (auto simp: inj_on_def manual_hex_hash_def dest!: to_hex_inj)
  moreover have "chain_tip GENESIS_HASH (ledger_records J (str_lines f)) =
      chain_tip GENESIS_HASH (ledger_records J (str_lines f'))"
    using v v' assms(6) by (metis option.inject)
  ultimately show ?thesis
    using v v' manual_hex_hash_good [OF assms(1)] unfolding hashed_texts_def
    by (intro ledger_chain.tip_determines_chain [where H = "manual_hex_hash J"]) blast+
qed

section \<open>Concrete ledgers\<close>

lemma line_record_event:
  assumes "serde_ok J" and "event_ok e" and "led_seq l < 2 ^ 64"
  shows "line_record J (event_line J e l) =
    Some (js_print J (to_value (JObject e)), event_hash J e (led_prev_hash l) (led_seq l))"
proof -
  let ?h = "event_hash J e (led_prev_hash l) (led_seq l)"
  let ?m = "envelope_map (led_seq l) (led_prev_hash l) ?h e"
  have line: "json_line (event_line J e l)"
    unfolding event_line_def event_envelope_def by (rule serde_print_line [OF assms(1)])
  have parse: "js_parse J (event_line J e l) = Ok (JObject ?m)"
    unfolding event_line_def serde_parse_print [OF assms(1) wf_envelope [OF assms(2,3)] ]
    by (simp add: to_value_envelope)
  from envelope_map_get [OF assms(2), of "led_seq l" "led_prev_hash l" ?h]
  have "get_str ''hash'' ?m = Some ?h" "contains_key ''hash'' ?m"
    by (simp_all add: get_str_def contains_key_def)
  then show ?thesis
    using json_lineE [OF line] parse
    by (simp add: line_record_def payload_text_envelope [OF assms(2)] del: to_value.simps)
qed

lemma line_record_closing:
  assumes "serde_ok J" and "n < 2 ^ 64"
  shows "line_record J (js_print J (signature_envelope n prev sig)) = None"
proof -
  let ?v = "signature_envelope n prev sig"
  have line: "json_line (js_print J ?v)"
    unfolding signature_envelope_def by (rule serde_print_line [OF assms(1)])
  have "wf_json ?v" using assms(2) by (simp add: signature_envelope_def wf_json_def)
  from serde_parse_print [OF assms(1) this] json_lineE [OF line] show ?thesis
    by (simp add: line_record_def signature_envelope_def contains_key_def map_of_json_map_of)
qed

lemma ascii_utf8: "(\<And>c. c \<in> set s \<Longrightarrow> (of_char c :: nat) < 128) \<Longrightarrow> utf8_valid s"
proof (induction s)
  case (Cons c s)
  then show ?case by (simp add: utf8_valid.simps [of "c # s"] utf8_seq_def)
qed (simp add: utf8_valid.simps)

instance f64 :: countable
  by countable_datatype

instance json :: countable
  by countable_datatype

text \<open>A codec that numbers the values, and a digest that is the first 32 bytes.\<close>

definition counting_serde :: Serde where
  "counting_serde =
     \<lparr>js_print = (\<lambda>v. ''{'' @ replicate (to_nat v) (CHR ''x'') @ ''}''),
      js_parse = (\<lambda>s. Ok (to_value (from_nat (length s - 2)))),
      js_sha256 = (\<lambda>b. take 32 (b @ replicate 32 0))\<rparr>"

lemma counting_serde_ok: "serde_ok counting_serde"
proof -
  have "json_line (''{'' @ replicate n (CHR ''x'') @ ''}'')" for n
    unfolding json_line_def by (intro conjI ascii_utf8) (auto simp: newline_def)
  then show ?thesis by (simp add: serde_ok_def counting_serde_def min_def)
qed

definition sample_event :: json_map where
  "sample_event = [(''message'', JString ''hello''), (''code'', JPosInt 7)]"

definition verdict_event :: json_map where
  "verdict_event = [(''record_type'', JString ''SESSION_VERDICT'')]"

lemma sample_events_ok [simp]:
  "event_ok sample_event" "event_ok verdict_event" "\<not> is_verdict sample_event" "is_verdict verdict_event"
  by (auto simp: event_ok_def sample_event_def verdict_event_def wf_json_def reserved_keys_def
      is_verdict_def event_map_def get_str_def map_of_json_map_of)

theorem written_ledger_verifies_witness:
  "\<exists>r. verify_file_detailed counting_serde
        (Contents (led_file (write_events counting_serde [sample_event, verdict_event] fresh_ledger))) = Ok r \<and>
     is_valid r \<and> records_verified r = 2"
proof -
  have ok: "\<And>e. e \<in> set [sample_event, verdict_event] \<Longrightarrow> event_ok e" by auto
  have v: "has_verdict [sample_event, verdict_event]" by (simp add: has_verdict_def)
  have len: "length [sample_event, verdict_event] < 2 ^ 64" by simp
  from written_ledger_verifies [OF counting_serde_ok ok len refl] v
  show ?thesis by auto
qed

theorem ledger_reopens_where_it_stopped_witness:
  "open_ledger counting_serde (Contents (led_file (write_events counting_serde [sample_event] fresh_ledger))) =
     Ok (write_events counting_serde [sample_event] fresh_ledger)"
proof -
  have ok: "\<And>e. e \<in> set [sample_event] \<Longrightarrow> event_ok e" by auto
  have len: "length [sample_event] < 2 ^ 64" by simp
  have "\<not> has_verdict [sample_event]" by (simp add: has_verdict_def)
  then show ?thesis
    using ledger_reopens_where_it_stopped [OF counting_serde_ok ok len _ refl, where es' = "[]"] by simp
qed

theorem corrupted_ledger_is_opened_witness:
  "\<exists>f l r. open_ledger counting_serde (Contents f) = Ok l \<and>
     verify_file_detailed counting_serde (Contents f) = Ok r \<and> \<not> is_valid r \<and>
     (\<exists>c. corruption r = Some c \<and> expected_hash c \<noteq> None)"
proof -
  let ?l = "write_events counting_serde [sample_event] fresh_ledger"
  have ok: "\<And>e. e \<in> set [sample_event] \<Longrightarrow> event_ok e" by auto
  have len: "length [sample_event] < 2 ^ 64" by simp
  have v: "\<not> has_verdict [sample_event]" by (simp add: has_verdict_def)
  have "length (led_prev_hash ?l) = 64"
    by (simp add: write_events_def record_event_file event_hash_def manual_hex_hash_def length_to_hex
        counting_serde_def)
  then have p: "led_prev_hash ?l \<noteq> ''Missing terminal record''" by auto
  from corrupted_ledger_is_opened [OF counting_serde_ok ok len _ v refl p refl, of "''s''"]
  show ?thesis by auto
qed

theorem last_hash_binds_all_records_witness:
  "\<exists>f f'. f \<noteq> f' \<and>
     ledger_records counting_serde (str_lines f) = ledger_records counting_serde (str_lines f') \<and>
     (\<exists>r. verify_file_detailed counting_serde (Contents f) = Ok r \<and> is_valid r)"
proof -
  let ?J = counting_serde
  let ?l = "write_events ?J [verdict_event] fresh_ledger"
  let ?f = "led_file ?l" and ?f' = "fst (sign_and_close ?J ?l)"
  let ?line = "event_line ?J verdict_event fresh_ledger"
  let ?close = "js_print ?J (signature_envelope (led_seq ?l) (led_prev_hash ?l) (closing_signature ?J (led_prev_hash ?l)))"
  let ?t = "js_print ?J (to_value (JObject verdict_event))"
  have ok: "\<And>e. e \<in> set [verdict_event] \<Longrightarrow> event_ok e" by auto
  have len: "length [verdict_event] < 2 ^ 64" by simp
  have v: "has_verdict [verdict_event]" by (simp add: has_verdict_def)
  have n: "led_seq ?l = 1" by (simp add: write_events_seq fresh_ledger_def)
  obtain r where r: "verify_file_detailed ?J (Contents ?f) = Ok r" "is_valid r"
    "last_hash r = Some (led_prev_hash ?l)"
    using verify_written_open [OF counting_serde_ok ok len] v n
    by (auto simp: scan_end_def scan_of_def scan_result_def Let_def simp del: verify_file_detailed.simps)
  obtain r' where r': "verify_file_detailed ?J (Contents ?f') = Ok r'" "is_valid r'"
    "last_hash r' = Some (led_prev_hash ?l)"
    using verify_written_closed [OF counting_serde_ok ok len] v n
    by (auto simp: scan_end_def scan_of_def scan_result_def count_line_def Let_def simp del: verify_file_detailed.simps)
  have jl: "json_line ?line" "json_line ?close"
    unfolding event_line_def event_envelope_def signature_envelope_def
    by (rule serde_print_line [OF counting_serde_ok])+
  have f: "?f = unlines [?line]" "?f' = unlines [?line, ?close]"
    by (simp_all add: write_events_def record_event_file fresh_ledger_def unlines_def sign_and_close_def
        append_line_def Let_def)
  have s: "str_lines ?f = [?line]" "str_lines ?f' = [?line, ?close]"
    unfolding f by (rule str_lines_unlines, use jl in auto)+
  have rec: "line_record ?J ?line = Some (?t, event_hash ?J verdict_event GENESIS_HASH 0)" "line_record ?J ?close = None"
    using line_record_event [OF counting_serde_ok, of verdict_event fresh_ledger]
      line_record_closing [OF counting_serde_ok, of "led_seq ?l"] n
    by (simp_all add: fresh_ledger_def del: to_value.simps)
  have texts: "hashed_texts ?J ?f = link_texts GENESIS_HASH 0 ?t" "hashed_texts ?J ?f' = link_texts GENESIS_HASH 0 ?t"
    using rec by (simp_all add: hashed_texts_def ledger_records_def s map_filter_simps del: to_value.simps)
  have inj: "inj_on (\<lambda>s. js_sha256 ?J (map of_char s)) (hashed_texts ?J ?f \<union> hashed_texts ?J ?f')"
    unfolding texts link_texts_def
    by (simp add: linked_text_def GENESIS_HASH_def counting_serde_def show_nat.simps digit_char_def inj_on_def
        del: to_value.simps)
  have "?f \<noteq> ?f'" by (simp add: sign_and_close_def append_line_def Let_def)
  moreover have "ledger_records ?J (str_lines ?f) = ledger_records ?J (str_lines ?f')"
    by (rule last_hash_binds_all_records [OF counting_serde_ok r(1,2) r'(1,2) _ inj]) (simp add: r(3) r'(3))
  ultimately show ?thesis using r(1,2) by blast
qed

end
