(* ===== verification/Capability.thy ===== *)
theory Capability
  imports Verdicts
begin

text \<open>
  The security capabilities and enforcement reports of \<open>src/src/sandbox/capability.rs\<close>, and the
  four backends that keep one: what each claims after preparation, how a spawn, a host
  observation, a failure and a sweep of the process tree change the claims, and which claims a
  scenario needs to pass.

  The target operating system of the build (\<open>cfg(target_os)\<close>) is the argument \<open>os\<close>; the Windows
  probe's two facts are arguments of its preparation. A \<open>BTreeMap\<close> from capabilities is a
  function. A backend is a record of the fields that its operations read or write.

  The interface \<open>backend_notes\<close> states what every backend's notes keep of a report: its identity,
  its capabilities, and that failed and unsupported claims stay what they are; each backend is
  an interpretation.
\<close>

section \<open>Capabilities and states\<close>

datatype SecurityCapability =
    FilesystemIsolation | NetworkIsolation | ProcessIsolation | ProcessTreeContainment
  | ResourceLimitsCap | SyscallRestriction | ExecutionRootIsolation | HostEvidence

fun capability_label :: "SecurityCapability \<Rightarrow> string" where
  "capability_label FilesystemIsolation = ''filesystem''"
| "capability_label NetworkIsolation = ''network''"
| "capability_label ProcessIsolation = ''process''"
| "capability_label ProcessTreeContainment = ''tree''"
| "capability_label ResourceLimitsCap = ''resources''"
| "capability_label SyscallRestriction = ''syscalls''"
| "capability_label ExecutionRootIsolation = ''exec-root''"
| "capability_label HostEvidence = ''host-evidence''"

definition all_capabilities :: "SecurityCapability list" where
  "all_capabilities =
     [FilesystemIsolation, NetworkIsolation, ProcessIsolation, ProcessTreeContainment,
      ResourceLimitsCap, SyscallRestriction, ExecutionRootIsolation, HostEvidence]"

datatype EnforcementState =
  StRequested | StConfigured | StEnforced | StVerified | StUnsupported | StFailed

fun state_label :: "EnforcementState \<Rightarrow> string" where
  "state_label StRequested = ''requested''"
| "state_label StConfigured = ''configured''"
| "state_label StEnforced = ''enforced''"
| "state_label StVerified = ''verified''"
| "state_label StUnsupported = ''unsupported''"
| "state_label StFailed = ''failed''"

definition state_enforced :: "EnforcementState \<Rightarrow> bool" where
  "state_enforced s = (s = StEnforced \<or> s = StVerified)"

datatype PreparationFailureKind =
  UnsupportedOnPlatform | PlatformUnavailable | SpawnRefused | VerificationUnavailable

fun failure_label :: "PreparationFailureKind \<Rightarrow> string" where
  "failure_label UnsupportedOnPlatform = ''unsupported-on-platform''"
| "failure_label PlatformUnavailable = ''platform-unavailable''"
| "failure_label SpawnRefused = ''spawn-refused''"
| "failure_label VerificationUnavailable = ''verification-unavailable''"

datatype BackendKind = BkDirect | BkLinux | BkMacos | BkWindows

fun backend_label :: "BackendKind \<Rightarrow> string" where
  "backend_label BkDirect = ''direct''"
| "backend_label BkLinux = ''linux''"
| "backend_label BkMacos = ''macos''"
| "backend_label BkWindows = ''windows''"

definition all_backends :: "BackendKind list" where
  "all_backends = [BkDirect, BkLinux, BkMacos, BkWindows]"

datatype TargetOs = OsLinux | OsMacos | OsWindows | OsOther

fun current_platform :: "TargetOs \<Rightarrow> BackendKind" where
  "current_platform OsLinux = BkLinux"
| "current_platform OsMacos = BkMacos"
| "current_platform OsWindows = BkWindows"
| "current_platform OsOther = BkDirect"

record HostVerification =
  seccomp_filter :: bool
  no_new_privs :: bool
  pgroup_separate :: bool
  rlimit_as_ok :: bool
  rlimit_nproc_ok :: bool
  rlimit_cpu_ok :: bool
  rlimit_fsize_ok :: bool
  subreaper_ok :: bool
  win_in_job :: bool
  win_kill_on_close :: bool
  win_low_integrity :: bool
  win_job_ceiling :: bool
  cgroup_memory_ok :: bool
  cgroup_pids_ok :: bool
  cgroup_cpu_ok :: bool
  netns_isolated :: bool

definition all_observed :: "HostVerification \<Rightarrow> bool" where
  "all_observed v =
     (seccomp_filter v \<and> no_new_privs v \<and> pgroup_separate v \<and>
      (rlimit_as_ok v \<or> cgroup_memory_ok v) \<and> (rlimit_nproc_ok v \<or> cgroup_pids_ok v) \<and>
      (rlimit_cpu_ok v \<or> cgroup_cpu_ok v) \<and> subreaper_ok v)"

section \<open>Reports\<close>

record CapabilityRecord =
  cr_capability :: SecurityCapability
  cr_requested :: bool
  cr_state :: EnforcementState
  cr_failure :: "PreparationFailureKind option"

record ExecutionIdentity =
  id_scenario :: string
  id_nonce :: string
  id_registry :: string
  id_frozen :: string
  id_contract_digest :: "string option"

definition identity_new :: "string \<Rightarrow> string \<Rightarrow> string \<Rightarrow> string \<Rightarrow> ExecutionIdentity" where
  "identity_new scenario nonce registry frozen =
     \<lparr>id_scenario = scenario, id_nonce = nonce, id_registry = registry, id_frozen = frozen,
      id_contract_digest = None\<rparr>"

record EnforcementReport =
  er_backend :: BackendKind
  er_scenario :: string
  er_nonce :: string
  er_registry :: string
  er_frozen :: string
  er_policy_hash :: string
  preparation_ok :: bool
  er_records :: "CapabilityRecord list"

text \<open>What preparation reads of the canonical policy: its network mode and its hash.\<close>

record PreparedPolicy =
  cp_net_mode :: string
  cp_policy_hash :: string

definition build_report ::
  "BackendKind \<Rightarrow> PreparedPolicy \<Rightarrow> ExecutionIdentity \<Rightarrow> (SecurityCapability \<rightharpoonup> EnforcementState) \<Rightarrow>
   (SecurityCapability \<rightharpoonup> PreparationFailureKind) \<Rightarrow> bool \<Rightarrow> EnforcementReport" where
  "build_report backend pol ident states failures ok =
     \<lparr>er_backend = backend, er_scenario = id_scenario ident, er_nonce = id_nonce ident,
      er_registry = id_registry ident, er_frozen = id_frozen ident, er_policy_hash = cp_policy_hash pol,
      preparation_ok = ok,
      er_records = map (\<lambda>cap. \<lparr>cr_capability = cap, cr_requested = True,
        cr_state = (case states cap of Some s \<Rightarrow> s | None \<Rightarrow> StUnsupported),
        cr_failure = failures cap\<rparr>) all_capabilities\<rparr>"

definition report_state :: "EnforcementReport \<Rightarrow> SecurityCapability \<Rightarrow> EnforcementState" where
  "report_state r cap =
     (case find (\<lambda>x. cr_capability x = cap) (er_records r) of
        Some x \<Rightarrow> cr_state x
      | None \<Rightarrow> StUnsupported)"

definition is_enforced :: "EnforcementReport \<Rightarrow> SecurityCapability \<Rightarrow> bool" where
  "is_enforced r cap = (preparation_ok r \<and> state_enforced (report_state r cap))"

definition requested_caps :: "EnforcementReport \<Rightarrow> SecurityCapability list" where
  "requested_caps r = map cr_capability (filter cr_requested (er_records r))"

definition enforced_caps :: "EnforcementReport \<Rightarrow> SecurityCapability list" where
  "enforced_caps r = filter (is_enforced r) all_capabilities"

definition caps_in :: "EnforcementState \<Rightarrow> EnforcementReport \<Rightarrow> SecurityCapability list" where
  "caps_in s r = map cr_capability (filter (\<lambda>x. cr_state x = s) (er_records r))"

definition unsupported_caps :: "EnforcementReport \<Rightarrow> SecurityCapability list" where
  "unsupported_caps r = caps_in StUnsupported r"

definition verified_caps :: "EnforcementReport \<Rightarrow> SecurityCapability list" where
  "verified_caps r = caps_in StVerified r"

definition failed_caps :: "EnforcementReport \<Rightarrow> (SecurityCapability \<times> PreparationFailureKind option) list" where
  "failed_caps r =
     map (\<lambda>x. (cr_capability x, cr_failure x)) (filter (\<lambda>x. cr_state x = StFailed) (er_records r))"

fun report_allows_pass :: "EnforcementReport \<Rightarrow> SecurityCapability list \<Rightarrow> bool" where
  "report_allows_pass r required = (preparation_ok r \<and> list_all (is_enforced r) required)"

definition binds_identity :: "EnforcementReport \<Rightarrow> ExecutionIdentity \<Rightarrow> bool" where
  "binds_identity r ident =
     (er_scenario r = id_scenario ident \<and> er_nonce r = id_nonce ident \<and>
      er_registry r = id_registry ident \<and> er_frozen r = id_frozen ident)"

definition show_bool :: "bool \<Rightarrow> string" where
  "show_bool b = (if b then ''true'' else ''false'')"

definition render_deterministic :: "EnforcementReport \<Rightarrow> string" where
  "render_deterministic r =
     join_with ''|''
       ([''backend='' @ backend_label (er_backend r)] @
        map (\<lambda>x. capability_label (cr_capability x) @ ''='' @ state_label (cr_state x)) (er_records r) @
        [''preparation_ok='' @ show_bool (preparation_ok r)])"

section \<open>Changes of a report\<close>

definition map_records :: "(CapabilityRecord \<Rightarrow> CapabilityRecord) \<Rightarrow> EnforcementReport \<Rightarrow> EnforcementReport" where
  "map_records f r = r\<lparr>er_records := map f (er_records r)\<rparr>"

text \<open>\<open>records.iter_mut().find(P)\<close> followed by a change of the record found.\<close>

fun update_first :: "('a \<Rightarrow> bool) \<Rightarrow> ('a \<Rightarrow> 'a) \<Rightarrow> 'a list \<Rightarrow> 'a list" where
  "update_first P f [] = []"
| "update_first P f (x # xs) = (if P x then f x # xs else x # update_first P f xs)"

definition update_cap ::
  "SecurityCapability \<Rightarrow> (CapabilityRecord \<Rightarrow> CapabilityRecord) \<Rightarrow> EnforcementReport \<Rightarrow> EnforcementReport" where
  "update_cap cap f r = r\<lparr>er_records := update_first (\<lambda>x. cr_capability x = cap) f (er_records r)\<rparr>"

definition promote_record :: "CapabilityRecord \<Rightarrow> CapabilityRecord" where
  "promote_record x = (if cr_state x = StConfigured then x\<lparr>cr_state := StEnforced\<rparr> else x)"

definition verify_record :: "CapabilityRecord \<Rightarrow> CapabilityRecord" where
  "verify_record x = (if cr_state x = StEnforced then x\<lparr>cr_state := StVerified\<rparr> else x)"

definition fail_record :: "PreparationFailureKind \<Rightarrow> CapabilityRecord \<Rightarrow> CapabilityRecord" where
  "fail_record k x =
     (if cr_state x \<in> {StConfigured, StEnforced, StVerified}
      then x\<lparr>cr_state := StFailed, cr_failure := Some k\<rparr> else x)"

definition fail_installed :: "PreparationFailureKind \<Rightarrow> EnforcementReport \<Rightarrow> EnforcementReport" where
  "fail_installed k r = (map_records (fail_record k) r)\<lparr>preparation_ok := False\<rparr>"

definition tree_record :: "bool \<Rightarrow> CapabilityRecord \<Rightarrow> CapabilityRecord" where
  "tree_record clean x =
     (if cr_state x = StEnforced \<and> clean then x\<lparr>cr_state := StVerified\<rparr>
      else if (cr_state x = StEnforced \<or> cr_state x = StConfigured) \<and> \<not> clean
      then x\<lparr>cr_state := StFailed, cr_failure := Some VerificationUnavailable\<rparr>
      else x)"

text \<open>The calls that report an event of the run to a backend.\<close>

datatype Note =
    NoteSpawned nat
  | NoteHostVerified HostVerification
  | NoteFailed PreparationFailureKind
  | NoteTreeClean bool
  | NoteDiagnostic string

section \<open>The direct backend\<close>

record DirectBackend =
  db_report :: "EnforcementReport option"

definition direct_supports :: "SecurityCapability \<Rightarrow> bool" where
  "direct_supports cap = (cap = HostEvidence)"

definition direct_prepare :: "PreparedPolicy \<Rightarrow> ExecutionIdentity \<Rightarrow> DirectBackend \<Rightarrow> DirectBackend" where
  "direct_prepare pol ident b =
     b\<lparr>db_report := Some (build_report BkDirect pol ident
          (\<lambda>cap. Some (if cap = HostEvidence then StEnforced else StUnsupported)) Map.empty True)\<rparr>"

text \<open>Its notes are the trait's defaults, which do nothing.\<close>

fun direct_note :: "Note \<Rightarrow> DirectBackend \<Rightarrow> DirectBackend" where
  "direct_note n b = b"

section \<open>The Linux backend\<close>

text \<open>Of the plan for the child, the backend reads back whether the network is denied.\<close>

record LinuxBackend =
  lb_report :: "EnforcementReport option"
  lb_plan_net_deny :: "bool option"
  lb_tier :: "Tier option"
  lb_diag :: "string option"

definition linux_new :: LinuxBackend where
  "linux_new = \<lparr>lb_report = None, lb_plan_net_deny = None, lb_tier = None, lb_diag = None\<rparr>"

definition linux_supports :: "TargetOs \<Rightarrow> SecurityCapability \<Rightarrow> bool" where
  "linux_supports os cap = (os = OsLinux)"

definition promote_configured_to_enforced :: "EnforcementReport \<Rightarrow> EnforcementReport" where
  "promote_configured_to_enforced r = map_records promote_record r"

definition net_not_off :: "LinuxBackend \<Rightarrow> bool" where
  "net_not_off b = (lb_plan_net_deny b = Some False)"

definition seccomp_record :: "bool \<Rightarrow> CapabilityRecord \<Rightarrow> CapabilityRecord" where
  "seccomp_record not_off x0 =
     (let x = (if cr_capability x0 \<in> {FilesystemIsolation, ExecutionRootIsolation}
               then x0\<lparr>cr_state := StUnsupported, cr_failure := None\<rparr> else x0)
      in if cr_capability x = NetworkIsolation \<and> not_off
         then x\<lparr>cr_state := StUnsupported, cr_failure := Some UnsupportedOnPlatform\<rparr> else x)"

definition restrict_seccomp_records :: "LinuxBackend \<Rightarrow> LinuxBackend" where
  "restrict_seccomp_records b =
     b\<lparr>lb_report := map_option (map_records (seccomp_record (net_not_off b))) (lb_report b)\<rparr>"

definition fsonly_record :: "bool \<Rightarrow> CapabilityRecord \<Rightarrow> CapabilityRecord" where
  "fsonly_record not_off x0 =
     (let x = (if cr_capability x0 = ProcessTreeContainment
               then x0\<lparr>cr_state := StUnsupported, cr_failure := Some UnsupportedOnPlatform\<rparr> else x0)
      in if cr_capability x = NetworkIsolation \<and> not_off
         then x\<lparr>cr_state := StUnsupported, cr_failure := Some UnsupportedOnPlatform\<rparr> else x)"

definition restrict_fsonly_records :: "LinuxBackend \<Rightarrow> LinuxBackend" where
  "restrict_fsonly_records b =
     b\<lparr>lb_report := map_option (map_records (fsonly_record (net_not_off b))) (lb_report b)\<rparr>"

definition restrict_records :: "LinuxBackend \<Rightarrow> LinuxBackend" where
  "restrict_records b =
     (if lb_tier b = Some TierSeccomp then restrict_seccomp_records b
      else if lb_tier b = Some TierFsOnly then restrict_fsonly_records b
      else b)"

definition apply_tier_restriction :: "Tier option \<Rightarrow> LinuxBackend \<Rightarrow> LinuxBackend" where
  "apply_tier_restriction tier b = restrict_records (b\<lparr>lb_tier := tier\<rparr>)"

definition linux_prepare ::
  "TargetOs \<Rightarrow> PreparedPolicy \<Rightarrow> ExecutionIdentity \<Rightarrow> LinuxBackend \<Rightarrow> LinuxBackend" where
  "linux_prepare os pol ident b0 =
     (let b = b0\<lparr>lb_plan_net_deny := None\<rparr>
      in if os \<noteq> OsLinux
         then restrict_records (b\<lparr>lb_report := Some (build_report BkLinux pol ident
                (\<lambda>_. Some StUnsupported) Map.empty True)\<rparr>)
         else restrict_records (b\<lparr>lb_plan_net_deny := Some (cp_net_mode pol = ''off''),
                lb_report := Some (build_report BkLinux pol ident
                  (\<lambda>cap. Some (if cap = HostEvidence then StEnforced else StConfigured)) Map.empty True)\<rparr>))"

definition verified_if :: "SecurityCapability \<Rightarrow> bool \<Rightarrow> EnforcementReport \<Rightarrow> EnforcementReport" where
  "verified_if cap observed r = (if observed then update_cap cap verify_record r else r)"

definition linux_verify :: "bool \<Rightarrow> HostVerification \<Rightarrow> EnforcementReport \<Rightarrow> EnforcementReport" where
  "linux_verify net_deny v r =
     verified_if ResourceLimitsCap
       (rlimit_as_ok v \<or> rlimit_cpu_ok v \<or> rlimit_fsize_ok v \<or> rlimit_nproc_ok v \<or> win_job_ceiling v \<or>
        cgroup_memory_ok v \<or> cgroup_cpu_ok v \<or> cgroup_pids_ok v)
       (verified_if ProcessTreeContainment (subreaper_ok v \<or> win_in_job v)
         (verified_if NetworkIsolation (netns_isolated v \<or> seccomp_filter v \<and> net_deny)
           (verified_if SyscallRestriction (seccomp_filter v)
             (verified_if ProcessIsolation (no_new_privs v) r))))"

definition tree_if :: "bool \<Rightarrow> CapabilityRecord \<Rightarrow> CapabilityRecord" where
  "tree_if clean x = (if cr_capability x = ProcessTreeContainment then tree_record clean x else x)"

fun linux_note :: "Note \<Rightarrow> LinuxBackend \<Rightarrow> LinuxBackend" where
  "linux_note (NoteSpawned pid) b =
     b\<lparr>lb_report := map_option promote_configured_to_enforced (lb_report b)\<rparr>"
| "linux_note (NoteHostVerified v) b =
     b\<lparr>lb_report := map_option (linux_verify (lb_plan_net_deny b = Some True) v) (lb_report b)\<rparr>"
| "linux_note (NoteFailed k) b = b\<lparr>lb_report := map_option (fail_installed k) (lb_report b)\<rparr>"
| "linux_note (NoteTreeClean clean) b =
     (if lb_tier b = Some TierFsOnly then b
      else b\<lparr>lb_report := map_option (map_records (tree_if clean)) (lb_report b)\<rparr>)"
| "linux_note (NoteDiagnostic d) b = b\<lparr>lb_diag := Some d\<rparr>"

definition linux_teardown :: "LinuxBackend \<Rightarrow> LinuxBackend" where
  "linux_teardown b = linux_new"

section \<open>The macOS backend\<close>

record MacosBackend =
  mb_report :: "EnforcementReport option"
  mb_tree_diag :: "string option"

definition macos_new :: MacosBackend where
  "macos_new = \<lparr>mb_report = None, mb_tree_diag = None\<rparr>"

definition macos_caps :: "SecurityCapability set" where
  "macos_caps =
     {FilesystemIsolation, NetworkIsolation, ProcessIsolation, ProcessTreeContainment, ResourceLimitsCap,
      HostEvidence}"

definition macos_supports :: "TargetOs \<Rightarrow> SecurityCapability \<Rightarrow> bool" where
  "macos_supports os cap = (os = OsMacos \<and> cap \<in> macos_caps)"

definition macos_prepare ::
  "TargetOs \<Rightarrow> PreparedPolicy \<Rightarrow> ExecutionIdentity \<Rightarrow> MacosBackend \<Rightarrow> MacosBackend" where
  "macos_prepare os pol ident b0 =
     (let b = b0\<lparr>mb_tree_diag := None\<rparr>
      in if os \<noteq> OsMacos
         then b\<lparr>mb_report := Some (build_report BkMacos pol ident (\<lambda>_. Some StUnsupported) Map.empty True)\<rparr>
         else if \<not> (cp_net_mode pol = ''off'' \<or> starts_with (cp_net_mode pol) ''allowlist'')
         then b\<lparr>mb_report := Some (build_report BkMacos pol ident
                (\<lambda>cap. Some (if cap = NetworkIsolation then StFailed else StUnsupported))
                [NetworkIsolation \<mapsto> UnsupportedOnPlatform] False)\<rparr>
         else b\<lparr>mb_report := Some (build_report BkMacos pol ident
                (\<lambda>cap. Some (if cap = HostEvidence then StEnforced
                             else if cap \<in> {SyscallRestriction, ExecutionRootIsolation} then StUnsupported
                             else StConfigured)) Map.empty True)\<rparr>)"

definition tree_note :: "bool \<Rightarrow> EnforcementReport \<Rightarrow> EnforcementReport" where
  "tree_note clean r = update_cap ProcessTreeContainment (tree_record clean) r"

fun macos_note :: "Note \<Rightarrow> MacosBackend \<Rightarrow> MacosBackend" where
  "macos_note (NoteSpawned pid) b =
     b\<lparr>mb_report := map_option promote_configured_to_enforced (mb_report b)\<rparr>"
| "macos_note (NoteHostVerified v) b =
     b\<lparr>mb_report := map_option (verified_if ProcessIsolation (pgroup_separate v)) (mb_report b)\<rparr>"
| "macos_note (NoteFailed k) b = b\<lparr>mb_report := map_option (fail_installed k) (mb_report b)\<rparr>"
| "macos_note (NoteTreeClean clean) b = b\<lparr>mb_report := map_option (tree_note clean) (mb_report b)\<rparr>"
| "macos_note (NoteDiagnostic d) b = b\<lparr>mb_tree_diag := Some d\<rparr>"

definition macos_teardown :: "MacosBackend \<Rightarrow> MacosBackend" where
  "macos_teardown b = macos_new"

section \<open>The Windows backend\<close>

record WindowsBackend =
  wb_report :: "EnforcementReport option"
  wb_spawned_pid :: "nat option"
  wb_diagnostic :: "string option"

definition windows_new :: WindowsBackend where
  "windows_new = \<lparr>wb_report = None, wb_spawned_pid = None, wb_diagnostic = None\<rparr>"

definition windows_supports :: "TargetOs \<Rightarrow> SecurityCapability \<Rightarrow> bool" where
  "windows_supports os cap = (os = OsWindows \<and> cap \<in> macos_caps)"

fun windows_state :: "string \<Rightarrow> SecurityCapability \<Rightarrow> EnforcementState" where
  "windows_state net FilesystemIsolation = StConfigured"
| "windows_state net ExecutionRootIsolation = StUnsupported"
| "windows_state net NetworkIsolation = (if net = ''off'' then StConfigured else StUnsupported)"
| "windows_state net ProcessIsolation = StConfigured"
| "windows_state net ProcessTreeContainment = StConfigured"
| "windows_state net ResourceLimitsCap = StConfigured"
| "windows_state net SyscallRestriction = StUnsupported"
| "windows_state net HostEvidence = StEnforced"

text \<open>\<open>ready\<close> and \<open>as_user\<close> are what the host probe finds.\<close>

definition windows_prepare ::
  "TargetOs \<Rightarrow> bool \<Rightarrow> bool \<Rightarrow> PreparedPolicy \<Rightarrow> ExecutionIdentity \<Rightarrow> WindowsBackend \<Rightarrow> WindowsBackend" where
  "windows_prepare os ready as_user pol ident b0 =
     (let b = b0\<lparr>wb_diagnostic := None, wb_spawned_pid := None\<rparr>
      in if os \<noteq> OsWindows
         then b\<lparr>wb_report := Some (build_report BkWindows pol ident (\<lambda>_. Some StUnsupported) Map.empty True)\<rparr>
         else if \<not> ready
         then b\<lparr>wb_report := Some (build_report BkWindows pol ident (\<lambda>_. Some StFailed)
                (\<lambda>_. Some PlatformUnavailable) False)\<rparr>
         else b\<lparr>wb_diagnostic := Some (''win prepare ok=true as-user='' @ show_bool as_user @
                  '' exec-root=unsupported syscalls=unsupported''),
                wb_report := Some (build_report BkWindows pol ident
                  (\<lambda>cap. Some (windows_state (cp_net_mode pol) cap)) Map.empty True)\<rparr>)"

definition promote_if :: "SecurityCapability \<Rightarrow> bool \<Rightarrow> EnforcementReport \<Rightarrow> EnforcementReport" where
  "promote_if cap observed r = (if observed then update_cap cap promote_record r else r)"

text \<open>The record verified for low integrity is the first of that capability that is enforced.\<close>

definition verify_low_integrity :: "EnforcementReport \<Rightarrow> EnforcementReport" where
  "verify_low_integrity r =
     r\<lparr>er_records := update_first (\<lambda>x. cr_capability x = ProcessIsolation \<and> cr_state x = StEnforced)
        (\<lambda>x. x\<lparr>cr_state := StVerified\<rparr>) (er_records r)\<rparr>"

definition windows_verify :: "HostVerification \<Rightarrow> EnforcementReport \<Rightarrow> EnforcementReport" where
  "windows_verify v r =
     (if \<not> preparation_ok r then r
      else (let r = promote_if ProcessTreeContainment (win_in_job v \<and> win_kill_on_close v)
                      (promote_if ProcessIsolation (win_in_job v)
                        (promote_if NetworkIsolation (win_in_job v)
                          (promote_if FilesystemIsolation (win_in_job v) r)));
                r = promote_if ResourceLimitsCap (win_job_ceiling v) r
            in if win_low_integrity v then verify_low_integrity r else r))"

fun windows_note :: "Note \<Rightarrow> WindowsBackend \<Rightarrow> WindowsBackend" where
  "windows_note (NoteSpawned pid) b = b\<lparr>wb_spawned_pid := Some pid\<rparr>"
| "windows_note (NoteHostVerified v) b = b\<lparr>wb_report := map_option (windows_verify v) (wb_report b)\<rparr>"
| "windows_note (NoteFailed k) b = b\<lparr>wb_report := map_option (fail_installed k) (wb_report b)\<rparr>"
| "windows_note (NoteTreeClean clean) b = b\<lparr>wb_report := map_option (tree_note clean) (wb_report b)\<rparr>"
| "windows_note (NoteDiagnostic d) b =
     b\<lparr>wb_diagnostic := Some (case wb_diagnostic b of Some st \<Rightarrow> st @ '' '' @ d | None \<Rightarrow> d)\<rparr>"

definition windows_teardown :: "WindowsBackend \<Rightarrow> WindowsBackend" where
  "windows_teardown b = windows_new"

section \<open>Backends behind the trait\<close>

datatype Backend =
  DirectB DirectBackend | LinuxB LinuxBackend | MacosB MacosBackend | WindowsB WindowsBackend

fun select_backend :: "BackendKind \<Rightarrow> Backend" where
  "select_backend BkDirect = DirectB \<lparr>db_report = None\<rparr>"
| "select_backend BkLinux = LinuxB linux_new"
| "select_backend BkMacos = MacosB macos_new"
| "select_backend BkWindows = WindowsB windows_new"

fun supports :: "TargetOs \<Rightarrow> Backend \<Rightarrow> SecurityCapability \<Rightarrow> bool" where
  "supports os (DirectB b) cap = direct_supports cap"
| "supports os (LinuxB b) cap = linux_supports os cap"
| "supports os (MacosB b) cap = macos_supports os cap"
| "supports os (WindowsB b) cap = windows_supports os cap"

text \<open>The platform and what its probes find, for preparation.\<close>

record Platform =
  pf_os :: TargetOs
  win_ready :: bool
  win_as_user :: bool

fun prepare :: "Platform \<Rightarrow> PreparedPolicy \<Rightarrow> ExecutionIdentity \<Rightarrow> Backend \<Rightarrow> Backend" where
  "prepare pf pol ident (DirectB b) = DirectB (direct_prepare pol ident b)"
| "prepare pf pol ident (LinuxB b) = LinuxB (linux_prepare (pf_os pf) pol ident b)"
| "prepare pf pol ident (MacosB b) = MacosB (macos_prepare (pf_os pf) pol ident b)"
| "prepare pf pol ident (WindowsB b) =
     WindowsB (windows_prepare (pf_os pf) (win_ready pf) (win_as_user pf) pol ident b)"

fun backend_note :: "Note \<Rightarrow> Backend \<Rightarrow> Backend" where
  "backend_note n (DirectB b) = DirectB (direct_note n b)"
| "backend_note n (LinuxB b) = LinuxB (linux_note n b)"
| "backend_note n (MacosB b) = MacosB (macos_note n b)"
| "backend_note n (WindowsB b) = WindowsB (windows_note n b)"

fun restrict_tier :: "Tier option \<Rightarrow> Backend \<Rightarrow> Backend" where
  "restrict_tier tier (LinuxB b) = LinuxB (apply_tier_restriction tier b)"
| "restrict_tier tier b = b"

fun enforcement :: "Backend \<Rightarrow> EnforcementReport option" where
  "enforcement (DirectB b) = db_report b"
| "enforcement (LinuxB b) = lb_report b"
| "enforcement (MacosB b) = mb_report b"
| "enforcement (WindowsB b) = wb_report b"

fun teardown :: "Backend \<Rightarrow> Backend" where
  "teardown (DirectB b) = DirectB b"
| "teardown (LinuxB b) = LinuxB (linux_teardown b)"
| "teardown (MacosB b) = MacosB (macos_teardown b)"
| "teardown (WindowsB b) = WindowsB (windows_teardown b)"

section \<open>Platform matrix, scenarios and targets\<close>

definition platform_matrix :: "TargetOs \<Rightarrow> (BackendKind \<times> SecurityCapability \<times> bool) list" where
  "platform_matrix os =
     concat (map (\<lambda>kind. map (\<lambda>cap. (kind, cap, supports os (select_backend kind) cap)) all_capabilities)
       all_backends)"

definition matrix_supports :: "(BackendKind \<times> SecurityCapability \<times> bool) list \<Rightarrow> BackendKind \<Rightarrow> SecurityCapability \<Rightarrow> bool" where
  "matrix_supports m kind cap =
     (case find (\<lambda>(k, c, _). k = kind \<and> c = cap) m of Some (_, _, ok) \<Rightarrow> ok | None \<Rightarrow> False)"

datatype ScenarioVerdict = ScPass | ScFail | ScInconclusive | ScNotApplicable

datatype ClaimStrength = ClStrong | ClPartial | ClUnsupported

datatype ScenarioCategory = CatAux | CatSpawn | CatFsRead | CatFsWrite | CatNet | CatProc | CatSecrets

record Scenario =
  sc_id :: string
  sc_category :: ScenarioCategory
  sc_strength :: "(string \<times> ClaimStrength) list"
  sc_quorum :: nat
  sc_known_limitation :: string
  sc_residual_risk :: string

datatype ScenarioTarget = LinuxFull | LinuxFsOnly | LinuxSeccomp | MacosTarget | WindowsTarget

fun target_label :: "ScenarioTarget \<Rightarrow> string" where
  "target_label LinuxFull = ''linux-full''"
| "target_label LinuxFsOnly = ''linux-fs-only''"
| "target_label LinuxSeccomp = ''linux-seccomp''"
| "target_label MacosTarget = ''macos''"
| "target_label WindowsTarget = ''windows''"

fun current_target :: "TargetOs \<Rightarrow> string option \<Rightarrow> ScenarioTarget" where
  "current_target OsLinux tier =
     (if tier = Some ''full'' then LinuxFull
      else if tier = Some ''fs-only'' then LinuxFsOnly
      else LinuxSeccomp)"
| "current_target OsMacos tier = MacosTarget"
| "current_target OsWindows tier = WindowsTarget"
| "current_target OsOther tier = LinuxSeccomp"

definition strength_for :: "Scenario \<Rightarrow> ScenarioTarget \<Rightarrow> ClaimStrength" where
  "strength_for s target =
     (case map_of (sc_strength s) (target_label target) of Some c \<Rightarrow> c | None \<Rightarrow> ClUnsupported)"

definition lint_scenario :: "Scenario \<Rightarrow> (string, unit) result" where
  "lint_scenario s =
     (if trim (sc_id s) = [] then Err ''scenario id is empty''
      else if sc_quorum s < 1 then Err (sc_id s @ '': quorum must be >= 1'')
      else if trim (sc_known_limitation s) = [] then Err (sc_id s @ '': known_limitation must be non-empty'')
      else if list_ex (\<lambda>p. snd p = ClPartial) (sc_strength s) \<and> trim (sc_residual_risk s) = []
      then Err (sc_id s @ '': PARTIAL target requires residual_risk'')
      else Ok ())"

fun required_of :: "ScenarioCategory \<Rightarrow> SecurityCapability list" where
  "required_of CatAux = [HostEvidence]"
| "required_of CatSpawn = [ProcessIsolation, HostEvidence]"
| "required_of CatFsRead = [FilesystemIsolation, ExecutionRootIsolation, HostEvidence]"
| "required_of CatFsWrite = [FilesystemIsolation, ExecutionRootIsolation, HostEvidence]"
| "required_of CatNet = [NetworkIsolation, HostEvidence]"
| "required_of CatProc = [ProcessIsolation, ProcessTreeContainment, HostEvidence]"
| "required_of CatSecrets = [FilesystemIsolation, HostEvidence]"

definition required_capabilities :: "Scenario \<Rightarrow> SecurityCapability list" where
  "required_capabilities s = required_of (sc_category s)"

definition scenario_allows_pass :: "EnforcementReport \<Rightarrow> Scenario \<Rightarrow> bool" where
  "scenario_allows_pass r s = report_allows_pass r (required_capabilities s)"

definition apply_backend_ceiling :: "ScenarioVerdict \<Rightarrow> EnforcementReport \<Rightarrow> Scenario \<Rightarrow> ScenarioVerdict" where
  "apply_backend_ceiling v r s =
     (if v = ScPass \<and> \<not> scenario_allows_pass r s then ScInconclusive else v)"

section \<open>How claims may change\<close>

text \<open>A claim goes forward from configured to verified or fails; what is unsupported or has failed
  stays so.\<close>

definition advances :: "EnforcementState \<Rightarrow> EnforcementState \<Rightarrow> bool" where
  "advances s t =
     (s = t \<or> s \<in> {StConfigured, StEnforced, StVerified} \<and> t = StFailed \<or>
      s = StConfigured \<and> t \<in> {StEnforced, StVerified} \<or> s = StEnforced \<and> t = StVerified)"

definition record_advances :: "CapabilityRecord \<Rightarrow> CapabilityRecord \<Rightarrow> bool" where
  "record_advances x y =
     (cr_capability y = cr_capability x \<and> cr_requested y = cr_requested x \<and>
      advances (cr_state x) (cr_state y))"

definition same_run :: "EnforcementReport \<Rightarrow> EnforcementReport \<Rightarrow> bool" where
  "same_run r r' =
     (er_backend r' = er_backend r \<and> er_scenario r' = er_scenario r \<and> er_nonce r' = er_nonce r \<and>
      er_registry r' = er_registry r \<and> er_frozen r' = er_frozen r \<and> er_policy_hash r' = er_policy_hash r)"

definition evolves :: "EnforcementReport \<Rightarrow> EnforcementReport \<Rightarrow> bool" where
  "evolves r r' =
     (same_run r r' \<and> (preparation_ok r' \<longrightarrow> preparation_ok r) \<and>
      list_all2 record_advances (er_records r) (er_records r'))"

lemma advances_refl [simp]: "advances s s"
  by (simp add: advances_def)

lemma advances_trans: "advances s t \<Longrightarrow> advances t u \<Longrightarrow> advances s u"
  by (auto simp: advances_def)

lemma record_advances_refl [simp]: "record_advances x x"
  by (simp add: record_advances_def)

lemma record_advances_trans: "record_advances x y \<Longrightarrow> record_advances y z \<Longrightarrow> record_advances x z"
  by (auto simp: record_advances_def dest: advances_trans)

lemma evolves_refl [simp]: "evolves r r"
  by (simp add: evolves_def same_run_def list_all2_refl)

lemma evolves_trans: "evolves r s \<Longrightarrow> evolves s t \<Longrightarrow> evolves r t"
  unfolding evolves_def same_run_def
  by (auto intro: list_all2_trans [where ?P1.0 = record_advances and ?P2.0 = record_advances] record_advances_trans)

lemma record_steps:
  "record_advances x (promote_record x)" "record_advances x (verify_record x)"
  "record_advances x (fail_record k x)" "record_advances x (tree_record c x)" "record_advances x (tree_if c x)"
  by (auto simp: record_advances_def promote_record_def verify_record_def fail_record_def tree_record_def
      tree_if_def advances_def)

lemma evolves_map: "(\<And>x. record_advances x (f x)) \<Longrightarrow> evolves r (map_records f r)"
  by (simp add: evolves_def same_run_def map_records_def list_all2_conv_all_nth)

lemma list_all2_update_first:
  "(\<And>x. P x \<Longrightarrow> record_advances x (f x)) \<Longrightarrow> list_all2 record_advances xs (update_first P f xs)"
  by (induction xs) (auto simp: list_all2_refl)

lemma evolves_update_cap: "(\<And>x. record_advances x (f x)) \<Longrightarrow> evolves r (update_cap cap f r)"
  by (simp add: evolves_def same_run_def update_cap_def list_all2_update_first)

lemma evolves_fail: "evolves r (fail_installed k r)"
  using evolves_map [of "fail_record k" r] record_steps
  by (simp add: fail_installed_def evolves_def same_run_def map_records_def)

lemma evolves_verified_if: "evolves r (verified_if cap ob r)"
  by (simp add: verified_if_def evolves_update_cap record_steps)

lemma evolves_promote_if: "evolves r (promote_if cap ob r)"
  by (simp add: promote_if_def evolves_update_cap record_steps)

lemma evolves_low_integrity: "evolves r (verify_low_integrity r)"
  by (auto simp: verify_low_integrity_def evolves_def same_run_def record_advances_def advances_def
      intro!: list_all2_update_first)

lemma evolves_linux_verify: "evolves r (linux_verify d v r)"
  unfolding linux_verify_def by (intro evolves_trans [OF _ evolves_verified_if] evolves_refl)

lemma evolves_windows_verify: "evolves r (windows_verify v r)"
proof -
  have "evolves r (promote_if ResourceLimitsCap a (promote_if ProcessTreeContainment b
      (promote_if ProcessIsolation c (promote_if NetworkIsolation d (promote_if FilesystemIsolation e r)))))" for a b c d e
    by (intro evolves_trans [OF _ evolves_promote_if] evolves_refl)
  then show ?thesis
    by (auto simp: windows_verify_def Let_def intro: evolves_trans [OF _ evolves_low_integrity])
qed

lemma evolves_state:
  assumes "evolves r r'"
  shows "advances (report_state r cap) (report_state r' cap)"
proof -
  have "advances (case find (\<lambda>x. cr_capability x = cap) xs of Some x \<Rightarrow> cr_state x | None \<Rightarrow> StUnsupported)
      (case find (\<lambda>x. cr_capability x = cap) ys of Some x \<Rightarrow> cr_state x | None \<Rightarrow> StUnsupported)"
    if "list_all2 record_advances xs ys" for xs ys
    using that by (induction rule: list_all2_induct) (auto simp: record_advances_def)
  with assms show ?thesis by (simp add: evolves_def report_state_def)
qed

section \<open>The interface of the backends\<close>

locale backend_notes =
  fixes note_op :: "Note \<Rightarrow> 's \<Rightarrow> 's" and report :: "'s \<Rightarrow> EnforcementReport option"
  assumes note_evolves: "report s = Some r \<Longrightarrow> \<exists>r'. report (note_op n s) = Some r' \<and> evolves r r'"
begin

lemma run_evolves: "report s = Some r \<Longrightarrow> \<exists>r'. report (fold note_op ns s) = Some r' \<and> evolves r r'"
proof (induction ns arbitrary: s r)
  case (Cons n ns)
  obtain r1 where r1: "report (note_op n s) = Some r1" "evolves r r1"
    using note_evolves [OF Cons.prems] by blast
  obtain r2 where "report (fold note_op ns (note_op n s)) = Some r2" "evolves r1 r2"
    using Cons.IH [OF r1(1)] by blast
  then show ?case using evolves_trans [OF r1(2)] by auto
qed auto

text \<open>A claim that failed or is unsupported is never made again, and nothing is claimed under a
  preparation that failed.\<close>

lemma lost_claims_stay_lost:
  assumes "report s = Some r" and "report_state r cap \<in> {StFailed, StUnsupported} \<or> \<not> preparation_ok r"
    and "report (fold note_op ns s) = Some r'"
  shows "\<not> is_enforced r' cap"
proof -
  have e: "evolves r r'" using run_evolves [OF assms(1), of ns] assms(3) by auto
  have "advances (report_state r cap) (report_state r' cap)" by (rule evolves_state [OF e])
  then have "\<not> state_enforced (report_state r' cap)" if "report_state r cap \<in> {StFailed, StUnsupported}"
    using that by (auto simp: advances_def state_enforced_def)
  moreover have "preparation_ok r' \<longrightarrow> preparation_ok r" using e by (simp add: evolves_def)
  ultimately show ?thesis using assms(2) by (auto simp: is_enforced_def)
qed

lemma identity_is_kept:
  assumes "report s = Some r" and "report (fold note_op ns s) = Some r'"
  shows "binds_identity r' ident \<longleftrightarrow> binds_identity r ident"
  using run_evolves [OF assms(1), of ns] assms(2)
  by (auto simp: evolves_def same_run_def binds_identity_def)

end

lemmas evolves_ops = evolves_map evolves_update_cap evolves_fail evolves_verified_if evolves_linux_verify
  evolves_windows_verify record_steps

interpretation direct_backend: backend_notes direct_note db_report
  by unfold_locales simp

interpretation linux_backend: backend_notes linux_note lb_report
proof
  fix s :: LinuxBackend and r n
  assume "lb_report s = Some r"
  then show "\<exists>r'. lb_report (linux_note n s) = Some r' \<and> evolves r r'"
    by (cases n) (auto simp: evolves_ops promote_configured_to_enforced_def)
qed

interpretation macos_backend: backend_notes macos_note mb_report
proof
  fix s :: MacosBackend and r n
  assume "mb_report s = Some r"
  then show "\<exists>r'. mb_report (macos_note n s) = Some r' \<and> evolves r r'"
    by (cases n) (auto simp: evolves_ops promote_configured_to_enforced_def tree_note_def)
qed

interpretation windows_backend: backend_notes windows_note wb_report
proof
  fix s :: WindowsBackend and r n
  assume "wb_report s = Some r"
  then show "\<exists>r'. wb_report (windows_note n s) = Some r' \<and> evolves r r'"
    by (cases n) (auto simp: evolves_ops tree_note_def)
qed

interpretation any_backend: backend_notes backend_note enforcement
proof
  fix s r n
  assume "enforcement s = Some r"
  then show "\<exists>r'. enforcement (backend_note n s) = Some r' \<and> evolves r r'"
    using direct_backend.note_evolves linux_backend.note_evolves macos_backend.note_evolves
      windows_backend.note_evolves
    by (cases s) auto
qed

section \<open>What a report claims\<close>

lemma find_all_capabilities: "find (\<lambda>c. c = cap) all_capabilities = Some cap"
  by (cases cap) (simp_all add: all_capabilities_def)

lemma find_map_cap:
  "(\<And>c. cr_capability (g c) = c) \<Longrightarrow>
     find (\<lambda>x. cr_capability x = cap) (map g cs) = map_option g (find (\<lambda>c. c = cap) cs)"
  by (induction cs) auto

lemma report_state_build:
  "report_state (build_report k pol ident states failures ok) cap =
     (case states cap of Some s \<Rightarrow> s | None \<Rightarrow> StUnsupported)"
  by (simp add: report_state_def build_report_def find_map_cap find_all_capabilities)

lemma build_report_ok [simp]:
  "preparation_ok (build_report k pol ident states failures ok) = ok"
  "binds_identity (build_report k pol ident states failures ok) ident"
  by (simp_all add: build_report_def binds_identity_def)

lemma find_map_same:
  "(\<And>x. cr_capability (f x) = cr_capability x) \<Longrightarrow>
     find (\<lambda>x. cr_capability x = cap) (map f xs) = map_option f (find (\<lambda>x. cr_capability x = cap) xs)"
  by (induction xs) auto

lemma report_state_map:
  assumes "\<And>x. cr_capability (f x) = cr_capability x"
    and "\<And>x. cr_capability x = cap \<Longrightarrow> cr_state (f x) = g (cr_state x)" and "g StUnsupported = StUnsupported"
  shows "report_state (map_records f r) cap = g (report_state r cap)"
proof -
  have "find (\<lambda>x. cr_capability x = cap) (er_records (map_records f r)) =
      map_option f (find (\<lambda>x. cr_capability x = cap) (er_records r))"
    using find_map_same [OF assms(1)] by (simp add: map_records_def)
  moreover have "cr_state (f x) = g (cr_state x)"
    if "find (\<lambda>x. cr_capability x = cap) (er_records r) = Some x" for x
    using find_SomeD [OF that] assms(2) by blast
  ultimately show ?thesis
    by (cases "find (\<lambda>x. cr_capability x = cap) (er_records r)") (simp_all add: report_state_def assms(3))
qed

lemma map_records_ok [simp]: "preparation_ok (map_records f r) = preparation_ok r"
  by (simp add: map_records_def)

lemma seccomp_state:
  "report_state (map_records (seccomp_record off) r) cap =
     (if cap \<in> {FilesystemIsolation, ExecutionRootIsolation} \<or> cap = NetworkIsolation \<and> off
      then StUnsupported else report_state r cap)"
  by (rule trans [OF report_state_map
        [where g = "\<lambda>s. if cap \<in> {FilesystemIsolation, ExecutionRootIsolation} \<or> cap = NetworkIsolation \<and> off
                        then StUnsupported else s"] ])
     (auto simp: seccomp_record_def Let_def)

lemma fsonly_state:
  "report_state (map_records (fsonly_record off) r) cap =
     (if cap = ProcessTreeContainment \<or> cap = NetworkIsolation \<and> off
      then StUnsupported else report_state r cap)"
  by (rule trans [OF report_state_map
        [where g = "\<lambda>s. if cap = ProcessTreeContainment \<or> cap = NetworkIsolation \<and> off
                        then StUnsupported else s"] ])
     (auto simp: fsonly_record_def Let_def)

lemma find_update_first_same:
  "(\<And>x. cr_capability (f x) = cr_capability x) \<Longrightarrow>
     find (\<lambda>x. cr_capability x = cap) (update_first (\<lambda>x. cr_capability x = cap') f xs) =
     (if cap = cap' then map_option f else id) (find (\<lambda>x. cr_capability x = cap) xs)"
  by (induction xs) auto

lemma report_state_update:
  assumes "\<And>x. cr_capability (f x) = cr_capability x"
  shows "report_state (update_cap cap' f r) cap =
    (if cap = cap'
     then (case find (\<lambda>x. cr_capability x = cap) (er_records r) of Some x \<Rightarrow> cr_state (f x) | None \<Rightarrow> StUnsupported)
     else report_state r cap)"
  using find_update_first_same [OF assms]
  by (auto simp: report_state_def update_cap_def split: option.splits)

text \<open>Restricting the tier takes claims back and makes none.\<close>

lemma restrict_records_state:
  assumes "lb_report b = Some r"
  shows "\<exists>r'. lb_report (restrict_records b) = Some r' \<and> preparation_ok r' = preparation_ok r \<and>
    (\<forall>cap. report_state r' cap = StUnsupported \<or> report_state r' cap = report_state r cap)"
  using assms
  by (auto simp: restrict_records_def restrict_seccomp_records_def restrict_fsonly_records_def
      seccomp_state fsonly_state)

lemma linux_prepared:
  "\<exists>r. lb_report (linux_prepare os pol ident b) = Some r \<and> preparation_ok r \<and>
    (\<forall>cap. report_state r cap = StUnsupported \<or>
       os = OsLinux \<and> report_state r cap = (if cap = HostEvidence then StEnforced else StConfigured))"
proof (cases "os = OsLinux")
  case True
  let ?r = "build_report BkLinux pol ident (\<lambda>cap. Some (if cap = HostEvidence then StEnforced else StConfigured)) Map.empty True"
  let ?b = "b\<lparr>lb_plan_net_deny := Some (cp_net_mode pol = ''off''), lb_report := Some ?r\<rparr>"
  have "lb_report ?b = Some ?r" by simp
  from restrict_records_state [OF this] True show ?thesis
    by (auto simp: linux_prepare_def report_state_build)
next
  case False
  let ?r = "build_report BkLinux pol ident (\<lambda>_. Some StUnsupported) Map.empty True"
  let ?b = "b\<lparr>lb_plan_net_deny := None, lb_report := Some ?r\<rparr>"
  have "lb_report ?b = Some ?r" by simp
  from restrict_records_state [OF this] False show ?thesis
    by (auto simp: linux_prepare_def report_state_build)
qed

text \<open>What a backend can claim right after it was prepared.\<close>

definition prepared_claims :: "TargetOs \<Rightarrow> Backend \<Rightarrow> EnforcementReport \<Rightarrow> bool" where
  "prepared_claims os b r =
     (\<forall>cap. (\<not> supports os b cap \<longrightarrow> report_state r cap \<in> {StUnsupported, StFailed}) \<and>
            (state_enforced (report_state r cap) \<longrightarrow> cap = HostEvidence))"

lemma prepared_report:
  "\<exists>r. enforcement (prepare pf pol ident b) = Some r \<and> prepared_claims (pf_os pf) b r"
proof (cases b)
  case (LinuxB l)
  obtain r where r: "lb_report (linux_prepare (pf_os pf) pol ident l) = Some r"
    "\<And>cap. report_state r cap = StUnsupported \<or>
       pf_os pf = OsLinux \<and> report_state r cap = (if cap = HostEvidence then StEnforced else StConfigured)"
    using linux_prepared by blast
  have "(pf_os pf \<noteq> OsLinux \<longrightarrow> report_state r cap \<in> {StUnsupported, StFailed}) \<and>
      (state_enforced (report_state r cap) \<longrightarrow> cap = HostEvidence)" for cap
    using r(2) [of cap] by (auto simp: state_enforced_def split: if_splits)
  then show ?thesis using r(1) by (simp add: LinuxB prepared_claims_def linux_supports_def)
next
  case (DirectB d)
  then show ?thesis
    by (simp add: direct_prepare_def prepared_claims_def report_state_build direct_supports_def
        state_enforced_def)
next
  case (MacosB m)
  have c: "cap \<notin> macos_caps \<longleftrightarrow> cap \<in> {SyscallRestriction, ExecutionRootIsolation}" for cap
    by (cases cap) (simp_all add: macos_caps_def)
  show ?thesis
    by (auto simp: MacosB macos_prepare_def Let_def prepared_claims_def report_state_build macos_supports_def
        state_enforced_def c)
next
  case (WindowsB w)
  have "windows_state net cap \<in> {StEnforced, StVerified} \<Longrightarrow> cap = HostEvidence"
    "cap \<notin> macos_caps \<Longrightarrow> windows_state net cap = StUnsupported" for net cap
    by (cases cap; simp add: macos_caps_def split: if_splits)+
  then show ?thesis
    by (auto simp: WindowsB windows_prepare_def Let_def prepared_claims_def report_state_build
        windows_supports_def state_enforced_def)
qed

text \<open>
  Property C24 (lost claims stay lost). Whatever is reported to a backend in whatever order, its
  report keeps the identity it was prepared for; a capability that failed or is unsupported is
  never claimed as enforced again, and after a failed preparation or a reported failure no
  scenario passes.
\<close>

theorem backend_claims_are_final:
  assumes "enforcement b = Some r" and "enforcement (fold backend_note ns b) = Some r'"
  shows "(binds_identity r' ident \<longleftrightarrow> binds_identity r ident) \<and>
    (report_state r cap \<in> {StFailed, StUnsupported} \<longrightarrow> \<not> is_enforced r' cap) \<and>
    (\<not> preparation_ok r \<longrightarrow> \<not> scenario_allows_pass r' s \<and> apply_backend_ceiling ScPass r' s = ScInconclusive)"
proof -
  have "\<not> scenario_allows_pass r' s" if "\<not> preparation_ok r"
  proof -
    have "HostEvidence \<in> set (required_capabilities s)"
      by (cases "sc_category s") (simp_all add: required_capabilities_def)
    moreover have "\<not> is_enforced r' HostEvidence"
      using any_backend.lost_claims_stay_lost [OF assms(1) _ assms(2)] that by blast
    ultimately show ?thesis by (auto simp: scenario_allows_pass_def list_all_iff)
  qed
  then show ?thesis
    using any_backend.identity_is_kept [OF assms] any_backend.lost_claims_stay_lost [OF assms(1) _ assms(2)]
    by (auto simp: apply_backend_ceiling_def)
qed

text \<open>
  Claims need a child and a backend that supports them. Right after preparation
  no backend claims more than host evidence, so that only auxiliary scenarios can pass; and
  whatever is reported afterwards, a capability that the platform matrix lists as unsupported
  for the backend is never claimed as enforced.
\<close>

theorem claims_need_support:
  assumes "enforcement (prepare pf pol ident (select_backend k)) = Some r"
  shows "(scenario_allows_pass r s \<longrightarrow> sc_category s = CatAux) \<and>
    (enforcement (fold backend_note ns (prepare pf pol ident (select_backend k))) = Some r' \<longrightarrow>
       is_enforced r' cap \<longrightarrow> matrix_supports (platform_matrix (pf_os pf)) k cap)"
proof -
  have c: "prepared_claims (pf_os pf) (select_backend k) r"
    using prepared_report [of pf pol ident "select_backend k"] assms by auto
  have "sc_category s = CatAux" if "scenario_allows_pass r s"
  proof -
    have "set (required_capabilities s) \<subseteq> {HostEvidence}"
      using that c by (auto simp: scenario_allows_pass_def list_all_iff is_enforced_def prepared_claims_def)
    then show ?thesis by (cases "sc_category s") (auto simp: required_capabilities_def)
  qed
  moreover have "matrix_supports (platform_matrix (pf_os pf)) k cap"
    if "enforcement (fold backend_note ns (prepare pf pol ident (select_backend k))) = Some r'" "is_enforced r' cap"
  proof -
    have "supports (pf_os pf) (select_backend k) cap"
      using any_backend.lost_claims_stay_lost [OF assms _ that(1)] that(2) c
      by (auto simp: prepared_claims_def)
    then show ?thesis
      by (cases k; cases cap; simp add: matrix_supports_def platform_matrix_def all_backends_def all_capabilities_def)
  qed
  ultimately show ?thesis by blast
qed

section \<open>Restricted tiers\<close>

text \<open>The capabilities a tier takes back; \<open>off\<close> is whether the network is off.\<close>

fun tier_drops :: "Tier option \<Rightarrow> bool \<Rightarrow> SecurityCapability set" where
  "tier_drops (Some TierSeccomp) off =
     {FilesystemIsolation, ExecutionRootIsolation} \<union> (if off then {} else {NetworkIsolation})"
| "tier_drops (Some TierFsOnly) off = {ProcessTreeContainment} \<union> (if off then {} else {NetworkIsolation})"
| "tier_drops _ off = {}"

lemma restrict_records_fields [simp]:
  "lb_plan_net_deny (restrict_records b) = lb_plan_net_deny b" "lb_tier (restrict_records b) = lb_tier b"
  by (simp_all add: restrict_records_def restrict_seccomp_records_def restrict_fsonly_records_def)

lemma tier_drops_state:
  assumes "lb_report b = Some r" and "cap \<in> tier_drops tier (lb_plan_net_deny b \<noteq> Some False)"
  shows "\<exists>r'. lb_report (apply_tier_restriction tier b) = Some r' \<and> report_state r' cap = StUnsupported"
  using assms
  by (cases "(tier, lb_plan_net_deny b \<noteq> Some False)" rule: tier_drops.cases)
     (auto simp: apply_tier_restriction_def restrict_records_def restrict_seccomp_records_def
        restrict_fsonly_records_def seccomp_state fsonly_state net_not_off_def split: if_splits)

text \<open>
  A restricted tier drops its claims for good. After preparation on Linux under the
  seccomp tier neither filesystem nor execution root isolation is ever claimed, under the
  tier without mounts process tree containment is not, and under both network isolation is
  not unless the network is off: whatever is reported afterwards, a scenario that needs one of
  them comes out inconclusive at best.
\<close>

theorem restricted_tier_never_claims:
  assumes "cap \<in> tier_drops tier (cp_net_mode pol = ''off'')" and "cap \<in> set (required_capabilities s)"
    and "b = restrict_tier tier (prepare \<lparr>pf_os = OsLinux, win_ready = w, win_as_user = u\<rparr> pol ident (select_backend BkLinux))"
    and "enforcement (fold backend_note ns b) = Some r"
  shows "\<not> is_enforced r cap \<and> apply_backend_ceiling ScPass r s = ScInconclusive"
proof -
  let ?l = "linux_prepare OsLinux pol ident linux_new"
  obtain r0 where "lb_report ?l = Some r0" using linux_prepared by blast
  moreover have "lb_plan_net_deny ?l = Some (cp_net_mode pol = ''off'')" by (simp add: linux_prepare_def Let_def)
  ultimately obtain r1 where "enforcement b = Some r1" "report_state r1 cap = StUnsupported"
    using tier_drops_state [of ?l r0 cap tier] assms(1,3) by auto
  then have "\<not> is_enforced r cap"
    using any_backend.lost_claims_stay_lost [of b r1 cap ns r] assms(4) by simp
  then show ?thesis
    using assms(2) by (auto simp: apply_backend_ceiling_def scenario_allows_pass_def list_all_iff)
qed

section \<open>A dirty tree after a host observation\<close>

lemma report_state_promote:
  "report_state (promote_configured_to_enforced r) cap =
     (if report_state r cap = StConfigured then StEnforced else report_state r cap)"
  unfolding promote_configured_to_enforced_def
  by (rule trans [OF report_state_map [where g = "\<lambda>s. if s = StConfigured then StEnforced else s"] ])
     (auto simp: promote_record_def)

lemma report_state_verified_if:
  "report_state (verified_if cap' ob r) cap =
     (if cap = cap' \<and> ob \<and> report_state r cap = StEnforced then StVerified else report_state r cap)"
proof -
  have "cr_capability (verify_record x) = cr_capability x" for x by (simp add: verify_record_def)
  from report_state_update [of verify_record, OF this] show ?thesis
    by (auto simp: verified_if_def report_state_def verify_record_def split: option.splits)
qed

lemma report_state_tree_if:
  "report_state (map_records (tree_if clean) r) ProcessTreeContainment =
     (case report_state r ProcessTreeContainment of
        StEnforced \<Rightarrow> if clean then StVerified else StFailed
      | StConfigured \<Rightarrow> if clean then StConfigured else StFailed
      | st \<Rightarrow> st)"
  by (rule trans [OF report_state_map
        [where g = "\<lambda>s. case s of StEnforced \<Rightarrow> if clean then StVerified else StFailed
                      | StConfigured \<Rightarrow> if clean then StConfigured else StFailed | st \<Rightarrow> st"] ])
     (auto simp: tree_if_def tree_record_def split: EnforcementState.splits)

text \<open>
  A dirty tree after the child was seen under a subreaper. On Linux with the full
  tier, once the host observed the child's subreaper, a sweep that finds the process tree
  dirty changes nothing: process tree containment stays verified and enforced in the report.
  Without that observation the same sweep fails it.
\<close>

theorem dirty_tree_after_observation:
  assumes "lb_report (fold linux_note [NoteSpawned pid, NoteHostVerified v, NoteTreeClean False]
           (linux_prepare OsLinux pol ident linux_new)) = Some r"
  shows "report_state r ProcessTreeContainment = (if subreaper_ok v \<or> win_in_job v then StVerified else StFailed) \<and>
    is_enforced r ProcessTreeContainment = (subreaper_ok v \<or> win_in_job v)"
proof -
  let ?r0 = "build_report BkLinux pol ident (\<lambda>cap. Some (if cap = HostEvidence then StEnforced else StConfigured)) Map.empty True"
  have b: "linux_prepare OsLinux pol ident linux_new =
      linux_new\<lparr>lb_plan_net_deny := Some (cp_net_mode pol = ''off''), lb_report := Some ?r0\<rparr>"
    by (simp add: linux_prepare_def restrict_records_def linux_new_def Let_def)
  let ?r1 = "promote_configured_to_enforced ?r0"
  let ?r2 = "linux_verify (cp_net_mode pol = ''off'') v ?r1"
  have r: "r = map_records (tree_if False) ?r2"
    using assms unfolding b by (simp add: linux_new_def)
  have s1: "report_state ?r1 ProcessTreeContainment = StEnforced"
    by (simp add: report_state_promote report_state_build)
  then have s2: "report_state ?r2 ProcessTreeContainment =
      (if subreaper_ok v \<or> win_in_job v then StVerified else StEnforced)"
    by (simp add: linux_verify_def report_state_verified_if)
  have "preparation_ok ?r2"
    by (simp add: linux_verify_def verified_if_def update_cap_def promote_configured_to_enforced_def)
  then show ?thesis by (simp add: r report_state_tree_if s2 is_enforced_def state_enforced_def)
qed

section \<open>Concrete runs\<close>

definition sample_policy_facts :: PreparedPolicy where
  "sample_policy_facts = \<lparr>cp_net_mode = ''ask'', cp_policy_hash = ''h''\<rparr>"

definition sample_identity :: ExecutionIdentity where
  "sample_identity = identity_new ''s'' ''n'' ''r'' ''f''"

definition sample_platform :: Platform where
  "sample_platform = \<lparr>pf_os = OsLinux, win_ready = True, win_as_user = False\<rparr>"

definition sample_scenario :: Scenario where
  "sample_scenario = \<lparr>sc_id = ''x'', sc_category = CatProc, sc_strength = [], sc_quorum = 1,
     sc_known_limitation = ''l'', sc_residual_risk = []\<rparr>"

lemma sample_prepared:
  obtains r where "enforcement (prepare sample_platform sample_policy_facts sample_identity (select_backend k)) = Some r"
  using prepared_report by blast

theorem backend_claims_are_final_witness:
  "\<exists>b r r'. enforcement b = Some r \<and> enforcement (fold backend_note [NoteTreeClean True, NoteSpawned 7] b) = Some r' \<and>
     \<not> preparation_ok r \<and> \<not> scenario_allows_pass r' sample_scenario"
proof -
  let ?b0 = "prepare sample_platform sample_policy_facts sample_identity (select_backend BkLinux)"
  let ?b = "backend_note (NoteFailed SpawnRefused) ?b0"
  obtain r0 where r0: "lb_report (linux_prepare OsLinux sample_policy_facts sample_identity linux_new) = Some r0"
    using linux_prepared by blast
  have r: "enforcement ?b = Some (fail_installed SpawnRefused r0)"
    using r0 by (simp add: sample_platform_def)
  obtain r' where r': "enforcement (fold backend_note [NoteTreeClean True, NoteSpawned 7] ?b) = Some r'"
    using any_backend.run_evolves [OF r] by blast
  have "\<not> preparation_ok (fail_installed SpawnRefused r0)" by (simp add: fail_installed_def)
  then show ?thesis using backend_claims_are_final [OF r r'] r r' by blast
qed

theorem claims_need_support_witness:
  "\<exists>r. enforcement (prepare sample_platform sample_policy_facts sample_identity (select_backend BkLinux)) = Some r \<and>
     \<not> scenario_allows_pass r sample_scenario"
proof -
  obtain r where r: "enforcement (prepare sample_platform sample_policy_facts sample_identity (select_backend BkLinux)) = Some r"
    by (rule sample_prepared)
  have "sc_category sample_scenario \<noteq> CatAux" by (simp add: sample_scenario_def)
  then show ?thesis using claims_need_support [OF r, of sample_scenario] r by blast
qed

theorem restricted_tier_never_claims_witness:
  "\<exists>r. enforcement (restrict_tier (Some TierFsOnly)
       (prepare sample_platform sample_policy_facts sample_identity (select_backend BkLinux))) = Some r \<and>
     apply_backend_ceiling ScPass r sample_scenario = ScInconclusive"
proof -
  let ?b = "restrict_tier (Some TierFsOnly) (prepare \<lparr>pf_os = OsLinux, win_ready = True, win_as_user = False\<rparr>
    sample_policy_facts sample_identity (select_backend BkLinux))"
  have c: "ProcessTreeContainment \<in> tier_drops (Some TierFsOnly) (cp_net_mode sample_policy_facts = ''off'')"
    "ProcessTreeContainment \<in> set (required_capabilities sample_scenario)"
    by (simp_all add: required_capabilities_def sample_scenario_def)
  obtain r0 where r0: "lb_report (linux_prepare OsLinux sample_policy_facts sample_identity linux_new) = Some r0"
    using linux_prepared by blast
  have "lb_report ((linux_prepare OsLinux sample_policy_facts sample_identity linux_new)\<lparr>lb_tier := Some TierFsOnly\<rparr>) = Some r0"
    using r0 by simp
  from restrict_records_state [OF this] obtain r where r: "enforcement (fold backend_note [] ?b) = Some r"
    by (auto simp: apply_tier_restriction_def)
  from restricted_tier_never_claims [OF c refl r] r show ?thesis by (auto simp: sample_platform_def)
qed

definition nothing_observed :: HostVerification where
  "nothing_observed =
     \<lparr>seccomp_filter = False, no_new_privs = False, pgroup_separate = False, rlimit_as_ok = False,
      rlimit_nproc_ok = False, rlimit_cpu_ok = False, rlimit_fsize_ok = False, subreaper_ok = False,
      win_in_job = False, win_kill_on_close = False, win_low_integrity = False, win_job_ceiling = False,
      cgroup_memory_ok = False, cgroup_pids_ok = False, cgroup_cpu_ok = False, netns_isolated = False\<rparr>"

theorem dirty_tree_after_observation_witness:
  "\<exists>r. lb_report (fold linux_note [NoteSpawned 7, NoteHostVerified (nothing_observed\<lparr>subreaper_ok := True\<rparr>), NoteTreeClean False]
       (linux_prepare OsLinux sample_policy_facts sample_identity linux_new)) = Some r \<and>
     is_enforced r ProcessTreeContainment"
proof -
  obtain r0 where r0: "lb_report (linux_prepare OsLinux sample_policy_facts sample_identity linux_new) = Some r0"
    using linux_prepared by blast
  obtain r where r: "lb_report (fold linux_note [NoteSpawned 7, NoteHostVerified (nothing_observed\<lparr>subreaper_ok := True\<rparr>),
      NoteTreeClean False] (linux_prepare OsLinux sample_policy_facts sample_identity linux_new)) = Some r"
    using linux_backend.run_evolves [OF r0] by blast
  from dirty_tree_after_observation [OF r] r show ?thesis by auto
qed

end
