(* ===== verification/Teardown.thy ===== *)
theory Teardown
  imports Ledger Capability Fsm
begin

text \<open>
  The end of a production session: \<open>finish\<close> of \<open>src/src/sandbox/production/lifecycle.rs\<close>, which
  drives the state machine through its last states, sweeps the process tree, verifies its
  extinction, writes the session's records to the audit ledger, verifies that ledger and
  issues the verdict; and what \<open>src/src/supervise/lifecycle.rs\<close> hands on to the final exit code.

  What the host finds is input: the outcome of the sweep, the time it took, whether a detached
  session was seen, the state of the evidence channel, the ledger file and the clock. The
  operating system of the build selects the sweep. All transitions carry one clock reading.
  Captured output and the fields of the result that only copy the session are left out.

  The lemmas show that the session's records verify on a fresh file, that every breach gives
  exit code 125 here and at the end of the program, whatever the mode, and that a clean
  session reaches the terminal state with the exit code its agent had.
\<close>

section \<open>Session inputs\<close>

record TreeSweep =
  sw_clean :: bool
  sw_killed :: nat
  sw_residual :: "nat list"
  sw_subreaper :: bool
  sw_blind :: bool

text \<open>The sweep of each platform: Linux may not be able to look; macOS knows only whether the group
  is gone; Windows lists the members of the job it saw and those still alive.\<close>

datatype Sweep =
    LinuxSweep "TreeSweep option"
  | MacosSweep bool
  | WindowsSweep nat "nat list"
  | NoSweep

record FinishInput =
  fi_exit_code :: "int option"
  fi_timed_out :: bool
  fi_pid :: nat
  fi_sweep :: Sweep
  fi_elapsed_ms :: nat
  fi_setsid_escaped :: bool
  fi_evidence_intact :: bool
  fi_ledger :: LedgerFile
  fi_ledger_name :: string
  fi_nonce :: string
  fi_contract_digest :: string
  fi_os_const :: string
  fi_scenario :: string
  fi_now :: "nat \<Rightarrow> string"
  fi_clock :: nat

record Session =
  ses_fsm :: ExecutionStateMachine
  ses_capability :: Backend

definition note_session :: "Note \<Rightarrow> Session \<Rightarrow> Session" where
  "note_session n s = s\<lparr>ses_capability := backend_note n (ses_capability s)\<rparr>"

fun transition_error_display :: "StateTransitionError \<Rightarrow> string" where
  "transition_error_display (InvalidTransition from to reason) =
     ''Invalid state transition from '' @ as_str from @ '' to '' @ as_str to @ '': '' @ reason"
| "transition_error_display (FailClosedError st err) =
     ''Execution failed closed in state '' @ as_str st @ '': '' @ err @ '' (Exit 125)''"

text \<open>A transition whose refusal is only noted, and the fail-closed operation likewise.\<close>

definition try_transition :: "nat \<Rightarrow> ExecutionState \<Rightarrow> string \<Rightarrow> Session \<Rightarrow> Session" where
  "try_transition now target what s =
     (case transition target now (ses_fsm s) of
        Inr m \<Rightarrow> s\<lparr>ses_fsm := m\<rparr>
      | Inl e \<Rightarrow> note_session (NoteDiagnostic (what @ transition_error_display e)) s)"

definition try_fail_closed :: "nat \<Rightarrow> string \<Rightarrow> Session \<Rightarrow> Session" where
  "try_fail_closed now why s =
     (case fail_closed why now (ses_fsm s) of
        (m, e) \<Rightarrow>
          (let s = s\<lparr>ses_fsm := m\<rparr>
           in case e of
                InvalidTransition _ _ _ \<Rightarrow>
                  note_session (NoteDiagnostic (''FSM transition to FailClosed failed: '' @ transition_error_display e)) s
              | FailClosedError _ _ \<Rightarrow> s))"

definition in_state :: "ExecutionState \<Rightarrow> (Session \<Rightarrow> Session) \<Rightarrow> Session \<Rightarrow> Session" where
  "in_state st f s = (if current_state (ses_fsm s) = st then f s else s)"

definition stop_child :: "nat \<Rightarrow> Session \<Rightarrow> Session" where
  "stop_child now s =
     in_state Terminate (try_transition now Cleanup ''FSM transition Terminate->Cleanup failed: '')
       (in_state Observe (try_transition now Terminate ''FSM transition Observe->Terminate failed: '')
         (in_state Enforce (try_transition now Observe ''FSM transition Enforce->Observe failed: '') s))"

section \<open>Extinction\<close>

fun extinction_platform :: "TargetOs \<Rightarrow> PlatformExtinctionTier" where
  "extinction_platform OsWindows = WindowsTier3Proven"
| "extinction_platform OsLinux = LinuxTier1Proven"
| "extinction_platform OsMacos = MacOsTier2BestEffort"
| "extinction_platform OsOther = LinuxTier1Proven"

definition debug_list :: "nat list \<Rightarrow> string" where
  "debug_list xs = ''['' @ join_with '', '' (map show_nat xs) @ '']''"

definition sweep_is_clean :: "TreeSweep \<Rightarrow> bool" where
  "sweep_is_clean w = (sw_clean w \<and> \<not> sw_blind w \<and> sw_residual w = [])"

fun sweep_survivors :: "Sweep \<Rightarrow> nat" where
  "sweep_survivors (LinuxSweep (Some w)) =
     (if sweep_is_clean w then 0 else max (length (sw_residual w)) 1)"
| "sweep_survivors (LinuxSweep None) = 1"
| "sweep_survivors (MacosSweep clean) = (if clean then 0 else 1)"
| "sweep_survivors (WindowsSweep observed residual) = length residual"
| "sweep_survivors NoSweep = 0"

fun note_sweep :: "nat \<Rightarrow> Sweep \<Rightarrow> Session \<Rightarrow> Session" where
  "note_sweep pid (LinuxSweep (Some w)) s =
     note_session (NoteDiagnostic (''tree-sweep clean='' @ show_bool (sweep_is_clean w) @ '' killed='' @
         show_nat (sw_killed w) @ '' residual='' @ debug_list (sw_residual w) @ '' subreaper='' @
         show_bool (sw_subreaper w) @ '' blind='' @ show_bool (sw_blind w)))
       (note_session (NoteTreeClean (sweep_is_clean w)) s)"
| "note_sweep pid (LinuxSweep None) s = note_session (NoteTreeClean False) s"
| "note_sweep pid (MacosSweep clean) s =
     note_session (NoteDiagnostic (''tree-sweep clean='' @ show_bool clean @ '' pid='' @ show_nat pid @
         '' (pgroup kill + group-death check)''))
       (note_session (NoteTreeClean clean) s)"
| "note_sweep pid (WindowsSweep observed residual) s =
     note_session (NoteDiagnostic (''tree-sweep clean='' @ show_bool (residual = []) @ '' observed='' @
         show_nat observed @ '' residual='' @ debug_list residual @ '' job-kill-on-close''))
       (note_session (NoteTreeClean (residual = [])) s)"
| "note_sweep pid NoSweep s = s"

definition extinction_of_input :: "TargetOs \<Rightarrow> FinishInput \<Rightarrow> (ExtinctionBreach, ExtinctionProof) result" where
  "extinction_of_input os i =
     verify_extinction (extinction_platform os) (sweep_survivors (fi_sweep i)) 0 (fi_elapsed_ms i)"

text \<open>The exit code and the session after the outcome of the extinction is known.\<close>

definition note_breach :: "nat \<Rightarrow> ExtinctionBreach \<Rightarrow> Session \<Rightarrow> Session" where
  "note_breach now b s =
     try_transition now EmergencyCleanup ''FSM transition to EmergencyCleanup failed: ''
       (try_fail_closed now (breach_reason b)
         (note_session (NoteDiagnostic
             (''extinction breach (fail-closed exit 125, INV-20): platform='' @ extinction_label (breach_platform b) @
              '' elapsed='' @ show_nat (breach_elapsed_ms b) @ ''ms reason='' @ breach_reason b))
           (note_session (NoteTreeClean False) s)))"

definition setsid_applies :: "TargetOs \<Rightarrow> FinishInput \<Rightarrow> bool" where
  "setsid_applies os i = (os = OsLinux \<and> fi_setsid_escaped i)"

definition note_setsid :: "Session \<Rightarrow> Session" where
  "note_setsid s =
     note_session (NoteDiagnostic ''setsid escaper swept in fs-only: containment gap forces fail-closed exit 125'') s"

definition note_evidence :: "Session \<Rightarrow> Session" where
  "note_evidence s =
     note_session (NoteDiagnostic
         ''evidence channel disrupted (ENOBUFS / packet drop, INV-37): fail-closed exit 125'')
       (note_session (NoteTreeClean False) s)"

definition extinguish :: "TargetOs \<Rightarrow> FinishInput \<Rightarrow> Session \<Rightarrow> Session" where
  "extinguish os i s0 =
     (let s = note_sweep (fi_pid i) (fi_sweep i) (stop_child (fi_clock i) s0);
          s = s\<lparr>ses_fsm := record_extinction_result (sweep_survivors (fi_sweep i)) (ses_fsm s)\<rparr>;
          s = (if setsid_applies os i then note_setsid s else s);
          s = (case extinction_of_input os i of
                 Inl b \<Rightarrow> note_breach (fi_clock i) b s
               | Inr _ \<Rightarrow> try_transition (fi_clock i) Verify ''FSM transition to Verify failed: '' s)
      in if \<not> fi_evidence_intact i then note_evidence s else s)"

definition code_before_ledger :: "TargetOs \<Rightarrow> FinishInput \<Rightarrow> int option" where
  "code_before_ledger os i =
     (let ok = is_ok (extinction_of_input os i);
          code = (if fi_timed_out i \<and> sweep_survivors (fi_sweep i) = 0 \<and> ok then Some 124 else fi_exit_code i);
          code = (if setsid_applies os i then Some FAIL_CLOSED_EXTINCTION_EXIT_CODE else code);
          code = (if \<not> ok then Some FAIL_CLOSED_EXTINCTION_EXIT_CODE else code)
      in if \<not> fi_evidence_intact i then Some FAIL_CLOSED_EXTINCTION_EXIT_CODE else code)"

section \<open>Attestation\<close>

fun platform_str :: "TargetOs \<Rightarrow> string" where
  "platform_str OsLinux = ''linux''"
| "platform_str OsMacos = ''macos''"
| "platform_str OsWindows = ''windows''"
| "platform_str OsOther = ''unknown''"

fun tier_class :: "TargetOs \<Rightarrow> TierClassification" where
  "tier_class OsLinux = Tier1Linux"
| "tier_class OsMacos = Tier2Macos"
| "tier_class OsWindows = Tier3Windows"
| "tier_class OsOther = Tier1Linux"

definition recorded_status :: "bool \<Rightarrow> bool \<Rightarrow> int option \<Rightarrow> VerdictStatus \<times> int" where
  "recorded_status extinct evidence code =
     (if \<not> extinct then (Fail, FAIL_CLOSED_EXTINCTION_EXIT_CODE)
      else if \<not> evidence then (Inconclusive, FAIL_CLOSED_EXTINCTION_EXIT_CODE)
      else (case code of
              Some c \<Rightarrow> if c \<noteq> 0 then (Fail, c) else (Pass, 0)
            | None \<Rightarrow> (Pass, 0)))"

definition recorded_security :: "bool \<Rightarrow> bool \<Rightarrow> SecurityVerdict" where
  "recorded_security extinct evidence =
     (if \<not> extinct then Violated else if \<not> evidence then SecInconclusive else Satisfied)"

definition recorded_verdict :: "bool \<Rightarrow> bool \<Rightarrow> int option \<Rightarrow> FinalVerdict" where
  "recorded_verdict extinct evidence code =
     verdict_new (fst (recorded_status extinct evidence code)) Strong (recorded_security extinct evidence)
       (snd (recorded_status extinct evidence code))
       (if \<not> evidence then ''Evidence capture channel dropped events: audit ledger inconclusive (INV-37)''
        else if \<not> extinct then ''Process tree extinction breach (INV-20)''
        else ''Session completed within invariant parameters'')"

definition init_record :: "TargetOs \<Rightarrow> FinishInput \<Rightarrow> VettoAuditRecord" where
  "init_record os i =
     session_init (fi_now i 0) (fi_nonce i) (fi_contract_digest i) (platform_str os) (fi_os_const i)
       (fi_scenario i) (tier_class os)"

definition extinction_record :: "TargetOs \<Rightarrow> FinishInput \<Rightarrow> VettoAuditRecord" where
  "extinction_record os i =
     tree_extinction (fi_now i 1) (fi_nonce i) (fi_contract_digest i) (extinction_label (extinction_platform os))
       (sweep_survivors (fi_sweep i) mod 2 ^ 32) 9 (fi_elapsed_ms i) (is_ok (extinction_of_input os i))"

definition verdict_record :: "TargetOs \<Rightarrow> FinishInput \<Rightarrow> string \<Rightarrow> VettoAuditRecord" where
  "verdict_record os i root_dag_digest =
     session_verdict (fi_now i 2) (fi_nonce i) (fi_contract_digest i)
       (recorded_verdict (is_ok (extinction_of_input os i)) (fi_evidence_intact i) (code_before_ledger os i))
       root_dag_digest"

text \<open>The three records, the verdict bound to the hash of the extinction record.\<close>

definition attest :: "Serde \<Rightarrow> TargetOs \<Rightarrow> FinishInput \<Rightarrow> AuditLedger \<Rightarrow> AuditLedger" where
  "attest J os i l0 =
     (let (l1, _) = record_audit_record J (init_record os i) l0;
          (l2, ext_hash) = record_audit_record J (extinction_record os i) l1;
          (l3, _) = record_audit_record J (verdict_record os i ext_hash) l2
      in l3)"

definition ledger_after :: "Serde \<Rightarrow> TargetOs \<Rightarrow> FinishInput \<Rightarrow> LedgerFile option" where
  "ledger_after J os i =
     (case open_ledger J (fi_ledger i) of
        Inl _ \<Rightarrow> None
      | Inr l \<Rightarrow> Some (Contents (led_file (attest J os i l))))"

definition ledger_verified :: "Serde \<Rightarrow> TargetOs \<Rightarrow> FinishInput \<Rightarrow> bool" where
  "ledger_verified J os i =
     (case ledger_after J os i of None \<Rightarrow> False | Some f \<Rightarrow> verify_file J f = Ok True)"

definition note_ledger :: "Serde \<Rightarrow> TargetOs \<Rightarrow> FinishInput \<Rightarrow> Session \<Rightarrow> Session" where
  "note_ledger J os i s =
     (if ledger_verified J os i
      then note_session (NoteDiagnostic (''audit ledger verified (INV-34, INV-35): '' @ fi_ledger_name i)) s
      else note_session (NoteDiagnostic
             ((if ledger_after J os i \<noteq> None
               then ''audit ledger hash chain verification failed (fail-closed exit 125, INV-34): ''
               else ''audit ledger unavailable on host (fail-closed exit 125, INV-35): '') @ fi_ledger_name i))
             (note_session (NoteTreeClean False) s))"

section \<open>The verdict and the last transitions\<close>

definition code_after_ledger :: "Serde \<Rightarrow> TargetOs \<Rightarrow> FinishInput \<Rightarrow> int option" where
  "code_after_ledger J os i =
     (if ledger_verified J os i then code_before_ledger os i else Some FAIL_CLOSED_EXTINCTION_EXIT_CODE)"

definition final_verdict :: "Serde \<Rightarrow> TargetOs \<Rightarrow> FinishInput \<Rightarrow> FinalVerdict" where
  "final_verdict J os i =
     (let extinct = is_ok (extinction_of_input os i);
          verified = ledger_verified J os i;
          code = (case code_after_ledger J os i of Some c \<Rightarrow> c | None \<Rightarrow> 0)
      in verdict_new
           (if \<not> extinct \<or> \<not> verified then Fail
            else if \<not> fi_evidence_intact i then Inconclusive
            else if code \<noteq> 0 then Fail else Pass)
           Strong
           (if \<not> extinct \<or> \<not> verified then Violated
            else if \<not> fi_evidence_intact i then SecInconclusive else Satisfied)
           code
           (if \<not> fi_evidence_intact i
            then ''Evidence capture channel dropped events: audit ledger inconclusive (INV-37)''
            else (case extinction_of_input os i of
                    Inl b \<Rightarrow> ''Process tree extinction breach (INV-20): '' @ breach_reason b
                  | Inr _ \<Rightarrow> if \<not> verified then ''Audit ledger hash chain verification failed (INV-34)''
                             else ''Session completed within invariant parameters'')))"

definition attested :: "Serde \<Rightarrow> TargetOs \<Rightarrow> FinishInput \<Rightarrow> Session \<Rightarrow> Session" where
  "attested J os i s0 =
     (let now = fi_clock i;
          s = extinguish os i s0;
          s = in_state Verify (try_transition now Attest ''FSM transition to Attest failed: '') s;
          s = note_ledger J os i s
      in in_state Attest (try_transition now Verdict ''FSM transition to Verdict failed: '') s)"

fun backend_diagnostic :: "Backend \<Rightarrow> string option" where
  "backend_diagnostic (DirectB b) = None"
| "backend_diagnostic (LinuxB b) = lb_diag b"
| "backend_diagnostic (MacosB b) = mb_tree_diag b"
| "backend_diagnostic (WindowsB b) = wb_diagnostic b"

record FinishOutput =
  fo_report :: EnforcementReport
  fo_exit_code :: "int option"
  fo_timed_out :: bool
  fo_diagnostic :: "string option"
  fo_verdict :: FinalVerdict
  fo_session :: Session
  fo_blocked_attempts :: nat
  fo_ledger :: "LedgerFile option"

definition close_session :: "Serde \<Rightarrow> TargetOs \<Rightarrow> FinishInput \<Rightarrow> Session \<Rightarrow> Session \<times> int option" where
  "close_session J os i s =
     (let now = fi_clock i
      in if \<not> is_ok (extinction_of_input os i) then (s, Some FAIL_CLOSED_EXTINCTION_EXIT_CODE)
         else if \<not> fi_evidence_intact i \<or> \<not> ledger_verified J os i
         then (try_transition now Terminal ''FSM transition to Terminal failed: ''
                 (try_transition now EmergencyCleanup ''FSM transition to EmergencyCleanup failed: ''
                   (try_fail_closed now (vd_reason (final_verdict J os i)) s)),
               Some FAIL_CLOSED_EXTINCTION_EXIT_CODE)
         else (case transition Terminal now (ses_fsm s) of
                 Inr m \<Rightarrow> (s\<lparr>ses_fsm := m\<rparr>, code_after_ledger J os i)
               | Inl e \<Rightarrow>
                   (note_session (NoteDiagnostic (''FSM transition to Terminal failed: '' @ transition_error_display e)) s,
                    Some FAIL_CLOSED_EXTINCTION_EXIT_CODE)))"

text \<open>A backend without a report panics (\<open>None\<close>). The report and the diagnostic are read before the
  backend is torn down; \<open>fo_session\<close> is the session after it.\<close>

definition finish :: "Serde \<Rightarrow> TargetOs \<Rightarrow> FinishInput \<Rightarrow> Session \<Rightarrow> FinishOutput option" where
  "finish J os i s0 =
     (let (s, code) = close_session J os i (attested J os i s0);
          v = final_verdict J os i
      in case enforcement (ses_capability s) of
           None \<Rightarrow> None
         | Some report \<Rightarrow>
             Some \<lparr>fo_report = report, fo_exit_code = code, fo_timed_out = fi_timed_out i,
                   fo_diagnostic = backend_diagnostic (ses_capability s), fo_verdict = v,
                   fo_session = s\<lparr>ses_capability := teardown (ses_capability s)\<rparr>,
                   fo_blocked_attempts = (if vd_status v = Fail \<and> \<not> fi_timed_out i then 1 else 0),
                   fo_ledger = ledger_after J os i\<rparr>)"

section \<open>What the supervisor hands on\<close>

definition production_outcome :: "FinishOutput \<Rightarrow> ProductionOutcome" where
  "production_outcome out =
     \<lparr>prod_verdict = Some (fo_verdict out),
      tree_failed = (report_state (fo_report out) ProcessTreeContainment = StFailed),
      prod_diagnostic = fo_diagnostic out,
      prod_timed_out = fo_timed_out out,
      prod_exit_code = fo_exit_code out\<rparr>"

text \<open>Without an exit code the status line hands on the one it waited for (\<open>fallback\<close>), the plain mode
  \<open>-1\<close>.\<close>

definition session_end_of :: "FinishOutput \<Rightarrow> int \<Rightarrow> nat list \<Rightarrow> nat \<Rightarrow> nat option \<Rightarrow> bool \<Rightarrow> bool \<Rightarrow> SessionEnd" where
  "session_end_of out fallback files denied threshold in_shadow intact =
     \<lparr>raw_exit_code = (case fo_exit_code out of Some c \<Rightarrow> c | None \<Rightarrow> fallback),
      session_timed_out = fo_timed_out out, production_result = Some (production_outcome out),
      blocked_files = files, network_denied = denied, fail_on_block = threshold, run_shadow = in_shadow,
      channel_intact = intact\<rparr>"

section \<open>The state machine at the end of a session\<close>

abbreviation st_of :: "Session \<Rightarrow> ExecutionState" where
  "st_of s \<equiv> current_state (ses_fsm s)"

abbreviation left_behind :: "Session \<Rightarrow> nat option" where
  "left_behind s \<equiv> surviving_descendants (ses_fsm s)"

lemma note_session_fsm [simp]: "ses_fsm (note_session n s) = ses_fsm s"
  by (simp add: note_session_def)

lemma note_sweep_fsm [simp]: "ses_fsm (note_sweep pid w s) = ses_fsm s"
  by (cases "(pid, w, s)" rule: note_sweep.cases) simp_all

lemma note_ledger_fsm [simp]: "ses_fsm (note_ledger J os i s) = ses_fsm s"
  by (simp add: note_ledger_def)

lemma note_simps [simp]: "ses_fsm (note_setsid s) = ses_fsm s" "ses_fsm (note_evidence s) = ses_fsm s"
  by (simp_all add: note_setsid_def note_evidence_def)

lemma end_transitions [simp]:
  "valid_transition Enforce Observe" "valid_transition Observe Terminate" "valid_transition Terminate Cleanup"
  "valid_transition Cleanup Verify" "valid_transition Verify Attest" "valid_transition Attest Verdict"
  "valid_transition Verdict Terminal" "valid_transition Cleanup FailClosed" "valid_transition Verdict FailClosed"
  "valid_transition FailClosed EmergencyCleanup" "valid_transition EmergencyCleanup Terminal"
  by (simp_all add: table_defs)

lemma try_transition_step:
  assumes "valid_transition (st_of s) t" and "t \<notin> {Terminal, Completed} \<or> left_behind s = Some 0"
  shows "st_of (try_transition now t w s) = t" "left_behind (try_transition now t w s) = left_behind s"
  using assms by (auto simp: try_transition_def transition_def survivors_block_def)

lemma try_fail_closed_step:
  assumes "st_of s \<in> {Cleanup, Verdict}"
  shows "st_of (try_fail_closed now why s) = FailClosed" "left_behind (try_fail_closed now why s) = left_behind s"
proof -
  let ?m = "(ses_fsm s)\<lparr>current_state := FailClosed, history := history (ses_fsm s) @ [(FailClosed, now)]\<rparr>"
  have "\<not> is_canonical_mode (ses_fsm s)"
    using assms by (auto simp: is_canonical_mode_def canonical_marker_def legacy_marker_def)
  moreover have "transition FailClosed now (ses_fsm s) = Ok ?m"
    using assms by (auto simp: transition_Inr survivors_block_def)
  ultimately have "try_fail_closed now why s = s\<lparr>ses_fsm := ?m\<rparr>"
    by (simp add: try_fail_closed_def fail_closed_def)
  then show "st_of (try_fail_closed now why s) = FailClosed"
    "left_behind (try_fail_closed now why s) = left_behind s" by simp_all
qed

definition live_states :: "ExecutionState set" where
  "live_states = {Enforce, Observe, Terminate, Cleanup}"

lemma stop_child_state: "st_of s \<in> live_states \<Longrightarrow> st_of (stop_child now s) = Cleanup"
  by (auto simp: live_states_def stop_child_def in_state_def try_transition_step)

lemma record_extinction_simps [simp]:
  "current_state (record_extinction_result n m) = current_state m"
  "surviving_descendants (record_extinction_result n m) = Some n"
  by (simp_all add: record_extinction_result_def)

lemma extinction_ok_survivors: "is_ok (extinction_of_input os i) \<Longrightarrow> sweep_survivors (fi_sweep i) = 0"
  by (auto simp: extinction_of_input_def verify_extinction_def Let_def split: if_splits)

lemma extinguish_state:
  assumes "st_of s \<in> live_states"
  shows "st_of (extinguish os i s) = (if is_ok (extinction_of_input os i) then Verify else EmergencyCleanup)"
    "left_behind (extinguish os i s) = Some (sweep_survivors (fi_sweep i))"
proof -
  let ?s1 = "note_sweep (fi_pid i) (fi_sweep i) (stop_child (fi_clock i) s)"
  let ?s2 = "?s1\<lparr>ses_fsm := record_extinction_result (sweep_survivors (fi_sweep i)) (ses_fsm ?s1)\<rparr>"
  let ?s3 = "if setsid_applies os i then note_setsid ?s2 else ?s2"
  have s3: "st_of ?s3 = Cleanup" "left_behind ?s3 = Some (sweep_survivors (fi_sweep i))"
    by (simp_all add: stop_child_state [OF assms])
  have b: "st_of (note_breach now b ?s3) = EmergencyCleanup"
    "left_behind (note_breach now b ?s3) = Some (sweep_survivors (fi_sweep i))" for now b
    using s3 unfolding note_breach_def
    by (simp_all add: try_transition_step try_fail_closed_step del: if_split_asm)
  have v: "st_of (try_transition now Verify w ?s3) = Verify"
    "left_behind (try_transition now Verify w ?s3) = Some (sweep_survivors (fi_sweep i))" for now w
    using s3 by (simp_all add: try_transition_step)
  show "st_of (extinguish os i s) = (if is_ok (extinction_of_input os i) then Verify else EmergencyCleanup)"
    "left_behind (extinguish os i s) = Some (sweep_survivors (fi_sweep i))"
    unfolding extinguish_def Let_def
    using b v by (cases "extinction_of_input os i"; simp)+
qed

lemma attested_state:
  assumes "st_of s \<in> live_states"
  shows "st_of (attested J os i s) = (if is_ok (extinction_of_input os i) then Verdict else EmergencyCleanup)"
    "left_behind (attested J os i s) = Some (sweep_survivors (fi_sweep i))"
  using extinguish_state [OF assms]
  by (simp_all add: attested_def in_state_def try_transition_step Let_def)

lemma close_session_state:
  assumes "st_of s \<in> live_states"
  shows "st_of (fst (close_session J os i (attested J os i s))) =
      (if is_ok (extinction_of_input os i) then Terminal else EmergencyCleanup)"
    "snd (close_session J os i (attested J os i s)) =
      (if is_ok (extinction_of_input os i) \<and> fi_evidence_intact i \<and> ledger_verified J os i
       then code_before_ledger os i else Some 125)"
proof -
  note a = attested_state [OF assms, of J os i]
  show "st_of (fst (close_session J os i (attested J os i s))) =
      (if is_ok (extinction_of_input os i) then Terminal else EmergencyCleanup)"
    using a extinction_ok_survivors [of os i]
    by (auto simp: close_session_def Let_def try_transition_step try_fail_closed_step transition_def
        survivors_block_def)
  show "snd (close_session J os i (attested J os i s)) =
      (if is_ok (extinction_of_input os i) \<and> fi_evidence_intact i \<and> ledger_verified J os i
       then code_before_ledger os i else Some 125)"
    using a extinction_ok_survivors [of os i]
    by (auto simp: close_session_def Let_def transition_def survivors_block_def code_after_ledger_def
        FAIL_CLOSED_EXTINCTION_EXIT_CODE_def)
qed

text \<open>A prepared backend keeps its report through every note, so that the end of a session never
  panics.\<close>

definition has_report :: "Session \<Rightarrow> bool" where
  "has_report s = (enforcement (ses_capability s) \<noteq> None)"

lemma has_report_fsm [simp]: "has_report (s\<lparr>ses_fsm := m\<rparr>) = has_report s"
  by (simp add: has_report_def)

lemma has_report_note [simp]: "has_report s \<Longrightarrow> has_report (note_session n s)"
  using any_backend.note_evolves [of "ses_capability s"] by (auto simp: note_session_def has_report_def)

lemma has_report_steps [simp]:
  assumes "has_report s"
  shows "has_report (try_transition now t w s)" "has_report (try_fail_closed now why s)"
    "has_report (note_sweep pid w' s)" "has_report (note_ledger J os i s)"
    "has_report (note_setsid s)" "has_report (note_evidence s)"
proof -
  show "has_report (try_transition now t w s)" using assms by (auto simp: try_transition_def split: sum.split)
  show "has_report (try_fail_closed now why s)"
    using assms by (auto simp: try_fail_closed_def Let_def split: prod.split StateTransitionError.split)
  show "has_report (note_sweep pid w' s)"
    using assms by (cases "(pid, w', s)" rule: note_sweep.cases) simp_all
qed (use assms in \<open>simp_all add: note_ledger_def note_setsid_def note_evidence_def\<close>)

lemma has_report_in_state [simp]: "has_report s \<Longrightarrow> has_report (in_state st (try_transition now t w) s)"
  by (simp add: in_state_def)

lemma has_report_breach [simp]: "has_report s \<Longrightarrow> has_report (note_breach now b s)"
  unfolding note_breach_def by (intro has_report_steps has_report_note)

lemma has_report_extinguish: "has_report s \<Longrightarrow> has_report (extinguish os i s)"
  unfolding extinguish_def stop_child_def Let_def
  by (cases "extinction_of_input os i") simp_all

lemma has_report_attested: "has_report s \<Longrightarrow> has_report (attested J os i s)"
  unfolding attested_def Let_def by (simp add: has_report_extinguish)

lemma has_report_close: "has_report s \<Longrightarrow> has_report (fst (close_session J os i s))"
  by (simp add: close_session_def Let_def split: sum.split)

lemma finish_returns:
  assumes "has_report s"
  obtains out where "finish J os i s = Some out"
  using has_report_close [OF has_report_attested [OF assms], of J os i J os i]
  by (auto simp: has_report_def finish_def split_beta Let_def)

lemma finish_fields:
  assumes "finish J os i s = Some out"
  shows "fo_exit_code out = snd (close_session J os i (attested J os i s))"
    "ses_fsm (fo_session out) = ses_fsm (fst (close_session J os i (attested J os i s)))"
    "fo_verdict out = final_verdict J os i" "fo_timed_out out = fi_timed_out i"
  using assms by (auto simp: finish_def split_beta Let_def split: option.splits)

text \<open>
  Property C10 (every session reaches an end). From every state of a live child, and with a prepared
  backend, the end of a session does not panic; it reaches the terminal state when the process
  tree was extinct in time, also where the evidence channel broke or the ledger failed, and
  emergency cleanup otherwise; it never ends as terminal with a process left behind.
\<close>

theorem session_reaches_its_end:
  assumes "current_state (ses_fsm s) \<in> {Enforce, Observe, Terminate, Cleanup}"
    and "enforcement (ses_capability s) \<noteq> None"
  shows "\<exists>out m. finish J os i s = Some out \<and> m = ses_fsm (fo_session out) \<and>
    current_state m = (if is_ok (extinction_of_input os i) then Terminal else EmergencyCleanup) \<and>
    (current_state m = Terminal \<longrightarrow> sweep_survivors (fi_sweep i) = 0 \<and> fi_elapsed_ms i \<le> 500)"
proof -
  obtain out where out: "finish J os i s = Some out" using finish_returns assms(2) unfolding has_report_def by blast
  have "st_of s \<in> live_states" using assms(1) by (simp add: live_states_def)
  then have "current_state (ses_fsm (fo_session out)) =
      (if is_ok (extinction_of_input os i) then Terminal else EmergencyCleanup)"
    using close_session_state(1) by (simp add: finish_fields [OF out])
  moreover have "fi_elapsed_ms i \<le> 500" if "is_ok (extinction_of_input os i)"
    using that
    by (auto simp: extinction_of_input_def verify_extinction_def Let_def MAX_EXTINCTION_DEADLINE_MS_def split: if_splits)
  ultimately show ?thesis using out extinction_ok_survivors [of os i] by (auto split: if_splits)
qed

section \<open>The session's decision table\<close>

lemma code_before_ledger_table:
  "code_before_ledger os i =
     (if \<not> is_ok (extinction_of_input os i) \<or> \<not> fi_evidence_intact i \<or> setsid_applies os i then Some 125
      else if fi_timed_out i then Some 124 else fi_exit_code i)"
  using extinction_ok_survivors [of os i]
  by (simp add: code_before_ledger_def Let_def FAIL_CLOSED_EXTINCTION_EXIT_CODE_def)

definition held :: "Serde \<Rightarrow> TargetOs \<Rightarrow> FinishInput \<Rightarrow> bool" where
  "held J os i = (is_ok (extinction_of_input os i) \<and> fi_evidence_intact i \<and> ledger_verified J os i)"

lemma finish_exit_code:
  assumes "st_of s \<in> live_states" and "finish J os i s = Some out"
  shows "fo_exit_code out =
    (if \<not> held J os i \<or> setsid_applies os i then Some 125
     else if fi_timed_out i then Some 124 else fi_exit_code i)"
  using close_session_state(2) [OF assms(1), of J os i]
  by (auto simp: finish_fields [OF assms(2)] held_def code_before_ledger_table)

text \<open>
  Property C9 (the decision table of the end of a session). A session ends with exit code 125
  when a process survived or the sweep took too long, the evidence channel broke, the audit
  ledger could not be opened or does not verify, or a detached session was seen on Linux; else
  with 124 after a timeout; else with the agent's own code. Its verdict is of strong evidence
  and carries that code, or 0 when the agent left none. It fails and reports a violation when extinction or the ledger failed;
  else it is inconclusive when the evidence broke; else the contract is satisfied, and the
  verdict passes exactly when the code is 0 or absent.
\<close>

theorem session_end_decision:
  assumes "current_state (ses_fsm s) \<in> {Enforce, Observe, Terminate, Cleanup}" and "finish J os i s = Some out"
  shows "fo_exit_code out =
      (if \<not> is_ok (extinction_of_input os i) \<or> \<not> ledger_verified J os i \<or> \<not> fi_evidence_intact i \<or> setsid_applies os i
       then Some 125 else if fi_timed_out i then Some 124 else fi_exit_code i) \<and>
    vd_status (fo_verdict out) =
      (if \<not> is_ok (extinction_of_input os i) \<or> \<not> ledger_verified J os i then Fail
       else if \<not> fi_evidence_intact i then Inconclusive
       else if fo_exit_code out \<in> {None, Some 0} then Pass else Fail) \<and>
    vd_security (fo_verdict out) =
      (if \<not> is_ok (extinction_of_input os i) \<or> \<not> ledger_verified J os i then Violated
       else if \<not> fi_evidence_intact i then SecInconclusive else Satisfied) \<and>
    vd_strength (fo_verdict out) = Strong \<and>
    vd_exit_code (fo_verdict out) = (case fo_exit_code out of Some code \<Rightarrow> code | None \<Rightarrow> 0)"
proof -
  have l: "st_of s \<in> live_states" using assms(1) by (simp add: live_states_def)
  note code = finish_exit_code [OF l assms(2)]
  have c: "code_after_ledger J os i = fo_exit_code out"
    using code
    by (auto simp: code_after_ledger_def code_before_ledger_table held_def FAIL_CLOSED_EXTINCTION_EXIT_CODE_def)
  have "fo_exit_code out =
      (if \<not> is_ok (extinction_of_input os i) \<or> \<not> ledger_verified J os i \<or> \<not> fi_evidence_intact i \<or> setsid_applies os i
       then Some 125 else if fi_timed_out i then Some 124 else fi_exit_code i)"
    using code by (auto simp: held_def)
  then show ?thesis
    unfolding finish_fields(3) [OF assms(2)]
    by (auto simp: final_verdict_def c Let_def split: option.splits)
qed

section \<open>The session's ledger\<close>

lemma record_event_ok:
  assumes "list_all exact_json (map snd (payload_fields (rec_payload r)))"
    and "list_all (\<lambda>v. json_depth v = 0) (map snd (payload_fields (rec_payload r)))"
  shows "event_ok (record_fields r)"
proof -
  have "foldr max (map json_depth (map snd kvs)) 0 = 0" if "list_all (\<lambda>v. json_depth v = 0) (map snd kvs)" for kvs
    using that by (induction kvs) auto
  with assms(2) have "foldr max (map (json_depth \<circ> snd) (payload_fields (rec_payload r))) 0 = 0" by simp
  moreover have "map (snd \<circ> map_prod id f) kvs = map (f \<circ> snd) kvs" for f :: "json \<Rightarrow> 'b" and kvs :: json_map
    by (simp add: comp_def)
  ultimately show ?thesis
    using assms(1)
    by (simp add: event_ok_def record_fields_def wf_json_def reserved_keys_def list_all_iff)
qed

lemma is_verdict_record: "is_verdict (record_fields r) \<longleftrightarrow> rec_type r = SessionVerdict"
  by (cases "rec_type r")
     (simp_all add: is_verdict_def event_map_def record_fields_def get_str_def map_of_json_map_of)

lemma json_int_ok [simp]: "is_i32 c \<Longrightarrow> exact_json (json_int c)" "json_depth (json_int c) = 0"
  by (auto simp: json_int_def is_i32_def)

definition code_fits :: "FinishInput \<Rightarrow> bool" where
  "code_fits i = (fi_elapsed_ms i < 2 ^ 64 \<and> (case fi_exit_code i of None \<Rightarrow> True | Some c \<Rightarrow> is_i32 c))"

lemma recorded_code_fits: "code_fits i \<Longrightarrow> is_i32 (snd (recorded_status a b (code_before_ledger os i)))"
  by (auto simp: recorded_status_def code_before_ledger_table code_fits_def is_i32_def
      FAIL_CLOSED_EXTINCTION_EXIT_CODE_def split: option.splits)

lemma session_records_ok:
  assumes "code_fits i"
  shows "event_ok (record_fields (init_record os i))" "event_ok (record_fields (extinction_record os i))"
    "event_ok (record_fields (verdict_record os i h))"
proof -
  have "sweep_survivors (fi_sweep i) mod 2 ^ 32 < 2 ^ 64"
    by (rule less_trans [OF mod_less_divisor]) simp_all
  moreover have "exact_json (json_int 9)" by (simp add: json_int_def)
  ultimately show "event_ok (record_fields (extinction_record os i))"
    using assms
    by (intro record_event_ok) (simp_all add: extinction_record_def tree_extinction_def audit_record_def code_fits_def)
  show "event_ok (record_fields (init_record os i))"
    by (intro record_event_ok) (simp_all add: init_record_def session_init_def audit_record_def)
  show "event_ok (record_fields (verdict_record os i h))"
    using recorded_code_fits [OF assms]
    by (intro record_event_ok)
       (simp_all add: verdict_record_def session_verdict_def audit_record_def recorded_verdict_def)
qed

text \<open>The hash the verdict is bound to, and the records of the session.\<close>

definition extinction_hash :: "Serde \<Rightarrow> TargetOs \<Rightarrow> FinishInput \<Rightarrow> AuditLedger \<Rightarrow> string" where
  "extinction_hash J os i l =
     snd (record_audit_record J (extinction_record os i) (fst (record_audit_record J (init_record os i) l)))"

definition session_records :: "Serde \<Rightarrow> TargetOs \<Rightarrow> FinishInput \<Rightarrow> AuditLedger \<Rightarrow> VettoAuditRecord list" where
  "session_records J os i l =
     [init_record os i, extinction_record os i, verdict_record os i (extinction_hash J os i l)]"

lemma attest_writes: "attest J os i l = write_events J (map record_fields (session_records J os i l)) l"
  by (simp add: attest_def session_records_def write_events_def record_audit_record_def extinction_hash_def
      split_beta Let_def)

lemma session_has_verdict: "has_verdict (map record_fields (session_records J os i l))"
  by (simp add: has_verdict_def session_records_def is_verdict_record verdict_record_def session_verdict_def
      audit_record_def)

text \<open>
  Property C23 (a session's ledger verifies). Where the session's ledger file does not exist yet or
  is empty, the three records written at the end of the session verify, so that the exit code
  is not failed closed on their account; the verdict record carries the hash of the
  extinction record; and the file is closed: opening it again is refused.
\<close>

theorem session_ledger_verifies:
  assumes "serde_ok J" and "code_fits i" and "fi_ledger i = NotFound \<or> fi_ledger i = Contents []"
  shows "ledger_verified J os i \<and>
    (\<exists>f r. ledger_after J os i = Some (Contents f) \<and>
       f = led_file (write_events J (map record_fields (session_records J os i fresh_ledger)) fresh_ledger) \<and>
       verify_file_detailed J (Contents f) = Ok r \<and> is_valid r \<and> records_verified r = 3 \<and>
       open_ledger J (Contents f) = Err LedgerClosed)"
proof -
  let ?es = "map record_fields (session_records J os i fresh_ledger)"
  let ?l = "write_events J ?es fresh_ledger"
  let ?r = "scan_end (scan_of ?l (has_verdict ?es))"
  have ok: "\<And>e. e \<in> set ?es \<Longrightarrow> event_ok e"
    using session_records_ok [OF assms(2)] by (auto simp: session_records_def)
  have len: "length ?es = 3" by (simp add: session_records_def)
  then have small: "length ?es < 2 ^ 64" by simp
  have n: "led_seq ?l = 3" using len by (simp add: write_events_seq fresh_ledger_def)
  have v: "verify_file_detailed J (Contents (led_file ?l)) = Ok ?r"
    by (rule verify_written_open [OF assms(1) ok small])
  have r: "is_valid ?r" "records_verified ?r = 3" "has_terminal_record ?r"
    using n session_has_verdict by (simp_all add: scan_end_def scan_of_def scan_result_def Let_def)
  have "open_ledger J (fi_ledger i) = Ok fresh_ledger"
    using assms(3) by (auto simp: open_ledger_def)
  then have after: "ledger_after J os i = Some (Contents (led_file ?l))"
    by (simp add: ledger_after_def attest_writes)
  then have "ledger_verified J os i"
    using v r(1) by (simp add: ledger_verified_def verify_file_def del: verify_file_detailed.simps)
  moreover have "led_file ?l \<noteq> []" using len by (intro led_file_nonempty) auto
  then have "open_ledger J (Contents (led_file ?l)) = Err LedgerClosed"
    using v r(3) by (simp add: open_ledger_def del: verify_file_detailed.simps)
  ultimately show ?thesis using after v r(1,2) by blast
qed

section \<open>From the end of the session to the end of the program\<close>

text \<open>
  Property C7 (failing closed is final). A session in which a process survived, the evidence
  channel broke, the ledger could not be opened or does not verify, or a detached session was
  seen, makes the program exit with 125 in every configuration: in shadow mode, after a
  timeout, below any block threshold and whatever the agent's own exit code. A program that
  exits with 0 had none of these.
\<close>

theorem failing_closed_is_final:
  assumes "current_state (ses_fsm s) \<in> {Enforce, Observe, Terminate, Cleanup}"
    and "finish J os i s = Some out"
    and "\<not> signature_panics codec c"
  shows "\<exists>r. finalize_session codec c platform
           (session_end_of out fallback files denied threshold in_shadow intact) = Some r \<and>
    (\<not> held J os i \<or> setsid_applies os i \<longrightarrow> sv_final_exit_code r = 125) \<and>
    (sv_pass r \<longrightarrow> held J os i \<and> \<not> setsid_applies os i \<and> \<not> fi_timed_out i \<and>
       fi_exit_code i \<in> {None, Some 0})"
proof -
  let ?e = "session_end_of out fallback files denied threshold in_shadow intact"
  have l: "st_of s \<in> live_states" using assms(1) by (simp add: live_states_def)
  note code = finish_exit_code [OF l assms(2)]
  obtain r where r: "finalize_session codec c platform ?e = Some r" by (rule finalize_returns [OF assms(3)])
  note table = final_code_table [OF r]
  have t: "session_timed_out ?e = fi_timed_out i"
    by (simp add: session_end_of_def finish_fields(4) [OF assms(2)])
  have raw: "raw_exit_code ?e = (case fo_exit_code out of Some k \<Rightarrow> k | None \<Rightarrow> fallback)"
    by (simp add: session_end_of_def)
  have m: "map_session_exit_code 125 a b = 125" for a b
    by (simp add: map_session_exit_code_def exit_code_defs)
  have bad: "sv_final_exit_code r = 125" if "\<not> held J os i \<or> setsid_applies os i"
    using that table code raw m by auto
  moreover have "sv_pass r \<longleftrightarrow> sv_final_exit_code r = 0"
    using r by (auto simp: finalize_session_def Let_def split: option.splits)
  moreover have "raw_exit_code ?e = 0 \<and> \<not> fi_timed_out i" if "sv_final_exit_code r = 0"
    using that table t
    by (auto simp: map_session_exit_code_def i32_sat_def exit_code_defs Let_def min_def max_def split: if_splits)
  ultimately show ?thesis
    using code raw by (intro exI [of _ r] conjI r) (auto split: option.splits if_splits)
qed

section \<open>A concrete session\<close>

definition sample_finish :: FinishInput where
  "sample_finish =
     \<lparr>fi_exit_code = Some 3, fi_timed_out = False, fi_pid = 7,
      fi_sweep = LinuxSweep (Some \<lparr>sw_clean = True, sw_killed = 0, sw_residual = [], sw_subreaper = True, sw_blind = False\<rparr>),
      fi_elapsed_ms = 20, fi_setsid_escaped = False, fi_evidence_intact = True, fi_ledger = NotFound,
      fi_ledger_name = ''l'', fi_nonce = ''n'', fi_contract_digest = ''d'', fi_os_const = ''linux'',
      fi_scenario = ''s'', fi_now = (\<lambda>_. ''t''), fi_clock = 9\<rparr>"

definition sample_session :: Session where
  "sample_session =
     \<lparr>ses_fsm = from_state Observe 0,
      ses_capability = prepare sample_platform sample_policy_facts sample_identity (select_backend BkLinux)\<rparr>"

lemma sample_session_state: "current_state (ses_fsm sample_session) \<in> {Enforce, Observe, Terminate, Cleanup}"
  by (simp add: sample_session_def from_state_def)

lemma sample_session_report: "has_report sample_session"
  by (rule sample_prepared [of BkLinux]) (simp add: sample_session_def has_report_def)

lemma sample_extinct: "is_ok (extinction_of_input OsLinux sample_finish)"
  by (simp add: extinction_of_input_def sample_finish_def sweep_is_clean_def verify_extinction_def
      MAX_EXTINCTION_DEADLINE_MS_def Let_def)

theorem session_reaches_its_end_witness:
  "\<exists>out. finish counting_serde OsLinux sample_finish sample_session = Some out \<and>
     current_state (ses_fsm (fo_session out)) = Terminal"
  using session_reaches_its_end [OF sample_session_state sample_session_report [unfolded has_report_def], of counting_serde OsLinux sample_finish]
    sample_extinct
  by auto

theorem session_end_decision_witness:
  "\<exists>out. finish counting_serde OsLinux (sample_finish\<lparr>fi_evidence_intact := False\<rparr>) sample_session = Some out \<and>
     fo_exit_code out = Some 125"
proof -
  let ?i = "sample_finish\<lparr>fi_evidence_intact := False\<rparr>"
  obtain out where out: "finish counting_serde OsLinux ?i sample_session = Some out"
    by (rule finish_returns [OF sample_session_report])
  from session_end_decision [OF sample_session_state out] have "fo_exit_code out = Some 125"
    by (simp add: held_def)
  with out show ?thesis by blast
qed

theorem session_ledger_verifies_witness:
  "ledger_verified counting_serde OsLinux sample_finish"
proof -
  have "code_fits sample_finish" by (simp add: code_fits_def sample_finish_def is_i32_def)
  moreover have "fi_ledger sample_finish = NotFound" by (simp add: sample_finish_def)
  ultimately show ?thesis using session_ledger_verifies [OF counting_serde_ok] by blast
qed

theorem failing_closed_is_final_witness:
  "\<exists>out r. finish counting_serde OsLinux (sample_finish\<lparr>fi_evidence_intact := False, fi_timed_out := True\<rparr>)
       sample_session = Some out \<and>
     finalize_session sample_codec sample_sealed LinuxTier1Proven
       (session_end_of out 0 [] 0 None True True) = Some r \<and>
     sv_final_exit_code r = 125"
proof -
  let ?i = "sample_finish\<lparr>fi_evidence_intact := False, fi_timed_out := True\<rparr>"
  obtain out where out: "finish counting_serde OsLinux ?i sample_session = Some out"
    by (rule finish_returns [OF sample_session_report])
  have "\<not> held counting_serde OsLinux ?i" by (simp add: held_def)
  then show ?thesis
    using failing_closed_is_final [OF sample_session_state out sample_sealed_unsigned(1),
        of sample_codec LinuxTier1Proven 0 "[]" 0 None True True] out
    by blast
qed

end
