(* ===== verification/EnvFilter.thy ===== *)
theory EnvFilter
  imports PolicyTypes Verdicts "HOL-Library.While_Combinator" "HOL-Library.AList"
begin

text \<open>
  The environment an agent gets: \<open>src/src/sandbox/envfilter.rs\<close>, \<open>build_production_env\<close> of
  \<open>src/src/sandbox/production/lifecycle.rs\<close> and the preflight checks of
  \<open>src/src/supervise/spawn.rs\<close>.

  The wildcard matcher is the loop of the code, on indices, with its one remembered star: a
  \<open>while_option\<close>, so that not returning would be \<open>None\<close>. The lemmas show that it always returns and
  decides the usual meaning of a pattern for texts without a star of their own.

  Names and values are byte strings. \<open>str::to_uppercase\<close>, which is Unicode's, is the argument \<open>up\<close>;
  the theorems that need it assume only that it is the ASCII map on ASCII names. Maps are
  association lists with distinct keys, whose order is not used.
\<close>

section \<open>Wildcard patterns\<close>

definition ascii_upper :: "char \<Rightarrow> char" where
  "ascii_upper c = (let n = (of_char c :: nat) in if 97 \<le> n \<and> n \<le> 122 then char_of (n - 32) else c)"

definition to_ascii_uppercase :: "string \<Rightarrow> string" where
  "to_ascii_uppercase s = map ascii_upper s"

abbreviation star :: char where
  "star \<equiv> CHR ''*''"

abbreviation question :: char where
  "question \<equiv> CHR ''?''"

text \<open>The variables of the loop; \<open>wl_failed\<close> is the early \<open>return false\<close>.\<close>

record WildLoop =
  p_idx :: nat
  t_idx :: nat
  star_idx :: "nat option"
  match_idx :: nat
  wl_failed :: bool

definition wild_step :: "string \<Rightarrow> string \<Rightarrow> WildLoop \<Rightarrow> WildLoop" where
  "wild_step p t s =
     (if p_idx s < length p \<and> (p ! p_idx s = question \<or> p ! p_idx s = t ! t_idx s)
      then s\<lparr>p_idx := p_idx s + 1, t_idx := t_idx s + 1\<rparr>
      else if p_idx s < length p \<and> p ! p_idx s = star
      then s\<lparr>star_idx := Some (p_idx s), match_idx := t_idx s, p_idx := p_idx s + 1\<rparr>
      else (case star_idx s of
              Some i \<Rightarrow> s\<lparr>p_idx := i + 1, match_idx := match_idx s + 1, t_idx := match_idx s + 1\<rparr>
            | None \<Rightarrow> s\<lparr>wl_failed := True\<rparr>))"

definition wild_more :: "string \<Rightarrow> WildLoop \<Rightarrow> bool" where
  "wild_more t s = (\<not> wl_failed s \<and> t_idx s < length t)"

definition wild_start :: WildLoop where
  "wild_start = \<lparr>p_idx = 0, t_idx = 0, star_idx = None, match_idx = 0, wl_failed = False\<rparr>"

definition skip_stars :: "string \<Rightarrow> nat \<Rightarrow> nat" where
  "skip_stars p i = i + length (takeWhile (\<lambda>c. c = star) (drop i p))"

definition wild_result :: "string \<Rightarrow> WildLoop \<Rightarrow> bool" where
  "wild_result p s = (\<not> wl_failed s \<and> skip_stars p (p_idx s) = length p)"

definition wild_loop :: "string \<Rightarrow> string \<Rightarrow> bool option" where
  "wild_loop p t = map_option (wild_result p) (while_option (wild_more t) (wild_step p t) wild_start)"

definition matches_wildcard_pattern :: "string \<Rightarrow> string \<Rightarrow> bool option" where
  "matches_wildcard_pattern pattern text =
     wild_loop (to_ascii_uppercase pattern) (to_ascii_uppercase text)"

section \<open>Names that are never inherited\<close>

definition HARD_DENY_PREFIXES :: "string list" where
  "HARD_DENY_PREFIXES =
     [''AWS_'', ''GCP_'', ''GOOGLE_'', ''AZURE_'', ''OPENAI_'', ''ANTHROPIC_'', ''CLAUDE_'', ''CODEX_'',
      ''GH_'', ''GITHUB_'', ''GITLAB_'', ''NPM_'', ''PYPI_'', ''DOCKER_'', ''KUBE'', ''VAULT_'', ''SECRET'',
      ''TOKEN'', ''PRIVATE'', ''CREDENTIAL'', ''LDAP_'', ''DB_'', ''DATABASE_'', ''STRIPE_'', ''SENDGRID_'',
      ''SLACK_'', ''DISCORD_'', ''TELEGRAM_'', ''TWILIO_'', ''API_KEY'', ''AUTH_'', ''SESSION_'', ''COOKIE_'',
      ''BEARER'', ''BASIC_'', ''OAUTH'']"

definition DEFAULT_REDACTED_PATTERNS :: "string list" where
  "DEFAULT_REDACTED_PATTERNS =
     [''*_KEY'', ''*_TOKEN'', ''*_SECRET'', ''AWS_*'', ''GITHUB_*'', ''GH_*'', ''ANTHROPIC_*'', ''OPENAI_*'',
      ''CODEX_*'', ''CLAUDE_*'', ''AZURE_*'', ''GCP_*'', ''GOOGLE_*'', ''*_PASSWORD'', ''*_CREDENTIAL'',
      ''*_CREDENTIALS'', ''*_AUTH'', ''*_PRIVATE_KEY'']"

definition is_hard_denied :: "(string \<Rightarrow> string) \<Rightarrow> string \<Rightarrow> bool" where
  "is_hard_denied up name =
     (let upper = up name
      in list_ex (starts_with upper) HARD_DENY_PREFIXES \<or>
         list_ex (\<lambda>pat. matches_wildcard_pattern pat upper = Some True) DEFAULT_REDACTED_PATTERNS \<or>
         contains_str upper ''SECRET'' \<or> contains_str upper ''PRIVATE_KEY'' \<or>
         contains_str upper ''CREDENTIALS'' \<or> ends_with upper ''_KEY'' \<or> ends_with upper ''_TOKEN'' \<or>
         ends_with upper ''_SECRET'')"

definition is_redacted :: "(string \<Rightarrow> string) \<Rightarrow> string \<Rightarrow> string list \<Rightarrow> bool" where
  "is_redacted up name patterns =
     (if is_hard_denied up name then True
      else list_ex (\<lambda>pat. matches_wildcard_pattern pat name = Some True) patterns)"

section \<open>Filtering\<close>

definition path_component_ok :: "string \<Rightarrow> bool" where
  "path_component_ok piece = (\<not> (piece = [] \<or> piece = ''.'' \<or> starts_with piece ''~''))"

definition path_components :: "string \<Rightarrow> string list" where
  "path_components path =
     fold (\<lambda>piece out. if path_component_ok piece \<and> piece \<notin> set out then out @ [piece] else out)
       (split_on (\<lambda>c. c = CHR '':'') path) []"

definition sanitize_path :: "string \<Rightarrow> string" where
  "sanitize_path path =
     (if path_components path = [] then ''/usr/bin:/bin''
      else join_with '':'' (path_components path))"

definition nul :: char where "nul = CHR 0x00"

definition env_well_formed :: "string \<times> string \<Rightarrow> bool" where
  "env_well_formed kv =
     (fst kv \<noteq> [] \<and> CHR ''='' \<notin> set (fst kv) \<and> nul \<notin> set (fst kv) \<and> nul \<notin> set (snd kv))"

definition is_path_name :: "string \<Rightarrow> bool" where
  "is_path_name name = eq_ignore_ascii_case name ''PATH''"

definition filter_one :: "(string \<Rightarrow> string) \<Rightarrow> bool \<Rightarrow> string \<times> string \<Rightarrow> (string \<times> string) option" where
  "filter_one up strict_path kv =
     (if \<not> env_well_formed kv then None
      else if is_hard_denied up (fst kv) then None
      else if strict_path \<and> is_path_name (fst kv) then Some (fst kv, sanitize_path (snd kv))
      else Some kv)"

definition filter_env :: "(string \<Rightarrow> string) \<Rightarrow> (string \<times> string) list \<Rightarrow> bool \<Rightarrow> (string \<times> string) list" where
  "filter_env up vars strict_path = List.map_filter (filter_one up strict_path) vars"

section \<open>The environment of a production session\<close>

type_synonym env = "(string \<times> string) list"

definition inherit_var :: "Policy \<Rightarrow> string \<times> string \<Rightarrow> env \<Rightarrow> env" where
  "inherit_var policy kv out =
     (if \<not> env_well_formed kv then out
      else if \<not> environment_allows (environment policy) (fst kv) then out
      else if is_path_name (fst kv) then AList.update (fst kv) (sanitize_path (snd kv)) out
      else AList.update (fst kv) (snd kv) out)"

definition add_extra_var :: "(string \<Rightarrow> string) \<Rightarrow> Policy \<Rightarrow> string \<times> string \<Rightarrow> env \<Rightarrow> env" where
  "add_extra_var up policy kv out =
     (if \<not> env_well_formed kv then out
      else if is_hard_denied up (fst kv) \<and> \<not> environment_allows (environment policy) (fst kv) then out
      else AList.update (fst kv) (snd kv) out)"

definition build_production_env :: "(string \<Rightarrow> string) \<Rightarrow> Policy \<Rightarrow> env \<Rightarrow> env \<Rightarrow> env" where
  "build_production_env up policy host_vars env_extra =
     fold AList.delete (secret_proxies policy)
       (fold (add_extra_var up policy) env_extra (fold (inherit_var policy) host_vars []))"

section \<open>Preflight\<close>

definition leaked_vars :: "(string \<Rightarrow> string) \<Rightarrow> Policy \<Rightarrow> env \<Rightarrow> string list" where
  "leaked_vars up policy env =
     filter (\<lambda>key. is_hard_denied up key \<and> \<not> environment_allows (environment policy) key) (map fst env)"

definition unmasked_paths :: "(path \<Rightarrow> bool) \<Rightarrow> SecurityContract \<Rightarrow> Policy \<Rightarrow> path list" where
  "unmasked_paths exists_on_host contract policy =
     filter (\<lambda>m. exists_on_host m \<and>
               \<not> list_ex (\<lambda>d. path_eq (deny_path d) m \<or> path_starts_with m (deny_path d)) (deny_resolved policy))
       (mask_paths (filesystem contract))"

text \<open>\<open>battery\<close> is what the verification battery of the host reports when it is asked for: an error,
  or its number of leaks.\<close>

definition preflight_boundary_checks ::
  "(string \<Rightarrow> string) \<Rightarrow> Codec \<Rightarrow> (path \<Rightarrow> bool) \<Rightarrow> SecurityContract \<Rightarrow> Policy \<Rightarrow> env \<Rightarrow> bool \<Rightarrow> (unit, nat) result option \<Rightarrow>
   (SuperviseError, nat option) result" where
  "preflight_boundary_checks up codec exists_on_host contract policy env in_shadow battery =
     (if \<not> verify_digest codec contract then Err (PreflightVerificationFailed 1)
      else (let leaks = length (leaked_vars up policy env) + length (unmasked_paths exists_on_host contract policy)
            in case battery of
                 Some (Inl _) \<Rightarrow> Err (PreflightVerificationFailed 1)
               | _ \<Rightarrow>
                   (let n = (case battery of Some (Inr n) \<Rightarrow> n | _ \<Rightarrow> 0)
                    in if leaks + n > 0 \<and> \<not> in_shadow then Err (PreflightVerificationFailed (leaks + n))
                       else Ok (case battery of Some (Inr n) \<Rightarrow> Some n | _ \<Rightarrow> None))))"

section \<open>What a pattern means\<close>

text \<open>A star stands for any text, a question mark for any character.\<close>

fun glob_matches :: "string \<Rightarrow> string \<Rightarrow> bool" where
  "glob_matches [] t = (t = [])"
| "glob_matches (x # p) [] = (x = star \<and> glob_matches p [])"
| "glob_matches (x # p) (c # t) =
     (if x = star then glob_matches p (c # t) \<or> glob_matches (x # p) t
      else (x = question \<or> x = c) \<and> glob_matches p t)"

definition char_matches :: "char \<Rightarrow> char \<Rightarrow> bool" where
  "char_matches x c = (x \<noteq> star \<and> (x = question \<or> x = c))"

lemma glob_star: "glob_matches (star # p) t \<longleftrightarrow> (\<exists>a c. t = a @ c \<and> glob_matches p c)"
proof (induction t)
  case (Cons x t)
  show ?case
  proof
    assume "glob_matches (star # p) (x # t)"
    then consider "glob_matches p (x # t)" | "glob_matches (star # p) t" by auto
    then show "\<exists>a c. x # t = a @ c \<and> glob_matches p c"
    proof cases
      case 1
      then show ?thesis by (intro exI [of _ "[]"] exI [of _ "x # t"]) simp
    next
      case 2
      then obtain a c where "t = a @ c" "glob_matches p c" using Cons.IH by blast
      then show ?thesis by (intro exI [of _ "x # a"] exI [of _ c]) simp
    qed
  next
    assume "\<exists>a c. x # t = a @ c \<and> glob_matches p c"
    then obtain a c where ac: "x # t = a @ c" "glob_matches p c" by blast
    then show "glob_matches (star # p) (x # t)"
      using Cons.IH by (cases a) auto
  qed
qed simp

lemma glob_segment:
  assumes "list_all2 char_matches seg u"
  shows "glob_matches (seg @ p) (u @ t) \<longleftrightarrow> glob_matches p t"
  using assms by (induction rule: list_all2_induct) (auto simp: char_matches_def)

lemma glob_segment_parts:
  "star \<notin> set seg \<Longrightarrow> glob_matches (seg @ p) t \<Longrightarrow>
     \<exists>b c. t = b @ c \<and> length b = length seg \<and> list_all2 char_matches seg b \<and> glob_matches p c"
proof (induction seg arbitrary: t)
  case (Cons x seg)
  obtain y t' where t: "t = y # t'" "x = question \<or> x = y" "glob_matches (seg @ p) t'"
    using Cons.prems by (cases t) auto
  obtain b c where "t' = b @ c" "length b = length seg" "list_all2 char_matches seg b" "glob_matches p c"
    using Cons.IH [OF _ t(3)] Cons.prems(1) by auto
  then have "t = (y # b) @ c \<and> length (y # b) = length (x # seg) \<and>
      list_all2 char_matches (x # seg) (y # b) \<and> glob_matches p c"
    using Cons.prems(1) t(1,2) by (auto simp: char_matches_def)
  then show ?case by blast
qed simp

lemma glob_segment_split:
  assumes "star \<notin> set seg" and "glob_matches (seg @ p) t"
  obtains b c where "t = b @ c" "length b = length seg" "list_all2 char_matches seg b" "glob_matches p c"
  using glob_segment_parts [OF assms] by blast

lemma glob_star_suffix: "glob_matches (star # p) c \<Longrightarrow> glob_matches (star # p) (a @ c)"
  unfolding glob_star by (metis append.assoc)

lemma no_star_in_segment: "list_all2 char_matches seg u \<Longrightarrow> star \<notin> set seg"
  by (induction rule: list_all2_induct) (auto simp: char_matches_def)

text \<open>Only the last star matters: what an earlier star skipped can stay skipped.\<close>

lemma glob_last_star:
  assumes "list_all2 char_matches seg u"
  shows "glob_matches (star # seg @ star # p) (u @ t) \<longleftrightarrow> glob_matches (star # p) t"
proof
  assume "glob_matches (star # seg @ star # p) (u @ t)"
  then obtain a c where ac: "u @ t = a @ c" "glob_matches (seg @ star # p) c" unfolding glob_star by blast
  obtain b d where d: "c = b @ d" "length b = length seg" "glob_matches (star # p) d"
    by (rule glob_segment_split [OF no_star_in_segment [OF assms] ac(2)])
  have "length u = length b" using d(2) list_all2_lengthD [OF assms] by simp
  then have "d = drop (length a + length u) (u @ t)" by (simp add: ac(1) d(1))
  then have "d = drop (length a) t" by simp
  then have "t = take (length a) t @ d" by simp
  with glob_star_suffix [OF d(3)] show "glob_matches (star # p) t" by metis
next
  assume "glob_matches (star # p) t"
  then have "glob_matches (seg @ star # p) (u @ t)" by (simp add: glob_segment [OF assms])
  then show "glob_matches (star # seg @ star # p) (u @ t)" unfolding glob_star by (metis append_Nil)
qed

lemma glob_star_mismatch:
  assumes "list_all2 char_matches seg u"
    and "\<not> glob_matches p t"
  shows "glob_matches (star # seg @ p) (u @ t) \<longleftrightarrow> glob_matches (star # seg @ p) (tl (u @ t))"
  by (cases "u @ t") (use assms glob_segment [OF assms(1), of p t] in auto)

lemma glob_end:
  assumes "list_all2 char_matches seg u"
  shows "glob_matches (star # seg @ p) u \<longleftrightarrow> glob_matches p []"
proof
  assume "glob_matches (star # seg @ p) u"
  then obtain a c where ac: "u = a @ c" "glob_matches (seg @ p) c" unfolding glob_star by blast
  obtain b d where d: "c = b @ d" "length b = length seg" "glob_matches p d"
    by (rule glob_segment_split [OF no_star_in_segment [OF assms] ac(2)])
  have "length u = length b" using d(2) list_all2_lengthD [OF assms] by simp
  then have "d = []" by (simp add: ac(1) d(1))
  with d show "glob_matches p []" by simp
next
  assume "glob_matches p []"
  then have "glob_matches (seg @ p) (u @ [])" using glob_segment [OF assms] by blast
  then show "glob_matches (star # seg @ p) u" unfolding glob_star by (metis append_Nil append_Nil2)
qed

lemma glob_empty_text: "glob_matches p [] \<longleftrightarrow> takeWhile (\<lambda>c. c = star) p = p"
  by (induction p) auto

section \<open>The loop\<close>

text \<open>The pattern read since the last star has matched the text read since then.\<close>

definition wild_inv :: "string \<Rightarrow> string \<Rightarrow> WildLoop \<Rightarrow> bool" where
  "wild_inv p t s =
     (p_idx s \<le> length p \<and> t_idx s \<le> length t \<and>
      (case star_idx s of
         None \<Rightarrow> glob_matches p t \<longleftrightarrow> \<not> wl_failed s \<and> glob_matches (drop (p_idx s) p) (drop (t_idx s) t)
       | Some i \<Rightarrow>
           \<not> wl_failed s \<and> match_idx s \<le> t_idx s \<and>
           (\<exists>seg. drop i p = star # seg @ drop (p_idx s) p \<and> i + 1 + length seg = p_idx s \<and>
                  list_all2 char_matches seg (take (t_idx s - match_idx s) (drop (match_idx s) t))) \<and>
           (glob_matches p t \<longleftrightarrow> glob_matches (drop i p) (drop (match_idx s) t))))"

text \<open>For termination it is enough that the positions are in order, whatever the text holds.\<close>

definition wild_order :: "string \<Rightarrow> string \<Rightarrow> WildLoop \<Rightarrow> bool" where
  "wild_order p t s =
     (p_idx s \<le> length p \<and> t_idx s \<le> length t \<and>
      (case star_idx s of None \<Rightarrow> True | Some i \<Rightarrow> i < p_idx s \<and> match_idx s \<le> t_idx s))"

definition wild_measure :: "string \<Rightarrow> string \<Rightarrow> (WildLoop \<times> WildLoop) set" where
  "wild_measure p t =
     measures
       [\<lambda>s. if wl_failed s then 0 else 1,
        \<lambda>s. case star_idx s of None \<Rightarrow> length p + 1 | Some i \<Rightarrow> length p - i,
        \<lambda>s. case star_idx s of None \<Rightarrow> 0 | Some i \<Rightarrow> length t - match_idx s,
        \<lambda>s. length t - t_idx s]"

lemma wild_step_order:
  assumes "wild_order p t s" and "wild_more t s"
  shows "wild_order p t (wild_step p t s)" "(wild_step p t s, s) \<in> wild_measure p t"
  using assms
  by (auto simp: wild_order_def wild_more_def wild_step_def wild_measure_def split: option.splits)

lemma wild_loop_returns:
  obtains s where "while_option (wild_more t) (wild_step p t) wild_start = Some s"
proof -
  have "wild_order p t wild_start" by (simp add: wild_order_def wild_start_def)
  moreover have "wf (wild_measure p t)" by (simp add: wild_measure_def)
  ultimately have "\<exists>s. while_option (wild_more t) (wild_step p t) wild_start = Some s"
    by (intro wf_rel_while_option_Some [where R = "wild_measure p t" and P = "wild_order p t"])
       (auto intro: wild_step_order)
  then show ?thesis using that by blast
qed

lemma mismatch_no_glob:
  assumes "\<not> (i < length p \<and> (p ! i = question \<or> p ! i = c))" and "\<not> (i < length p \<and> p ! i = star)"
  shows "\<not> glob_matches (drop i p) (c # t)"
proof (cases "i < length p")
  case True
  then have "drop i p = p ! i # drop (Suc i) p" by (simp add: Cons_nth_drop_Suc)
  with assms True show ?thesis by simp
qed simp

lemma wild_step_inv:
  assumes "star \<notin> set t" and inv: "wild_inv p t s" and "wild_more t s"
  shows "wild_inv p t (wild_step p t s)"
proof -
  define i j where "i = p_idx s" and "j = t_idx s"
  have j: "j < length t" "\<not> wl_failed s" using assms(3) by (simp_all add: wild_more_def j_def)
  have i: "i \<le> length p" using inv by (simp add: wild_inv_def i_def)
  have tj: "drop j t = t ! j # drop (Suc j) t" using j(1) by (simp add: Cons_nth_drop_Suc)
  have c: "t ! j \<noteq> star" using assms(1) j(1) nth_mem by metis
  have pi: "drop i p = p ! i # drop (Suc i) p" if "i < length p" using that by (simp add: Cons_nth_drop_Suc)
  consider (literal) "i < length p" "p ! i = question \<or> p ! i = t ! j"
    | (new_star) "i < length p" "\<not> (p ! i = question \<or> p ! i = t ! j)" "p ! i = star"
    | (mismatch) "\<not> (i < length p \<and> (p ! i = question \<or> p ! i = t ! j))" "\<not> (i < length p \<and> p ! i = star)"
    by blast
  then show ?thesis
  proof cases
    case literal
    have m: "char_matches (p ! i) (t ! j)" using literal(2) c by (auto simp: char_matches_def)
    have step: "wild_step p t s = s\<lparr>p_idx := i + 1, t_idx := j + 1\<rparr>"
      using literal by (simp add: wild_step_def i_def j_def)
    show ?thesis
    proof (cases "star_idx s")
      case None
      have "glob_matches (drop i p) (drop j t) \<longleftrightarrow> glob_matches (drop (Suc i) p) (drop (Suc j) t)"
        using m unfolding pi [OF literal(1)] tj by (auto simp: char_matches_def)
      with None inv j literal(1) show ?thesis by (simp add: wild_inv_def step i_def j_def)
    next
      case (Some k)
      with inv obtain seg where seg: "drop k p = star # seg @ drop i p" "k + 1 + length seg = i"
        "list_all2 char_matches seg (take (j - match_idx s) (drop (match_idx s) t))"
        "match_idx s \<le> j" "glob_matches p t \<longleftrightarrow> glob_matches (drop k p) (drop (match_idx s) t)"
        by (auto simp: wild_inv_def i_def j_def)
      have "take (j + 1 - match_idx s) (drop (match_idx s) t) =
          take (j - match_idx s) (drop (match_idx s) t) @ [t ! j]"
        using seg(4) j(1) by (simp add: Suc_diff_le take_Suc_conv_app_nth)
      with m seg(3) have "list_all2 char_matches (seg @ [p ! i]) (take (j + 1 - match_idx s) (drop (match_idx s) t))"
        by (simp add: list_all2_appendI)
      moreover have "drop k p = star # (seg @ [p ! i]) @ drop (i + 1) p"
        using seg(1) pi [OF literal(1)] by simp
      moreover have "k + 1 + length (seg @ [p ! i]) = i + 1" using seg(2) by simp
      ultimately show ?thesis
        using Some seg(4,5) j literal(1) unfolding wild_inv_def step by auto
    qed
  next
    case new_star
    have step: "wild_step p t s = s\<lparr>star_idx := Some i, match_idx := j, p_idx := i + 1\<rparr>"
      using new_star by (simp add: wild_step_def i_def j_def)
    have "glob_matches p t \<longleftrightarrow> glob_matches (drop i p) (drop j t)"
    proof (cases "star_idx s")
      case None
      with inv j show ?thesis by (simp add: wild_inv_def i_def j_def)
    next
      case (Some k)
      with inv obtain seg where seg: "drop k p = star # seg @ drop i p"
        "list_all2 char_matches seg (take (j - match_idx s) (drop (match_idx s) t))"
        "match_idx s \<le> j" "glob_matches p t \<longleftrightarrow> glob_matches (drop k p) (drop (match_idx s) t)"
        by (auto simp: wild_inv_def i_def j_def)
      have "drop (match_idx s) t = take (j - match_idx s) (drop (match_idx s) t) @ drop j t"
        using seg(3) by (metis append_take_drop_id drop_drop le_add_diff_inverse2)
      then show ?thesis
        using glob_last_star [OF seg(2), of "drop (Suc i) p" "drop j t"] seg(1,4) pi [OF new_star(1)] new_star(3)
        by simp
    qed
    with j new_star pi [OF new_star(1)] show ?thesis by (simp add: wild_inv_def step j_def [symmetric])
  next
    case mismatch
    have no: "\<not> glob_matches (drop i p) (drop j t)" unfolding tj by (rule mismatch_no_glob [OF mismatch])
    show ?thesis
    proof (cases "star_idx s")
      case None
      then have "wild_step p t s = s\<lparr>wl_failed := True\<rparr>"
        using mismatch by (auto simp: wild_step_def i_def j_def)
      with None inv no j(2) show ?thesis by (simp add: wild_inv_def i_def j_def)
    next
      case (Some k)
      then have step: "wild_step p t s = s\<lparr>p_idx := k + 1, match_idx := match_idx s + 1, t_idx := match_idx s + 1\<rparr>"
        using mismatch by (auto simp: wild_step_def i_def j_def)
      from Some inv obtain seg where seg: "drop k p = star # seg @ drop i p" "k + 1 + length seg = i"
        "list_all2 char_matches seg (take (j - match_idx s) (drop (match_idx s) t))"
        "match_idx s \<le> j" "glob_matches p t \<longleftrightarrow> glob_matches (drop k p) (drop (match_idx s) t)"
        by (auto simp: wild_inv_def i_def j_def)
      have u: "drop (match_idx s) t = take (j - match_idx s) (drop (match_idx s) t) @ drop j t"
        using seg(4) by (metis append_take_drop_id drop_drop le_add_diff_inverse2)
      have "drop (Suc k) p = seg @ drop i p" using seg(1) by (metis drop_Suc list.sel(3) tl_drop)
      moreover have "glob_matches (drop k p) (drop (match_idx s) t) \<longleftrightarrow>
          glob_matches (drop k p) (drop (Suc (match_idx s)) t)"
        using glob_star_mismatch [OF seg(3) no] unfolding seg(1) u [symmetric] by (metis drop_Suc tl_drop)
      ultimately show ?thesis
        using Some seg j i unfolding wild_inv_def step by auto
    qed
  qed
qed

lemma wild_exit:
  assumes "wild_inv p t s" and "\<not> wild_more t s"
  shows "wild_result p s \<longleftrightarrow> glob_matches p t"
proof -
  have skip: "skip_stars p (p_idx s) = length p \<longleftrightarrow> glob_matches (drop (p_idx s) p) []"
  proof -
    have "skip_stars p (p_idx s) = length p \<longleftrightarrow>
        length (takeWhile (\<lambda>c. c = star) (drop (p_idx s) p)) = length (drop (p_idx s) p)"
      using assms(1) by (auto simp: skip_stars_def wild_inv_def)
    also have "\<dots> \<longleftrightarrow> takeWhile (\<lambda>c. c = star) (drop (p_idx s) p) = drop (p_idx s) p"
      by (metis length_takeWhile_le takeWhile_eq_take take_all_iff order_refl)
    finally show ?thesis by (simp add: glob_empty_text)
  qed
  show ?thesis
  proof (cases "star_idx s")
    case None
    then show ?thesis
      using assms skip by (auto simp: wild_inv_def wild_result_def wild_more_def)
  next
    case (Some i)
    with assms obtain seg where seg: "drop i p = star # seg @ drop (p_idx s) p"
      "list_all2 char_matches seg (take (t_idx s - match_idx s) (drop (match_idx s) t))"
      "glob_matches p t \<longleftrightarrow> glob_matches (drop i p) (drop (match_idx s) t)" "\<not> wl_failed s" "t_idx s = length t"
      by (auto simp: wild_inv_def wild_more_def)
    from seg(2) have "list_all2 char_matches seg (drop (match_idx s) t)" by (simp add: seg(5))
    from glob_end [OF this, of "drop (p_idx s) p"] show ?thesis
      using seg(1,3,4) skip by (simp add: wild_result_def)
  qed
qed

lemma wild_loop_glob:
  assumes "star \<notin> set t"
  shows "wild_loop p t = Some (glob_matches p t)"
proof -
  obtain s where s: "while_option (wild_more t) (wild_step p t) wild_start = Some s" by (rule wild_loop_returns)
  have "wild_inv p t wild_start" by (simp add: wild_inv_def wild_start_def)
  then have "wild_inv p t s"
    using while_option_rule [where P = "wild_inv p t", OF _ s] wild_step_inv [OF assms] by blast
  then show ?thesis using wild_exit while_option_stop [OF s] s by (simp add: wild_loop_def)
qed

section \<open>What the matcher decides\<close>

lemma ascii_upper_code:
  "(of_char (ascii_upper c) :: nat) = (let n = of_char c in if 97 \<le> n \<and> n \<le> 122 then n - 32 else n)"
  by (auto simp: ascii_upper_def Let_def)

lemma ascii_upper_star: "ascii_upper c = star \<longleftrightarrow> c = star"
proof -
  have "ascii_upper c = star \<longleftrightarrow> (of_char (ascii_upper c) :: nat) = of_char star"
    by (simp only: of_char_eq_iff)
  also have "\<dots> \<longleftrightarrow> (of_char c :: nat) = of_char star" by (simp add: ascii_upper_code Let_def) linarith
  finally show ?thesis by (simp only: of_char_eq_iff)
qed

lemma star_in_upper: "star \<in> set (to_ascii_uppercase s) \<longleftrightarrow> star \<in> set s"
  unfolding to_ascii_uppercase_def set_map image_iff using ascii_upper_star by metis

lemma matcher_returns: "\<exists>b. matches_wildcard_pattern pat text = Some b"
proof -
  let ?p = "to_ascii_uppercase pat" and ?t = "to_ascii_uppercase text"
  obtain s where "while_option (wild_more ?t) (wild_step ?p ?t) wild_start = Some s" by (rule wild_loop_returns)
  then show ?thesis by (simp add: matches_wildcard_pattern_def wild_loop_def)
qed

lemma matcher_glob:
  "star \<notin> set text \<Longrightarrow>
     matches_wildcard_pattern pat text = Some (glob_matches (to_ascii_uppercase pat) (to_ascii_uppercase text))"
  by (simp add: matches_wildcard_pattern_def wild_loop_glob star_in_upper)

text \<open>
  Property C19 (the wildcard matcher decides patterns). The matcher, a loop that remembers only
  the last star it passed, returns on every pattern and text; for a text without a star it
  answers exactly whether the text is an instance of the pattern, where a star stands for any
  text and a question mark for any character, case aside.
\<close>

theorem wildcard_matcher_decides:
  "(\<exists>b. matches_wildcard_pattern pat text = Some b) \<and>
   (star \<notin> set text \<longrightarrow>
      matches_wildcard_pattern pat text = Some (glob_matches (to_ascii_uppercase pat) (to_ascii_uppercase text)))"
  using matcher_returns matcher_glob by blast

theorem wildcard_matcher_decides_witness:
  "matches_wildcard_pattern ''a*b?c*'' ''Axbybzc'' = Some True"
proof -
  have "star \<notin> set ''Axbybzc''" by simp
  then have "matches_wildcard_pattern ''a*b?c*'' ''Axbybzc'' =
      Some (glob_matches (to_ascii_uppercase ''a*b?c*'') (to_ascii_uppercase ''Axbybzc''))"
    using wildcard_matcher_decides by blast
  moreover have "glob_matches (to_ascii_uppercase ''a*b?c*'') (to_ascii_uppercase ''Axbybzc'')" by code_simp
  ultimately show ?thesis by simp
qed

lemma glob_no_star:
  "star \<notin> set p \<Longrightarrow> question \<notin> set p \<Longrightarrow> glob_matches p t \<longleftrightarrow> t = p"
  by (induction p t rule: glob_matches.induct) auto

lemma glob_suffix:
  "star \<notin> set p \<Longrightarrow> question \<notin> set p \<Longrightarrow> glob_matches (star # p) t \<longleftrightarrow> ends_with t p"
  by (auto simp: glob_star glob_no_star ends_with_def suffix_def)

lemma glob_all: "glob_matches [star] t"
  by (simp add: glob_star)

lemma glob_prefix:
  "star \<notin> set p \<Longrightarrow> question \<notin> set p \<Longrightarrow> glob_matches (p @ [star]) t \<longleftrightarrow> starts_with t p"
proof (induction p arbitrary: t)
  case Nil
  then show ?case using glob_all by (simp add: starts_with_def)
next
  case (Cons x p)
  then show ?case by (cases t) (auto simp: starts_with_def)
qed

section \<open>Which names are denied\<close>

definition DENIED_SUFFIXES :: "string list" where
  "DENIED_SUFFIXES =
     [''_KEY'', ''_TOKEN'', ''_SECRET'', ''_PASSWORD'', ''_CREDENTIAL'', ''_CREDENTIALS'', ''_AUTH'']"

definition DENIED_PARTS :: "string list" where
  "DENIED_PARTS = [''SECRET'', ''PRIVATE_KEY'', ''CREDENTIALS'']"

definition plain_suffix :: "string \<Rightarrow> bool" where
  "plain_suffix p = (star \<notin> set p \<and> question \<notin> set p \<and> to_ascii_uppercase p = p)"

lemma plain_suffixes: "list_all plain_suffix (DENIED_SUFFIXES @ [''_PRIVATE_KEY''])"
  "list_all plain_suffix [''AWS_'', ''GITHUB_'', ''GH_'', ''ANTHROPIC_'', ''OPENAI_'', ''CODEX_'', ''CLAUDE_'',
      ''AZURE_'', ''GCP_'', ''GOOGLE_'']"
  by code_simp+

lemma pattern_list:
  "set DEFAULT_REDACTED_PATTERNS =
     (\<lambda>p. star # p) ` set (DENIED_SUFFIXES @ [''_PRIVATE_KEY'']) \<union>
     (\<lambda>p. p @ [star]) ` {''AWS_'', ''GITHUB_'', ''GH_'', ''ANTHROPIC_'', ''OPENAI_'', ''CODEX_'', ''CLAUDE_'',
      ''AZURE_'', ''GCP_'', ''GOOGLE_''}"
  by (auto simp: DEFAULT_REDACTED_PATTERNS_def DENIED_SUFFIXES_def)

lemma upper_idem: "ascii_upper (ascii_upper c) = ascii_upper c"
proof -
  have "(of_char (ascii_upper (ascii_upper c)) :: nat) = of_char (ascii_upper c)"
    by (simp add: ascii_upper_code Let_def) linarith
  then show ?thesis by (simp only: of_char_eq_iff)
qed

lemma to_upper_idem: "to_ascii_uppercase (to_ascii_uppercase s) = to_ascii_uppercase s"
  by (simp add: to_ascii_uppercase_def upper_idem)

lemma star_upper [simp]: "to_ascii_uppercase (star # p) = star # to_ascii_uppercase p"
  "to_ascii_uppercase (p @ [star]) = to_ascii_uppercase p @ [star]"
  by (simp_all add: to_ascii_uppercase_def ascii_upper_star [THEN iffD2])

lemma suffix_pattern:
  assumes "plain_suffix p" and "star \<notin> set t" and "to_ascii_uppercase t = t"
  shows "matches_wildcard_pattern (star # p) t = Some (ends_with t p)"
  using assms glob_suffix by (simp add: matcher_glob plain_suffix_def)

lemma prefix_pattern:
  assumes "plain_suffix p" and "star \<notin> set t" and "to_ascii_uppercase t = t"
  shows "matches_wildcard_pattern (p @ [star]) t = Some (starts_with t p)"
  using assms glob_prefix by (simp add: matcher_glob plain_suffix_def)

lemma redacted_patterns:
  assumes "star \<notin> set t" and "to_ascii_uppercase t = t"
  shows "list_ex (\<lambda>pat. matches_wildcard_pattern pat t = Some True) DEFAULT_REDACTED_PATTERNS \<longleftrightarrow>
    list_ex (ends_with t) (DENIED_SUFFIXES @ [''_PRIVATE_KEY'']) \<or>
    list_ex (starts_with t) [''AWS_'', ''GITHUB_'', ''GH_'', ''ANTHROPIC_'', ''OPENAI_'', ''CODEX_'', ''CLAUDE_'',
      ''AZURE_'', ''GCP_'', ''GOOGLE_'']"
proof -
  have s: "matches_wildcard_pattern (star # p) t = Some (ends_with t p)"
    if "p \<in> set (DENIED_SUFFIXES @ [''_PRIVATE_KEY''])" for p
    using suffix_pattern [OF _ assms] plain_suffixes(1) that unfolding list_all_iff by blast
  have q: "matches_wildcard_pattern (p @ [star]) t = Some (starts_with t p)"
    if "p \<in> {''AWS_'', ''GITHUB_'', ''GH_'', ''ANTHROPIC_'', ''OPENAI_'', ''CODEX_'', ''CLAUDE_'',
      ''AZURE_'', ''GCP_'', ''GOOGLE_''}" for p
    using prefix_pattern [OF _ assms] plain_suffixes(2) that unfolding list_all_iff by fastforce
  show ?thesis
    unfolding list_ex_iff pattern_list bex_Un bex_simps(7) using s q by auto
qed

lemma ends_with_trans: "ends_with t p \<Longrightarrow> ends_with p q \<Longrightarrow> ends_with t q"
  unfolding ends_with_def by (rule suffix_order.trans)

text \<open>
  Which names are never inherited. A name without a star, in any case, is denied
  exactly when in upper case it begins with one of the denied prefixes, ends with one of
  \<open>_KEY\<close>, \<open>_TOKEN\<close>, \<open>_SECRET\<close>, \<open>_PASSWORD\<close>, \<open>_CREDENTIAL\<close>, \<open>_CREDENTIALS\<close>, \<open>_AUTH\<close>, or holds
  \<open>SECRET\<close>, \<open>PRIVATE_KEY\<close> or \<open>CREDENTIALS\<close> anywhere.
\<close>

theorem hard_denied_names:
  assumes "up name = to_ascii_uppercase name" and "star \<notin> set name"
  shows "is_hard_denied up name \<longleftrightarrow>
    (\<exists>p \<in> set HARD_DENY_PREFIXES. starts_with (to_ascii_uppercase name) p) \<or>
    (\<exists>p \<in> set DENIED_SUFFIXES. ends_with (to_ascii_uppercase name) p) \<or>
    (\<exists>p \<in> set DENIED_PARTS. contains_str (to_ascii_uppercase name) p)"
proof -
  let ?t = "to_ascii_uppercase name"
  have "ends_with ''_PRIVATE_KEY'' ''_KEY''" by code_simp
  then have k: "ends_with ?t ''_PRIVATE_KEY'' \<Longrightarrow> ends_with ?t ''_KEY''"
    using ends_with_trans by blast
  have "list_ex (\<lambda>pat. matches_wildcard_pattern pat ?t = Some True) DEFAULT_REDACTED_PATTERNS \<longleftrightarrow>
    list_ex (ends_with ?t) (DENIED_SUFFIXES @ [''_PRIVATE_KEY'']) \<or>
    list_ex (starts_with ?t) [''AWS_'', ''GITHUB_'', ''GH_'', ''ANTHROPIC_'', ''OPENAI_'', ''CODEX_'', ''CLAUDE_'',
      ''AZURE_'', ''GCP_'', ''GOOGLE_'']"
    by (rule redacted_patterns) (simp_all add: star_in_upper assms(2) to_upper_idem)
  then show ?thesis
    unfolding is_hard_denied_def Let_def assms(1)
    using k by (auto simp: DENIED_SUFFIXES_def DENIED_PARTS_def HARD_DENY_PREFIXES_def)
qed

theorem hard_denied_names_witness:
  "is_hard_denied to_ascii_uppercase ''db_password'' \<and> \<not> is_hard_denied to_ascii_uppercase ''EDITOR''"
proof -
  have "star \<notin> set ''db_password''" "star \<notin> set ''EDITOR''" by simp_all
  note h = this [THEN hard_denied_names [of to_ascii_uppercase, OF refl] ]
  have "to_ascii_uppercase ''db_password'' = ''DB_PASSWORD''" "to_ascii_uppercase ''EDITOR'' = ''EDITOR''"
    by code_simp+
  moreover have "\<exists>p \<in> set DENIED_SUFFIXES. ends_with ''DB_PASSWORD'' p"
    "\<not> (\<exists>p \<in> set HARD_DENY_PREFIXES. starts_with ''EDITOR'' p)"
    "\<not> (\<exists>p \<in> set DENIED_SUFFIXES. ends_with ''EDITOR'' p)"
    "\<not> (\<exists>p \<in> set DENIED_PARTS. contains_str ''EDITOR'' p)"
    by code_simp+
  ultimately show ?thesis using h by metis
qed

text \<open>A name that begins with a star escapes the patterns: the star of the pattern is taken for
  the star of the name, and is then spent.\<close>

theorem star_in_name_escapes:
  "is_hard_denied to_ascii_uppercase ''X_PASSWORD'' \<and> \<not> is_hard_denied to_ascii_uppercase ''*X_PASSWORD'' \<and>
   glob_matches ''*_PASSWORD'' ''*X_PASSWORD''"
  by code_simp

section \<open>Search paths\<close>

lemma collect_pieces:
  fixes P :: "'a \<Rightarrow> bool" and xs :: "'a list"
  defines "f \<equiv> \<lambda>x out. if P x \<and> x \<notin> set out then out @ [x] else out"
  shows "distinct out \<Longrightarrow> distinct (fold f xs out)" "set (fold f xs out) = set out \<union> {x \<in> set xs. P x}"
    "distinct (out @ xs) \<Longrightarrow> list_all P xs \<Longrightarrow> fold f xs out = out @ xs"
    "\<exists>r. fold f xs out = out @ r \<and> subseq r xs"
proof -
  show "distinct out \<Longrightarrow> distinct (fold f xs out)" by (induction xs arbitrary: out) (auto simp: f_def)
  show "set (fold f xs out) = set out \<union> {x \<in> set xs. P x}" by (induction xs arbitrary: out) (auto simp: f_def)
  show "distinct (out @ xs) \<Longrightarrow> list_all P xs \<Longrightarrow> fold f xs out = out @ xs"
    by (induction xs arbitrary: out) (auto simp: f_def)
  show "\<exists>r. fold f xs out = out @ r \<and> subseq r xs"
  proof (induction xs arbitrary: out)
    case (Cons x xs)
    obtain r where "fold f xs (f x out) = f x out @ r" "subseq r xs" using Cons.IH by blast
    then show ?case by (auto simp: f_def)
  qed simp
qed

lemma split_join_pieces:
  "ps \<noteq> [] \<Longrightarrow> (\<And>q. q \<in> set ps \<Longrightarrow> c \<notin> set q) \<Longrightarrow> split_on (\<lambda>x. x = c) (join_with [c] ps) = ps"
proof (induction "[c]" ps rule: join_with.induct)
  case (2 s)
  then have "list_all (\<lambda>x. \<not> x = c) s" by (auto simp: list_all_iff)
  from split_on_no_sep [OF this] show ?case by simp
next
  case (3 s t ts)
  then have "list_all (\<lambda>x. \<not> x = c) s" by (auto simp: list_all_iff)
  from split_on_no_sep [OF this] 3 show ?case by (simp add: split_on_append_sep)
qed simp

definition search_path :: "string \<Rightarrow> string list" where
  "search_path path = split_on (\<lambda>c. c = CHR '':'') path"

lemma path_components_facts:
  "distinct (path_components path)"
  "set (path_components path) = {c \<in> set (search_path path). path_component_ok c}"
  "subseq (path_components path) (search_path path)"
  using collect_pieces(1) [of "[]" path_component_ok] collect_pieces(2) [of path_component_ok _ "[]"]
    collect_pieces(4) [of path_component_ok _ "[]"]
  by (fastforce simp: path_components_def search_path_def)+

lemma search_path_sanitized:
  "search_path (sanitize_path path) =
     (if path_components path = [] then [''/usr/bin'', ''/bin''] else path_components path)"
proof -
  have "CHR '':'' \<notin> set q" if "q \<in> set (path_components path)" for q
    using that split_on_pieces [of q "\<lambda>c. c = CHR '':''" path]
    by (auto simp: path_components_facts(2) search_path_def list_all_iff)
  then show ?thesis using split_join_pieces by (auto simp: search_path_def sanitize_path_def)
qed

lemma sanitize_idem: "sanitize_path (sanitize_path path) = sanitize_path path"
proof -
  have "path_components (sanitize_path path) = search_path (sanitize_path path)"
  proof -
    have "list_all path_component_ok (search_path (sanitize_path path))" "distinct (search_path (sanitize_path path))"
      using path_components_facts(1,2) [of path]
      by (auto simp: search_path_sanitized list_all_iff path_component_ok_def starts_with_def)
    then show ?thesis
      using collect_pieces(3) [of "[]" _ path_component_ok] by (simp add: path_components_def search_path_def)
  qed
  then show ?thesis
    by (cases "path_components path = []")
       (simp_all add: search_path_sanitized sanitize_path_def [of "sanitize_path path"], simp_all add: sanitize_path_def)
qed

text \<open>
  The sanitized search path. Its directories are those of the given path that are neither
  empty, nor the current directory, nor relative to a home directory, each once and in the given
  order; where none is left they are the two system directories. Sanitizing twice changes
  nothing.
\<close>

lemma sanitized_search_path:
  "distinct (search_path (sanitize_path path)) \<and>
   (path_components path \<noteq> [] \<longrightarrow>
      subseq (search_path (sanitize_path path)) (search_path path) \<and>
      set (search_path (sanitize_path path)) = {c \<in> set (search_path path). path_component_ok c}) \<and>
   sanitize_path (sanitize_path path) = sanitize_path path"
  using path_components_facts [of path] sanitize_idem by (simp add: search_path_sanitized)

section \<open>The environment an agent gets\<close>

text \<open>What the environment holds under a name: an extra variable before an inherited one.\<close>

definition inherited_value :: "Policy \<Rightarrow> env \<Rightarrow> string \<Rightarrow> string option" where
  "inherited_value policy host_vars k =
     (case map_of host_vars k of
        None \<Rightarrow> None
      | Some v \<Rightarrow>
          if env_well_formed (k, v) \<and> environment_allows (environment policy) k
          then Some (if is_path_name k then sanitize_path v else v) else None)"

definition extra_value :: "(string \<Rightarrow> string) \<Rightarrow> Policy \<Rightarrow> env \<Rightarrow> string \<Rightarrow> string option" where
  "extra_value up policy env_extra k =
     (case map_of env_extra k of
        None \<Rightarrow> None
      | Some v \<Rightarrow>
          if env_well_formed (k, v) \<and> (is_hard_denied up k \<longrightarrow> environment_allows (environment policy) k)
          then Some v else None)"

lemma update_map_of: "map_of (AList.update k v al) = (map_of al)(k \<mapsto> v)"
  by (rule AList.update_conv')

lemma inherit_lookup:
  "distinct (map fst vars) \<Longrightarrow>
     map_of (fold (inherit_var policy) vars out) k =
       (case inherited_value policy vars k of Some v \<Rightarrow> Some v | None \<Rightarrow> map_of out k)"
proof (induction vars arbitrary: out)
  case (Cons kv vars)
  obtain k' v' where kv: "kv = (k', v')" by (cases kv)
  have "map_of vars k' = None" using Cons.prems by (simp add: kv map_of_eq_None_iff)
  then show ?case
    using Cons by (auto simp: kv inherited_value_def inherit_var_def update_map_of split: option.splits)
qed (simp add: inherited_value_def)

lemma extra_lookup:
  "distinct (map fst vars) \<Longrightarrow>
     map_of (fold (add_extra_var up policy) vars out) k =
       (case extra_value up policy vars k of Some v \<Rightarrow> Some v | None \<Rightarrow> map_of out k)"
proof (induction vars arbitrary: out)
  case (Cons kv vars)
  obtain k' v' where kv: "kv = (k', v')" by (cases kv)
  have "map_of vars k' = None" using Cons.prems by (simp add: kv map_of_eq_None_iff)
  then show ?case
    using Cons by (auto simp: kv extra_value_def add_extra_var_def update_map_of split: option.splits)
qed (simp add: extra_value_def)

lemma delete_lookup:
  "map_of (fold AList.delete ks out) k = (if k \<in> set ks then None else map_of out k)"
  by (induction ks arbitrary: out) (auto simp: AList.delete_conv')

lemma built_env_keys: "distinct (map fst (build_production_env up policy host_vars env_extra))"
  unfolding build_production_env_def
  by (intro fold_invariant [where P = "\<lambda>out. distinct (map fst out)" and Q = "\<lambda>_. True"])
     (simp_all add: AList.distinct_delete AList.distinct_update inherit_var_def add_extra_var_def)

lemma built_env_lookup:
  assumes "distinct (map fst host_vars)" and "distinct (map fst env_extra)"
  shows "map_of (build_production_env up policy host_vars env_extra) k =
    (if k \<in> set (secret_proxies policy) then None
     else case extra_value up policy env_extra k of
            Some v \<Rightarrow> Some v
          | None \<Rightarrow> inherited_value policy host_vars k)"
  using assms
  by (simp add: build_production_env_def delete_lookup extra_lookup inherit_lookup split: option.splits)

definition may_enter :: "(string \<Rightarrow> string) \<Rightarrow> Policy \<Rightarrow> string \<Rightarrow> bool" where
  "may_enter up policy k = (is_hard_denied up k \<longrightarrow> environment_allows (environment policy) k)"

lemma update_names:
  "fst ` set (AList.update k v out) = insert k (fst ` set out)"
  by (induction out) auto

lemma built_env_leaks:
  "leaked_vars up policy (build_production_env up policy host_vars env_extra) = []"
proof -
  let ?P = "\<lambda>out. fst ` set out \<subseteq> Collect (may_enter up policy)"
  have "?P (build_production_env up policy host_vars env_extra)"
    unfolding build_production_env_def
  proof (intro fold_invariant [where P = ?P and Q = "\<lambda>_. True"])
    show "?P (AList.delete x out)" if "?P out" for x out
      using that by (auto simp: AList.delete_eq)
    show "?P (add_extra_var up policy x out)" if "?P out" for x out
      using that by (auto simp: add_extra_var_def update_names may_enter_def)
    show "?P (inherit_var policy x out)" if "?P out" for x out
      using that by (auto simp: inherit_var_def update_names may_enter_def)
  qed simp_all
  then show ?thesis by (auto simp: leaked_vars_def filter_empty_conv may_enter_def)
qed

text \<open>
  Property C18 (the environment of an agent). The environment built for a production session holds
  exactly: an extra variable that is well formed and, where its name is denied, passed through
  by the policy; otherwise an inherited variable that is well formed and passed through, search
  paths sanitized; and no secret proxy. No name in it is both denied and not passed
  through, so that the preflight checks never refuse a session for its environment: they
  refuse exactly for a contract whose digest fails, an existing masked path that no denial
  covers, or the verification battery, and not in shadow mode for the latter two's leaks.
\<close>

theorem production_environment:
  assumes "distinct (map fst host_vars)" and "distinct (map fst env_extra)"
    and "env = build_production_env up policy host_vars env_extra"
  shows "map_of env k =
      (if k \<in> set (secret_proxies policy) then None
       else case extra_value up policy env_extra k of
              Some v \<Rightarrow> Some v
            | None \<Rightarrow> inherited_value policy host_vars k) \<and>
    (is_ok (preflight_boundary_checks up codec exists_on_host contract policy env in_shadow battery) \<longleftrightarrow>
       verify_digest codec contract \<and> battery \<noteq> Some (Err ()) \<and>
       (in_shadow \<or> unmasked_paths exists_on_host contract policy = [] \<and> battery \<in> {None, Some (Ok 0)}))"
proof -
  have "length (leaked_vars up policy env) = 0" using built_env_leaks assms(3) by simp
  then have "is_ok (preflight_boundary_checks up codec exists_on_host contract policy env in_shadow battery) \<longleftrightarrow>
       verify_digest codec contract \<and> battery \<noteq> Some (Err ()) \<and>
       (in_shadow \<or> unmasked_paths exists_on_host contract policy = [] \<and> battery \<in> {None, Some (Ok 0)})"
    by (auto simp: preflight_boundary_checks_def Let_def is_ok_def split: option.splits sum.splits)
  then show ?thesis using built_env_lookup [OF assms(1,2)] assms(3) by simp
qed

definition sample_env_policy :: Policy where
  "sample_env_policy = default_policy\<lparr>environment := \<lparr>pass_through = [''PATH'', ''GH_*''], env_deny = [''GH_X'']\<rparr>,
     secret_proxies := [''GH_PROXY'']\<rparr>"

text \<open>A denied name is inherited where the policy passes it through.\<close>

theorem production_environment_witness:
  "map_of (build_production_env to_ascii_uppercase sample_env_policy
      [(''PATH'', ''~/bin:.:/bin''), (''GH_TOKEN'', ''t''), (''GH_X'', ''x''), (''HOME'', ''/h'')]
      [(''VETTO_RUN'', ''n''), (''AWS_KEY'', ''k''), (''GH_PROXY'', ''p'')]) =
     [''PATH'' \<mapsto> ''/bin'', ''GH_TOKEN'' \<mapsto> ''t'', ''VETTO_RUN'' \<mapsto> ''n'']"
proof -
  let ?host = "[(''PATH'', ''~/bin:.:/bin''), (''GH_TOKEN'', ''t''), (''GH_X'', ''x''), (''HOME'', ''/h'')]"
  let ?extra = "[(''VETTO_RUN'', ''n''), (''AWS_KEY'', ''k''), (''GH_PROXY'', ''p'')]"
  have d: "distinct (map fst ?host)" "distinct (map fst ?extra)" by simp_all
  note e = production_environment [OF d refl, of to_ascii_uppercase sample_env_policy, THEN conjunct1]
  have p: "secret_proxies sample_env_policy = [''GH_PROXY'']" by (simp add: sample_env_policy_def)
  have x: "extra_value to_ascii_uppercase sample_env_policy ?extra k =
      (if k = ''VETTO_RUN'' then Some ''n'' else if k = ''GH_PROXY'' then Some ''p'' else None)" for k
  proof -
    have "extra_value to_ascii_uppercase sample_env_policy ?extra ''VETTO_RUN'' = Some ''n''"
      "extra_value to_ascii_uppercase sample_env_policy ?extra ''GH_PROXY'' = Some ''p''"
      "extra_value to_ascii_uppercase sample_env_policy ?extra ''AWS_KEY'' = None"
      by code_simp+
    then show ?thesis by (cases "map_of ?extra k") (auto simp: extra_value_def split: if_splits)
  qed
  have h: "inherited_value sample_env_policy ?host k =
      (if k = ''PATH'' then Some ''/bin'' else if k = ''GH_TOKEN'' then Some ''t'' else None)" for k
  proof -
    have "inherited_value sample_env_policy ?host ''PATH'' = Some ''/bin''"
      "inherited_value sample_env_policy ?host ''GH_TOKEN'' = Some ''t''"
      "inherited_value sample_env_policy ?host ''GH_X'' = None"
      "inherited_value sample_env_policy ?host ''HOME'' = None"
      by code_simp+
    then show ?thesis by (cases "map_of ?host k") (auto simp: inherited_value_def split: if_splits)
  qed
  show ?thesis by (rule ext) (simp add: e p x h)
qed

section \<open>The filter\<close>

text \<open>
  The filter keeps, in order, the variables that are well formed and not denied, and sanitizes
  search paths when asked to.
\<close>

lemma filter_env_set:
  "(k, v) \<in> set (filter_env up vars strict) \<longleftrightarrow>
     (\<exists>v0. (k, v0) \<in> set vars \<and> env_well_formed (k, v0) \<and> \<not> is_hard_denied up k \<and>
       v = (if strict \<and> is_path_name k then sanitize_path v0 else v0))"
  by (auto simp: filter_env_def filter_one_def map_filter_def image_iff split: if_splits)

end
