(* ===== verification/LandlockRules.thy ===== *)
theory LandlockRules
  imports Resolve Verdicts
begin

text \<open>
  The Landlock layer of \<open>src/src/sandbox/linux/landlock.rs\<close>: the access masks for each ABI of the
  kernel, the rules prepared from the granted paths and ports, and \<open>apply_policy_advanced\<close>, which
  negotiates a ruleset, installs the rules and restricts the process.

  Rights are 64-bit words. System calls are the fields of \<open>LandlockKernel\<close>, with the errors they
  may return; a result of \<open>fstat\<close> on an open descriptor is part of what opening returns. What a
  restricted process may do is \<open>domain_permits\<close>, the documented meaning of a ruleset: a right it
  handles is granted below a rule that allows it, and nowhere else.

  Paths of the policy are UTF-8, so that a path is its own display text.
\<close>

unbundle bit_operations_syntax

type_synonym rights = "64 word"

section \<open>Masks\<close>

definition EXECUTE :: rights where "EXECUTE = push_bit 0 1"
definition WRITE_FILE :: rights where "WRITE_FILE = push_bit 1 1"
definition READ_FILE :: rights where "READ_FILE = push_bit 2 1"
definition READ_DIR :: rights where "READ_DIR = push_bit 3 1"
definition REMOVE_DIR :: rights where "REMOVE_DIR = push_bit 4 1"
definition REMOVE_FILE :: rights where "REMOVE_FILE = push_bit 5 1"
definition MAKE_CHAR :: rights where "MAKE_CHAR = push_bit 6 1"
definition MAKE_DIR :: rights where "MAKE_DIR = push_bit 7 1"
definition MAKE_REG :: rights where "MAKE_REG = push_bit 8 1"
definition MAKE_SOCK :: rights where "MAKE_SOCK = push_bit 9 1"
definition MAKE_FIFO :: rights where "MAKE_FIFO = push_bit 10 1"
definition MAKE_BLOCK :: rights where "MAKE_BLOCK = push_bit 11 1"
definition MAKE_SYM :: rights where "MAKE_SYM = push_bit 12 1"
definition REFER :: rights where "REFER = push_bit 13 1"
definition TRUNCATE :: rights where "TRUNCATE = push_bit 14 1"
definition IOCTL_DEV :: rights where "IOCTL_DEV = push_bit 15 1"

definition NET_BIND_TCP :: rights where "NET_BIND_TCP = push_bit 0 1"
definition NET_CONNECT_TCP :: rights where "NET_CONNECT_TCP = push_bit 1 1"
definition SCOPE_ABSTRACT_UNIX_SOCKET :: rights where "SCOPE_ABSTRACT_UNIX_SOCKET = push_bit 0 1"
definition SCOPE_SIGNAL :: rights where "SCOPE_SIGNAL = push_bit 1 1"

lemmas right_defs =
  EXECUTE_def WRITE_FILE_def READ_FILE_def READ_DIR_def REMOVE_DIR_def REMOVE_FILE_def MAKE_CHAR_def
  MAKE_DIR_def MAKE_REG_def MAKE_SOCK_def MAKE_FIFO_def MAKE_BLOCK_def MAKE_SYM_def REFER_def TRUNCATE_def
  IOCTL_DEV_def NET_BIND_TCP_def NET_CONNECT_TCP_def SCOPE_ABSTRACT_UNIX_SOCKET_def SCOPE_SIGNAL_def

definition ruleset_attr_size_for_abi :: "nat \<Rightarrow> nat" where
  "ruleset_attr_size_for_abi abi = (if abi \<ge> 6 then 24 else if abi \<ge> 4 then 16 else 8)"

definition handled_fs_mask :: "nat \<Rightarrow> rights" where
  "handled_fs_mask abi =
     (let mask = EXECUTE OR WRITE_FILE OR READ_FILE OR READ_DIR OR REMOVE_DIR OR REMOVE_FILE OR MAKE_CHAR OR
                 MAKE_DIR OR MAKE_REG OR MAKE_SOCK OR MAKE_FIFO OR MAKE_BLOCK OR MAKE_SYM;
          mask = (if abi \<ge> 2 then mask OR REFER else mask);
          mask = (if abi \<ge> 3 then mask OR TRUNCATE else mask)
      in if abi \<ge> 5 then mask OR IOCTL_DEV else mask)"

definition handled_net_mask :: "nat \<Rightarrow> rights" where
  "handled_net_mask abi = (if abi \<ge> 4 then NET_BIND_TCP OR NET_CONNECT_TCP else 0)"

definition handled_scope_mask :: "nat \<Rightarrow> rights" where
  "handled_scope_mask abi = (if abi \<ge> 6 then SCOPE_ABSTRACT_UNIX_SOCKET OR SCOPE_SIGNAL else 0)"

definition read_only_rights :: "bool \<Rightarrow> nat \<Rightarrow> rights" where
  "read_only_rights is_directory abi =
     (let r = READ_FILE OR EXECUTE;
          r = (if is_directory then r OR READ_DIR else r)
      in if abi \<ge> 5 then r OR IOCTL_DEV else r)"

definition write_rights :: "nat \<Rightarrow> rights" where
  "write_rights abi =
     (let r = read_only_rights True abi OR WRITE_FILE OR REMOVE_DIR OR REMOVE_FILE OR MAKE_DIR OR MAKE_REG OR
              MAKE_SYM OR MAKE_FIFO OR MAKE_SOCK OR MAKE_CHAR OR MAKE_BLOCK;
          r = (if abi \<ge> 2 then r OR REFER else r);
          r = (if abi \<ge> 3 then r OR TRUNCATE else r)
      in if abi \<ge> 5 then r OR IOCTL_DEV else r)"

definition file_mask :: "nat \<Rightarrow> rights" where
  "file_mask abi =
     (READ_FILE OR WRITE_FILE OR EXECUTE OR (if abi \<ge> 3 then TRUNCATE else 0) OR (if abi \<ge> 5 then IOCTL_DEV else 0))"

section \<open>Prepared rules\<close>

record PreparedRule =
  pr_path :: path
  pr_access :: rights

record PreparedRuleset =
  prs_abi :: nat
  prs_rules :: "PreparedRule list"
  prs_net_rules :: "(nat \<times> rights) list"

text \<open>The map of ports is ordered; so is its list of entries.\<close>

fun port_or :: "nat \<Rightarrow> rights \<Rightarrow> (nat \<times> rights) list \<Rightarrow> (nat \<times> rights) list" where
  "port_or n r [] = [(n, r)]"
| "port_or n r ((m, a) # xs) =
     (if n < m then (n, r) # (m, a) # xs
      else if n = m then (m, a OR r) # xs
      else (m, a) # port_or n r xs)"

definition prepare_net_port_rules :: "nat \<Rightarrow> nat list \<Rightarrow> nat list \<Rightarrow> (nat \<times> rights) list" where
  "prepare_net_port_rules abi bind_ports connect_ports =
     (if abi < 4 then []
      else fold (\<lambda>p. port_or p NET_CONNECT_TCP) connect_ports
             (fold (\<lambda>p. port_or p NET_BIND_TCP) bind_ports []))"

text \<open>The rights wanted for each path, by its text.\<close>

fun want :: "path \<Rightarrow> rights \<Rightarrow> (path \<times> rights) list \<Rightarrow> (path \<times> rights) list" where
  "want p r [] = [(p, r)]"
| "want p r ((q, a) # xs) = (if q = p then (q, a OR r) # xs else (q, a) # want p r xs)"

record PathProbe =
  probe_exists :: "path \<Rightarrow> bool"
  probe_is_dir :: "path \<Rightarrow> bool"

definition granted_write_rights :: "nat \<Rightarrow> bool \<Rightarrow> rights" where
  "granted_write_rights abi strip_read =
     (if strip_read then write_rights abi AND NOT READ_FILE else write_rights abi)"

definition wanted_rights :: "PathProbe \<Rightarrow> nat \<Rightarrow> path list \<Rightarrow> path list \<Rightarrow> bool \<Rightarrow> (path \<times> rights) list" where
  "wanted_rights h abi wpaths rpaths strip_read =
     fold (\<lambda>p. want p (granted_write_rights abi strip_read)) (filter (probe_exists h) wpaths)
       (fold (\<lambda>p. want p (read_only_rights (probe_is_dir h p) abi)) (filter (probe_exists h) rpaths) [])"

definition effective_rights :: "nat \<Rightarrow> bool \<Rightarrow> rights \<Rightarrow> rights" where
  "effective_rights abi is_directory r = (if is_directory then r else r AND file_mask abi)"

definition prepared_rule :: "PathProbe \<Rightarrow> nat \<Rightarrow> path \<times> rights \<Rightarrow> PreparedRule option" where
  "prepared_rule h abi pr =
     (let effective = effective_rights abi (probe_is_dir h (fst pr)) (snd pr)
      in if effective \<noteq> 0 then Some \<lparr>pr_path = fst pr, pr_access = effective\<rparr> else None)"

definition prepare_ruleset_with_net_for_abi ::
  "PathProbe \<Rightarrow> nat \<Rightarrow> path list \<Rightarrow> path list \<Rightarrow> bool \<Rightarrow> nat list \<Rightarrow> nat list \<Rightarrow> PreparedRuleset" where
  "prepare_ruleset_with_net_for_abi h abi wpaths rpaths strip_read bind_ports connect_ports =
     \<lparr>prs_abi = abi,
      prs_rules = sort_key (\<lambda>x. components (pr_path x))
        (List.map_filter (prepared_rule h abi) (wanted_rights h abi wpaths rpaths strip_read)),
      prs_net_rules = prepare_net_port_rules abi bind_ports connect_ports\<rparr>"

definition prepare_ruleset_for_abi :: "PathProbe \<Rightarrow> nat \<Rightarrow> path list \<Rightarrow> path list \<Rightarrow> bool \<Rightarrow> PreparedRuleset" where
  "prepare_ruleset_for_abi h abi wpaths rpaths strip_read =
     prepare_ruleset_with_net_for_abi h abi wpaths rpaths strip_read [] []"

section \<open>System calls\<close>

record RulesetAttr =
  handled_access_fs :: rights
  handled_access_net :: rights
  handled_access_scope :: rights

text \<open>What an open descriptor refers to: the resolved location, and its type.\<close>

record Inode =
  in_location :: path
  in_is_dir :: bool
  in_is_link :: bool

type_synonym errno = int

definition ENOSYS :: errno where "ENOSYS = 38"
definition EPERM :: errno where "EPERM = 1"
definition EINVAL :: errno where "EINVAL = 22"
definition E2BIG :: errno where "E2BIG = 7"
definition ELOOP :: errno where "ELOOP = 40"
definition EXDEV :: errno where "EXDEV = 18"
definition EOPNOTSUPP :: errno where "EOPNOTSUPP = 95"
definition ENOPKG :: errno where "ENOPKG = 65"

text \<open>\<open>lk_openat2\<close> resolves without following links, below the current directory when its first
  argument says so; \<open>lk_openat\<close> refuses to follow only a link at the end.\<close>

record LandlockKernel =
  lk_abi :: "nat option"
  lk_create :: "RulesetAttr \<Rightarrow> nat \<Rightarrow> errno option"
  lk_openat2 :: "bool \<Rightarrow> path \<Rightarrow> (errno, Inode) result"
  lk_openat :: "path \<Rightarrow> (errno, Inode) result"
  lk_add_path :: "Inode \<Rightarrow> rights \<Rightarrow> errno option"
  lk_add_port :: "nat \<Rightarrow> rights \<Rightarrow> errno option"
  lk_no_new_privs :: "errno option"
  lk_restrict :: "errno option"
  lk_strerror :: "errno \<Rightarrow> string"
  lk_cwd :: "path option"
  lk_probe :: PathProbe

datatype OpenError = NulByte | OsError errno

definition refuse_link :: "(errno, Inode) result \<Rightarrow> (OpenError, Inode) result" where
  "refuse_link r =
     (case r of
        Inl e \<Rightarrow> Err (OsError e)
      | Inr i \<Rightarrow> if in_is_link i then Err (OsError ELOOP) else Ok i)"

definition open_landlock_path_fd :: "LandlockKernel \<Rightarrow> path \<Rightarrow> (OpenError, Inode) result" where
  "open_landlock_path_fd K p =
     (if CHR 0x00 \<in> set p then Err NulByte
      else (case lk_openat2 K False p of
              Inr i \<Rightarrow> Ok i
            | Inl e \<Rightarrow> if e = ENOSYS \<or> e = EPERM then refuse_link (lk_openat K p) else Err (OsError e)))"

definition open_landlock_path_fd_beneath :: "LandlockKernel \<Rightarrow> path \<Rightarrow> (OpenError, Inode) result" where
  "open_landlock_path_fd_beneath K p =
     (if CHR 0x00 \<in> set p then Err NulByte
      else (case lk_openat2 K True p of
              Inr i \<Rightarrow> Ok i
            | Inl e \<Rightarrow>
                if e = ENOSYS \<or> e = EPERM
                then (if has_root p \<or> ParentDir \<in> set (components p) then Err (OsError EXDEV)
                      else refuse_link (lk_openat K p))
                else Err (OsError e)))"

definition open_error_text :: "LandlockKernel \<Rightarrow> path \<Rightarrow> OpenError \<Rightarrow> string" where
  "open_error_text K p e =
     ''open '' @ p @ '': '' @
     (case e of NulByte \<Rightarrow> ''NUL byte in path '' @ p | OsError n \<Rightarrow> lk_strerror K n)"

text \<open>\<open>path.strip_prefix(base)\<close>, as the components that are left.\<close>

definition strip_path_prefix :: "path \<Rightarrow> path \<Rightarrow> path option" where
  "strip_path_prefix p base =
     (if path_starts_with p base
      then Some (foldl path_push [] (map as_os_str (drop (length (components base)) (components p))))
      else None)"

definition or_else_open :: "LandlockKernel \<Rightarrow> path \<Rightarrow> path \<Rightarrow> (OpenError, Inode) result" where
  "or_else_open K relative p =
     (case open_landlock_path_fd_beneath K relative of Inr i \<Rightarrow> Ok i | Inl _ \<Rightarrow> open_landlock_path_fd K p)"

definition open_path_fd :: "LandlockKernel \<Rightarrow> path \<Rightarrow> (string, Inode) result" where
  "open_path_fd K p =
     (case (if \<not> is_absolute p then or_else_open K p p
            else (case lk_cwd K of
                    None \<Rightarrow> open_landlock_path_fd K p
                  | Some here \<Rightarrow>
                      (case strip_path_prefix p here of
                         None \<Rightarrow> open_landlock_path_fd K p
                       | Some relative \<Rightarrow>
                           if relative \<noteq> [] then or_else_open K relative p else open_landlock_path_fd K p)))
      of Inl e \<Rightarrow> Err (open_error_text K p e) | Inr i \<Rightarrow> Ok i)"

section \<open>Applying a policy\<close>

definition net_active :: "nat \<Rightarrow> bool \<Rightarrow> bool" where
  "net_active abi has_net = (has_net \<and> abi \<ge> 4)"

definition ruleset_attr :: "nat \<Rightarrow> bool \<Rightarrow> RulesetAttr" where
  "ruleset_attr abi has_net =
     \<lparr>handled_access_fs = handled_fs_mask abi,
      handled_access_net = (if net_active abi has_net then handled_net_mask abi else 0),
      handled_access_scope = handled_scope_mask abi\<rparr>"

fun create_ruleset_dynamic :: "LandlockKernel \<Rightarrow> nat \<Rightarrow> bool \<Rightarrow> (VettoError, RulesetAttr \<times> nat \<times> bool) result" where
  "create_ruleset_dynamic K abi has_net =
     (case lk_create K (ruleset_attr abi has_net) (ruleset_attr_size_for_abi abi) of
        None \<Rightarrow> Ok (ruleset_attr abi has_net, abi, net_active abi has_net)
      | Some e \<Rightarrow>
          if e = EINVAL \<or> e = E2BIG
          then (if has_net
                then Err (ELandlock (''cannot enforce requested Landlock network isolation: '' @ lk_strerror K e))
                else if abi > 1 then create_ruleset_dynamic K (abi - 1) has_net
                else Err (ELandlock (''create_ruleset: '' @ lk_strerror K e)))
          else Err (ELandlock (''create_ruleset: '' @ lk_strerror K e)))"

declare create_ruleset_dynamic.simps [simp del]

definition PTY_PATHS :: "path list" where
  "PTY_PATHS = [''/dev/ptmx'', ''/dev/pts'', ''/dev/tty'']"

definition pty_rights :: "bool \<Rightarrow> rights" where
  "pty_rights is_directory =
     (if is_directory then READ_FILE OR WRITE_FILE OR READ_DIR OR IOCTL_DEV
      else READ_FILE OR WRITE_FILE OR IOCTL_DEV)"

definition pty_rule :: "LandlockKernel \<Rightarrow> path \<Rightarrow> (path \<times> rights) option" where
  "pty_rule K p =
     (if \<not> probe_exists (lk_probe K) p then None
      else (case open_path_fd K p of
              Inl _ \<Rightarrow> None
            | Inr i \<Rightarrow>
                if lk_add_path K i (pty_rights (in_is_dir i)) = None
                then Some (in_location i, pty_rights (in_is_dir i)) else None))"

definition add_pty_whitelist :: "LandlockKernel \<Rightarrow> nat \<Rightarrow> (path \<times> rights) list" where
  "add_pty_whitelist K abi = (if abi < 5 then [] else List.map_filter (pty_rule K) PTY_PATHS)"

fun show_hex :: "nat \<Rightarrow> string" where
  "show_hex n = (if n < 16 then [hex_digit n] else show_hex (n div 16) @ [hex_digit (n mod 16)])"

declare show_hex.simps [simp del]

text \<open>A kernel without network rules ends the loop where they are not strict.\<close>

fun add_port_rules :: "LandlockKernel \<Rightarrow> bool \<Rightarrow> (nat \<times> rights) list \<Rightarrow> (VettoError, (nat \<times> rights) list) result" where
  "add_port_rules K strict_net [] = Ok []"
| "add_port_rules K strict_net ((port, access) # rules) =
     (case lk_add_port K port access of
        None \<Rightarrow> and_then (add_port_rules K strict_net rules) (\<lambda>rs. Ok ((port, access) # rs))
      | Some e \<Rightarrow>
          if (e = EOPNOTSUPP \<or> e = ENOPKG) \<and> \<not> strict_net then Ok []
          else Err (ELandlock (''add_rule net_port '' @ show_nat port @ '' (access 0x'' @ show_hex (unat access) @
                 ''): '' @ lk_strerror K e)))"

definition apply_net_port_rules ::
  "LandlockKernel \<Rightarrow> nat \<Rightarrow> nat list \<Rightarrow> nat list \<Rightarrow> bool \<Rightarrow> (VettoError, (nat \<times> rights) list) result" where
  "apply_net_port_rules K abi bind_ports connect_ports strict_net =
     (if abi < 4
      then (if strict_net
            then Err (ELandlock (''strict network isolation requested but kernel Landlock ABI is '' @ show_nat abi @
                   '' (< 4): fail-closed (INV-01)''))
            else Ok [])
      else add_port_rules K strict_net (prepare_net_port_rules abi bind_ports connect_ports))"

definition install_rule ::
  "LandlockKernel \<Rightarrow> nat \<Rightarrow> PreparedRule \<Rightarrow> (path \<times> rights) list \<Rightarrow> (VettoError, (path \<times> rights) list) result" where
  "install_rule K abi rule installed =
     (case open_path_fd K (pr_path rule) of
        Inl msg \<Rightarrow>
          if contains_str msg ''Too many levels of symbolic links'' \<or> contains_str msg ''ELOOP''
          then Ok installed else Err (ELandlock msg)
      | Inr i \<Rightarrow>
          (let effective = effective_rights abi (in_is_dir i) (pr_access rule)
           in if effective = 0 then Ok installed
              else (case lk_add_path K i effective of
                      None \<Rightarrow> Ok (installed @ [(in_location i, effective)])
                    | Some e \<Rightarrow> Err (ELandlock (''add_rule '' @ pr_path rule @ '': '' @ lk_strerror K e)))))"

text \<open>The domain a process is in once it is restricted.\<close>

record Domain =
  dom_attr :: RulesetAttr
  dom_paths :: "(path \<times> rights) list"
  dom_ports :: "(nat \<times> rights) list"

definition apply_policy_advanced ::
  "LandlockKernel \<Rightarrow> path list \<Rightarrow> path list \<Rightarrow> bool \<Rightarrow> nat list \<Rightarrow> nat list \<Rightarrow> bool \<Rightarrow> (VettoError, Domain) result" where
  "apply_policy_advanced K wpaths rpaths strip_read bind_ports connect_ports strict_net =
     (case lk_abi K of
        None \<Rightarrow> Err (ELandlock ''kernel does not support Landlock (needs >= 5.13)'')
      | Some detected \<Rightarrow>
          (let has_net = (bind_ports \<noteq> [] \<or> connect_ports \<noteq> [] \<or> strict_net)
           in and_then (create_ruleset_dynamic K detected has_net) (\<lambda>(attr, abi, _).
                let prepared = prepare_ruleset_with_net_for_abi (lk_probe K) abi wpaths rpaths strip_read
                                 bind_ports connect_ports
                in and_then (fold_result (install_rule K abi) (prs_rules prepared) []) (\<lambda>installed.
                     let paths = installed @ add_pty_whitelist K abi
                     in and_then (if has_net then apply_net_port_rules K abi bind_ports connect_ports strict_net
                                  else Ok []) (\<lambda>ports.
                          case lk_no_new_privs K of
                            Some e \<Rightarrow> Err (ELandlock (''PR_SET_NO_NEW_PRIVS: '' @ lk_strerror K e))
                          | None \<Rightarrow>
                              (case lk_restrict K of
                                 Some e \<Rightarrow> Err (ELandlock (''restrict_self: '' @ lk_strerror K e))
                               | None \<Rightarrow> Ok \<lparr>dom_attr = attr, dom_paths = paths, dom_ports = ports\<rparr>))))))"

definition apply_policy :: "LandlockKernel \<Rightarrow> path list \<Rightarrow> path list \<Rightarrow> bool \<Rightarrow> (VettoError, Domain) result" where
  "apply_policy K wpaths rpaths strip_read =
     apply_policy_advanced K wpaths rpaths strip_read [] [] False"

text \<open>The calls of the two tiers, in \<open>src/src/sandbox/linux/mod.rs\<close>.\<close>

definition restrict_child :: "LandlockKernel \<Rightarrow> bool \<Rightarrow> Policy \<Rightarrow> (VettoError, Domain) result" where
  "restrict_child K fs_only policy =
     apply_policy_advanced K (allow_write policy) (allow_read policy) fs_only (net_bind_ports policy)
       (net_connect_ports policy) (deny_network policy)"



definition abi_feature_hints :: "nat \<Rightarrow> string list" where
  "abi_feature_hints abi =
     (let hint = (\<lambda>n text. if abi \<ge> n then [''kernel supports Landlock ABI '' @ show_nat abi @ '': '' @ text] else [])
      in hint 2 ''file reparenting (REFER) available'' @
         hint 3 ''file truncation (TRUNCATE) available'' @
         hint 4 ''TCP network port filtering available'' @
         hint 5 ''character device ioctl isolation (IOCTL_DEV) available'' @
         hint 6 ''IPC and signal scoping available'')"

section \<open>Rights as bits\<close>

definition MODIFY_RIGHTS :: "rights set" where
  "MODIFY_RIGHTS =
     {REMOVE_DIR, REMOVE_FILE, MAKE_CHAR, MAKE_DIR, MAKE_REG, MAKE_SOCK, MAKE_FIFO, MAKE_BLOCK, MAKE_SYM}"

definition grants :: "rights \<Rightarrow> rights \<Rightarrow> bool" where
  "grants a x = (a AND x \<noteq> 0)"

lemma grants_or [simp]: "grants (a OR b) x \<longleftrightarrow> grants a x \<or> grants b x"
  unfolding grants_def bit.conj_disj_distrib2 or_eq_0_iff by blast

lemma grants_zero [simp]: "\<not> grants 0 x"
  by (simp add: grants_def)

lemma grants_and: "grants (a AND m) x \<Longrightarrow> grants a x"
  unfolding grants_def by (metis and.assoc and.commute and_zero_eq)

lemma handled_access [simp]:
  "grants (handled_fs_mask abi) READ_FILE" "grants (handled_fs_mask abi) WRITE_FILE"
  "x \<in> MODIFY_RIGHTS \<Longrightarrow> grants (handled_fs_mask abi) x"
  by (auto simp: grants_def handled_fs_mask_def MODIFY_RIGHTS_def Let_def right_defs)

lemma read_rights_access [simp]:
  "grants (read_only_rights d abi) READ_FILE" "\<not> grants (read_only_rights d abi) WRITE_FILE"
  "x \<in> MODIFY_RIGHTS \<Longrightarrow> \<not> grants (read_only_rights d abi) x"
  by (auto simp: grants_def read_only_rights_def MODIFY_RIGHTS_def Let_def right_defs)

lemma write_rights_access [simp]:
  "grants (granted_write_rights abi strip) READ_FILE \<longleftrightarrow> \<not> strip"
  "grants (granted_write_rights abi strip) WRITE_FILE"
  "x \<in> MODIFY_RIGHTS \<Longrightarrow> grants (granted_write_rights abi strip) x"
  by (auto simp: grants_def granted_write_rights_def write_rights_def read_only_rights_def MODIFY_RIGHTS_def Let_def
      right_defs)

lemma pty_rights_access [simp]: "x \<in> MODIFY_RIGHTS \<Longrightarrow> \<not> grants (pty_rights d) x"
  by (auto simp: grants_def pty_rights_def MODIFY_RIGHTS_def right_defs)

lemma file_mask_access: "file_mask abi AND READ_FILE = READ_FILE" "file_mask abi AND WRITE_FILE = WRITE_FILE"
  by (auto simp: file_mask_def right_defs)

lemma file_mask_modify: "x \<in> MODIFY_RIGHTS \<Longrightarrow> file_mask abi AND x = 0"
  by (auto simp: file_mask_def MODIFY_RIGHTS_def right_defs)

text \<open>The kernel refuses rules with rights that the ruleset does not handle; none is prepared.\<close>

lemma rights_handled:
  "read_only_rights d abi AND handled_fs_mask abi = read_only_rights d abi"
  "granted_write_rights abi strip AND handled_fs_mask abi = granted_write_rights abi strip"
  "abi \<ge> 5 \<Longrightarrow> pty_rights d AND handled_fs_mask abi = pty_rights d"
  by (auto simp: read_only_rights_def granted_write_rights_def write_rights_def pty_rights_def handled_fs_mask_def
      Let_def right_defs)

lemma effective_rights_access:
  "x \<in> {READ_FILE, WRITE_FILE} \<Longrightarrow> grants (effective_rights abi d a) x \<longleftrightarrow> grants a x"
proof -
  assume "x \<in> {READ_FILE, WRITE_FILE}"
  then have "file_mask abi AND x = x" using file_mask_access by auto
  then show ?thesis unfolding grants_def effective_rights_def by (simp only: and.assoc if_distrib split: if_split) simp
qed

text \<open>Rights to change entries survive on directories only.\<close>

lemma effective_rights_modify:
  "x \<in> MODIFY_RIGHTS \<Longrightarrow> grants (effective_rights abi d a) x \<longleftrightarrow> d \<and> grants a x"
  unfolding grants_def effective_rights_def by (simp add: and.assoc file_mask_modify)

lemma effective_rights_less: "grants (effective_rights abi d a) x \<Longrightarrow> grants a x"
  using grants_and by (auto simp: effective_rights_def split: if_splits)

section \<open>What is wanted\<close>

definition rights_at :: "(path \<times> rights) list \<Rightarrow> path \<Rightarrow> rights" where
  "rights_at xs q = (case map_of xs q of None \<Rightarrow> 0 | Some a \<Rightarrow> a)"

lemma map_of_want: "map_of (want p r xs) = (map_of xs)(p \<mapsto> rights_at xs p OR r)"
  by (induction p r xs rule: want.induct) (auto simp: rights_at_def fun_eq_iff)

lemma rights_at_want: "rights_at (want p r xs) q = (if q = p then rights_at xs p OR r else rights_at xs q)"
  by (simp add: rights_at_def map_of_want)

lemma distinct_want: "distinct (map fst xs) \<Longrightarrow> distinct (map fst (want p r xs))"
proof (induction p r xs rule: want.induct)
  case (2 p r q a xs)
  have "fst ` set (want p r xs) = insert p (fst ` set xs)" by (induction p r xs rule: want.induct) auto
  with 2 show ?case by auto
qed simp

lemma rights_at_fold:
  "grants (rights_at (fold (\<lambda>p. want p (f p)) ps xs) q) x \<longleftrightarrow>
     grants (rights_at xs q) x \<or> q \<in> set ps \<and> grants (f q) x"
  by (induction ps arbitrary: xs) (auto simp: rights_at_want)

lemma distinct_fold_want:
  "distinct (map fst xs) \<Longrightarrow> distinct (map fst (fold (\<lambda>p. want p (f p)) ps xs))"
  by (induction ps arbitrary: xs) (simp_all add: distinct_want)

lemma wanted_access:
  "grants (rights_at (wanted_rights h abi ws rs strip) q) x \<longleftrightarrow>
     probe_exists h q \<and>
     (q \<in> set rs \<and> grants (read_only_rights (probe_is_dir h q) abi) x \<or>
      q \<in> set ws \<and> grants (granted_write_rights abi strip) x)"
proof -
  have "rights_at [] q = 0" by (simp add: rights_at_def)
  then show ?thesis by (auto simp: wanted_rights_def rights_at_fold)
qed

lemma wanted_distinct: "distinct (map fst (wanted_rights h abi ws rs strip))"
  by (simp add: wanted_rights_def distinct_fold_want)

lemma map_filter_mem: "y \<in> set (List.map_filter f xs) \<longleftrightarrow> (\<exists>x \<in> set xs. f x = Some y)"
  by (induction xs) (auto simp: List.map_filter_simps split: option.splits)

lemma prepared_rules_set:
  "rule \<in> set (prs_rules (prepare_ruleset_with_net_for_abi h abi ws rs strip bs cs)) \<longleftrightarrow>
     (let e = effective_rights abi (probe_is_dir h (pr_path rule)) (rights_at (wanted_rights h abi ws rs strip) (pr_path rule))
      in e \<noteq> 0 \<and> rule = \<lparr>pr_path = pr_path rule, pr_access = e\<rparr>)"
proof -
  let ?w = "wanted_rights h abi ws rs strip"
  have m: "(q, a) \<in> set ?w \<longleftrightarrow> map_of ?w q = Some a" for q a
    using map_of_eq_Some_iff [OF wanted_distinct] by metis
  have "rule \<in> set (List.map_filter (prepared_rule h abi) ?w) \<longleftrightarrow>
      (\<exists>q a. (q, a) \<in> set ?w \<and> prepared_rule h abi (q, a) = Some rule)"
    by (auto simp: map_filter_mem)
  also have "\<dots> \<longleftrightarrow> (\<exists>q a. map_of ?w q = Some a \<and> effective_rights abi (probe_is_dir h q) a \<noteq> 0 \<and>
      rule = \<lparr>pr_path = q, pr_access = effective_rights abi (probe_is_dir h q) a\<rparr>)"
    by (auto simp: m prepared_rule_def Let_def split: if_splits)
  also have "\<dots> \<longleftrightarrow>
     (let e = effective_rights abi (probe_is_dir h (pr_path rule)) (rights_at ?w (pr_path rule))
      in e \<noteq> 0 \<and> rule = \<lparr>pr_path = pr_path rule, pr_access = e\<rparr>)"
  proof -
    have "effective_rights abi d 0 = 0" for d by (simp add: effective_rights_def)
    then show ?thesis by (cases rule) (auto simp: rights_at_def Let_def split: option.splits)
  qed
  finally show ?thesis by (simp add: prepare_ruleset_with_net_for_abi_def)
qed

section \<open>What is installed\<close>

definition rule_entry :: "LandlockKernel \<Rightarrow> nat \<Rightarrow> PreparedRule \<Rightarrow> (path \<times> rights) set" where
  "rule_entry K abi rule =
     (case open_path_fd K (pr_path rule) of
        Inl _ \<Rightarrow> {}
      | Inr i \<Rightarrow>
          (let e = effective_rights abi (in_is_dir i) (pr_access rule)
           in if e = 0 then {} else {(in_location i, e)}))"

lemma install_rule_entry: "install_rule K abi rule acc = Ok mid \<Longrightarrow> set mid = set acc \<union> rule_entry K abi rule"
  by (auto simp: install_rule_def rule_entry_def Let_def split: sum.splits if_splits option.splits)

lemma installed_rules:
  "fold_result (install_rule K abi) rules acc = Ok installed \<Longrightarrow>
     set installed = set acc \<union> (\<Union>rule \<in> set rules. rule_entry K abi rule)"
proof (induction rules arbitrary: acc)
  case (Cons rule rules)
  from Cons.prems obtain mid where mid: "install_rule K abi rule acc = Ok mid"
    "fold_result (install_rule K abi) rules mid = Ok installed"
    by (auto split: sum.splits)
  show ?case using Cons.IH [OF mid(2)] install_rule_entry [OF mid(1)] by auto
qed simp

lemma created_ruleset:
  "create_ruleset_dynamic K abi0 has_net = Ok (attr, abi, active) \<Longrightarrow>
     attr = ruleset_attr abi has_net \<and> abi \<le> abi0 \<and> (has_net \<longrightarrow> abi = abi0)"
proof (induction abi0)
  case 0
  show ?case
    using 0 unfolding create_ruleset_dynamic.simps [of K 0 has_net]
    by (cases "lk_create K (ruleset_attr 0 has_net) (ruleset_attr_size_for_abi 0)") (simp_all split: if_splits)
next
  case (Suc n)
  show ?case
  proof (cases "lk_create K (ruleset_attr (Suc n) has_net) (ruleset_attr_size_for_abi (Suc n))")
    case None
    with Suc.prems show ?thesis unfolding create_ruleset_dynamic.simps [of K "Suc n" has_net] by auto
  next
    case (Some e)
    with Suc.prems have "create_ruleset_dynamic K n has_net = Ok (attr, abi, active)" "\<not> has_net"
      unfolding create_ruleset_dynamic.simps [of K "Suc n" has_net] by (simp_all split: if_splits)
    with Suc.IH show ?thesis by simp
  qed
qed

section \<open>What a restricted process may do\<close>

definition domain_permits :: "Domain \<Rightarrow> path \<Rightarrow> rights \<Rightarrow> bool" where
  "domain_permits D p r =
     (\<not> grants (handled_access_fs (dom_attr D)) r \<or>
      list_ex (\<lambda>(q, a). path_starts_with p q \<and> grants a r) (dom_paths D))"

definition domain_permits_port :: "Domain \<Rightarrow> nat \<Rightarrow> rights \<Rightarrow> bool" where
  "domain_permits_port D n r =
     (\<not> grants (handled_access_net (dom_attr D)) r \<or> list_ex (\<lambda>(m, a). m = n \<and> grants a r) (dom_ports D))"

text \<open>A location is below a path of the policy as the kernel resolves it.\<close>

definition resolves_above :: "LandlockKernel \<Rightarrow> path \<Rightarrow> path \<Rightarrow> bool" where
  "resolves_above K q p =
     (case open_path_fd K q of Inl _ \<Rightarrow> False | Inr i \<Rightarrow> path_starts_with p (in_location i))"

lemma resolves_above_iff:
  "resolves_above K q p \<longleftrightarrow> (\<exists>i. open_path_fd K q = Ok i \<and> path_starts_with p (in_location i))"
  by (cases "open_path_fd K q") (simp_all add: resolves_above_def)

definition granted_above :: "LandlockKernel \<Rightarrow> path list \<Rightarrow> path \<Rightarrow> bool" where
  "granted_above K qs p = list_ex (\<lambda>q. probe_exists (lk_probe K) q \<and> resolves_above K q p) qs"

lemma apply_ok:
  assumes "apply_policy_advanced K ws rs strip bs cs strict = Ok D"
  obtains detected abi installed where
    "lk_abi K = Some detected"
    "dom_attr D = ruleset_attr abi (bs \<noteq> [] \<or> cs \<noteq> [] \<or> strict)"
    "abi \<le> detected" "bs \<noteq> [] \<or> cs \<noteq> [] \<or> strict \<Longrightarrow> abi = detected"
    "set installed =
       (\<Union>rule \<in> set (prs_rules (prepare_ruleset_with_net_for_abi (lk_probe K) abi ws rs strip bs cs)). rule_entry K abi rule)"
    "dom_paths D = installed @ add_pty_whitelist K abi"
    "if bs \<noteq> [] \<or> cs \<noteq> [] \<or> strict then apply_net_port_rules K abi bs cs strict = Ok (dom_ports D) else dom_ports D = []"
proof -
  let ?has = "bs \<noteq> [] \<or> cs \<noteq> [] \<or> strict"
  obtain detected where d: "lk_abi K = Some detected"
    using assms by (cases "lk_abi K") (simp_all add: apply_policy_advanced_def)
  obtain attr abi active where c: "create_ruleset_dynamic K detected ?has = Ok (attr, abi, active)"
    using assms d
    by (cases "create_ruleset_dynamic K detected ?has") (auto simp: apply_policy_advanced_def and_then_def)
  let ?rules = "prs_rules (prepare_ruleset_with_net_for_abi (lk_probe K) abi ws rs strip bs cs)"
  obtain installed where i: "fold_result (install_rule K abi) ?rules [] = Ok installed"
    using assms d c
    by (cases "fold_result (install_rule K abi) ?rules []") (simp_all add: apply_policy_advanced_def and_then_def)
  obtain ports where p: "(if ?has then apply_net_port_rules K abi bs cs strict else Ok []) = Ok ports"
    using assms d c i
    by (cases "if ?has then apply_net_port_rules K abi bs cs strict else Ok []")
       (simp_all add: apply_policy_advanced_def and_then_def Let_def)
  have D: "D = \<lparr>dom_attr = attr, dom_paths = installed @ add_pty_whitelist K abi, dom_ports = ports\<rparr>"
    using assms d c i p
    by (cases "lk_no_new_privs K"; cases "lk_restrict K") (simp_all add: apply_policy_advanced_def and_then_def Let_def)
  note r = created_ruleset [OF c]
  show ?thesis
  proof (rule that [OF d, of abi installed])
    show "set installed = (\<Union>rule \<in> set ?rules. rule_entry K abi rule)" using installed_rules [OF i] by simp
    show "if ?has then apply_net_port_rules K abi bs cs strict = Ok (dom_ports D) else dom_ports D = []"
      using p by (auto simp: D split: if_splits)
  qed (use r D in auto)
qed

lemma pty_rule_Some:
  "pty_rule K q = Some (l, a) \<Longrightarrow>
     probe_exists (lk_probe K) q \<and> (\<exists>i. open_path_fd K q = Ok i \<and> l = in_location i \<and> a = pty_rights (in_is_dir i))"
  by (cases "open_path_fd K q") (auto simp: pty_rule_def split: if_split_asm)

lemma pty_whitelist_entry:
  assumes "(l, a) \<in> set (add_pty_whitelist K abi)"
  obtains q i where "q \<in> set PTY_PATHS" "probe_exists (lk_probe K) q" "open_path_fd K q = Ok i" "l = in_location i"
    "a = pty_rights (in_is_dir i)"
proof -
  from assms obtain q where "q \<in> set PTY_PATHS" "pty_rule K q = Some (l, a)"
    by (auto simp: add_pty_whitelist_def map_filter_mem split: if_split_asm)
  with that pty_rule_Some show ?thesis by blast
qed

lemma installed_grants:
  fixes K abi ws rs strip bs cs
  defines "rules \<equiv> prs_rules (prepare_ruleset_with_net_for_abi (lk_probe K) abi ws rs strip bs cs)"
  defines "W \<equiv> wanted_rights (lk_probe K) abi ws rs strip"
  shows "(l, e) \<in> rule_entry K abi rule \<Longrightarrow> rule \<in> set rules \<Longrightarrow> grants e x \<Longrightarrow>
      \<exists>q i. open_path_fd K q = Ok i \<and> l = in_location i \<and> grants (rights_at W q) x"
    and "open_path_fd K q = Ok i \<Longrightarrow> grants (rights_at W q) x \<Longrightarrow> x \<in> {READ_FILE, WRITE_FILE} \<Longrightarrow>
      \<exists>rule \<in> set rules. \<exists>e. (in_location i, e) \<in> rule_entry K abi rule \<and> grants e x"
proof -
  assume a: "(l, e) \<in> rule_entry K abi rule" "rule \<in> set rules" "grants e x"
  then obtain i where i: "open_path_fd K (pr_path rule) = Ok i" "l = in_location i"
    "e = effective_rights abi (in_is_dir i) (pr_access rule)"
    by (auto simp: rule_entry_def Let_def split: sum.splits if_splits)
  have "pr_access rule = effective_rights abi (probe_is_dir (lk_probe K) (pr_path rule)) (rights_at W (pr_path rule))"
    using a(2) unfolding rules_def W_def prepared_rules_set Let_def by (cases rule) simp
  then have "grants (rights_at W (pr_path rule)) x" using a(3) i(3) effective_rights_less by metis
  with i(1,2) show "\<exists>q i. open_path_fd K q = Ok i \<and> l = in_location i \<and> grants (rights_at W q) x" by blast
next
  assume a: "open_path_fd K q = Ok i" "grants (rights_at W q) x" "x \<in> {READ_FILE, WRITE_FILE}"
  let ?e = "effective_rights abi (probe_is_dir (lk_probe K) q) (rights_at W q)"
  let ?rule = "\<lparr>pr_path = q, pr_access = ?e\<rparr>"
  have e: "grants ?e x" using a(2,3) effective_rights_access by blast
  then have "?e \<noteq> 0" by auto
  then have "?rule \<in> set rules" unfolding rules_def W_def prepared_rules_set Let_def by simp
  moreover have g: "grants (effective_rights abi (in_is_dir i) ?e) x" using e a(3) effective_rights_access by blast
  then have "effective_rights abi (in_is_dir i) ?e \<noteq> 0" by auto
  then have "(in_location i, effective_rights abi (in_is_dir i) ?e) \<in> rule_entry K abi ?rule"
    by (simp add: rule_entry_def a(1) Let_def)
  ultimately show "\<exists>rule \<in> set rules. \<exists>e. (in_location i, e) \<in> rule_entry K abi rule \<and> grants e x"
    using g by blast
qed

definition grants_paths :: "path list \<Rightarrow> path list \<Rightarrow> bool \<Rightarrow> rights \<Rightarrow> path list" where
  "grants_paths ws rs strip x =
     (if x = READ_FILE then rs @ (if strip then [] else ws) else ws)"

lemma wanted_granted:
  assumes "x \<in> {READ_FILE, WRITE_FILE}"
  shows "grants (rights_at (wanted_rights h abi ws rs strip) q) x \<longleftrightarrow>
    probe_exists h q \<and> q \<in> set (grants_paths ws rs strip x)"
proof -
  have "READ_FILE \<noteq> WRITE_FILE" by (simp add: right_defs)
  then show ?thesis using assms by (auto simp: wanted_access grants_paths_def)
qed

lemma permits_granted:
  assumes "apply_policy_advanced K ws rs strip bs cs strict = Ok D" and "x \<in> {READ_FILE, WRITE_FILE}"
  shows "granted_above K (grants_paths ws rs strip x) p \<Longrightarrow> domain_permits D p x"
    and "domain_permits D p x \<Longrightarrow> granted_above K (grants_paths ws rs strip x @ PTY_PATHS) p"
proof -
  obtain detected abi installed where a: "dom_attr D = ruleset_attr abi (bs \<noteq> [] \<or> cs \<noteq> [] \<or> strict)"
    "set installed =
       (\<Union>rule \<in> set (prs_rules (prepare_ruleset_with_net_for_abi (lk_probe K) abi ws rs strip bs cs)). rule_entry K abi rule)"
    "dom_paths D = installed @ add_pty_whitelist K abi"
    using apply_ok [OF assms(1)] by metis
  have h: "grants (handled_access_fs (dom_attr D)) x" using assms(2) by (auto simp: a(1) ruleset_attr_def)
  show "domain_permits D p x" if "granted_above K (grants_paths ws rs strip x) p"
  proof -
    from that obtain q i where q: "q \<in> set (grants_paths ws rs strip x)" "probe_exists (lk_probe K) q"
      "open_path_fd K q = Ok i" "path_starts_with p (in_location i)"
      by (auto simp: granted_above_def list_ex_iff resolves_above_iff)
    obtain e where "(in_location i, e) \<in> set installed" "grants e x"
      using installed_grants(2) [OF q(3) _ assms(2), of abi ws rs strip bs cs] q(1,2) wanted_granted [OF assms(2)] a(2)
      by blast
    with q(4) show ?thesis by (auto simp: domain_permits_def list_ex_iff a(3))
  qed
  show "granted_above K (grants_paths ws rs strip x @ PTY_PATHS) p" if "domain_permits D p x"
  proof -
    from that h obtain l e where le: "(l, e) \<in> set (installed @ add_pty_whitelist K abi)" "path_starts_with p l" "grants e x"
      by (auto simp: domain_permits_def list_ex_iff a(3))
    then consider "(l, e) \<in> set installed" | "(l, e) \<in> set (add_pty_whitelist K abi)" by auto
    then show ?thesis
    proof cases
      case 1
      then obtain rule where r: "(l, e) \<in> rule_entry K abi rule"
        "rule \<in> set (prs_rules (prepare_ruleset_with_net_for_abi (lk_probe K) abi ws rs strip bs cs))"
        using a(2) by blast
      from installed_grants(1) [OF this le(3)] wanted_granted [OF assms(2)] le(2) show ?thesis
        by (auto simp: granted_above_def list_ex_iff resolves_above_iff)
    next
      case 2
      then obtain q i where "q \<in> set PTY_PATHS" "probe_exists (lk_probe K) q" "open_path_fd K q = Ok i" "l = in_location i"
        by (rule pty_whitelist_entry)
      with le(2) show ?thesis by (auto simp: granted_above_def list_ex_iff resolves_above_iff)
    qed
  qed
qed

text \<open>A location is below a directory of the policy, a directory both when it is looked at and
  when it is opened.\<close>

definition resolves_dir_above :: "LandlockKernel \<Rightarrow> path \<Rightarrow> path \<Rightarrow> bool" where
  "resolves_dir_above K q p =
     (case open_path_fd K q of Inl _ \<Rightarrow> False | Inr i \<Rightarrow> in_is_dir i \<and> path_starts_with p (in_location i))"

lemma resolves_dir_above_iff:
  "resolves_dir_above K q p \<longleftrightarrow> (\<exists>i. open_path_fd K q = Ok i \<and> in_is_dir i \<and> path_starts_with p (in_location i))"
  by (cases "open_path_fd K q") (simp_all add: resolves_dir_above_def)

definition dir_granted_above :: "LandlockKernel \<Rightarrow> path list \<Rightarrow> path \<Rightarrow> bool" where
  "dir_granted_above K qs p =
     list_ex (\<lambda>q. probe_exists (lk_probe K) q \<and> probe_is_dir (lk_probe K) q \<and> resolves_dir_above K q p) qs"

lemma dir_granted_above_iff:
  "dir_granted_above K qs p \<longleftrightarrow>
     (\<exists>q i. q \<in> set qs \<and> probe_exists (lk_probe K) q \<and> probe_is_dir (lk_probe K) q \<and> open_path_fd K q = Ok i \<and>
        in_is_dir i \<and> path_starts_with p (in_location i))"
  by (auto simp: dir_granted_above_def list_ex_iff resolves_dir_above_iff)

lemma modify_entry:
  fixes K abi ws rs strip bs cs
  defines "rules \<equiv> prs_rules (prepare_ruleset_with_net_for_abi (lk_probe K) abi ws rs strip bs cs)"
  assumes "x \<in> MODIFY_RIGHTS"
  shows "(\<exists>rule \<in> set rules. \<exists>e. (l, e) \<in> rule_entry K abi rule \<and> grants e x) \<longleftrightarrow>
    (\<exists>q i. q \<in> set ws \<and> probe_exists (lk_probe K) q \<and> probe_is_dir (lk_probe K) q \<and> open_path_fd K q = Ok i \<and>
       in_is_dir i \<and> l = in_location i)" (is "?lhs \<longleftrightarrow> ?rhs")
proof
  let ?W = "wanted_rights (lk_probe K) abi ws rs strip"
  have w: "grants (rights_at ?W q) x \<longleftrightarrow> probe_exists (lk_probe K) q \<and> q \<in> set ws" for q
    using assms(2) by (auto simp: wanted_access)
  note m = effective_rights_modify [OF assms(2)]
  {
    assume ?lhs
    then obtain rule e where r: "rule \<in> set rules" "(l, e) \<in> rule_entry K abi rule" "grants e x" by blast
    then obtain i where i: "open_path_fd K (pr_path rule) = Ok i" "l = in_location i"
      "e = effective_rights abi (in_is_dir i) (pr_access rule)"
      by (auto simp: rule_entry_def Let_def split: sum.splits if_splits)
    have "pr_access rule = effective_rights abi (probe_is_dir (lk_probe K) (pr_path rule)) (rights_at ?W (pr_path rule))"
      using r(1) unfolding rules_def prepared_rules_set Let_def by (cases rule) simp
    then show ?rhs using i r(3) w m by auto
  }
  assume ?rhs
  then obtain q i where q: "q \<in> set ws" "probe_exists (lk_probe K) q" "probe_is_dir (lk_probe K) q"
    "open_path_fd K q = Ok i" "in_is_dir i" "l = in_location i" by blast
  let ?e = "effective_rights abi (probe_is_dir (lk_probe K) q) (rights_at ?W q)"
  let ?rule = "\<lparr>pr_path = q, pr_access = ?e\<rparr>"
  have g: "grants ?e x" "grants (effective_rights abi (in_is_dir i) ?e) x" using q w m by simp_all
  then have nz: "?e \<noteq> 0" "effective_rights abi (in_is_dir i) ?e \<noteq> 0" by auto
  have "?rule \<in> set rules" using nz(1) unfolding rules_def prepared_rules_set Let_def by simp
  moreover have "(l, effective_rights abi (in_is_dir i) ?e) \<in> rule_entry K abi ?rule"
    using nz(2) by (simp add: rule_entry_def q(4,6) Let_def)
  ultimately show ?lhs using g(2) by blast
qed

lemma permits_modify:
  assumes "apply_policy_advanced K ws rs strip bs cs strict = Ok D" and "x \<in> MODIFY_RIGHTS"
  shows "domain_permits D p x \<longleftrightarrow> dir_granted_above K ws p"
proof -
  obtain detected abi installed where a: "dom_attr D = ruleset_attr abi (bs \<noteq> [] \<or> cs \<noteq> [] \<or> strict)"
    "set installed =
       (\<Union>rule \<in> set (prs_rules (prepare_ruleset_with_net_for_abi (lk_probe K) abi ws rs strip bs cs)). rule_entry K abi rule)"
    "dom_paths D = installed @ add_pty_whitelist K abi"
    using apply_ok [OF assms(1)] by metis
  have h: "grants (handled_access_fs (dom_attr D)) x" using assms(2) by (simp add: a(1) ruleset_attr_def)
  have "\<not> grants e x" if "(l, e) \<in> set (add_pty_whitelist K abi)" for l e
    using that pty_rights_access [OF assms(2)] by (auto elim: pty_whitelist_entry)
  then have "domain_permits D p x \<longleftrightarrow> (\<exists>l. path_starts_with p l \<and> (\<exists>e. (l, e) \<in> set installed \<and> grants e x))"
    using h by (auto simp: domain_permits_def list_ex_iff a(3))
  also have "\<dots> \<longleftrightarrow> (\<exists>l. path_starts_with p l \<and>
      (\<exists>rule \<in> set (prs_rules (prepare_ruleset_with_net_for_abi (lk_probe K) abi ws rs strip bs cs)).
         \<exists>e. (l, e) \<in> rule_entry K abi rule \<and> grants e x))"
    unfolding a(2) by blast
  also have "\<dots> \<longleftrightarrow> dir_granted_above K ws p"
    unfolding modify_entry [OF assms(2)] dir_granted_above_iff by blast
  finally show ?thesis .
qed

section \<open>Properties\<close>

text \<open>
  Property C13 (the kernel enforces what the policy grants). Once a process is restricted, it may
  read below every granted path that exists and opens, and nowhere else but on the terminal
  devices; write below every existing write path, and nowhere else but on the terminal devices;
  and create and remove entries, of each kind, exactly below the write paths that are
  directories. With reading stripped, as on the tier without mounts, write paths grant no
  reading.
\<close>

theorem landlock_confines_access:
  assumes "apply_policy_advanced K ws rs strip bs cs strict = Ok D"
  shows "(granted_above K (rs @ (if strip then [] else ws)) p \<longrightarrow> domain_permits D p READ_FILE) \<and>
    (domain_permits D p READ_FILE \<longrightarrow> granted_above K (rs @ (if strip then [] else ws) @ PTY_PATHS) p) \<and>
    (granted_above K ws p \<longrightarrow> domain_permits D p WRITE_FILE) \<and>
    (domain_permits D p WRITE_FILE \<longrightarrow> granted_above K (ws @ PTY_PATHS) p) \<and>
    (\<forall>x \<in> {REMOVE_DIR, REMOVE_FILE, MAKE_CHAR, MAKE_DIR, MAKE_REG, MAKE_SOCK, MAKE_FIFO, MAKE_BLOCK, MAKE_SYM}.
       domain_permits D p x \<longleftrightarrow> dir_granted_above K ws p)"
proof -
  have "READ_FILE \<noteq> WRITE_FILE" by (simp add: right_defs)
  then have "grants_paths ws rs strip READ_FILE = rs @ (if strip then [] else ws)"
    "grants_paths ws rs strip WRITE_FILE = ws" by (auto simp: grants_paths_def)
  then show ?thesis
    using permits_granted [OF assms, of READ_FILE p] permits_granted [OF assms, of WRITE_FILE p]
      permits_modify [OF assms, of _ p] unfolding MODIFY_RIGHTS_def by simp
qed

lemma port_or_grants:
  "list_ex (\<lambda>(m, a). m = n \<and> grants a x) (port_or p r xs) \<longleftrightarrow>
     list_ex (\<lambda>(m, a). m = n \<and> grants a x) xs \<or> n = p \<and> grants r x"
  by (induction p r xs rule: port_or.induct) auto

lemma fold_port_grants:
  "list_ex (\<lambda>(m, a). m = n \<and> grants a x) (fold (\<lambda>p. port_or p r) ps xs) \<longleftrightarrow>
     list_ex (\<lambda>(m, a). m = n \<and> grants a x) xs \<or> n \<in> set ps \<and> grants r x"
  by (induction ps arbitrary: xs) (auto simp: port_or_grants)

lemma net_rights [simp]:
  "grants NET_BIND_TCP NET_BIND_TCP" "grants NET_CONNECT_TCP NET_CONNECT_TCP"
  "\<not> grants NET_BIND_TCP NET_CONNECT_TCP" "\<not> grants NET_CONNECT_TCP NET_BIND_TCP"
  by (simp_all add: grants_def right_defs)

lemma strict_port_rules: "add_port_rules K True rules = Ok ports \<Longrightarrow> ports = rules"
  by (induction rules arbitrary: ports) (auto simp: and_then_def split: option.splits sum.splits)

text \<open>
  Property C14 (strict network isolation). A process restricted with strict network isolation may
  bind exactly the listed bind ports and connect exactly to the listed connect ports, each
  with no more than its own right; on a kernel that cannot enforce this it is never started.
\<close>

theorem strict_network_is_exact:
  assumes "apply_policy_advanced K ws rs strip bs cs True = Ok D"
  shows "(domain_permits_port D n NET_BIND_TCP \<longleftrightarrow> n \<in> set bs) \<and>
    (domain_permits_port D n NET_CONNECT_TCP \<longleftrightarrow> n \<in> set cs)"
proof -
  obtain detected abi where a: "dom_attr D = ruleset_attr abi True"
    "apply_net_port_rules K abi bs cs True = Ok (dom_ports D)"
    using apply_ok [OF assms] by simp metis
  then have abi: "abi \<ge> 4" and p: "add_port_rules K True (prepare_net_port_rules abi bs cs) = Ok (dom_ports D)"
    by (auto simp: apply_net_port_rules_def split: if_splits)
  have d: "dom_ports D = prepare_net_port_rules abi bs cs" by (rule strict_port_rules [OF p])
  have h: "grants (handled_access_net (dom_attr D)) NET_BIND_TCP" "grants (handled_access_net (dom_attr D)) NET_CONNECT_TCP"
    using abi by (simp_all add: a(1) ruleset_attr_def net_active_def handled_net_mask_def)
  show ?thesis
    using abi h by (simp add: domain_permits_port_def d prepare_net_port_rules_def fold_port_grants)
qed

text \<open>
  Rules on links are skipped, and a link is recognized by the text of the error, which quotes the
  path: a path with \<open>ELOOP\<close> in its name is skipped whatever went wrong.
\<close>

lemma contains_str_append: "contains_str s pat \<Longrightarrow> contains_str (xs @ s @ ys) pat"
  by (auto simp: contains_str_sublist intro: sublist_order.order_trans)

lemma failed_open_skipped_by_name:
  assumes "open_path_fd K (pr_path rule) = Err msg" and "contains_str (pr_path rule) ''ELOOP''"
  shows "install_rule K abi rule installed = Ok installed"
proof -
  obtain e where "msg = open_error_text K (pr_path rule) e"
    using assms(1) by (auto simp: open_path_fd_def split: sum.split_asm)
  then have "contains_str msg ''ELOOP''"
    unfolding open_error_text_def by (simp only: contains_str_append [OF assms(2)])
  then show ?thesis using assms(1) by (simp add: install_rule_def)
qed

text \<open>What \<open>openat2\<close> promises where it is available: it opens a path without links in place.\<close>

definition openat2_in_place :: "LandlockKernel \<Rightarrow> bool" where
  "openat2_in_place K \<longleftrightarrow>
     (\<forall>here. lk_cwd K = Some here \<longrightarrow> has_root here) \<and>
     (\<forall>b q e. lk_openat2 K b q = Err e \<longrightarrow> e \<noteq> ENOSYS \<and> e \<noteq> EPERM) \<and>
     (\<forall>q i. lk_openat2 K False q = Ok i \<longrightarrow> has_root q \<longrightarrow> ParentDir \<notin> set (components q) \<longrightarrow>
        components (in_location i) = components q) \<and>
     (\<forall>q i here. lk_openat2 K True q = Ok i \<longrightarrow> lk_cwd K = Some here \<longrightarrow> \<not> has_root q \<longrightarrow>
        ParentDir \<notin> set (components q) \<longrightarrow> components (in_location i) = components here @ components q)"

lemma components_pushed_names:
  "\<forall>n \<in> set ns. valid_name n \<Longrightarrow> components (foldl path_push [] ns) = map Normal ns"
  by (induction ns rule: rev_induct) (simp_all add: components_push_name)

lemma stripped_components:
  assumes "strip_path_prefix q here = Some r" and "has_root here" and "ParentDir \<notin> set (components q)"
  shows "components q = components here @ components r" "\<not> has_root r" "ParentDir \<notin> set (components r)"
proof -
  obtain cs where cs: "components q = components here @ cs"
    and r: "r = foldl path_push [] (map as_os_str cs)"
    using assms(1) by (auto simp: strip_path_prefix_def path_starts_with_def prefix_def split: if_splits)
  have q: "has_root q" using cs assms(2) by (auto simp: has_root_iff)
  obtain hs where hs: "components here = RootDir # hs" using assms(2) by (auto simp: has_root_iff)
  have "set (tl (components q)) \<subseteq> {ParentDir} \<union> range Normal"
    using components_structure [of q] q by (auto simp: has_root_iff)
  then have "set cs \<subseteq> range Normal" using assms(3) by (auto simp: cs hs)
  then obtain ns where ns: "cs = map Normal ns" by (metis ex_map_conv subset_iff rangeE)
  have "\<forall>n \<in> set ns. valid_name n" using components_normal [of _ q] by (auto simp: cs ns)
  then have "components r = cs" using components_pushed_names by (simp add: r ns comp_def)
  then show "components q = components here @ components r" "\<not> has_root r" "ParentDir \<notin> set (components r)"
    using cs ns by (auto simp: has_root_iff)
qed

lemma openat2_only:
  assumes "openat2_in_place K"
  shows "open_landlock_path_fd K q = Ok i \<Longrightarrow> lk_openat2 K False q = Ok i"
    "open_landlock_path_fd_beneath K q = Ok i \<Longrightarrow> lk_openat2 K True q = Ok i"
  using assms
  by (auto simp: openat2_in_place_def open_landlock_path_fd_def open_landlock_path_fd_beneath_def
      split: if_split_asm sum.split_asm)

lemma opened_in_place:
  assumes k: "openat2_in_place K" and "open_path_fd K q = Ok i" and "has_root q" and "ParentDir \<notin> set (components q)"
  shows "components (in_location i) = components q"
proof -
  have direct: ?thesis if "open_landlock_path_fd K q = Ok i"
    using k openat2_only(1) [OF k that] assms(3,4) by (simp add: openat2_in_place_def)
  show ?thesis
  proof (cases "lk_cwd K")
    case None
    then show ?thesis using assms(2,3) direct by (auto simp: open_path_fd_def split: sum.split_asm)
  next
    case (Some here)
    have here: "has_root here" using k Some by (simp add: openat2_in_place_def)
    show ?thesis
    proof (cases "strip_path_prefix q here")
      case None
      then show ?thesis using Some assms(2,3) direct by (auto simp: open_path_fd_def split: sum.split_asm)
    next
      case (Some r)
      consider "open_landlock_path_fd K q = Ok i" | "open_landlock_path_fd_beneath K r = Ok i"
        using \<open>lk_cwd K = Some here\<close> Some assms(2,3)
        by (auto simp: open_path_fd_def or_else_open_def split: sum.split_asm if_split_asm)
      then show ?thesis
      proof cases
        case 1
        then show ?thesis by (rule direct)
      next
        case 2
        from openat2_only(2) [OF k this] k \<open>lk_cwd K = Some here\<close> stripped_components [OF Some here assms(4)]
        show ?thesis by (simp add: openat2_in_place_def)
      qed
    qed
  qed
qed


lemma pty_paths_rooted: "\<forall>q \<in> set PTY_PATHS. has_root q \<and> ParentDir \<notin> set (components q)"
  by code_simp

text \<open>
  Property C5 (secrets of the tree stay unreadable). On the tier without mounts, from the layers
  to the kernel: once a process is restricted with a policy that was built, it can read nothing
  below a write root that has the shape of a secret, is a symbolic link, or is denied by any
  entry (the agent's own root apart). This is for write roots that are rooted directories
  without parent components, no temporary directory, and overlapped by no other write entry;
  for paths that lie at or below no allowed socket and no terminal device, both of which are
  granted on purpose; when the read paths are rooted and without parent components, when a
  directory's listing gives its entries by name, and where \<open>openat2\<close> is available and opens
  paths without following links.
\<close>

theorem fs_only_secrets_unreadable:
  assumes "lists_children host" and "build_policy host profile custom project home TierFsOnly m agent = Ok pol"
    and "restrict_child K True pol = Ok D" and "openat2_in_place K"
    and "\<forall>g. names_path host (loader_vars host project home) agent (m_allow_unix_sockets m) g \<longrightarrow> \<not> path_starts_with s g"
    and "\<forall>g \<in> set (allow_read pol). has_root g \<and> ParentDir \<notin> set (components g)"
    and "d \<in> set (allow_write pol)" and "\<not> is_temp_root d" and "lstat host d = Ok Directory"
    and "has_root d" and "ParentDir \<notin> set (components d)" and "below host d s"
    and "\<forall>r. stands_for host (loader_vars host project home) agent (m_allow_write m) r \<longrightarrow> r = d \<or> \<not> paths_overlap r d"
    and "is_secret_shaped s \<or> lstat host s = Ok Symlink \<or>
      names_path host (loader_vars host project home) agent (all_deny_entries m) s \<and> \<not> is_agent agent s"
    and "\<forall>q \<in> set PTY_PATHS. \<not> path_starts_with s q"
  shows "\<not> domain_permits D s READ_FILE"
proof
  let ?socket = "names_path host (loader_vars host project home) agent (m_allow_unix_sockets m)"
  assume "domain_permits D s READ_FILE"
  then have "granted_above K (allow_read pol @ PTY_PATHS) s"
    using permits_granted(2) [OF assms(3) [unfolded restrict_child_def], of READ_FILE s] by (simp add: grants_paths_def)
  then obtain q i where q: "q \<in> set (allow_read pol) \<or> q \<in> set PTY_PATHS" "open_path_fd K q = Ok i"
    "path_starts_with s (in_location i)"
    by (auto simp: granted_above_def list_ex_iff resolves_above_iff)
  have "has_root q \<and> ParentDir \<notin> set (components q)" using q(1) assms(6) pty_paths_rooted by blast
  then have c: "path_starts_with s q" using opened_in_place [OF assms(4) q(2)] q(3) by (simp add: path_starts_with_def)
  have d: "\<not> ?socket d" using assms(5) below_starts_with [OF assms(1,12)] by blast
  have "\<not> path_starts_with s q" if "q \<in> set (allow_read pol)"
    using fs_only_policy_hides_secrets [OF assms(1,2,7-12) that _ d _ assms(13,14)] that assms(5,6) c by blast
  then show False using q(1) assms(15) c by blast
qed

section \<open>An example\<close>

text \<open>A kernel of a given version, on which every system call succeeds.\<close>

definition sample_kernel :: "nat \<Rightarrow> LandlockKernel" where
  "sample_kernel abi =
     \<lparr>lk_abi = Some abi, lk_create = (\<lambda>_ _. None),
      lk_openat2 = (\<lambda>_ p. Ok \<lparr>in_location = p, in_is_dir = True, in_is_link = False\<rparr>),
      lk_openat = (\<lambda>_. Err ENOSYS), lk_add_path = (\<lambda>_ _. None), lk_add_port = (\<lambda>_ _. None),
      lk_no_new_privs = None, lk_restrict = None, lk_strerror = (\<lambda>_. []), lk_cwd = None,
      lk_probe = \<lparr>probe_exists = (\<lambda>_. True), probe_is_dir = (\<lambda>_. True)\<rparr>\<rparr>"

lemma sample_in_place: "openat2_in_place (sample_kernel abi)"
  by (simp add: openat2_in_place_def sample_kernel_def)

lemma sample_opens:
  "CHR 0x00 \<notin> set p \<Longrightarrow> has_root p \<Longrightarrow>
     open_path_fd (sample_kernel abi) p = Ok \<lparr>in_location = p, in_is_dir = True, in_is_link = False\<rparr>"
  by (simp add: open_path_fd_def open_landlock_path_fd_def sample_kernel_def)

lemma sample_installs:
  "\<forall>r \<in> set rules. CHR 0x00 \<notin> set (pr_path r) \<and> has_root (pr_path r) \<Longrightarrow>
     \<exists>installed. fold_result (install_rule (sample_kernel abi) abi) rules xs = Ok installed"
proof (induction rules arbitrary: xs)
  case (Cons r rules)
  have "lk_add_path (sample_kernel abi) i a = None" for i a by (simp add: sample_kernel_def)
  then have "\<exists>ys. install_rule (sample_kernel abi) abi r xs = Ok ys"
    using Cons.prems sample_opens by (simp add: install_rule_def Let_def)
  with Cons show ?case by auto
qed simp

lemma sample_ports: "\<exists>ports. add_port_rules (sample_kernel abi) strict rules = Ok ports"
  by (induction rules) (auto simp: sample_kernel_def)

lemma prepared_rule_path:
  assumes "rule \<in> set (prs_rules (prepare_ruleset_with_net_for_abi h abi ws rs strip bs cs))"
  shows "pr_path rule \<in> set (ws @ rs)"
proof -
  have g: "grants a (- 1) \<longleftrightarrow> a \<noteq> 0" for a by (simp add: grants_def)
  have "rights_at (wanted_rights h abi ws rs strip) (pr_path rule) \<noteq> 0"
    using assms unfolding prepared_rules_set by (auto simp: effective_rights_def Let_def split: if_splits)
  then show ?thesis
    unfolding g [symmetric] wanted_rights_def rights_at_fold by (auto simp: rights_at_def)
qed

lemma sample_applies:
  assumes "\<forall>q \<in> set (ws @ rs). CHR 0x00 \<notin> set q \<and> has_root q" and "abi \<ge> 4"
  shows "\<exists>D. apply_policy_advanced (sample_kernel abi) ws rs strip bs cs strict = Ok D"
proof -
  let ?K = "sample_kernel abi"
  let ?rules = "prs_rules (prepare_ruleset_with_net_for_abi (lk_probe ?K) abi ws rs strip bs cs)"
  have "rule \<in> set ?rules \<Longrightarrow> pr_path rule \<in> set (ws @ rs)" for rule
    using prepared_rule_path by fastforce
  then obtain installed where i: "fold_result (install_rule ?K abi) ?rules [] = Ok installed"
    using sample_installs [of ?rules abi "[]"] assms(1) by blast
  have c: "create_ruleset_dynamic ?K abi h = Ok (ruleset_attr abi h, abi, net_active abi h)" for h
    by (subst create_ruleset_dynamic.simps) (simp add: sample_kernel_def)
  obtain ports where "apply_net_port_rules ?K abi bs cs strict = Ok ports"
    using assms(2) sample_ports by (fastforce simp: apply_net_port_rules_def)
  moreover have "lk_abi ?K = Some abi" "lk_no_new_privs ?K = None" "lk_restrict ?K = None"
    by (simp_all add: sample_kernel_def)
  ultimately show ?thesis using i by (simp add: apply_policy_advanced_def c Let_def)
qed

theorem landlock_confines_access_witness:
  "\<exists>D. apply_policy_advanced (sample_kernel 5) [''/w''] [''/r''] True [] [] False = Ok D \<and>
     domain_permits D ''/r/f'' READ_FILE \<and> \<not> domain_permits D ''/w/f'' READ_FILE \<and>
     domain_permits D ''/w/f'' WRITE_FILE \<and> domain_permits D ''/w/f'' MAKE_REG \<and> \<not> domain_permits D ''/r/f'' MAKE_REG"
proof -
  let ?K = "sample_kernel 5"
  obtain D where D: "apply_policy_advanced ?K [''/w''] [''/r''] True [] [] False = Ok D"
    using sample_applies [of "[''/w'']" "[''/r'']" 5 True "[]" "[]" False] by (auto simp: has_root_def is_sep_def)
  have "granted_above ?K [''/r''] ''/r/f''" "granted_above ?K [''/w''] ''/w/f''" "\<not> dir_granted_above ?K [''/w''] ''/r/f''"
    "dir_granted_above ?K [''/w''] ''/w/f''"
    "\<not> granted_above ?K ([''/r''] @ PTY_PATHS) ''/w/f''"
    by code_simp+
  then show ?thesis
    using D landlock_confines_access [OF D, of "''/r/f''"] landlock_confines_access [OF D, of "''/w/f''"] by auto
qed

theorem strict_network_is_exact_witness:
  "\<exists>D. apply_policy_advanced (sample_kernel 4) [] [''/r''] False [80] [443] True = Ok D \<and>
     domain_permits_port D 80 NET_BIND_TCP \<and> \<not> domain_permits_port D 80 NET_CONNECT_TCP"
proof -
  obtain D where D: "apply_policy_advanced (sample_kernel 4) [] [''/r''] False [80] [443] True = Ok D"
    using sample_applies [of "[]" "[''/r'']" 4 False "[80]" "[443]" True] by (auto simp: has_root_def is_sep_def)
  with strict_network_is_exact [OF D, of 80] show ?thesis by auto
qed

lemma masked_project:
  "below project_host ''/p'' ''/p/.env''" "\<not> is_temp_root ''/p''" "lstat project_host ''/p'' = Ok Directory"
  "has_root ''/p''" "ParentDir \<notin> set (components ''/p'')"
  "\<forall>q. stands_for project_host (loader_vars project_host ''/p'' ''/home/u'') None (m_allow_write masked_merged) q \<longrightarrow>
     q = ''/p'' \<or> \<not> paths_overlap q ''/p''"
proof -
  have "resolve_entry_with_agent project_host ''$PROJECT'' (loader_vars project_host ''/p'' ''/home/u'') None = [''/p'']"
    by code_simp
  then show "\<forall>q. stands_for project_host (loader_vars project_host ''/p'' ''/home/u'') None (m_allow_write masked_merged) q \<longrightarrow>
     q = ''/p'' \<or> \<not> paths_overlap q ''/p''" by (simp add: stands_for_def masked_merged_def)
  show "below project_host ''/p'' ''/p/.env''" by (rule below_child) (simp add: project_children)
qed code_simp+

theorem fs_only_secrets_unreadable_witness:
  "\<exists>pol D. build_policy project_host ''default'' False ''/p'' ''/home/u'' TierFsOnly masked_merged None = Ok pol \<and>
     restrict_child (sample_kernel 5) True pol = Ok D \<and>
     below project_host ''/p'' ''/p/.env'' \<and> \<not> domain_permits D ''/p/.env'' READ_FILE"
proof -
  obtain pol where b: "build_policy project_host ''default'' False ''/p'' ''/home/u'' TierFsOnly masked_merged None = Ok pol"
    "allow_write pol = [''/p'']" "allow_read pol = [''/p/lib'', ''/p/main.rs'', ''/usr'']"
    using masked_built by (auto split: sum.splits)
  have r: "\<forall>q \<in> set ([''/p''] @ [''/p/lib'', ''/p/main.rs'', ''/usr'']). CHR 0x00 \<notin> set q \<and> has_root q"
    by code_simp
  obtain D where D: "restrict_child (sample_kernel 5) True pol = Ok D"
    using sample_applies [OF r] unfolding restrict_child_def b(2,3) by fastforce
  have g: "\<forall>g \<in> set (allow_read pol). has_root g \<and> ParentDir \<notin> set (components g)" unfolding b(3) by code_simp
  have s: "is_secret_shaped ''/p/.env''" "\<forall>q \<in> set PTY_PATHS. \<not> path_starts_with ''/p/.env'' q" by code_simp+
  have m: "\<forall>g. names_path project_host (loader_vars project_host ''/p'' ''/home/u'') None
      (m_allow_unix_sockets masked_merged) g \<longrightarrow> \<not> path_starts_with ''/p/.env'' g"
    by (simp add: names_path_def masked_merged_def empty_merged_def)
  have w: "''/p'' \<in> set (allow_write pol)" by (simp add: b(2))
  show ?thesis
    using b(1) D masked_project(1) fs_only_secrets_unreadable [OF project_lists_children b(1) D sample_in_place m g w
      masked_project(2-5) masked_project(1) masked_project(6) disjI1 [OF s(1)] s(2)] by blast
qed
end
