(* ===== verification/Spec2Isabelle.thy ===== *)
theory Spec2Isabelle
  imports Fsm Request LimitMerge Authorize Compiler Seccomp Sni Loader Teardown EnvFilter LandlockRules
begin

text \<open>
  A verification development of vetto, a sandbox that runs coding agents under a policy.

  The program takes a policy from several layers (\<open>src/src/policy\<close>), compiles it into a sealed
  contract (\<open>src/src/policy_ir\<close>), drives a run through a lifecycle machine
  (\<open>policy_ir/fsm.rs\<close>), and enforces the contract: a capability gate decides on file, process
  and network actions, a seccomp filter denies system calls, and an egress broker decides on
  destinations (\<open>src/src/sandbox\<close>).

  Theories and the code they model:

  \<^item> \<open>Prelude\<close>: results, strings, lists without duplicates, host labels, and the locale
    \<open>inductive_invariant\<close> for invariants of step relations.
  \<^item> \<open>Fsm\<close>: \<open>ExecutionState\<close> and \<open>ExecutionStateMachine\<close> of \<open>policy_ir/fsm.rs\<close>: the transition
    table, the extinction guard and the fail-closed routes. Reachable machines stage
    isolation before a child, refine an abstract machine of phases, and once failed never run again.
  \<^item> \<open>Paths\<close>: \<open>std::path\<close> on Unix and \<open>lexical_normalize\<close> of \<open>policy/types.rs\<close>; the locale
    \<open>containment\<close> gives the laws of a prefix order on paths.
  \<^item> \<open>Request\<close>: \<open>policy_ir/mod.rs\<close>, the request compiler with its validation.
  \<^item> \<open>IpAddr\<close>: the address parser of the standard library, CIDR blocks and the classification
    of destinations in \<open>sandbox/linux/net_relay.rs\<close>.
  \<^item> \<open>F64\<close>: the fragment of binary64 arithmetic the quantity parsers use.
  \<^item> \<open>LimitMerge\<close>: byte, CPU and process quantities of \<open>policy/types.rs\<close> and the merge of limits;
    the locale \<open>strictest_merge\<close> is interpreted on each merge.
  \<^item> \<open>PolicyTypes\<close>: the policy record of \<open>policy/types.rs\<close>, its environment filter and scopes.
  \<^item> \<open>Blake3\<close>: the hasher inside \<open>policy_ir/contract.rs\<close>, shown to compute the BLAKE3 tree.
  \<^item> \<open>Contract\<close>: sealing and verification of contracts; JSON and SHA-256 are parameters.
  \<^item> \<open>Authorize\<close>: \<open>authorize_action\<close> of \<open>policy_ir/compiler.rs\<close>, the exact decision for each
    kind of action.
  \<^item> \<open>Compiler\<close>: \<open>compile_effective\<close> and \<open>compile\<close> of \<open>policy_ir/compiler.rs\<close>; the filesystem,
    the home directory and the nonce are fields of \<open>HostEnv\<close>.
  \<^item> \<open>Seccomp\<close>: the BPF program builder of \<open>sandbox/linux/seccomp_netblock.rs\<close> with an
    interpreter for the instructions it emits.
  \<^item> \<open>Relay\<close>: the egress broker of \<open>sandbox/linux/net_relay.rs\<close> and the debug port guard of
    \<open>debug_guard.rs\<close>: admission of requests, confirmation, quotas, proxies and the addresses
    dialled; name resolution, dialling and the terminal are arguments. A proxy's name is resolved
    once more when it is dialled, which is inside the argument \<open>dial_proxy\<close>.
  \<^item> \<open>Sni\<close>: \<open>extract_sni\<close> with its panics, \<open>validate_sni_host\<close> and the client's direction of
    \<open>forward_data_tunnel\<close>: the loop that holds a tunnel to port 443 back until a server name is
    seen, and the pump behind it. The pump from the server and the quota counters are left out.
  \<^item> \<open>Schema\<close>: the sections of a policy layer (\<open>policy/loader/schema.rs\<close>), network presets and
    quota values, and the record \<open>LoaderHost\<close> of what the loader asks the host: files, links,
    environment variables, globs, and the TOML parser.
  \<^item> \<open>Presets\<close>: the tables of agents, allowlists, security presets and deny presets of
    \<open>policy/presets.rs\<close>, \<open>policy/defaults.rs\<close> and \<open>policy/loader/resolve.rs\<close>.
  \<^item> \<open>Merge\<close>: \<open>MergedPolicy\<close> of \<open>policy/loader/merge.rs\<close>: one function per section of a layer,
    inheritance from built-in profiles, overrides and deduplication. The locale
    \<open>layer_order\<close> states what it takes for a relation on merged policies to survive a whole
    merge, and is interpreted for denials, limits, the lockdown and the network.
  \<^item> \<open>Enumerate\<close>: \<open>policy/glob_resolve.rs\<close> and the masking of project reads of
    \<open>policy/loader/resolve.rs\<close>: what is granted on the tier without mounts covers no secret.
  \<^item> \<open>Resolve\<close>: \<open>build_policy\<close> of \<open>policy/loader/resolve.rs\<close> and \<open>policy/checker.rs\<close>: entries become
    paths, denied paths are subtracted, missing and system roots are dropped or refused.
  \<^item> \<open>Loader\<close>: the seven tiers of \<open>policy/loader/merge.rs\<close>; the locale \<open>load_order\<close> carries an
    order on merged policies through a whole load, for denials and for limits.
  \<^item> \<open>Verdicts\<close>: \<open>proctree.rs\<close>, \<open>audit/verdict.rs\<close>, \<open>exit_codes.rs\<close>, \<open>error.rs\<close>,
    \<open>supervise/error.rs\<close> and the decisions of \<open>supervise/finalize.rs\<close> and
    \<open>rescue/ephemeral.rs\<close>: the tables of verdicts and exit codes, and what the signature check
    establishes.
  \<^item> \<open>Ledger\<close>: the records of \<open>audit/record.rs\<close> and the hash-chained ledger of
    \<open>audit/ledger.rs\<close>, over JSON values; the printer and parser of serde_json and SHA-256 are the
    record \<open>Serde\<close>, whose documented laws are \<open>serde_ok\<close>. The locale \<open>hash_chain\<close> carries the
    argument that the last hash binds every record.
  \<^item> \<open>Capability\<close>: reports, backends, the platform matrix and the scenarios of
    \<open>sandbox/capability.rs\<close>; the locale \<open>backend_notes\<close> states how a report may evolve and is
    interpreted on each backend and on their union. The target system is an argument.
  \<^item> \<open>Teardown\<close>: \<open>finish\<close> of \<open>sandbox/production/lifecycle.rs\<close>, the end of a session over all four
    parts above and the state machine, and what \<open>supervise/lifecycle.rs\<close> hands on: failing
    closed is final. Writes to the ledger file are taken to succeed.
  \<^item> \<open>EnvFilter\<close>: \<open>sandbox/envfilter.rs\<close>, \<open>build_production_env\<close> and the preflight checks of
    \<open>supervise/spawn.rs\<close>; the wildcard loop is a \<open>while_option\<close>, shown to return and to decide the
    meaning of a pattern. Unicode upper case and the verification battery are arguments.
  \<^item> \<open>LandlockRules\<close>: \<open>sandbox/linux/landlock.rs\<close>, from the granted paths and ports to the domain a
    process is restricted to, with the system calls as the record \<open>LandlockKernel\<close>. A restricted
    process may do exactly what the rules grant, and on the tier without mounts it cannot read a
    secret of the tree: the composition of the resolver with this layer.

  This theory states the properties that span components: what a policy that compiles
  guarantees of every decision the gate then takes, and that an absolute path a policy
  file denies, in any layer, is out of reach of the gate at the end. Denied entries that stay
  relative are missed by the gate, which \<open>relative_denial_missed\<close> shows.

  Bounds. All loops are total functions: the ascent to an existing ancestor decreases the
  number of components, the hasher the input, the interpreter of a filter runs forward only.
  Lengths and counters of the hasher are natural numbers (a counter of \<open>2 ^ 64\<close> chunks is out
  of reach); integers whose overflow matters are words, or carry an explicit bound.

  Not modelled: the Windows and macOS sandboxes beyond their capability backends, namespaces,
  mounts, signals, spawning and process control, terminals, the user interface, TOML and JSON
  parsing, git, the frozen specification of a run, and all reporting: most of it calls the
  host or libraries and holds little logic of its own.
\<close>

section \<open>A compiled contract is rooted\<close>

text \<open>The paths the compiler copies without resolving them are rooted: the loader expands
  them before, and the home directory is absolute.\<close>

definition rooted_input :: "HostEnv \<Rightarrow> EffectivePolicyInput \<Rightarrow> bool" where
  "rooted_input env inp \<longleftrightarrow>
     (case home_dir env of None \<Rightarrow> True | Some h \<Rightarrow> has_root h) \<and>
     list_all (has_root \<circ> deny_path) (deny_resolved (in_policy inp)) \<and>
     list_all has_root (deny_read (in_policy inp)) \<and> list_all has_root (deny_write (in_policy inp))"

lemma effective_masks_rooted:
  assumes "rooted_input env inp" and "has_root ws"
  shows "list_all has_root (effective_masks env ws (in_policy inp))"
proof -
  have "has_root (path_join h x)" if "h = (case home_dir env of Some h \<Rightarrow> h | None \<Rightarrow> ''/root'')" for h x
    using assms(1) that by (intro has_root_join) (auto simp: rooted_input_def split: option.splits)
  then have "has_root m" if "m \<in> set (mandatory_masks env ws)" for m
    using that has_root_join [OF assms(2)] by (auto simp: mandatory_masks_def Let_def)
  then show ?thesis
    using assms(1) fold_push_unique_set [of "map deny_path (deny_resolved (in_policy inp))" path_eq
        "mandatory_masks env ws"]
    by (fastforce simp: effective_masks_def rooted_input_def list_all_iff)
qed

lemma compiled_contract_rooted:
  assumes "host_ok env" and "canonical (cwd inp)" and "rooted_input env inp"
    and "compile_effective env inp = Ok c"
  shows "rooted_contract c"
proof -
  obtain writes pids wall where
    w: "fold_result (push_resolved env (cwd inp)) (allow_write (in_policy inp)) [] = Ok writes" and
    s: "seal (codec env) (effective_contract env inp
       (fold (\<lambda>p. push_unique path_eq (resolve_read (cwd inp) p)) (allow_read (in_policy inp)) [])
       writes pids wall) = Ok c"
    using compile_effective_form [OF assms(4)] .
  note f = seal_fields [OF s] effective_contract_fields
  have ws: "has_root (cwd inp)" using assms(2) by (simp add: canonical_def)
  have d: "contract_deny_read c = deny_read (in_policy inp)" "contract_deny_write c = deny_write (in_policy inp)"
    using effective_contract_fields(11) [of env inp
        "fold (\<lambda>p. push_unique path_eq (resolve_read (cwd inp) p)) (allow_read (in_policy inp)) []"
        writes pids wall] f(1)
    by (auto simp: contract_deny_read_def contract_deny_write_def)
  have "has_root (resolve_read (cwd inp) p)" for p
    unfolding resolve_read_def by (rule lexical_normalize_rooted) (simp add: has_root_join ws)
  then have r: "list_all has_root (fs_allow_read (filesystem c))"
    unfolding f by (intro fold_push_unique_all) simp_all
  have "\<forall>p \<in> set (allow_write (in_policy inp)). \<not> has_traversal p"
    using compile_effective_ok [OF assms(4)] .
  then have "canonical w" if "w \<in> set writes" for w
    using push_resolved_fold [OF w] that resolve_write_safe(1) [OF assms(1,2)] by blast
  then have "has_root w" if "w \<in> set writes" for w using that by (simp add: canonical_def)
  then have "list_all has_root (fs_allow_write (filesystem c))" unfolding f by (simp add: list_all_iff)
  then show ?thesis
    using r ws assms(3) effective_masks_rooted [OF assms(3) ws] effective_execute_rooted
    by (simp add: rooted_contract_def d rooted_input_def) (simp add: f)
qed

lemma canonical_names: "canonical w \<Longrightarrow> components w = RootDir # map Normal (names w)"
  using norm_comps [of w] lexical_normalize_canonical [of w] canonical_iff [of w]
  by (auto simp: canonical_def)

lemma unprotected_below:
  assumes "is_forbidden_system_root w \<longrightarrow> path_starts_with w ''/dev/null''" and "canonical w"
    and "prefix (names w) t" and "protected_names t"
  shows "prefix [''dev'', ''null''] t"
proof (cases "protected_names (names w)")
  case True
  then have "path_starts_with w ''/dev/null''"
    using assms(1) forbidden_iff [OF canonical_names [OF assms(2)]] by simp
  then have "prefix (map Normal [''dev'', ''null'']) (map Normal (names w))"
    by (simp add: path_starts_with_def system_root_comps canonical_names [OF assms(2)])
  then show ?thesis using assms(3) prefix_order.trans prefix_map_Normal by blast
next
  case False
  obtain ns where t: "t = names w @ ns" using assms(3) by (auto simp: prefix_def)
  then have "names w = [''dev'', ''null'']" using protected_names_append [OF False] assms(4) by simp
  with t show ?thesis by simp
qed

lemma path_eq_names: "path_eq p q \<Longrightarrow> names p = names q"
  by (simp add: path_eq_def names_def)

text \<open>The masks of a compiled contract are out of reach of the gate.\<close>

lemma compiled_masks:
  assumes "compile_effective env inp = Ok c"
    and "m \<in> set (mandatory_masks env (cwd inp)) \<union> set (map deny_path (deny_resolved (in_policy inp)))"
  shows "\<exists>m' \<in> set (mask_paths (filesystem c)). names m = names m'"
proof -
  obtain writes pids wall where s: "seal (codec env) (effective_contract env inp
       (fold (\<lambda>p. push_unique path_eq (resolve_read (cwd inp) p)) (allow_read (in_policy inp)) [])
       writes pids wall) = Ok c"
    using compile_effective_form [OF assms(1)] .
  show ?thesis
    using effective_masks_cover [of m env "cwd inp" "in_policy inp"] assms(2) path_eq_names
    unfolding seal_fields [OF s] effective_contract_fields by blast
qed

lemma compiled_workspace:
  assumes "compile_effective env inp = Ok c"
  shows "workspace_root (filesystem c) = cwd inp"
proof -
  obtain writes pids wall where s: "seal (codec env) (effective_contract env inp
       (fold (\<lambda>p. push_unique path_eq (resolve_read (cwd inp) p)) (allow_read (in_policy inp)) [])
       writes pids wall) = Ok c"
    using compile_effective_form [OF assms(1)] .
  show ?thesis unfolding seal_fields [OF s] effective_contract_fields by simp
qed

text \<open>A rooted mask is enforced whatever the other masks are.\<close>

lemma compiled_mask_rooted:
  assumes "compile_effective env inp = Ok c" and "has_root m"
    and "m \<in> set (mandatory_masks env (cwd inp)) \<union> set (map deny_path (deny_resolved (in_policy inp)))"
  obtains m' where "m' \<in> set (mask_paths (filesystem c))" "has_root m'" "names m' = names m"
proof -
  obtain writes pids wall where s: "seal (codec env) (effective_contract env inp
       (fold (\<lambda>p. push_unique path_eq (resolve_read (cwd inp) p)) (allow_read (in_policy inp)) [])
       writes pids wall) = Ok c"
    using compile_effective_form [OF assms(1)] .
  obtain m' where m': "m' \<in> set (mask_paths (filesystem c))" "path_eq m m'"
    using effective_masks_cover [of m env "cwd inp" "in_policy inp"] assms(3)
    unfolding seal_fields [OF s] effective_contract_fields by blast
  show ?thesis
    by (rule that [OF m'(1)]) (use m'(2) assms(2) in \<open>auto simp: has_root_iff path_eq_def names_def\<close>)
qed

lemma mask_blocks:
  assumes "has_root (workspace_root (filesystem c))" and "m \<in> set (mask_paths (filesystem c))" and "has_root m"
    and "prefix (names m) (denotes (workspace_root (filesystem c)) t)"
  shows "\<not> is_allowed (authorize_fs_write c t)" "\<not> is_allowed (authorize_fs_read c t)"
proof -
  let ?ws = "workspace_root (filesystem c)"
  let ?n = "lexical_normalize (path_join ?ws t)"
  have u: "eq_or_under ?n (lexical_normalize m)"
    using norm_under [OF has_root_join [OF assms(1)] assms(3)] assms(4) by (simp add: eq_or_under_iff denotes_def)
  have "first_under ?n (mask_paths (filesystem c)) \<noteq> None"
    "first_colliding (lexical_normalize ?ws) ?n (mask_paths (filesystem c)) \<noteq> None"
    using u assms(2) unfolding first_under_def first_colliding_def find_None_iff Let_def by blast+
  then obtain a b where "first_under ?n (mask_paths (filesystem c)) = Some a"
    "first_colliding (lexical_normalize ?ws) ?n (mask_paths (filesystem c)) = Some b" by blast
  then show "\<not> is_allowed (authorize_fs_write c t)" "\<not> is_allowed (authorize_fs_read c t)"
    unfolding authorize_fs_write_def authorize_fs_read_def Let_def resolve_denotes [OF assms(1)] prod.case
    by simp_all
qed

lemma gate_hides_denied:
  assumes "canonical (cwd inp)" and "compile_effective env inp = Ok c" and "has_root m"
    and "m \<in> set (mandatory_masks env (cwd inp)) \<union> set (map deny_path (deny_resolved (in_policy inp)))"
    and "prefix (names m) (denotes (cwd inp) t)"
  shows "\<not> is_allowed (authorize_action c (FsWrite t))" "\<not> is_allowed (authorize_action c (FsRead t))"
proof -
  obtain m' where m': "m' \<in> set (mask_paths (filesystem c))" "has_root m'" "names m' = names m"
    by (rule compiled_mask_rooted [OF assms(2-4)])
  have "has_root (workspace_root (filesystem c))"
    using assms(1) compiled_workspace [OF assms(2)] by (simp add: canonical_def)
  from mask_blocks [OF this m'(1,2), of t] assms(5) m'(3)
  show "\<not> is_allowed (authorize_action c (FsWrite t))" "\<not> is_allowed (authorize_action c (FsRead t))"
    by (simp_all add: compiled_workspace [OF assms(2)])
qed

lemma sample_rooted: "rooted_input sample_host sample_input"
  by (simp add: rooted_input_def sample_host_def sample_input_def default_policy_def)

definition strict_input :: EffectivePolicyInput where
  "strict_input = sample_input\<lparr>in_net := NetStrict
     [\<lparr>rule_domain = ''a.org'', rule_port = 443\<rparr>, \<lparr>rule_domain = ''b.org'', rule_port = 22\<rparr>]\<rparr>"

definition org_env :: HostEnv where
  "org_env = sample_host\<lparr>fs_exists := (\<lambda>p. path_eq p ''/'' \<or> path_eq p ''/p''),
     fs_canonicalize := (\<lambda>p. if path_eq p ''/'' then Ok ''/'' else if path_eq p ''/p'' then Ok ''/p'' else Err ''not found'')\<rparr>"

lemma org_env_ok: "host_ok org_env"
proof -
  have "canonical ''/''" "canonical ''/p''" by code_simp+
  then show ?thesis by (auto simp: host_ok_def org_env_def path_eq_def system_root_comps split: if_splits)
qed

lemma org_compiles_with:
  assumes "allow_write pol = [''/p'']" and "allow_read pol = []" and "limits pol = no_limits" and "cgroup pol = None"
    and "check_masks ''/p'' [''/p''] (effective_masks org_env ''/p'' pol) = Ok ()"
    and "check_deny_write [''/p''] (deny_write pol) = Ok ()"
  shows "\<exists>c. compile_effective org_env (sample_input\<lparr>in_policy := pol, cwd := ''/p''\<rparr>) = Ok c"
proof -
  let ?i = "sample_input\<lparr>in_policy := pol, cwd := ''/p''\<rparr>"
  have t: "check_all (check_traversal ''Write'') [''/p''] = Ok ()"
    "fold_result (push_resolved org_env ''/p'') [''/p''] [] = Ok [''/p'']"
    by code_simp+
  have p: "resolve_max_pids pol = Ok 0"
    using assms by (simp add: resolve_max_pids_def no_limits_def positive_def)
  have s: "\<exists>c. seal (codec org_env) u = Ok c" for u
    by (auto simp: seal_ok org_env_def sample_host_def sample_codec_def)
  have f: "in_policy ?i = pol" "cwd ?i = ''/p''" "\<not> (argv ?i = [] \<or> hd (argv ?i) = [] \<or> nonce ?i = [])"
    "wall_time_ms (in_timeout ?i) = Ok 0"
    by (simp_all add: sample_input_def wall_time_ms_def)
  show ?thesis
    using s unfolding compile_effective_def Let_def f assms t p and_then_simps if_not_P [OF f(3)] map_seal_error_ok
    by (simp add: check_all_ok)
qed

lemma org_compiles:
  assumes "allow_write pol = [''/p''] \<and> allow_read pol = [] \<and> deny_write pol = [''/p/lib''] \<and> deny_read pol = [] \<and>
    deny_resolved pol = [\<lparr>deny_path = ''/p/lib'', deny_is_dir = True\<rparr>] \<and> limits pol = no_limits \<and> cgroup pol = None"
  shows "\<exists>c. compile_effective org_env (sample_input\<lparr>in_policy := pol, cwd := ''/p''\<rparr>) = Ok c"
proof -
  have "check_masks ''/p'' [''/p''] (fold (push_unique path_eq) (mandatory_masks org_env ''/p'') [''/p/lib'']) = Ok ()"
    "check_deny_write [''/p''] [''/p/lib''] = Ok ()"
    by code_simp+
  then show ?thesis using assms by (intro org_compiles_with) (simp_all add: effective_masks_def)
qed

section \<open>Properties\<close>

text \<open>
  Property C1 (the gate enforces the compiled policy). Let a resolved policy compile to a
  contract, on a host whose \<open>canonicalize\<close> keeps its documented contract. Every write the gate
  then allows denotes a place at or below the resolved form of some write target of the policy,
  outside the protected system roots (places below the null device apart), and at or below no
  mandatory mask, no resolved deny path and no \<open>deny_write\<close> rule; every read it allows is at or
  below no mask, deny path or \<open>deny_read\<close> rule.
\<close>

theorem gate_enforces_compiled_policy:
  fixes p :: path
  assumes "host_ok env" and "canonical (cwd inp)" and "rooted_input env inp"
    and "compile_effective env inp = Ok c"
  defines "t \<equiv> denotes (cwd inp) p" and "pol \<equiv> in_policy inp"
  defines "secrets \<equiv> set (mandatory_masks env (cwd inp)) \<union> set (map deny_path (deny_resolved pol))"
  shows "(is_allowed (authorize_action c (FsWrite p)) \<longrightarrow>
      (\<exists>a \<in> set (allow_write pol). \<exists>w. resolve_write env (cwd inp) a = Ok w \<and> prefix (names w) t) \<and>
      (protected_names t \<longrightarrow> prefix [''dev'', ''null''] t) \<and>
      (\<forall>m \<in> secrets \<union> set (deny_write pol). \<not> prefix (names m) t)) \<and>
    (is_allowed (authorize_action c (FsRead p)) \<longrightarrow>
      (\<forall>m \<in> secrets \<union> set (deny_read pol). \<not> prefix (names m) t))"
proof -
  note r = compiled_contract_rooted [OF assms(1-4)]
  obtain writes pids wall where
    w: "fold_result (push_resolved env (cwd inp)) (allow_write pol) [] = Ok writes" and
    s: "seal (codec env) (effective_contract env inp
       (fold (\<lambda>p. push_unique path_eq (resolve_read (cwd inp) p)) (allow_read pol) [])
       writes pids wall) = Ok c"
    using compile_effective_form [OF assms(4)] unfolding pol_def .
  note f = seal_fields [OF s] effective_contract_fields
  have d: "contract_deny_read c = deny_read pol" "contract_deny_write c = deny_write pol"
    using effective_contract_fields(11) [of env inp
        "fold (\<lambda>p. push_unique path_eq (resolve_read (cwd inp) p)) (allow_read pol) []"
        writes pids wall] f(1)
    by (auto simp: contract_deny_read_def contract_deny_write_def pol_def)
  have masks: "\<exists>m' \<in> set (mask_paths (filesystem c)). names m = names m'" if "m \<in> secrets" for m
    using compiled_masks [OF assms(4)] that unfolding secrets_def pol_def .
  have nt: "\<forall>a \<in> set (allow_write pol). \<not> has_traversal a"
    using compile_effective_ok [OF assms(4)] unfolding pol_def .
  have roots: "\<exists>a \<in> set (allow_write pol). resolve_write env (cwd inp) a = Ok v \<and> canonical v \<and>
      (is_forbidden_system_root v \<longrightarrow> path_starts_with v ''/dev/null'')" if "v \<in> set writes" for v
    using push_resolved_fold [OF w] nt that resolve_write_safe(1,2) [OF assms(1,2)] by blast
  have ws: "workspace_root (filesystem c) = cwd inp" "fs_allow_write (filesystem c) = writes"
    by (simp_all add: f)
  have wr: "\<exists>a \<in> set (allow_write pol). \<exists>w. resolve_write env (cwd inp) a = Ok w \<and> prefix (names w) t"
    "protected_names t \<longrightarrow> prefix [''dev'', ''null''] t"
    "\<forall>m \<in> set (mask_paths (filesystem c)) \<union> set (deny_write pol). \<not> prefix (names m) t"
    if "is_allowed (authorize_fs_write c p)"
  proof -
    from that obtain v where v: "v \<in> set writes" "prefix (names v) t"
      and m: "\<forall>m \<in> set (mask_paths (filesystem c)) \<union> set (deny_write pol). \<not> prefix (names m) t"
      using authorize_fs_write_iff [OF r, of p] unfolding ws d t_def by blast
    show "\<exists>a \<in> set (allow_write pol). \<exists>w. resolve_write env (cwd inp) a = Ok w \<and> prefix (names w) t"
      "protected_names t \<longrightarrow> prefix [''dev'', ''null''] t"
      using roots [OF v(1)] v(2) unprotected_below [of v t] by blast+
    show "\<forall>m \<in> set (mask_paths (filesystem c)) \<union> set (deny_write pol). \<not> prefix (names m) t" by (rule m)
  qed
  have rd: "\<forall>m \<in> set (mask_paths (filesystem c)) \<union> set (deny_read pol). \<not> prefix (names m) t"
    if "is_allowed (authorize_fs_read c p)"
    using that authorize_fs_read_iff [OF r, of p] unfolding ws d t_def by blast
  show ?thesis unfolding authorize_action.simps using wr rd masks by (metis Un_iff)
qed

theorem gate_enforces_compiled_policy_witness:
  "\<exists>c. compile_effective sample_host sample_input = Ok c \<and>
     \<not> is_allowed (authorize_action c (FsWrite ''.git/config'')) \<and>
     \<not> is_allowed (authorize_action c (FsRead ''out/../../home/u/.ssh/id_rsa''))"
proof -
  obtain c where c: "compile_effective sample_host sample_input = Ok c" using sample_compiles by blast
  have ws: "canonical (cwd sample_input)" by code_simp
  note g = gate_enforces_compiled_policy [OF sample_host_ok ws sample_rooted c]
  have m: "''/home/u/.ssh'' \<in> set (mandatory_masks sample_host (cwd sample_input))"
    "''/ws/.git/config'' \<in> set (mandatory_masks sample_host (cwd sample_input))"
    "prefix (names ''/ws/.git/config'') (denotes (cwd sample_input) ''.git/config'')"
    "prefix (names ''/home/u/.ssh'') (denotes (cwd sample_input) ''out/../../home/u/.ssh/id_rsa'')"
    by code_simp+
  have "\<not> is_allowed (authorize_action c (FsWrite ''.git/config''))"
    using g [of "''.git/config''"] m(2,3) by blast
  moreover have "\<not> is_allowed (authorize_action c (FsRead ''out/../../home/u/.ssh/id_rsa''))"
    using g [of "''out/../../home/u/.ssh/id_rsa''"] m(1,4) by blast
  ultimately show ?thesis using c by blast
qed

text \<open>
  Property C12 (the gate on the network of a compiled policy). Under a contract compiled from a
  resolved policy, a connection is allowed exactly when the host is not empty, is neither a
  metadata nor a loopback target, and the mode admits it: never when the network is off or in
  ask mode, in allowlist mode for the hosts the list covers on the policy's ports (any port
  when it has none), and in strict mode for a host some rule covers on a port of some rule or
  of the policy: the gate keeps the hosts and the ports of the rules apart, not their pairs.
\<close>

theorem compiled_network_is_policed:
  fixes domain :: string
  assumes "compile_effective env inp = Ok c"
  defines "host \<equiv> connect_host domain" and "ports \<equiv> set (net_connect_ports (in_policy inp))"
  shows "is_allowed (authorize_action c (NetConnect domain port)) \<longleftrightarrow>
    clean_domain domain \<noteq> [] \<and> \<not> is_cloud_metadata_target host \<and> \<not> is_loopback_target host \<and>
    (case in_net inp of
       NetOff \<Rightarrow> False
     | NetAsk \<Rightarrow> False
     | NetAllowlist domains \<Rightarrow>
         (\<exists>raw \<in> set domains. covers (normal_pattern raw) host) \<and> (ports = {} \<or> port \<in> ports)
     | NetStrict rules \<Rightarrow>
         (\<exists>r \<in> set rules. covers (normal_pattern (rule_domain r)) host) \<and>
         (port \<in> rule_port ` set rules \<union> ports))"
proof -
  have "(allowed_ports (network c) = []) = (set (allowed_ports (network c)) = {})" by simp
  then show ?thesis
    by (cases "in_net inp")
       (auto simp: authorize_net_connect_iff host_def ports_def compile_effective_net [OF assms(1)]
          allowlist_covers set_fold_insert simp del: set_empty set_empty2)
qed

theorem compiled_network_is_policed_witness:
  "\<exists>c. compile_effective sample_host strict_input = Ok c \<and>
     is_allowed (authorize_action c (NetConnect ''A.org:443'' 443)) \<and>
     is_allowed (authorize_action c (NetConnect ''a.org'' 22)) \<and>
     \<not> is_allowed (authorize_action c (NetConnect ''a.org'' 80))"
proof -
  obtain c where c: "compile_effective sample_host strict_input = Ok c" 
    using sample_compiles_net unfolding strict_input_def by blast
  have h: "connect_host ''A.org:443'' = ''a.org''" "connect_host ''a.org'' = ''a.org''"
    "clean_domain ''A.org:443'' \<noteq> []" "clean_domain ''a.org'' \<noteq> []"
    "\<not> ends_with ''a.org'' ''.localhost''" "\<not> starts_with ''a.org'' ''127.''"
    "normal_pattern ''a.org'' = ''a.org''" "strip_brackets ''a.org'' = ''a.org''"
    by code_simp+
  have n: "\<not> is_cloud_metadata_target ''a.org''" "\<not> is_loopback_target ''a.org''"
    by (simp_all add: is_cloud_metadata_target_def is_loopback_target_def h Let_def parse_defs)
  have "covers ''a.org'' ''a.org''" by (auto simp: covers_def)
  then show ?thesis
    using c compiled_network_is_policed [OF c, of "''A.org:443''" 443]
      compiled_network_is_policed [OF c, of "''a.org''" 22] compiled_network_is_policed [OF c, of "''a.org''" 80]
    by (auto simp: h n strict_input_def sample_input_def default_policy_def)
qed

text \<open>
  An entry that is a relative path without a pattern is passed on as it is written, and a mask
  that is relative matches nothing: the gate lets the file it names be read.
\<close>

definition relative_denial :: Policy where
  "relative_denial = default_policy\<lparr>allow_write := [''/p''], deny_resolved := [\<lparr>deny_path = ''notes'', deny_is_dir = False\<rparr>]\<rparr>"

lemma relative_denial_missed:
  "resolve_entry_with_agent org_host ''notes'' (loader_vars org_host ''/p'' ''/home/u'') None = [''notes'']"
  "\<exists>c. compile_effective org_env (sample_input\<lparr>in_policy := relative_denial, cwd := ''/p''\<rparr>) = Ok c \<and>
     is_allowed (authorize_action c (FsRead ''/p/notes''))"
proof -
  show "resolve_entry_with_agent org_host ''notes'' (loader_vars org_host ''/p'' ''/home/u'') None = [''notes'']"
    by code_simp
  let ?m = "[''notes'', ''/home/u/.ssh'', ''/home/u/.aws'', ''/home/u/.gnupg'', ''/p/.env'', ''/p/.git/config'']"
  have e: "fold (push_unique path_eq) (mandatory_masks org_env ''/p'') [''notes''] = ?m" by code_simp
  then have e: "effective_masks org_env ''/p'' relative_denial = ?m"
    by (simp add: effective_masks_def relative_denial_def)
  have d: "deny_write relative_denial = []" "deny_read relative_denial = []" "allow_write relative_denial = [''/p'']"
    "allow_read relative_denial = []" "limits relative_denial = no_limits" "cgroup relative_denial = None"
    by (simp_all add: relative_denial_def default_policy_def)
  have m1: "check_masks ''/p'' [''/p''] ?m = Ok ()" by code_simp
  have m2: "check_deny_write [''/p''] [] = Ok ()" by code_simp
  have m3: "first_under ''/p/notes'' ?m = None" by code_simp
  have m4: "resolve_and_check_traversal ''/p'' ''/p/notes'' = (''/p/notes'', False)" by code_simp
  have m5: "in_roots ''/p/notes'' [''/p'']" by code_simp
  obtain c where c: "compile_effective org_env (sample_input\<lparr>in_policy := relative_denial, cwd := ''/p''\<rparr>) = Ok c"
    using org_compiles_with [of relative_denial, OF d(3,4,5,6)] m1 m2 unfolding d(1) e by blast
  let ?i = "sample_input\<lparr>in_policy := relative_denial, cwd := ''/p''\<rparr>"
  obtain writes pids wall where s: "seal (codec org_env) (effective_contract org_env ?i
      (fold (\<lambda>p. push_unique path_eq (resolve_read (cwd ?i) p)) (allow_read (in_policy ?i)) []) writes pids wall) = Ok c"
    using compile_effective_form [OF c] .
  note f = seal_fields [OF s] effective_contract_fields
  have "mask_paths (filesystem c) = ?m" "workspace_root (filesystem c) = ''/p''"
    unfolding f by (simp_all add: e)
  moreover have "contract_deny_read c = []"
    using effective_contract_fields(11) [of org_env ?i
        "fold (\<lambda>p. push_unique path_eq (resolve_read (cwd ?i) p)) (allow_read (in_policy ?i)) []" writes pids wall] f(1)
    by (auto simp: contract_deny_read_def d)
  ultimately have "is_allowed (authorize_action c (FsRead ''/p/notes''))"
    using m3 m4 m5 by (simp add: authorize_fs_read_def Let_def first_under_def in_roots_def)
  with c show "\<exists>c. compile_effective org_env (sample_input\<lparr>in_policy := relative_denial, cwd := ''/p''\<rparr>) = Ok c \<and>
     is_allowed (authorize_action c (FsRead ''/p/notes''))" by blast
qed

text \<open>
  Property C2 (what a policy file denies is out of reach). End to end: let a load succeed and let
  the policy it yields compile. Take any policy file the loader consulted and any entry it
  denies, be it for writes, reads, both, as a glob, a socket or through a named preset, and any
  absolute path the entry stands for that exists and is not the agent's own root. Then the gate
  allows neither a write nor a read of a target that denotes that path or anything below it.
  Nothing is asked of the policy's other entries.
\<close>

theorem denied_file_is_out_of_reach:
  assumes "Loader.load fx host ld profile custom_path project home tier opts = Ok pol"
    and "prepare_agent fx home (lo_agent opts) host = Ok (agent, host')"
    and "consulted fx host ld custom_path project home opts f layer kind"
    and "d \<in> layer_denials layer" and "names_path host' (loader_vars host' project home) agent (denial_entries d) p"
    and "\<not> is_agent agent p" and "\<forall>q. path_eq q p \<longrightarrow> is_ok (lstat host' q)" and "has_root p"
    and "canonical (cwd inp)" and "in_policy inp = pol"
    and "compile_effective env inp = Ok c" and "prefix (names p) (denotes (cwd inp) t)"
  shows "\<not> is_allowed (authorize_action c (FsWrite t)) \<and> \<not> is_allowed (authorize_action c (FsRead t))"
proof -
  obtain e where e: "e \<in> set (deny_resolved pol)" "path_eq (deny_path e) p"
    using loaded_denied_path [OF assms(1-7)] by blast
  then have "deny_path e \<in> set (mandatory_masks env (cwd inp)) \<union> set (map deny_path (deny_resolved (in_policy inp)))"
    using assms(10) by simp
  moreover have "has_root (deny_path e)" using e(2) assms(8) by (auto simp: has_root_iff path_eq_def)
  ultimately show ?thesis
    using gate_hides_denied [OF assms(9,11)] path_eq_names [OF e(2)] assms(12) by simp
qed

theorem denied_file_is_out_of_reach_witness:
  "\<exists>pol c. Loader.load no_effects org_host new_loader ''default'' None ''/p'' ''/home/u'' TierFull default_load_options = Ok pol \<and>
     compile_effective org_env (sample_input\<lparr>in_policy := pol, cwd := ''/p''\<rparr>) = Ok c \<and>
     \<not> is_allowed (authorize_action c (FsWrite ''lib/../lib/x.rs''))"
proof -
  obtain pol where p: "Loader.load no_effects org_host new_loader ''default'' None ''/p'' ''/home/u'' TierFull default_load_options = Ok pol"
    and q: "allow_write pol = [''/p''] \<and> allow_read pol = [] \<and> deny_write pol = [''/p/lib''] \<and> deny_read pol = [] \<and>
    deny_resolved pol = [\<lparr>deny_path = ''/p/lib'', deny_is_dir = True\<rparr>] \<and> limits pol = no_limits \<and> cgroup pol = None"
    using org_loaded by (auto split: sum.splits)
  let ?i = "sample_input\<lparr>in_policy := pol, cwd := ''/p''\<rparr>"
  obtain c where c: "compile_effective org_env ?i = Ok c" using org_compiles [OF q] by blast
  have d: "DenyWrite ''$PROJECT/lib'' \<in> layer_denials org_layer"
    by (simp add: layer_denials_def org_layer_def filesystem_denials_def listed_def empty_layer_def no_filesystem_def)
  have n: "names_path org_host (loader_vars org_host ''/p'' ''/home/u'') None (denial_entries (DenyWrite ''$PROJECT/lib'')) ''/p/lib''"
    by code_simp
  have l: "\<not> is_agent None ''/p/lib''" "\<forall>q. path_eq q ''/p/lib'' \<longrightarrow> is_ok (lstat org_host q)"
    by (simp_all add: is_agent_def org_host_def)
  have r: "has_root ''/p/lib''" by code_simp
  have i: "canonical (cwd ?i)" "in_policy ?i = pol" by (simp_all, code_simp)
  have t: "prefix (names ''/p/lib'') (denotes (cwd ?i) ''lib/../lib/x.rs'')"
    by (simp, code_simp)
  from denied_file_is_out_of_reach [OF p org_prepared org_consulted d n l r i c t] p c show ?thesis by blast
qed

end
